(* ===== verification/Logos_Prelude.thy ===== *)
theory Logos_Prelude
  imports Main "HOL-Library.List_Lexorder" "HOL-Library.Char_ord" "HOL-Library.Word"
begin

text \<open>
  What the components share: the operations of Rust's \<open>str\<close> the sources call, on byte
  strings (a Rust string is its UTF-8 bytes, an Isabelle \<open>char\<close> is a byte); decimal
  rendering of unsigned integers; fallible state-passing steps with \<open>andthen\<close> for Rust's
  \<open>?\<close>; statement faults of a database; and the invariant-keeping calculus (\<open>keeps\<close>)
  with which the component theories prove their invariants.
\<close>

named_theorems step_defs \<open>the combinators of fallible steps, for unfolding\<close>
named_theorems keeps_intros \<open>introduction rules for steps that keep an invariant\<close>

section \<open>Strings\<close>

text \<open>\<open>str::strip_prefix\<close>, \<open>starts_with\<close>, \<open>ends_with\<close>.\<close>

fun strip_prefix :: "string \<Rightarrow> string \<Rightarrow> string option" where
  "strip_prefix [] s = Some s"
| "strip_prefix (p # ps) [] = None"
| "strip_prefix (p # ps) (c # s) = (if p = c then strip_prefix ps s else None)"

definition starts_with :: "string \<Rightarrow> string \<Rightarrow> bool" where
  "starts_with s p = (strip_prefix p s \<noteq> None)"

definition ends_with :: "string \<Rightarrow> string \<Rightarrow> bool" where
  "ends_with s p = starts_with (rev s) (rev p)"

lemma strip_prefix_Some_iff: "strip_prefix p s = Some r \<longleftrightarrow> s = p @ r"
  by (induction p s rule: strip_prefix.induct) auto

lemma strip_prefix_append [simp]: "strip_prefix p (p @ r) = Some r"
  by (simp add: strip_prefix_Some_iff)

lemma starts_with_iff: "starts_with s p \<longleftrightarrow> (\<exists>r. s = p @ r)"
  by (auto simp: starts_with_def strip_prefix_Some_iff)

lemma strip_prefix_None_iff: "strip_prefix p s = None \<longleftrightarrow> \<not> starts_with s p"
  by (simp add: starts_with_def)

lemma ends_with_iff: "ends_with s p \<longleftrightarrow> (\<exists>r. s = r @ p)"
proof
  assume "ends_with s p"
  then obtain r where "rev s = rev p @ r"
    by (auto simp: ends_with_def starts_with_iff)
  then have "s = rev r @ p"
    by (metis rev_append rev_rev_ident)
  then show "\<exists>r. s = r @ p" by blast
qed (auto simp: ends_with_def starts_with_iff)

lemma starts_with_append [simp]: "starts_with (p @ r) p"
  by (auto simp: starts_with_iff)

text \<open>\<open>str::split\<close> on one character, and \<open>join\<close>.\<close>

fun split_on :: "char \<Rightarrow> string \<Rightarrow> string list" where
  "split_on d [] = [[]]"
| "split_on d (c # s) =
     (if c = d then [] # split_on d s
      else (case split_on d s of [] \<Rightarrow> [[c]] | w # ws \<Rightarrow> (c # w) # ws))"

fun join :: "string \<Rightarrow> string list \<Rightarrow> string" where
  "join sep [] = []"
| "join sep [w] = w"
| "join sep (w # v # ws) = w @ sep @ join sep (v # ws)"

lemma split_on_ne [simp]: "split_on d s \<noteq> []"
  by (induction s) (auto split: list.splits)

lemma split_on_no_sep: "w \<in> set (split_on d s) \<Longrightarrow> d \<notin> set w"
  by (induction s arbitrary: w) (auto split: if_splits list.splits)

lemma split_on_word: "d \<notin> set w \<Longrightarrow> split_on d w = [w]"
  by (induction w) auto

lemma split_on_append: "split_on d (a @ d # b) = split_on d a @ split_on d b"
  by (induction a) (auto split: list.splits)

lemma split_on_word_append: "d \<notin> set w \<Longrightarrow> split_on d (w @ d # b) = w # split_on d b"
  by (simp add: split_on_append split_on_word)

lemma split_on_join:
  "\<forall>w \<in> set ws. d \<notin> set w \<Longrightarrow> ws \<noteq> [] \<Longrightarrow> split_on d (join [d] ws) = ws"
proof (induction "[d]" ws rule: join.induct)
  case (2 w)
  then show ?case by (simp add: split_on_word)
next
  case (3 w v ws)
  then show ?case by (simp add: split_on_word_append)
qed simp

lemma join_split_on: "join [d] (split_on d s) = s"
proof (induction s)
  case (Cons c s)
  then show ?case by (cases "split_on d s"; cases "tl (split_on d s)") auto
qed simp

lemma join_Cons: "ws \<noteq> [] \<Longrightarrow> join sep (w # ws) = w @ sep @ join sep ws"
  by (cases ws) auto

lemma join_append: "vs \<noteq> [] \<Longrightarrow> ws \<noteq> [] \<Longrightarrow> join sep (vs @ ws) = join sep vs @ sep @ join sep ws"
proof (induction vs)
  case (Cons v vs)
  then show ?case by (cases "vs = []") (auto simp: join_Cons)
qed simp

lemma set_join: "set (join sep ws) \<subseteq> set sep \<union> (\<Union>w \<in> set ws. set w)"
  by (induction sep ws rule: join.induct) auto

text \<open>\<open>str::find\<close>, \<open>str::contains\<close>, \<open>str::replace\<close> and \<open>trim_start_matches\<close> with a non-empty pattern.\<close>

fun find_sub :: "string \<Rightarrow> string \<Rightarrow> nat option" where
  "find_sub p [] = (if p = [] then Some 0 else None)"
| "find_sub p (c # s) = (if starts_with (c # s) p then Some 0 else map_option Suc (find_sub p s))"

definition contains_sub :: "string \<Rightarrow> string \<Rightarrow> bool" where
  "contains_sub s p = (find_sub p s \<noteq> None)"

lemma find_sub_Some:
  "find_sub p s = Some i \<Longrightarrow> \<exists>a b. s = a @ p @ b \<and> length a = i"
proof (induction s arbitrary: i)
  case (Cons c s)
  show ?case
  proof (cases "starts_with (c # s) p")
    case True
    with Cons.prems show ?thesis by (auto simp: starts_with_iff)
  next
    case False
    with Cons.prems obtain j where "find_sub p s = Some j" "i = Suc j" by auto
    with Cons.IH obtain a b where "s = a @ p @ b" "length a = j" by blast
    with \<open>i = Suc j\<close> have "c # s = (c # a) @ p @ b \<and> length (c # a) = i" by simp
    then show ?thesis by blast
  qed
qed (auto split: if_splits)

lemma find_sub_None: "find_sub p s = None \<Longrightarrow> s \<noteq> a @ p @ b"
proof (induction s arbitrary: a)
  case (Cons c s)
  then have *: "\<not> starts_with (c # s) p" "find_sub p s = None" by (auto split: if_splits)
  show ?case
  proof (cases a)
    case Nil
    with * show ?thesis by (auto simp: starts_with_iff)
  next
    case (Cons x a')
    with * Cons.IH show ?thesis by auto
  qed
qed (auto split: if_splits)

lemma contains_sub_iff: "contains_sub s p \<longleftrightarrow> (\<exists>a b. s = a @ p @ b)"
  unfolding contains_sub_def using find_sub_Some find_sub_None by blast

function replace_all :: "string \<Rightarrow> string \<Rightarrow> string \<Rightarrow> string" where
  "replace_all p r s =
     (if p = [] \<or> s = [] then s
      else (case strip_prefix p s of
              Some rest \<Rightarrow> r @ replace_all p r rest
            | None \<Rightarrow> hd s # replace_all p r (tl s)))"
  by pat_completeness auto
termination
  by (relation "measure (\<lambda>(p, r, s). length s)") (auto simp: strip_prefix_Some_iff)

declare replace_all.simps [simp del]

lemma replace_all_Nil [simp]: "replace_all p r [] = []"
  by (simp add: replace_all.simps)

lemma replace_all_hit: "p \<noteq> [] \<Longrightarrow> replace_all p r (p @ s) = r @ replace_all p r s"
  by (subst replace_all.simps) (auto)

lemma replace_all_miss:
  "\<not> starts_with (c # s) p \<Longrightarrow> replace_all p r (c # s) = c # replace_all p r s"
  by (subst replace_all.simps) (auto simp: strip_prefix_None_iff [symmetric] split: option.splits)

function trim_start_matches :: "string \<Rightarrow> string \<Rightarrow> string" where
  "trim_start_matches p s =
     (if p = [] then s
      else (case strip_prefix p s of Some rest \<Rightarrow> trim_start_matches p rest | None \<Rightarrow> s))"
  by pat_completeness auto
termination
  by (relation "measure (\<lambda>(p, s). length s)") (auto simp: strip_prefix_Some_iff)

declare trim_start_matches.simps [simp del]

lemma trim_start_matches_done:
  "p \<noteq> [] \<Longrightarrow> \<not> starts_with (trim_start_matches p s) p"
proof (induction p s rule: trim_start_matches.induct)
  case (1 p s)
  then show ?case
    by (subst trim_start_matches.simps)
       (auto simp: strip_prefix_None_iff split: option.splits)
qed

lemma trim_start_matches_suffix: "\<exists>a. s = a @ trim_start_matches p s"
proof (induction p s rule: trim_start_matches.induct)
  case (1 p s)
  show ?case
  proof (cases "p = [] \<or> strip_prefix p s = None")
    case True
    then show ?thesis by (auto simp: trim_start_matches.simps [of p s])
  next
    case False
    then obtain rest where r: "p \<noteq> []" "strip_prefix p s = Some rest" by auto
    with 1 obtain a where "rest = a @ trim_start_matches p rest" by blast
    moreover from r have "trim_start_matches p s = trim_start_matches p rest" "s = p @ rest"
      by (simp_all add: trim_start_matches.simps [of p s]) (simp add: strip_prefix_Some_iff)
    ultimately show ?thesis by (metis append.assoc)
  qed
qed

text \<open>\<open>slice::get\<close>.\<close>

definition get_at :: "'a list \<Rightarrow> nat \<Rightarrow> 'a option" where
  "get_at xs i = (if i < length xs then Some (xs ! i) else None)"

lemma get_at_simps [simp]:
  "get_at [] i = None" "get_at (x # xs) 0 = Some x" "get_at (x # xs) (Suc i) = get_at xs i"
  "get_at (x # xs) (numeral n) = get_at xs (pred_numeral n)" "get_at (x # xs) 1 = get_at xs 0"
  by (simp_all add: get_at_def numeral_eq_Suc)

text \<open>\<open>str::trim\<close>: the encodings of the white-space characters are taken off both ends.\<close>

definition white :: "string list" where
  "white = [[CHR 0x20], [CHR 0x09], [CHR 0x0A], [CHR 0x0B], [CHR 0x0C], [CHR 0x0D],
     [CHR 0xC2, CHR 0x85], [CHR 0xC2, CHR 0xA0], [CHR 0xE1, CHR 0x9A, CHR 0x80]]
     @ map (\<lambda>n. [CHR 0xE2, CHR 0x80, char_of (n :: nat)]) ([0x80 ..< 0x8B] @ [0xA8, 0xA9, 0xAF])
     @ [[CHR 0xE2, CHR 0x81, CHR 0x9F], [CHR 0xE3, CHR 0x80, CHR 0x80]]"

fun strip_any :: "string list \<Rightarrow> string \<Rightarrow> string option" where
  "strip_any [] s = None"
| "strip_any (w # ws) s = (case strip_prefix w s of Some r \<Rightarrow> Some r | None \<Rightarrow> strip_any ws s)"

lemma strip_any_shorter: "strip_any ws s = Some r \<Longrightarrow> [] \<notin> set ws \<Longrightarrow> length r < length s"
  by (induction ws) (auto simp: strip_prefix_Some_iff split: option.splits)

lemma white_ne: "[] \<notin> set white" "[] \<notin> set (map rev white)"
  by (auto simp: white_def)

function trim_white :: "bool \<Rightarrow> string \<Rightarrow> string" where
  "trim_white backwards s =
     (case strip_any (if backwards then map rev white else white) s of
        Some r \<Rightarrow> trim_white backwards r | None \<Rightarrow> s)"
  by pat_completeness auto
termination
  by (relation "measure (\<lambda>(b, s). length s)") (auto intro: strip_any_shorter [OF _ white_ne(1)] strip_any_shorter [OF _ white_ne(2)] split: if_splits)

declare trim_white.simps [simp del]

definition trim :: "string \<Rightarrow> string" where
  "trim s = rev (trim_white True (rev (trim_white False s)))"

text \<open>\<open>str::lines\<close>: split at line feeds, a carriage return before one dropped, no empty last line.\<close>

definition drop_cr :: "string \<Rightarrow> string" where
  "drop_cr l = (if ends_with l [CHR 0x0D] then butlast l else l)"

definition str_lines :: "string \<Rightarrow> string list" where
  "str_lines s =
     (let ls = split_on (CHR 0x0A) s
      in map drop_cr (butlast ls) @ (if last ls = [] then [] else [last ls]))"

section \<open>Decimal rendering\<close>

definition digit_char :: "nat \<Rightarrow> char" where
  "digit_char n = char_of (48 + n)"

fun nat_str :: "nat \<Rightarrow> string" where
  "nat_str n = (if n < 10 then [digit_char n] else nat_str (n div 10) @ [digit_char (n mod 10)])"

declare nat_str.simps [simp del]

definition int_str :: "int \<Rightarrow> string" where
  "int_str i = (if i < 0 then CHR ''-'' # nat_str (nat (- i)) else nat_str (nat i))"

definition digits_value :: "string \<Rightarrow> nat" where
  "digits_value s = foldl (\<lambda>v c. 10 * v + (of_char c - 48)) 0 s"

lemma digit_value: "n < 10 \<Longrightarrow> of_char (digit_char n) - (48::nat) = n"
  by (simp add: digit_char_def)

lemma digits_value_nat_str: "digits_value (nat_str n) = n"
proof (induction n rule: nat_str.induct)
  case (1 n)
  show ?case
  proof (cases "n < 10")
    case True
    then show ?thesis
      by (simp add: nat_str.simps [of n] digits_value_def digit_value)
  next
    case False
    with 1 have "foldl (\<lambda>v c. 10 * v + (of_char c - 48)) 0 (nat_str (n div 10)) = n div 10"
      by (simp add: digits_value_def)
    with False show ?thesis
      by (simp add: nat_str.simps [of n] digits_value_def digit_value)
  qed
qed

lemma nat_str_inj [simp]: "nat_str m = nat_str n \<longleftrightarrow> m = n"
  by (metis digits_value_nat_str)

lemma nat_str_ne [simp]: "nat_str n \<noteq> []"
  by (subst nat_str.simps) simp

text \<open>\<open>str::parse\<close> to a signed integer of \<open>b + 1\<close> bits.\<close>

definition is_digit :: "char \<Rightarrow> bool" where
  "is_digit c \<longleftrightarrow> CHR ''0'' \<le> c \<and> c \<le> CHR ''9''"

definition parse_int :: "nat \<Rightarrow> string \<Rightarrow> int option" where
  "parse_int b s =
     (let (neg, ds) = (case s of
          CHR ''-'' # t \<Rightarrow> (True, t) | CHR ''+'' # t \<Rightarrow> (False, t) | _ \<Rightarrow> (False, s));
          n = (if neg then - int (digits_value ds) else int (digits_value ds))
      in if ds \<noteq> [] \<and> list_all is_digit ds \<and> - (2 ^ b) \<le> n \<and> n < 2 ^ b then Some n else None)"

lemma find_append: "find P (xs @ ys) = (case find P xs of None \<Rightarrow> find P ys | Some x \<Rightarrow> Some x)"
  by (induction xs) auto

lemma find_filter_conj: "find P (filter Q xs) = find (\<lambda>x. Q x \<and> P x) xs"
  by (induction xs) auto

section \<open>Positions in a string\<close>

text \<open>
  \<open>Ord::clamp\<close>; \<open>str::rfind\<close>; slices; and character boundaries: a byte of the form
  \<open>10xxxxxx\<close> continues a character.
\<close>

definition clamp :: "int \<Rightarrow> int \<Rightarrow> int \<Rightarrow> int" where
  "clamp lo hi x = (if x < lo then lo else if x > hi then hi else x)"

definition rfind_sub :: "string \<Rightarrow> string \<Rightarrow> nat option" where
  "rfind_sub p s = map_option (\<lambda>j. length s - j - length p) (find_sub (rev p) (rev s))"

definition str_slice :: "string \<Rightarrow> nat \<Rightarrow> nat \<Rightarrow> string" where
  "str_slice s i j = take (j - i) (drop i s)"

definition continuation :: "char \<Rightarrow> bool" where
  "continuation c \<longleftrightarrow> (of_char c :: nat) div 64 = 2"

definition is_char_boundary :: "string \<Rightarrow> nat \<Rightarrow> bool" where
  "is_char_boundary s i \<longleftrightarrow> i = 0 \<or> i = length s \<or> i < length s \<and> \<not> continuation (s ! i)"

lemma rfind_sub_Some:
  assumes "rfind_sub p s = Some i"
  shows "\<exists>a b. s = a @ p @ b \<and> length a = i"
proof -
  from assms obtain j where j: "find_sub (rev p) (rev s) = Some j" "i = length s - j - length p"
    by (auto simp: rfind_sub_def)
  from find_sub_Some [OF j(1)] obtain a b where "rev s = a @ rev p @ b" "length a = j" by blast
  then have "s = rev b @ p @ rev a" by (metis append.assoc rev_append rev_rev_ident)
  with j(2) \<open>length a = j\<close> show ?thesis by (intro exI [of _ "rev b"] exI [of _ "rev a"]) simp
qed

lemma find_sub_less: "find_sub p s = Some i \<Longrightarrow> i + length p \<le> length s"
  by (auto dest!: find_sub_Some)

lemma find_char: "find_sub [c] s = Some i \<Longrightarrow> c \<notin> set (take i s)"
proof (induction s arbitrary: i)
  case (Cons x s)
  then show ?case by (auto simp: starts_with_iff split: if_splits)
qed simp

section \<open>Fallible state-passing steps\<close>

text \<open>
  A method that may fail and may change the state returns the new state beside its
  result; \<open>Inl\<close> is Rust's \<open>Err\<close>. \<open>andthen\<close> is the operator \<open>?\<close>: an error
  ends the step with the state reached so far (there is no rollback in the sources).
  \<open>attempt\<close> hands the result over, errors included (\<open>let _ =\<close>, \<open>if let Err\<close>, \<open>match\<close>).
\<close>

type_synonym ('s, 'e, 'a) step = "'s \<Rightarrow> 's \<times> ('e + 'a)"

definition ret :: "'a \<Rightarrow> ('s, 'e, 'a) step" where
  "ret a s = (s, Inr a)"

definition fail :: "'e \<Rightarrow> ('s, 'e, 'a) step" where
  "fail e s = (s, Inl e)"

definition andthen :: "('s, 'e, 'a) step \<Rightarrow> ('a \<Rightarrow> ('s, 'e, 'b) step) \<Rightarrow> ('s, 'e, 'b) step" where
  "andthen m k s = (case m s of (s', Inl e) \<Rightarrow> (s', Inl e) | (s', Inr a) \<Rightarrow> k a s')"

definition attempt :: "('s, 'e, 'a) step \<Rightarrow> ('e + 'a \<Rightarrow> ('s, 'f, 'b) step) \<Rightarrow> ('s, 'f, 'b) step" where
  "attempt m k s = (case m s of (s', r) \<Rightarrow> k r s')"

definition query :: "('s \<Rightarrow> 'a) \<Rightarrow> ('s, 'e, 'a) step" where
  "query f s = (s, Inr (f s))"

definition modify :: "('s \<Rightarrow> 's) \<Rightarrow> ('s, 'e, unit) step" where
  "modify f s = (f s, Inr ())"

definition lift_result :: "'e + 'a \<Rightarrow> ('s, 'e, 'a) step" where
  "lift_result r s = (s, r)"

declare ret_def [step_defs] fail_def [step_defs] andthen_def [step_defs] attempt_def [step_defs]
  query_def [step_defs] modify_def [step_defs] lift_result_def [step_defs]

lemma andthen_lift_Inr: "andthen (lift_result (Inr a)) k = k a"
  by (simp add: step_defs fun_eq_iff)

lemma andthen_InrE:
  assumes "andthen m k s = (s', Inr b)"
  obtains s1 a where "m s = (s1, Inr a)" "k a s1 = (s', Inr b)"
  using assms by (auto simp: andthen_def split: prod.splits sum.splits)

lemma attempt_E:
  assumes "attempt m k s = (s', r)"
  obtains s1 a where "m s = (s1, a)" "k a s1 = (s', r)"
  using assms by (auto simp: attempt_def split: prod.splits)

lemma andthen_InlE:
  assumes "andthen m k s = (s', Inl e)"
  obtains "m s = (s', Inl e)" | s1 a where "m s = (s1, Inr a)" "k a s1 = (s', Inl e)"
  using assms by (auto simp: andthen_def split: prod.splits sum.splits)

definition map_err :: "('e \<Rightarrow> 'f) \<Rightarrow> 'e + 'a \<Rightarrow> 'f + 'a" where
  "map_err f r = (case r of Inl e \<Rightarrow> Inl (f e) | Inr a \<Rightarrow> Inr a)"

definition unwrap_or :: "'e + 'a \<Rightarrow> 'a \<Rightarrow> 'a" where
  "unwrap_or r d = (case r of Inl _ \<Rightarrow> d | Inr a \<Rightarrow> a)"

definition opt_or :: "'a option \<Rightarrow> 'a \<Rightarrow> 'a" where
  "opt_or r d = (case r of None \<Rightarrow> d | Some a \<Rightarrow> a)"

definition ok_or :: "'a option \<Rightarrow> 'e \<Rightarrow> 'e + 'a" where
  "ok_or r e = (case r of None \<Rightarrow> Inl e | Some a \<Rightarrow> Inr a)"

lemma map_err_simps [simp]: "map_err f (Inl e) = Inl (f e)" "map_err f (Inr a) = Inr a"
  by (simp_all add: map_err_def)

lemma unwrap_or_simps [simp]: "unwrap_or (Inl e) d = d" "unwrap_or (Inr a) d = a"
  by (simp_all add: unwrap_or_def)

lemma opt_or_simps [simp]: "opt_or None d = d" "opt_or (Some a) d = a"
  by (simp_all add: opt_or_def)

lemma ok_or_simps [simp]: "ok_or None e = Inl e" "ok_or (Some a) e = Inr a"
  by (simp_all add: ok_or_def)

lemma map_err_Inr_iff [simp]: "map_err f r = Inr a \<longleftrightarrow> r = Inr a"
  by (cases r) auto

lemma ok_or_Inr_iff [simp]: "ok_or r e = Inr a \<longleftrightarrow> r = Some a"
  by (cases r) auto

subsection \<open>Steps that keep an invariant\<close>

definition keeps :: "('s \<Rightarrow> bool) \<Rightarrow> ('s, 'e, 'a) step \<Rightarrow> bool" where
  "keeps I m \<longleftrightarrow> (\<forall>s. I s \<longrightarrow> I (fst (m s)))"

lemma keepsI: "(\<And>s. I s \<Longrightarrow> I (fst (m s))) \<Longrightarrow> keeps I m"
  by (simp add: keeps_def)

lemma keepsD: "keeps I m \<Longrightarrow> I s \<Longrightarrow> I (fst (m s))"
  by (simp add: keeps_def)

lemma keepsD': "keeps I m \<Longrightarrow> I s \<Longrightarrow> m s = (s', r) \<Longrightarrow> I s'"
  by (drule (1) keepsD) simp

lemma keeps_ret [keeps_intros, simp]: "keeps I (ret a)"
  and keeps_fail [keeps_intros, simp]: "keeps I (fail e)"
  and keeps_query [keeps_intros, simp]: "keeps I (query f)"
  and keeps_lift_result [keeps_intros, simp]: "keeps I (lift_result r)"
  by (simp_all add: keeps_def step_defs)

lemma keeps_modify: "(\<And>s. I s \<Longrightarrow> I (f s)) \<Longrightarrow> keeps I (modify f)"
  by (simp add: keeps_def step_defs)

lemma keeps_andthen [keeps_intros]:
  "keeps I m \<Longrightarrow> (\<And>a. keeps I (k a)) \<Longrightarrow> keeps I (andthen m k)"
  by (force simp: keeps_def andthen_def split: prod.splits sum.splits)

lemma keeps_attempt [keeps_intros]:
  "keeps I m \<Longrightarrow> (\<And>r. keeps I (k r)) \<Longrightarrow> keeps I (attempt m k)"
  by (force simp: keeps_def attempt_def split: prod.splits)

lemma keeps_if [keeps_intros]:
  "(b \<Longrightarrow> keeps I m) \<Longrightarrow> (\<not> b \<Longrightarrow> keeps I n) \<Longrightarrow> keeps I (if b then m else n)"
  by simp

lemma keeps_case_option [keeps_intros]:
  "(\<And>a. keeps I (f a)) \<Longrightarrow> keeps I g \<Longrightarrow> keeps I (case x of None \<Rightarrow> g | Some a \<Rightarrow> f a)"
  by (cases x) auto

lemma keeps_case_sum [keeps_intros]:
  "(\<And>e. keeps I (f e)) \<Longrightarrow> (\<And>a. keeps I (g a)) \<Longrightarrow>
   keeps I (case x of Inl e \<Rightarrow> f e | Inr a \<Rightarrow> g a)"
  by (cases x) auto

lemma keeps_case_prod [keeps_intros]:
  "(\<And>a b. keeps I (f a b)) \<Longrightarrow> keeps I (case x of (a, b) \<Rightarrow> f a b)"
  by (cases x) auto

lemma keeps_conj: "keeps I m \<Longrightarrow> keeps J m \<Longrightarrow> keeps (\<lambda>s. I s \<and> J s) m"
  by (simp add: keeps_def)

lemma keeps_read_state: "(\<And>s. keeps I (k s)) \<Longrightarrow> keeps I (\<lambda>s. k s s)"
  by (simp add: keeps_def)

section \<open>Statement faults\<close>

text \<open>
  A database statement may fail for reasons outside the program (I/O, locking). Each
  operation takes a fault assignment: the message the statement at a call site fails with,
  if any. Call sites are paths of labels, so two executions of one statement inside an
  operation are told apart by the site the caller adds (\<open>at\<close>).
\<close>

type_synonym faults = "string list \<Rightarrow> string option"

definition no_faults :: faults where
  "no_faults p = None"

definition at :: "string \<Rightarrow> faults \<Rightarrow> faults" where
  "at site flt = (\<lambda>p. flt (site # p))"

lemma at_no_faults [simp]: "at site no_faults = no_faults"
  by (simp add: at_def no_faults_def fun_eq_iff)

definition stmt :: "faults \<Rightarrow> string \<Rightarrow> (string \<Rightarrow> 'e) \<Rightarrow> ('s, 'e, 'a) step \<Rightarrow> ('s, 'e, 'a) step" where
  "stmt flt label err m = (case flt [label] of Some msg \<Rightarrow> fail (err msg) | None \<Rightarrow> m)"

lemma stmt_no_faults [simp]: "stmt no_faults label err m = m"
  by (simp add: stmt_def no_faults_def)

lemma keeps_stmt [keeps_intros]: "keeps I m \<Longrightarrow> keeps I (stmt flt label err m)"
  by (simp add: stmt_def split: option.splits)

section \<open>Hash maps\<close>

text \<open>\<open>HashMap::retain\<close> on a map.\<close>

definition map_retain :: "('k \<Rightarrow> 'v \<Rightarrow> bool) \<Rightarrow> ('k \<rightharpoonup> 'v) \<Rightarrow> ('k \<rightharpoonup> 'v)" where
  "map_retain P m = (\<lambda>k. case m k of None \<Rightarrow> None | Some v \<Rightarrow> if P k v then Some v else None)"

lemma map_retain_Some [simp]: "map_retain P m k = Some v \<longleftrightarrow> m k = Some v \<and> P k v"
  by (auto simp: map_retain_def split: option.splits)

lemma map_retain_None: "map_retain P m k = None \<longleftrightarrow> (\<forall>v. m k = Some v \<longrightarrow> \<not> P k v)"
  by (auto simp: map_retain_def split: option.splits)

lemma dom_map_retain: "dom (map_retain P m) = {k. \<exists>v. m k = Some v \<and> P k v}"
  by (auto simp: dom_def)

text \<open>
  The order in which a \<open>HashMap\<close> iterates is unspecified. Where a result depends on it, the
  definition takes an enumeration of sets of keys; what it yields beyond the map's keys is
  dropped, and \<open>enumerates\<close> states that it lists every finite set without repetition.
\<close>

definition enumerates :: "('k set \<Rightarrow> 'k list) \<Rightarrow> bool" where
  "enumerates ord \<longleftrightarrow> (\<forall>A. finite A \<longrightarrow> set (ord A) = A \<and> distinct (ord A))"

definition map_keys :: "('k set \<Rightarrow> 'k list) \<Rightarrow> ('k \<rightharpoonup> 'v) \<Rightarrow> 'k list" where
  "map_keys ord m = filter (\<lambda>k. k \<in> dom m) (ord (dom m))"

definition map_values :: "('k set \<Rightarrow> 'k list) \<Rightarrow> ('k \<rightharpoonup> 'v) \<Rightarrow> 'v list" where
  "map_values ord m = map (\<lambda>k. the (m k)) (map_keys ord m)"

lemma map_keys_dom: "k \<in> set (map_keys ord m) \<Longrightarrow> k \<in> dom m"
  by (simp add: map_keys_def)

lemma set_map_keys: "enumerates ord \<Longrightarrow> finite (dom m) \<Longrightarrow> set (map_keys ord m) = dom m"
  by (auto simp: map_keys_def enumerates_def)

lemma distinct_map_keys: "enumerates ord \<Longrightarrow> finite (dom m) \<Longrightarrow> distinct (map_keys ord m)"
  by (auto simp: map_keys_def enumerates_def)

lemma map_values_ran: "v \<in> set (map_values ord m) \<Longrightarrow> \<exists>k. m k = Some v"
  by (fastforce simp: map_values_def dest: map_keys_dom)

lemma set_map_values: "enumerates ord \<Longrightarrow> finite (dom m) \<Longrightarrow> set (map_values ord m) = ran m"
  by (force simp: map_values_def set_map_keys ran_def image_iff)

lemma enumerates_sorted_list: "enumerates (sorted_list_of_set :: ('k :: linorder) set \<Rightarrow> 'k list)"
  by (simp add: enumerates_def)

section \<open>Machines\<close>

text \<open>
  A component whose operations are the events of a step function. What every event keeps,
  every run keeps; the event lists are all the interleavings of the operations.
\<close>

locale machine =
  fixes exec :: "'s \<Rightarrow> 'e \<Rightarrow> 's" and I :: "'s \<Rightarrow> bool"
  assumes step_inv: "I s \<Longrightarrow> I (exec s e)"
begin

lemma run_inv: "I s \<Longrightarrow> I (foldl exec s es)"
  by (induction es arbitrary: s) (auto intro: step_inv)

end

text \<open>
  An event log beside the state: a relation between the log and the state that holds
  at the start and is kept when an event is appended holds for every run.
\<close>

locale logged_machine =
  fixes exec :: "'s \<Rightarrow> 'e \<Rightarrow> 's" and init :: 's and R :: "'e list \<Rightarrow> 's \<Rightarrow> bool"
  assumes init_rel: "R [] init"
    and step_rel: "R es (foldl exec init es) \<Longrightarrow> R (es @ [e]) (exec (foldl exec init es) e)"
begin

lemma run_rel: "R es (foldl exec init es)"
  by (induction es rule: rev_induct) (auto intro: init_rel step_rel)

end

section \<open>Lenses\<close>

text \<open>
  A component's state as a part of the kernel's: \<open>zoom\<close> runs a step of the component on it.
\<close>

record ('s, 'c) lens =
  lget :: "'s \<Rightarrow> 'c"
  lput :: "'c \<Rightarrow> 's \<Rightarrow> 's"

definition lens_ok :: "('s, 'c) lens \<Rightarrow> bool" where
  "lens_ok L \<longleftrightarrow> (\<forall>c s. lget L (lput L c s) = c) \<and> (\<forall>s. lput L (lget L s) s = s) \<and>
     (\<forall>c d s. lput L c (lput L d s) = lput L c s)"

definition zoom :: "('s, 'c) lens \<Rightarrow> ('c, 'e, 'a) step \<Rightarrow> ('s, 'e, 'a) step" where
  "zoom L m s = (case m (lget L s) of (c, r) \<Rightarrow> (lput L c s, r))"

lemma lens_okD:
  assumes "lens_ok L"
  shows "lget L (lput L c s) = c" "lput L (lget L s) s = s" "lput L c (lput L d s) = lput L c s"
  using assms by (auto simp: lens_ok_def)

lemma zoom_eq: "m (lget L s) = (c, r) \<Longrightarrow> zoom L m s = (lput L c s, r)"
  by (simp add: zoom_def)

lemma zoom_still: "lens_ok L \<Longrightarrow> m (lget L k) = (lget L k, r) \<Longrightarrow> zoom L m k = (k, r)"
  by (simp add: zoom_def lens_ok_def)

lemma keeps_zoom:
  assumes "keeps I m" and "\<And>s. J s \<Longrightarrow> I (lget L s)" and "\<And>c s. J s \<Longrightarrow> I c \<Longrightarrow> J (lput L c s)"
  shows "keeps J (zoom L m)"
proof (rule keepsI)
  fix s assume "J s"
  with assms(2) have "I (lget L s)" by blast
  with assms(1) have "I (fst (m (lget L s)))" by (rule keepsD)
  with assms(3) [OF \<open>J s\<close>] show "J (fst (zoom L m s))"
    by (cases "m (lget L s)") (simp add: zoom_def)
qed

section \<open>Registers\<close>

text \<open>
  A store of texts written by key. \<open>put_all\<close> runs a list of writes, each with its own faults,
  and returns them with their outcomes. The contract \<open>registers\<close> says what a write does to its
  own key's cell, \<open>eff\<close>, which depends on its outcome (a write that failed may have
  done a part of its work), and that it leaves the other cells alone; \<open>key_store\<close> is the case of
  a plain overwrite, which also creates the cell, and whose failure may leave a torn text.
\<close>

definition is_ok :: "'e + 'a \<Rightarrow> bool" where
  "is_ok r = (case r of Inl _ \<Rightarrow> False | Inr _ \<Rightarrow> True)"

lemma is_ok_simps [simp]: "\<not> is_ok (Inl e)" "is_ok (Inr a)"
  by (simp_all add: is_ok_def)

lemma is_ok_unit: "is_ok r \<longleftrightarrow> r = Inr ()"
  by (cases r) auto

fun put_all ::
  "('f \<Rightarrow> 'k \<Rightarrow> 'v \<Rightarrow> ('s, 'e, unit) step) \<Rightarrow> ('f \<times> 'k \<times> 'v) list \<Rightarrow> 's \<Rightarrow> 's \<times> ('f \<times> 'k \<times> 'v \<times> bool) list" where
  "put_all put [] s = (s, [])"
| "put_all put ((f, k, v) # ws) s =
     (let (s', r) = put f k v s; (s'', outs) = put_all put ws s' in (s'', (f, k, v, is_ok r) # outs))"

lemma put_all_Cons:
  assumes "put_all put ((f, k, v) # ws) s = (s', outs)"
  obtains s1 r outs' where "put f k v s = (s1, r)" "put_all put ws s1 = (s', outs')"
    "outs = (f, k, v, is_ok r) # outs'"
  using assms by (auto split: prod.splits)

lemma put_all_split:
  "put_all put ws s = (s', os1 @ (f, k, v, b) # os2) \<Longrightarrow>
   \<exists>s1 s2 r ws2. put f k v s1 = (s2, r) \<and> b = is_ok r \<and> put_all put ws2 s2 = (s', os2) \<and>
     set ws2 \<subseteq> set ws \<and> (f, k, v) \<in> set ws"
proof (induction ws arbitrary: s os1)
  case (Cons w ws)
  obtain g k' x where w: "w = (g, k', x)" by (cases w)
  from Cons.prems [unfolded w] obtain s1 r outs' where p: "put g k' x s = (s1, r)"
    and a: "put_all put ws s1 = (s', outs')" and o: "os1 @ (f, k, v, b) # os2 = (g, k', x, is_ok r) # outs'"
    by (rule put_all_Cons)
  show ?case
  proof (cases os1)
    case Nil
    with o p a w show ?thesis by auto
  next
    case (Cons y os1')
    with o a have "put_all put ws s1 = (s', os1' @ (f, k, v, b) # os2)" by simp
    from Cons.IH [OF this] show ?thesis
      by (metis (no_types) list.set_intros(2) set_subset_Cons subset_trans)
  qed
qed simp

lemma put_all_outs: "put_all put ws s = (s', outs) \<Longrightarrow> (f, k, v, b) \<in> set outs \<Longrightarrow> (f, k, v) \<in> set ws"
  by (metis put_all_split split_list)

text \<open>One value reached from another along a list of steps.\<close>

fun chain :: "('a \<Rightarrow> 'v \<Rightarrow> 'v \<Rightarrow> bool) \<Rightarrow> 'a list \<Rightarrow> 'v \<Rightarrow> 'v \<Rightarrow> bool" where
  "chain R [] v v' \<longleftrightarrow> v = v'"
| "chain R (x # xs) v v' \<longleftrightarrow> (\<exists>u. R x v u \<and> chain R xs u v')"

locale registers =
  fixes put :: "'f \<Rightarrow> 'k \<Rightarrow> 'v \<Rightarrow> ('s, 'e, unit) step"
    and good :: "'k \<Rightarrow> bool" and cell :: "'k \<Rightarrow> 'c"
    and eff :: "'c \<Rightarrow> 'f \<times> 'v \<times> bool \<Rightarrow> 'v \<Rightarrow> 'v \<Rightarrow> bool" and holds :: "'c \<Rightarrow> 's \<Rightarrow> 'v \<Rightarrow> bool"
  assumes put_same: "good k \<Longrightarrow> holds (cell k) s v \<Longrightarrow> put f k w s = (s', r) \<Longrightarrow>
      \<exists>v'. eff (cell k) (f, w, is_ok r) v v' \<and> holds (cell k) s' v'"
    and put_other: "good k \<Longrightarrow> good k' \<Longrightarrow> holds (cell k) s v \<Longrightarrow> put f k' w s = (s', r) \<Longrightarrow>
      cell k \<noteq> cell k' \<Longrightarrow> holds (cell k) s' v"
begin

lemma put_all_holds:
  "good k \<Longrightarrow> holds (cell k) s v \<Longrightarrow> \<forall>(f, k', w) \<in> set ws. good k' \<Longrightarrow> put_all put ws s = (s', outs) \<Longrightarrow>
   \<exists>v'. chain (eff (cell k)) [(f, w, b). (f, k', w, b) \<leftarrow> outs, cell k' = cell k] v v' \<and> holds (cell k) s' v'"
proof (induction ws arbitrary: s v outs)
  case (Cons w ws)
  obtain f k' x where w: "w = (f, k', x)" by (cases w)
  from Cons.prems(4) [unfolded w] obtain s1 r outs' where p: "put f k' x s = (s1, r)"
    and a: "put_all put ws s1 = (s', outs')" and outs: "outs = (f, k', x, is_ok r) # outs'"
    by (rule put_all_Cons)
  have good: "good k'" "\<forall>(f, k', w) \<in> set ws. good k'" using Cons.prems(3) w by auto
  show ?case
  proof (cases "cell k' = cell k")
    case True
    with put_same [OF good(1) _ p] Cons.prems(2) obtain u where
      u: "eff (cell k) (f, x, is_ok r) v u" "holds (cell k) s1 u" by auto
    from Cons.IH [OF Cons.prems(1) u(2) good(2) a] u(1) True show ?thesis by (auto simp: outs)
  next
    case False
    then have "holds (cell k) s1 v" using put_other [OF Cons.prems(1) good(1) Cons.prems(2) p] by simp
    from Cons.IH [OF Cons.prems(1) this good(2) a] False show ?thesis by (auto simp: outs)
  qed
qed simp

end

locale key_store = registers +
  fixes plain :: "'c \<Rightarrow> bool" and torn :: "'v \<Rightarrow> 'v \<Rightarrow> bool"
  assumes eff_plain: "plain c \<Longrightarrow> eff c (f, w, b) v v' \<Longrightarrow> (if b then v' = w else v' = v \<or> torn w v')"
    and put_new: "good k \<Longrightarrow> plain (cell k) \<Longrightarrow> put f k w s = (s', Inr ()) \<Longrightarrow> holds (cell k) s' w"
begin

lemma failed_writes:
  "plain c \<Longrightarrow> chain (eff c) xs v v' \<Longrightarrow> \<forall>(f, w, b) \<in> set xs. \<not> b \<Longrightarrow>
   v' = v \<or> (\<exists>(f, w, b) \<in> set xs. torn w v')"
proof (induction xs arbitrary: v)
  case (Cons x xs)
  obtain f w b where x: "x = (f, w, b)" by (cases x)
  from Cons.prems(2) x obtain u where u: "eff c (f, w, b) v u" "chain (eff c) xs u v'" by auto
  from Cons.IH [OF Cons.prems(1) u(2)] Cons.prems(3) eff_plain [OF Cons.prems(1) u(1)]
  show ?case by (auto simp: x)
qed simp

text \<open>A key whose last acknowledged write is \<open>v\<close> holds it, or what a later failed write left.\<close>

lemma last_write_holds:
  assumes "good k" "plain (cell k)" "\<forall>(f, k', w) \<in> set ws. good k'"
    and run: "put_all put ws s = (s', os1 @ (f, k, v, True) # os2)"
    and last: "\<forall>(f, k', w, b) \<in> set os2. cell k' = cell k \<longrightarrow> k' = k \<and> \<not> b"
  shows "\<exists>t. holds (cell k) s' t \<and> (t = v \<or> (\<exists>f w. (f, k, w, False) \<in> set os2 \<and> torn w t))"
proof -
  from put_all_split [OF run] obtain s1 s2 r ws2 where p: "put f k v s1 = (s2, r)" "is_ok r"
    and a: "put_all put ws2 s2 = (s', os2)" and sub: "set ws2 \<subseteq> set ws" by auto
  from put_new [OF assms(1,2)] p have h: "holds (cell k) s2 v" by (simp add: is_ok_unit)
  have "\<forall>(f, k', w) \<in> set ws2. good k'" using assms(3) sub by blast
  from put_all_holds [OF assms(1) h this a] obtain t where
    c: "chain (eff (cell k)) [(f, w, b). (f, k', w, b) \<leftarrow> os2, cell k' = cell k] v t" and t: "holds (cell k) s' t"
    by blast
  from failed_writes [OF assms(2) c] last have "t = v \<or> (\<exists>f w. (f, k, w, False) \<in> set os2 \<and> torn w t)"
    by fastforce
  with t show ?thesis by blast
qed

end

end
