(* ===== verification/Logos_Json.thy ===== *)
theory Logos_Json
  imports Logos_Prelude
begin

text \<open>
  JSON values (\<open>serde_json::Value\<close>) and \<open>json_deep_merge\<close> of \<open>logos-vfs/src/lib.rs\<close>.
  An object is the list of its entries in key order, which is how \<open>serde_json\<close>'s default
  map (a \<open>BTreeMap\<close>) iterates; \<open>obj_insert\<close> is its insertion. Parsing and printing
  belong to the library: a \<open>codec\<close> record carries them, as arguments of every definition
  that uses them.
\<close>

section \<open>Values\<close>

datatype json =
    JNull
  | JBool bool
  | JInt int
  | JFloat "64 word"
  | JStr string
  | JArr "json list"
  | JObj "(string \<times> json) list"

text \<open>The accessors \<open>as_str\<close>, \<open>as_bool\<close>, \<open>as_array\<close>, \<open>as_i64\<close>, \<open>as_u64\<close>, \<open>is_string\<close>.\<close>

fun as_str :: "json \<Rightarrow> string option" where
  "as_str (JStr s) = Some s"
| "as_str _ = None"

fun as_bool :: "json \<Rightarrow> bool option" where
  "as_bool (JBool b) = Some b"
| "as_bool _ = None"

fun as_array :: "json \<Rightarrow> json list option" where
  "as_array (JArr xs) = Some xs"
| "as_array _ = None"

fun as_object :: "json \<Rightarrow> (string \<times> json) list option" where
  "as_object (JObj kvs) = Some kvs"
| "as_object _ = None"

fun as_i64 :: "json \<Rightarrow> int option" where
  "as_i64 (JInt n) = (if - (2 ^ 63) \<le> n \<and> n < 2 ^ 63 then Some n else None)"
| "as_i64 _ = None"

fun as_u64 :: "json \<Rightarrow> nat option" where
  "as_u64 (JInt n) = (if 0 \<le> n \<and> n < 2 ^ 64 then Some (nat n) else None)"
| "as_u64 _ = None"

text \<open>\<open>val["key"]\<close> on a shared reference is \<open>Null\<close> where there is no such entry.\<close>

fun jget :: "json \<Rightarrow> string \<Rightarrow> json" where
  "jget (JObj kvs) k = opt_or (map_of kvs k) JNull"
| "jget _ k = JNull"

definition str_field :: "json \<Rightarrow> string \<Rightarrow> string \<Rightarrow> string" where
  "str_field v k d = opt_or (as_str (jget v k)) d"

fun obj_insert :: "string \<Rightarrow> json \<Rightarrow> (string \<times> json) list \<Rightarrow> (string \<times> json) list" where
  "obj_insert k v [] = [(k, v)]"
| "obj_insert k v ((k', v') # kvs) =
     (if k = k' then (k, v) # kvs
      else if k < k' then (k, v) # (k', v') # kvs
      else (k', v') # obj_insert k v kvs)"

text \<open>The \<open>json!\<close> macro inserts the entries one by one.\<close>

definition jobj :: "(string \<times> json) list \<Rightarrow> json" where
  "jobj kvs = JObj (fold (\<lambda>(k, v). obj_insert k v) kvs [])"

definition sorted_keys :: "(string \<times> json) list \<Rightarrow> bool" where
  "sorted_keys kvs \<longleftrightarrow> sorted_wrt (<) (map fst kvs)"

text \<open>
  Values as the library builds them: every object in it has strictly ascending keys, and an
  integer fits \<open>i64\<close> or \<open>u64\<close>. A float is its 64 bits; the library does not promise to
  read back the very float it printed, so \<open>float_free\<close> values are told apart.
\<close>

fun wf_json :: "json \<Rightarrow> bool" where
  "wf_json (JArr xs) \<longleftrightarrow> (\<forall>x \<in> set xs. wf_json x)"
| "wf_json (JObj kvs) \<longleftrightarrow> sorted_keys kvs \<and> (\<forall>kv \<in> set kvs. wf_json (snd kv))"
| "wf_json (JInt n) \<longleftrightarrow> - (2 ^ 63) \<le> n \<and> n < 2 ^ 64"
| "wf_json _ \<longleftrightarrow> True"

fun float_free :: "json \<Rightarrow> bool" where
  "float_free (JArr xs) \<longleftrightarrow> (\<forall>x \<in> set xs. float_free x)"
| "float_free (JObj kvs) \<longleftrightarrow> (\<forall>kv \<in> set kvs. float_free (snd kv))"
| "float_free (JFloat _) \<longleftrightarrow> False"
| "float_free _ \<longleftrightarrow> True"

lemma map_of_obj_insert [simp]: "map_of (obj_insert k v kvs) = (map_of kvs)(k \<mapsto> v)"
  by (induction kvs rule: obj_insert.induct) (auto simp: fun_eq_iff)

lemma set_obj_insert: "set (obj_insert k v kvs) \<subseteq> insert (k, v) (set kvs)"
  by (induction k v kvs rule: obj_insert.induct) auto

lemma fst_set_obj_insert [simp]: "fst ` set (obj_insert k v kvs) = insert k (fst ` set kvs)"
  by (induction k v kvs rule: obj_insert.induct) auto

lemma sorted_keys_obj_insert: "sorted_keys kvs \<Longrightarrow> sorted_keys (obj_insert k v kvs)"
proof (induction k v kvs rule: obj_insert.induct)
  case (2 k v k' v' kvs)
  then show ?case
    using fst_set_obj_insert [of k v kvs]
    by (auto simp: sorted_keys_def image_iff dest!: equalityD1 subsetD
             intro: less_trans linorder_neqE)
qed (simp add: sorted_keys_def)

lemma sorted_keys_Nil [simp]: "sorted_keys []"
  by (simp add: sorted_keys_def)

lemma sorted_keys_distinct: "sorted_keys kvs \<Longrightarrow> distinct (map fst kvs)"
  by (simp add: sorted_keys_def strict_sorted_iff)

lemma sorted_keys_ext:
  assumes "sorted_keys xs" "sorted_keys ys" "map_of xs = map_of ys"
  shows "xs = ys"
proof -
  have keys: "map fst xs = map fst ys"
  proof (rule sorted_distinct_set_unique)
    show "set (map fst xs) = set (map fst ys)"
      using assms(3) by (metis dom_map_of_conv_image_fst list.set_map)
  qed (use assms in \<open>auto simp: sorted_keys_def strict_sorted_iff\<close>)
  have "map snd xs = map snd ys"
  proof -
    have "map snd xs = map (the \<circ> map_of xs) (map fst xs)"
      using sorted_keys_distinct [OF assms(1)] by (auto simp: map_of_eq_Some_iff)
    also have "\<dots> = map (the \<circ> map_of ys) (map fst ys)" by (simp only: assms(3) keys)
    also have "\<dots> = map snd ys"
      using sorted_keys_distinct [OF assms(2)] by (auto simp: map_of_eq_Some_iff)
    finally show ?thesis .
  qed
  with keys show ?thesis by (metis zip_map_fst_snd)
qed

section \<open>Deep merge\<close>

lemma size_obj_entry: "(k, v) \<in> set p \<Longrightarrow> size v < size (JObj p)"
  by (induction p) auto

text \<open>
  Both arguments objects: each entry of the patch is merged into the entry of the base
  with its key, a missing one counting as \<open>Null\<close>; anything else is replaced.
\<close>

function json_deep_merge :: "json \<Rightarrow> json \<Rightarrow> json" where
  "json_deep_merge base patch =
     (case (base, patch) of
        (JObj b, JObj p) \<Rightarrow>
          JObj (foldl (\<lambda>acc kv.
            obj_insert (fst kv) (json_deep_merge (opt_or (map_of acc (fst kv)) JNull) (snd kv)) acc) b p)
      | _ \<Rightarrow> patch)"
  by pat_completeness auto

termination
  by (relation "measure (\<lambda>(base, patch). size patch)") (auto dest: size_obj_entry)

declare json_deep_merge.simps [simp del]

lemma merge_objs:
  "json_deep_merge (JObj b) (JObj p) =
   JObj (foldl (\<lambda>acc kv.
     obj_insert (fst kv) (json_deep_merge (opt_or (map_of acc (fst kv)) JNull) (snd kv)) acc) b p)"
  by (subst json_deep_merge.simps) simp

fun is_obj :: "json \<Rightarrow> bool" where
  "is_obj (JObj _) \<longleftrightarrow> True"
| "is_obj _ \<longleftrightarrow> False"

lemma merge_replace: "\<not> is_obj base \<or> \<not> is_obj patch \<Longrightarrow> json_deep_merge base patch = patch"
  by (subst json_deep_merge.simps) (auto split: json.splits)

lemma is_objE: "is_obj v \<Longrightarrow> (\<And>kvs. v = JObj kvs \<Longrightarrow> P) \<Longrightarrow> P"
  by (cases v) auto

lemma is_obj_merge: "is_obj (json_deep_merge base patch) = is_obj patch"
  by (cases "is_obj base \<and> is_obj patch") (auto simp: merge_objs merge_replace elim!: is_objE)

text \<open>What one key of the result holds; the merged objects keep their key order.\<close>

definition merge_entry :: "json option \<Rightarrow> json option \<Rightarrow> json option" where
  "merge_entry b p = (case p of None \<Rightarrow> b | Some v \<Rightarrow> Some (json_deep_merge (opt_or b JNull) v))"

lemma map_of_merge_fold:
  "distinct (map fst p) \<Longrightarrow>
   map_of (foldl (\<lambda>acc kv.
     obj_insert (fst kv) (json_deep_merge (opt_or (map_of acc (fst kv)) JNull) (snd kv)) acc) b p) k
   = merge_entry (map_of b k) (map_of p k)"
proof (induction p arbitrary: b)
  case (Cons kv p)
  obtain k1 v1 where "kv = (k1, v1)" by (cases kv)
  with Cons show ?case
    by (auto simp: merge_entry_def map_of_eq_None_iff split: option.splits dest: map_of_SomeD)
       (force dest: map_of_SomeD)+
qed (simp add: merge_entry_def)

abbreviation merge_into :: "(string \<times> json) list \<Rightarrow> (string \<times> json) list \<Rightarrow> (string \<times> json) list" where
  "merge_into b p \<equiv> foldl (\<lambda>acc kv.
     obj_insert (fst kv) (json_deep_merge (opt_or (map_of acc (fst kv)) JNull) (snd kv)) acc) b p"

lemma sorted_keys_merge_into: "sorted_keys b \<Longrightarrow> sorted_keys (merge_into b p)"
  by (induction p arbitrary: b) (auto simp: sorted_keys_obj_insert)

lemma merge_entry_simps [simp]:
  "merge_entry b None = b"
  "merge_entry b (Some v) = Some (json_deep_merge (opt_or b JNull) v)"
  by (simp_all add: merge_entry_def)

lemma wf_json_obj:
  "wf_json (JObj kvs) \<longleftrightarrow> sorted_keys kvs \<and> (\<forall>k v. map_of kvs k = Some v \<longrightarrow> wf_json v)"
proof (cases "sorted_keys kvs")
  case True
  then show ?thesis
    using sorted_keys_distinct [of kvs] by (force simp: map_of_eq_Some_iff)
qed simp

lemma wf_merge_into_lookup:
  "wf_json (JObj p) \<Longrightarrow> map_of (merge_into b p) k = merge_entry (map_of b k) (map_of p k)"
  by (simp add: map_of_merge_fold sorted_keys_distinct)

lemma map_of_size: "map_of p k = Some v \<Longrightarrow> size v < size (JObj p)"
  by (metis map_of_SomeD size_obj_entry)

lemma wf_json_merge: "wf_json base \<Longrightarrow> wf_json patch \<Longrightarrow> wf_json (json_deep_merge base patch)"
proof (induction patch arbitrary: base rule: measure_induct_rule [of size])
  case (less patch)
  show ?case
  proof (cases "is_obj base \<and> is_obj patch")
    case False
    with less.prems show ?thesis by (auto simp: merge_replace)
  next
    case True
    then obtain b p where o: "base = JObj b" "patch = JObj p" by (auto elim!: is_objE)
    have "wf_json v" if "map_of (merge_into b p) k = Some v" for k v
      using that less.prems less.IH [of "the (map_of p k)" "opt_or (map_of b k) JNull"] o
      by (cases "map_of p k"; cases "map_of b k")
         (auto simp: wf_merge_into_lookup wf_json_obj map_of_size simp del: wf_json.simps(2) json.size)
    with less.prems o show ?thesis
      by (simp add: merge_objs wf_json_obj sorted_keys_merge_into del: wf_json.simps(2))
  qed
qed

lemma merge_self: "wf_json v \<Longrightarrow> json_deep_merge v v = v"
proof (induction v rule: measure_induct_rule [of size])
  case (less v)
  show ?case
  proof (cases v)
    case (JObj p)
    with less.prems have wf: "wf_json (JObj p)" by simp
    have "map_of (merge_into p p) k = map_of p k" for k
      using less.IH [of "the (map_of p k)"] wf JObj
      by (cases "map_of p k") (auto simp: wf_merge_into_lookup wf_json_obj map_of_size
            simp del: wf_json.simps(2) json.size)
    with wf have "merge_into p p = p"
      by (intro sorted_keys_ext) (auto simp: sorted_keys_merge_into)
    with JObj show ?thesis by (simp add: merge_objs)
  qed (simp_all add: merge_replace)
qed

lemma merge_idem:
  "wf_json base \<Longrightarrow> wf_json patch \<Longrightarrow>
   json_deep_merge (json_deep_merge base patch) patch = json_deep_merge base patch"
proof (induction patch arbitrary: base rule: measure_induct_rule [of size])
  case (less patch)
  show ?case
  proof (cases "is_obj base \<and> is_obj patch")
    case False
    with less.prems show ?thesis by (cases "is_obj patch") (auto simp: merge_replace merge_self)
  next
    case True
    then obtain b p where o: "base = JObj b" "patch = JObj p" by (auto elim!: is_objE)
    with less.prems have wf: "wf_json (JObj b)" "wf_json (JObj p)" by simp_all
    have "map_of (merge_into (merge_into b p) p) k = map_of (merge_into b p) k" for k
      using less.IH [of "the (map_of p k)" "opt_or (map_of b k) JNull"] wf o
      by (cases "map_of p k"; cases "map_of b k")
         (auto simp: wf_merge_into_lookup wf_json_obj map_of_size simp del: wf_json.simps(2) json.size)
    with wf have "merge_into (merge_into b p) p = merge_into b p"
      by (intro sorted_keys_ext) (auto simp: sorted_keys_merge_into)
    with o show ?thesis by (simp add: merge_objs)
  qed
qed

subsection \<open>Paths through objects\<close>

fun path_get :: "json \<Rightarrow> string list \<Rightarrow> json option" where
  "path_get v [] = Some v"
| "path_get (JObj kvs) (k # ks) = (case map_of kvs k of None \<Rightarrow> None | Some v \<Rightarrow> path_get v ks)"
| "path_get _ (k # ks) = None"

text \<open>A patch is silent about a path when it descends through objects to a missing key.\<close>

fun silent_about :: "json \<Rightarrow> string list \<Rightarrow> bool" where
  "silent_about (JObj p) (k # ks) = (case map_of p k of None \<Rightarrow> True | Some v \<Rightarrow> silent_about v ks)"
| "silent_about _ _ = False"

lemma path_get_merge_patch:
  "wf_json patch \<Longrightarrow> path_get patch ks = Some v \<Longrightarrow> \<not> is_obj v \<Longrightarrow>
   path_get (json_deep_merge base patch) ks = Some v"
proof (induction ks arbitrary: base patch)
  case Nil
  then show ?case by (simp add: merge_replace)
next
  case (Cons k ks)
  then obtain p v' where p: "patch = JObj p" "map_of p k = Some v'" "path_get v' ks = Some v"
    by (cases patch) (auto split: option.splits)
  with Cons.prems have wf: "wf_json (JObj p)" "wf_json v'"
    by (auto simp: wf_json_obj simp del: wf_json.simps(2))
  show ?case
  proof (cases "is_obj base")
    case True
    then obtain b where "base = JObj b" by (auto elim: is_objE)
    with p wf Cons show ?thesis
      by (simp add: merge_objs wf_merge_into_lookup del: wf_json.simps(2))
  qed (use p Cons.prems in \<open>simp add: merge_replace\<close>)
qed

lemma path_get_merge_base:
  "wf_json patch \<Longrightarrow> path_get base ks \<noteq> None \<Longrightarrow> silent_about patch ks \<Longrightarrow>
   path_get (json_deep_merge base patch) ks = path_get base ks"
proof (induction ks arbitrary: base patch)
  case (Cons k ks)
  then obtain p b where p: "patch = JObj p" "base = JObj b"
    by (cases patch; cases base) auto
  with Cons.prems have wf: "wf_json (JObj p)" by simp
  show ?case
  proof (cases "map_of p k")
    case (Some v)
    with p Cons.prems obtain w where "map_of b k = Some w" "path_get w ks \<noteq> None" "wf_json v"
      by (auto simp: wf_json_obj simp del: wf_json.simps(2) split: option.splits)
    with Some p wf Cons show ?thesis
      by (simp add: merge_objs wf_merge_into_lookup del: wf_json.simps(2))
  qed (use p wf in \<open>simp add: merge_objs wf_merge_into_lookup del: wf_json.simps(2)\<close>)
qed (auto elim: silent_about.elims)

section \<open>The serialiser\<close>

text \<open>
  \<open>serde_json::from_str\<close>, \<open>to_string\<close> and \<open>to_string_pretty\<close> on values. A parse
  error carries the library's message: of the text; of a value that is not of the type asked for
  (\<open>mismatch\<close>, with the type's name); of a text whose top-level object repeats one of the given
  fields (\<open>repeated\<close>), which only reading into a structure refuses.
\<close>

record codec =
  from_str :: "string \<Rightarrow> string + json"
  to_str :: "json \<Rightarrow> string"
  to_str_pretty :: "json \<Rightarrow> string"
  mismatch :: "string \<Rightarrow> json \<Rightarrow> string"
  repeated :: "string list \<Rightarrow> string \<Rightarrow> string option"

text \<open>What the library documents of them: printing then parsing gives a value without floats
  back, and parsed values are well-formed.\<close>

definition codec_ok :: "('x) codec_scheme \<Rightarrow> bool" where
  "codec_ok c \<longleftrightarrow>
     (\<forall>v. wf_json v \<and> float_free v \<longrightarrow> from_str c (to_str c v) = Inr v) \<and>
     (\<forall>v. wf_json v \<and> float_free v \<longrightarrow> from_str c (to_str_pretty c v) = Inr v) \<and>
     (\<forall>s v. from_str c s = Inr v \<longrightarrow> wf_json v)"

lemma codec_okD:
  assumes "codec_ok c"
  shows "wf_json v \<Longrightarrow> float_free v \<Longrightarrow> from_str c (to_str c v) = Inr v"
    and "wf_json v \<Longrightarrow> float_free v \<Longrightarrow> from_str c (to_str_pretty c v) = Inr v"
    and "from_str c s = Inr v \<Longrightarrow> wf_json v"
  using assms by (auto simp: codec_ok_def)

lemma wf_jobj_fold:
  "sorted_keys acc \<Longrightarrow> sorted_keys (fold (\<lambda>(k, v). obj_insert k v) kvs acc)"
  by (induction kvs arbitrary: acc) (auto simp: sorted_keys_obj_insert)

lemma set_jobj_fold:
  "set (fold (\<lambda>(k, v). obj_insert k v) kvs acc) \<subseteq> set acc \<union> set kvs"
proof (induction kvs arbitrary: acc)
  case (Cons kv kvs)
  then show ?case using set_obj_insert [of "fst kv" "snd kv" acc] by (cases kv) fastforce
qed simp

lemma wf_jobj [simp]: "(\<forall>kv \<in> set kvs. wf_json (snd kv)) \<Longrightarrow> wf_json (jobj kvs)"
  using set_jobj_fold [of kvs "[]"] by (auto simp: jobj_def wf_jobj_fold)

lemma map_of_jobj_fold:
  "map_of (fold (\<lambda>(k, v). obj_insert k v) kvs acc) = map_of (rev kvs @ acc)"
  by (induction kvs arbitrary: acc) (auto simp: map_add_def fun_eq_iff split: option.splits)

lemma jget_jobj: "jget (jobj kvs) k = opt_or (map_of (rev kvs) k) JNull"
  by (simp add: jobj_def map_of_jobj_fold)

text \<open>
  A concrete notation for values and its reader, with which hypotheses of the form
  \<open>codec_ok c\<close> are shown to hold: a tag for the constructor, decimal or text payloads
  with every character announced by a plus sign and a full stop at the end.
\<close>

definition note_text :: "string \<Rightarrow> string" where
  "note_text s = concat (map (\<lambda>c. [CHR ''+'', c]) s) @ ''.''"

fun notate :: "json \<Rightarrow> string" where
  "notate JNull = ''n''"
| "notate (JBool b) = (if b then ''t'' else ''f'')"
| "notate (JInt i) = (if 0 \<le> i then ''p'' @ note_text (nat_str (nat i)) else ''m'' @ note_text (nat_str (nat (- i))))"
| "notate (JFloat w) = ''d'' @ note_text (nat_str (unat w))"
| "notate (JStr s) = ''s'' @ note_text s"
| "notate (JArr xs) = ''['' @ concat (map (\<lambda>x. '','' @ notate x) xs) @ '']''"
| "notate (JObj kvs) = ''{'' @ concat (map (\<lambda>kv. '','' @ note_text (fst kv) @ notate (snd kv)) kvs) @ ''}''"

fun read_text :: "string \<Rightarrow> (string \<times> string) option" where
  "read_text (p # s) =
     (if p = CHR ''.'' then Some ([], s)
      else if p = CHR ''+'' \<and> s \<noteq> [] then map_option (\<lambda>(t, r). (hd s # t, r)) (read_text (tl s))
      else None)"
| "read_text [] = None"

fun read_note :: "nat \<Rightarrow> string \<Rightarrow> (json \<times> string) option"
and read_items :: "nat \<Rightarrow> string \<Rightarrow> (json list \<times> string) option"
and read_entries :: "nat \<Rightarrow> string \<Rightarrow> ((string \<times> json) list \<times> string) option" where
  "read_note (Suc n) (t # s) =
     (if t = CHR ''n'' then Some (JNull, s)
      else if t = CHR ''t'' then Some (JBool True, s)
      else if t = CHR ''f'' then Some (JBool False, s)
      else if t = CHR ''p'' then map_option (\<lambda>(w, r). (JInt (int (digits_value w)), r)) (read_text s)
      else if t = CHR ''m'' then map_option (\<lambda>(w, r). (JInt (- int (digits_value w)), r)) (read_text s)
      else if t = CHR ''d'' then map_option (\<lambda>(w, r). (JFloat (of_nat (digits_value w)), r)) (read_text s)
      else if t = CHR ''s'' then map_option (\<lambda>(w, r). (JStr w, r)) (read_text s)
      else if t = CHR ''['' then map_option (\<lambda>(xs, r). (JArr xs, r)) (read_items n s)
      else if t = CHR ''{'' then map_option (\<lambda>(kvs, r). (JObj kvs, r)) (read_entries n s)
      else None)"
| "read_note _ _ = None"
| "read_items (Suc n) (t # s) =
     (if t = CHR '']'' then Some ([], s)
      else case read_note n s of
             None \<Rightarrow> None
           | Some (x, r) \<Rightarrow> map_option (\<lambda>(xs, r). (x # xs, r)) (read_items n r))"
| "read_items _ _ = None"
| "read_entries (Suc n) (t # s) =
     (if t = CHR ''}'' then Some ([], s)
      else case read_text s of
             None \<Rightarrow> None
           | Some (k, r) \<Rightarrow>
               (case read_note n r of
                  None \<Rightarrow> None
                | Some (x, r) \<Rightarrow> map_option (\<lambda>(kvs, r). ((k, x) # kvs, r)) (read_entries n r)))"
| "read_entries _ _ = None"

definition note_codec :: codec where
  "note_codec =
     \<lparr>from_str = (\<lambda>s. case read_note (length s) s of
         Some (v, []) \<Rightarrow> if wf_json v then Inr v else Inl ''number out of range''
       | _ \<Rightarrow> Inl ''expected value''),
      to_str = notate, to_str_pretty = notate, mismatch = (\<lambda>ty _. ''expected '' @ ty),
      repeated = (\<lambda>_ _. None)\<rparr>"

lemma read_text_note: "read_text (note_text s @ r) = Some (s, r)"
  by (induction s) (auto simp: note_text_def)

lemma read_items_note:
  "(\<And>x n r. x \<in> set xs \<Longrightarrow> length (notate x) \<le> n \<Longrightarrow> read_note n (notate x @ r) = Some (x, r)) \<Longrightarrow>
   Suc (length (concat (map (\<lambda>x. '','' @ notate x) xs))) \<le> n \<Longrightarrow>
   read_items n (concat (map (\<lambda>x. '','' @ notate x) xs) @ CHR '']'' # r) = Some (xs, r)"
proof (induction xs arbitrary: n)
  case (Cons x xs)
  then show ?case by (cases n) auto
next
  case Nil
  then show ?case by (cases n) auto
qed

lemma read_entries_note:
  "(\<And>k x n r. (k, x) \<in> set kvs \<Longrightarrow> length (notate x) \<le> n \<Longrightarrow> read_note n (notate x @ r) = Some (x, r)) \<Longrightarrow>
   Suc (length (concat (map (\<lambda>kv. '','' @ note_text (fst kv) @ notate (snd kv)) kvs))) \<le> n \<Longrightarrow>
   read_entries n (concat (map (\<lambda>kv. '','' @ note_text (fst kv) @ notate (snd kv)) kvs) @ CHR ''}'' # r) = Some (kvs, r)"
proof (induction kvs arbitrary: n)
  case (Cons kv kvs)
  obtain k x m where kv: "kv = (k, x)" and n: "n = Suc m"
    using Cons.prems(2) by (cases kv; cases n) auto
  have "read_note m (notate x @ rest) = Some (x, rest)" for rest
    using Cons.prems kv n by (intro Cons.prems(1)) auto
  moreover have "read_entries m (concat (map (\<lambda>kv. '','' @ note_text (fst kv) @ notate (snd kv)) kvs)
      @ CHR ''}'' # r) = Some (kvs, r)"
    using Cons.prems kv n by (intro Cons.IH) auto
  ultimately show ?case by (simp add: kv n read_text_note)
next
  case Nil
  then show ?case by (cases n) auto
qed

lemma read_note_note: "length (notate v) \<le> n \<Longrightarrow> read_note n (notate v @ r) = Some (v, r)"
proof (induction v arbitrary: n r)
  case (JArr xs)
  then obtain m where n: "n = Suc m" by (cases n) auto
  have "read_items m (concat (map (\<lambda>x. '','' @ notate x) xs) @ CHR '']'' # r) = Some (xs, r)"
    by (rule read_items_note) (use JArr n in auto)
  with n show ?case by simp
next
  case (JObj kvs)
  then obtain m where n: "n = Suc m" by (cases n) auto
  have "read_entries m (concat (map (\<lambda>kv. '','' @ note_text (fst kv) @ notate (snd kv)) kvs) @ CHR ''}'' # r)
      = Some (kvs, r)"
    by (rule read_entries_note) (use JObj n in fastforce)+
  with n show ?case by simp
next
  case JNull
  then show ?case by (cases n) auto
next
  case (JBool b)
  then show ?case by (cases n) (auto split: if_splits)
next
  case (JInt i)
  then show ?case by (cases n) (auto simp: read_text_note digits_value_nat_str split: if_splits)
next
  case (JFloat w)
  then show ?case by (cases n) (auto simp: read_text_note digits_value_nat_str split: if_splits)
next
  case (JStr w)
  then show ?case by (cases n) (auto simp: read_text_note)
qed

lemma note_codec_ok: "codec_ok note_codec"
proof -
  have "read_note (length (notate v)) (notate v) = Some (v, [])" for v
    using read_note_note [of v "length (notate v)" "[]"] by simp
  then show ?thesis
    by (auto simp: codec_ok_def note_codec_def split: option.splits list.splits if_splits)
qed

section \<open>Properties\<close>

text \<open>Deep merge keeps values well-formed; every non-object the patch holds at a path is
  what the result holds there; everything the base holds at a path the patch is silent about
  is kept.\<close>

theorem deep_merge_paths:
  assumes "wf_json base" and "wf_json patch"
  shows "wf_json (json_deep_merge base patch) \<and>
    (\<forall>ks v. path_get patch ks = Some v \<and> \<not> is_obj v \<longrightarrow>
       path_get (json_deep_merge base patch) ks = Some v) \<and>
    (\<forall>ks. path_get base ks \<noteq> None \<and> silent_about patch ks \<longrightarrow>
       path_get (json_deep_merge base patch) ks = path_get base ks)"
  using assms by (simp add: wf_json_merge path_get_merge_patch path_get_merge_base)

theorem deep_merge_paths_witness:
  "path_get (json_deep_merge
      (JObj [(''a'', JObj [(''x'', JInt 1), (''y'', JInt 2)]), (''b'', JNull)])
      (JObj [(''a'', JObj [(''y'', JArr [])])])) [''a'', ''x''] = Some (JInt 1)"
  using deep_merge_paths [of "JObj [(''a'', JObj [(''x'', JInt 1), (''y'', JInt 2)]), (''b'', JNull)]"
      "JObj [(''a'', JObj [(''y'', JArr [])])]"]
  by (simp add: sorted_keys_def)

text \<open>Applying one patch twice is applying it once.\<close>

theorem deep_merge_idempotent:
  assumes "wf_json base" and "wf_json patch"
  shows "json_deep_merge (json_deep_merge base patch) patch = json_deep_merge base patch"
  using assms by (rule merge_idem)

theorem deep_merge_idempotent_witness:
  "let base = JObj [(''a'', JInt 1)]; patch = JObj [(''a'', JObj [(''b'', JNull)])]
   in json_deep_merge (json_deep_merge base patch) patch = json_deep_merge base patch"
  unfolding Let_def by (rule deep_merge_idempotent) (simp_all add: sorted_keys_def)

end
