(* ===== verification/Logos_Vfs.thy ===== *)
theory Logos_Vfs
  imports Logos_Json
begin

text \<open>
  The crate \<open>logos-vfs\<close>: its error type, URI parsing (\<open>uri.rs\<close>), the namespace trait
  (\<open>namespace.rs\<close>), middleware (\<open>middleware.rs\<close>) and the routing table (\<open>table.rs\<close>).
  A namespace or middleware works on a kernel state \<open>'s\<close>, the type parameter of both.
\<close>

section \<open>Errors\<close>

datatype vfs_error =
    InvalidUri string
  | NamespaceNotMounted string
  | NotReady
  | NotFound string
  | InvalidPath string
  | InvalidJson string
  | Io string
  | Sqlite string

text \<open>The \<open>Display\<close> text; the dash in \<open>NotReady\<close> is the three bytes of U+2014.\<close>

fun vfs_error_display :: "vfs_error \<Rightarrow> string" where
  "vfs_error_display (InvalidUri m) = ''invalid URI: '' @ m"
| "vfs_error_display (NamespaceNotMounted m) = ''namespace not mounted: '' @ m"
| "vfs_error_display NotReady =
     ''kernel not ready '' @ [CHR 0xE2, CHR 0x80, CHR 0x94] @ '' boot sequence incomplete''"
| "vfs_error_display (NotFound m) = ''not found: '' @ m"
| "vfs_error_display (InvalidPath m) = ''invalid path: '' @ m"
| "vfs_error_display (InvalidJson m) = ''invalid json: '' @ m"
| "vfs_error_display (Io m) = ''io error: '' @ m"
| "vfs_error_display (Sqlite m) = ''sqlite error: '' @ m"

type_synonym 'a vfs_result = "vfs_error + 'a"
type_synonym ('s, 'a) vfs_step = "('s, vfs_error, 'a) step"

section \<open>URIs\<close>

record logos_uri =
  uri_namespace :: string
  uri_path :: "string list"

definition uri_segments :: "string \<Rightarrow> string list" where
  "uri_segments s = filter (\<lambda>w. w \<noteq> []) (split_on (CHR ''/'') s)"

definition uri_strip :: "string \<Rightarrow> string option" where
  "uri_strip raw =
     (case strip_prefix ''logos://'' raw of
        Some s \<Rightarrow> Some s
      | None \<Rightarrow> strip_prefix ''mem://'' raw)"

definition uri_parse :: "string \<Rightarrow> logos_uri vfs_result" where
  "uri_parse raw =
     (case uri_strip raw of
        None \<Rightarrow> Inl (InvalidUri raw)
      | Some stripped \<Rightarrow>
          (case uri_segments stripped of
             [] \<Rightarrow> Inl (InvalidUri ''URI has no namespace'')
           | n # ws \<Rightarrow> Inr \<lparr>uri_namespace = n, uri_path = ws\<rparr>))"

definition seg_ok :: "string \<Rightarrow> bool" where
  "seg_ok w \<longleftrightarrow> w \<noteq> [] \<and> CHR ''/'' \<notin> set w"

definition uri_render :: "logos_uri \<Rightarrow> string" where
  "uri_render u = ''logos://'' @ join ''/'' (uri_namespace u # uri_path u)"

lemma uri_segments_ok: "w \<in> set (uri_segments s) \<Longrightarrow> seg_ok w"
  by (auto simp: uri_segments_def seg_ok_def dest: split_on_no_sep)

lemma uri_segments_join:
  "\<forall>w \<in> set ws. seg_ok w \<Longrightarrow> uri_segments (join ''/'' ws) = ws"
  by (cases "ws = []") (auto simp: uri_segments_def split_on_join seg_ok_def intro!: filter_True)

lemma uri_segments_slash [simp]: "uri_segments (CHR ''/'' # s) = uri_segments s"
  by (simp add: uri_segments_def)

lemma uri_segments_append_slash:
  "uri_segments (a @ CHR ''/'' # b) = uri_segments a @ uri_segments b"
  by (simp add: uri_segments_def split_on_append)

lemma uri_segments_word: "seg_ok w \<Longrightarrow> uri_segments w = [w]"
  by (simp add: uri_segments_def split_on_word seg_ok_def)

lemma uri_parse_logos:
  "uri_parse (''logos://'' @ s) =
     (case uri_segments s of
        [] \<Rightarrow> Inl (InvalidUri ''URI has no namespace'')
      | n # ws \<Rightarrow> Inr \<lparr>uri_namespace = n, uri_path = ws\<rparr>)"
  using strip_prefix_append [of "''logos://''" s] by (simp add: uri_parse_def uri_strip_def)

lemma uri_parse_render:
  "seg_ok (uri_namespace u) \<Longrightarrow> \<forall>w \<in> set (uri_path u). seg_ok w \<Longrightarrow> uri_parse (uri_render u) = Inr u"
  unfolding uri_render_def uri_parse_logos by (subst uri_segments_join) auto

lemma uri_parse_segs:
  "uri_parse raw = Inr u \<Longrightarrow> seg_ok (uri_namespace u) \<and> (\<forall>w \<in> set (uri_path u). seg_ok w)"
  using uri_segments_ok [of _ "the (uri_strip raw)"]
  by (fastforce simp: uri_parse_def split: option.splits list.splits)

section \<open>Namespaces and middleware\<close>

record 's namespace =
  ns_name :: string
  ns_read :: "string list \<Rightarrow> ('s, string) vfs_step"
  ns_write :: "string list \<Rightarrow> string \<Rightarrow> ('s, unit) vfs_step"
  ns_patch :: "string list \<Rightarrow> string \<Rightarrow> ('s, unit) vfs_step"

record 's middleware =
  before_read :: "string \<Rightarrow> ('s, unit) vfs_step"
  before_write :: "string \<Rightarrow> string \<Rightarrow> ('s, unit) vfs_step"
  before_patch :: "string \<Rightarrow> string \<Rightarrow> ('s, unit) vfs_step"
  after_op :: "string \<Rightarrow> string \<Rightarrow> bool \<Rightarrow> 's \<Rightarrow> 's"

text \<open>The trait's default methods accept everything and do nothing afterwards.\<close>

definition vfs_middleware :: "'s middleware" where
  "vfs_middleware =
     \<lparr>before_read = (\<lambda>_. ret ()), before_write = (\<lambda>_ _. ret ()),
      before_patch = (\<lambda>_ _. ret ()), after_op = (\<lambda>_ _ _ s. s)\<rparr>"

definition needs_json_validation :: "string \<Rightarrow> bool" where
  "needs_json_validation uri =
     (if ends_with uri ''/description'' then False
      else starts_with uri ''logos://system/'' \<or> starts_with uri ''logos://memory/'')"

definition validate_json :: "('x) codec_scheme \<Rightarrow> string \<Rightarrow> string \<Rightarrow> string \<Rightarrow> unit vfs_result" where
  "validate_json c what uri content =
     (if needs_json_validation uri \<and> content \<noteq> []
      then (case from_str c content of
              Inl e \<Rightarrow> Inl (InvalidJson (what @ '' to '' @ uri @ '': '' @ e))
            | Inr _ \<Rightarrow> Inr ())
      else Inr ())"

definition json_validator :: "('x) codec_scheme \<Rightarrow> 's middleware" where
  "json_validator c = vfs_middleware
     \<lparr>before_write := (\<lambda>uri content. lift_result (validate_json c ''write'' uri content)),
      before_patch := (\<lambda>uri partial. lift_result (validate_json c ''patch'' uri partial))\<rparr>"

section \<open>The routing table\<close>

record 's routing_table =
  rt_namespaces :: "string \<rightharpoonup> 's namespace"
  rt_middlewares :: "'s middleware list"
  rt_open :: bool

definition table_new :: "'s routing_table" where
  "table_new = \<lparr>rt_namespaces = Map.empty, rt_middlewares = [], rt_open = False\<rparr>"

definition table_mount :: "'s namespace \<Rightarrow> 's routing_table \<Rightarrow> 's routing_table" where
  "table_mount ns t = t\<lparr>rt_namespaces := (rt_namespaces t)(ns_name ns \<mapsto> ns)\<rparr>"

definition add_middleware :: "'s middleware \<Rightarrow> 's routing_table \<Rightarrow> 's routing_table" where
  "add_middleware mw t = t\<lparr>rt_middlewares := rt_middlewares t @ [mw]\<rparr>"

definition table_open :: "'s routing_table \<Rightarrow> 's routing_table" where
  "table_open t = t\<lparr>rt_open := True\<rparr>"

definition table_mounted :: "'s routing_table \<Rightarrow> string set" where
  "table_mounted t = dom (rt_namespaces t)"

definition table_resolve :: "'s routing_table \<Rightarrow> string \<Rightarrow> ('s namespace \<times> logos_uri) vfs_result" where
  "table_resolve t raw =
     (if \<not> rt_open t then Inl NotReady
      else (case uri_parse raw of
              Inl e \<Rightarrow> Inl e
            | Inr u \<Rightarrow>
                (case rt_namespaces t (uri_namespace u) of
                   None \<Rightarrow> Inl (NamespaceNotMounted (uri_namespace u))
                 | Some ns \<Rightarrow> Inr (ns, u))))"

fun before_all :: "('s, unit) vfs_step list \<Rightarrow> ('s, unit) vfs_step" where
  "before_all [] = ret ()"
| "before_all (m # ms) = andthen m (\<lambda>_. before_all ms)"

definition after_all :: "'s middleware list \<Rightarrow> string \<Rightarrow> string \<Rightarrow> bool \<Rightarrow> 's \<Rightarrow> 's" where
  "after_all mws op raw success s = fold (\<lambda>mw. after_op mw op raw success) mws s"

text \<open>
  The body the three operations share: every \<open>before\<close> hook, the resolution, the
  namespace's method, every \<open>after_op\<close> hook with the outcome.
\<close>

definition dispatch ::
  "'s routing_table \<Rightarrow> ('s, unit) vfs_step list \<Rightarrow> string \<Rightarrow> string \<Rightarrow>
   ('s namespace \<Rightarrow> string list \<Rightarrow> ('s, 'a) vfs_step) \<Rightarrow> ('s, 'a) vfs_step" where
  "dispatch t befores op raw act =
     andthen (before_all befores) (\<lambda>_.
     andthen (lift_result (table_resolve t raw)) (\<lambda>(ns, u).
     attempt (act ns (uri_path u)) (\<lambda>result s.
       (after_all (rt_middlewares t) op raw (is_ok result) s, result))))"

definition table_read :: "'s routing_table \<Rightarrow> string \<Rightarrow> ('s, string) vfs_step" where
  "table_read t raw =
     dispatch t (map (\<lambda>mw. before_read mw raw) (rt_middlewares t)) ''read'' raw ns_read"

definition table_write :: "'s routing_table \<Rightarrow> string \<Rightarrow> string \<Rightarrow> ('s, unit) vfs_step" where
  "table_write t raw content =
     dispatch t (map (\<lambda>mw. before_write mw raw content) (rt_middlewares t)) ''write'' raw
       (\<lambda>ns p. ns_write ns p content)"

definition table_patch :: "'s routing_table \<Rightarrow> string \<Rightarrow> string \<Rightarrow> ('s, unit) vfs_step" where
  "table_patch t raw partial =
     dispatch t (map (\<lambda>mw. before_patch mw raw partial) (rt_middlewares t)) ''patch'' raw
       (\<lambda>ns p. ns_patch ns p partial)"

lemma before_all_ok:
  "before_all ms s = (s', Inr ()) \<Longrightarrow> m \<in> set ms \<Longrightarrow> \<exists>s1 s2. m s1 = (s2, Inr ())"
  by (induction ms arbitrary: s) (auto simp: step_defs split: prod.splits sum.splits)

lemma keeps_before_all [keeps_intros]:
  "(\<And>m. m \<in> set ms \<Longrightarrow> keeps I m) \<Longrightarrow> keeps I (before_all ms)"
  by (induction ms) (auto intro!: keeps_andthen)

lemma after_all_keeps:
  "(\<And>mw op raw b s. mw \<in> set mws \<Longrightarrow> I s \<Longrightarrow> I (after_op mw op raw b s)) \<Longrightarrow> I s \<Longrightarrow>
   I (after_all mws op raw b s)"
  by (induction mws arbitrary: s) (auto simp: after_all_def)

lemma table_resolve_Inr:
  "table_resolve t raw = Inr (ns, u) \<longleftrightarrow>
   rt_open t \<and> uri_parse raw = Inr u \<and> rt_namespaces t (uri_namespace u) = Some ns"
  by (auto simp: table_resolve_def split: sum.splits option.splits)

subsection \<open>Requests\<close>

datatype request = Read string | Write string string | Patch string string

fun serve :: "'s routing_table \<Rightarrow> request \<Rightarrow> ('s, string) vfs_step" where
  "serve t (Read uri) = table_read t uri"
| "serve t (Write uri content) = andthen (table_write t uri content) (\<lambda>_. ret [])"
| "serve t (Patch uri partial) = andthen (table_patch t uri partial) (\<lambda>_. ret [])"

fun serve_all :: "'s routing_table \<Rightarrow> request list \<Rightarrow> 's \<Rightarrow> 's" where
  "serve_all t [] s = s"
| "serve_all t (q # qs) s = serve_all t qs (fst (serve t q s))"

text \<open>
  The contract of a routing table: what its namespaces and middlewares keep, every
  sequence of requests keeps.
\<close>

locale routed =
  fixes t :: "'s routing_table" and I :: "'s \<Rightarrow> bool"
  assumes ns_read_keeps: "rt_namespaces t n = Some ns \<Longrightarrow> keeps I (ns_read ns p)"
    and ns_write_keeps: "rt_namespaces t n = Some ns \<Longrightarrow> keeps I (ns_write ns p content)"
    and ns_patch_keeps: "rt_namespaces t n = Some ns \<Longrightarrow> keeps I (ns_patch ns p content)"
    and before_read_keeps: "mw \<in> set (rt_middlewares t) \<Longrightarrow> keeps I (before_read mw raw)"
    and before_write_keeps: "mw \<in> set (rt_middlewares t) \<Longrightarrow> keeps I (before_write mw raw content)"
    and before_patch_keeps: "mw \<in> set (rt_middlewares t) \<Longrightarrow> keeps I (before_patch mw raw content)"
    and after_op_keeps: "mw \<in> set (rt_middlewares t) \<Longrightarrow> I s \<Longrightarrow> I (after_op mw op raw b s)"
begin

lemma keeps_dispatch:
  assumes "\<And>m. m \<in> set befores \<Longrightarrow> keeps I m"
    and "\<And>n ns p. rt_namespaces t n = Some ns \<Longrightarrow> keeps I (act ns p)"
  shows "keeps I (dispatch t befores op raw act)"
proof -
  have "keeps I (attempt (act ns (uri_path u)) (\<lambda>result s.
      (after_all (rt_middlewares t) op raw (is_ok result) s, result)))"
    if "table_resolve t raw = Inr (ns, u)" for ns u
  proof (rule keeps_attempt)
    from that show "keeps I (act ns (uri_path u))"
      by (auto simp: table_resolve_Inr intro: assms(2))
    show "keeps I (\<lambda>s. (after_all (rt_middlewares t) op raw (is_ok result) s, result))" for result
      by (auto simp: keeps_def intro: after_all_keeps after_op_keeps)
  qed
  then have routed: "keeps I (andthen (lift_result (table_resolve t raw)) (\<lambda>(ns, u).
     attempt (act ns (uri_path u)) (\<lambda>result s.
       (after_all (rt_middlewares t) op raw (is_ok result) s, result))))"
    by (cases "table_resolve t raw") (auto simp: keeps_def step_defs)
  show ?thesis
    unfolding dispatch_def by (rule keeps_andthen [OF keeps_before_all]) (auto intro: assms(1) routed)
qed

lemma serve_keeps: "keeps I (serve t q)"
  by (cases q)
     (auto simp: table_read_def table_write_def table_patch_def
           intro!: keeps_dispatch keeps_andthen
           intro: ns_read_keeps ns_write_keeps ns_patch_keeps
                  before_read_keeps before_write_keeps before_patch_keeps)

lemma serve_all_keeps: "I s \<Longrightarrow> I (serve_all t qs s)"
  by (induction qs arbitrary: s) (auto intro: keepsD [OF serve_keeps])

end

section \<open>Properties\<close>

text \<open>C24: A URI is accepted exactly when its segments are non-empty and free of slashes after
  splitting, so what a namespace receives is always such a path, every such path has a URI, and
  rendering a parsed URI and parsing it again gives it back: extra and trailing slashes and the
  legacy \<open>mem://\<close> scheme are spellings of one canonical URI.\<close>

theorem uri_parse_normal_form:
  "((\<exists>raw. uri_parse raw = Inr u) \<longleftrightarrow>
      seg_ok (uri_namespace u) \<and> (\<forall>w \<in> set (uri_path u). seg_ok w)) \<and>
   (uri_parse raw = Inr u \<longrightarrow> uri_parse (uri_render u) = Inr u)"
  by (meson uri_parse_render uri_parse_segs)

theorem uri_parse_normal_form_witness:
  "uri_parse ''mem://users//uid/persona/mid/'' =
     Inr \<lparr>uri_namespace = ''users'', uri_path = [''uid'', ''persona'', ''mid'']\<rparr> \<and>
   uri_parse (uri_render \<lparr>uri_namespace = ''users'', uri_path = [''uid'', ''persona'', ''mid'']\<rparr>) =
     Inr \<lparr>uri_namespace = ''users'', uri_path = [''uid'', ''persona'', ''mid'']\<rparr>"
proof -
  have "uri_parse ''mem://users//uid/persona/mid/'' =
     Inr \<lparr>uri_namespace = ''users'', uri_path = [''uid'', ''persona'', ''mid'']\<rparr>"
    by (simp add: uri_parse_def uri_strip_def uri_segments_def)
  with uri_parse_normal_form show ?thesis by blast
qed

text \<open>A write that the table reports as done, to a URI the JSON check covers, had
  well-formed JSON as its content, wherever the validator stands in the middleware chain and
  whatever the other middlewares and the namespaces do.\<close>

theorem validated_write:
  fixes t :: "'s routing_table"
  assumes "json_validator c \<in> set (rt_middlewares t)"
    and "needs_json_validation uri" and "content \<noteq> []"
    and "table_write t uri content s = (s', Inr ())"
  shows "\<exists>v. from_str c content = Inr v"
proof -
  from assms(4) obtain s1 where
    "before_all (map (\<lambda>mw. before_write mw uri content) (rt_middlewares t)) s = (s1, Inr ())"
    by (auto simp: table_write_def dispatch_def andthen_def split: prod.splits sum.splits)
  from before_all_ok [OF this, of "before_write (json_validator c) uri content"] assms(1)
  obtain s2 s3 :: 's where "before_write (json_validator c) uri content s2 = (s3, Inr ())" by auto
  with assms(2,3) show ?thesis
    by (auto simp: json_validator_def validate_json_def lift_result_def split: sum.splits)
qed

definition sink_namespace :: "string \<Rightarrow> string list namespace" where
  "sink_namespace n =
     \<lparr>ns_name = n, ns_read = (\<lambda>_. query concat), ns_write = (\<lambda>_ content. modify (Cons content)),
      ns_patch = (\<lambda>_ content. modify (Cons content))\<rparr>"

definition digit_codec :: codec where
  "digit_codec =
     \<lparr>from_str = (\<lambda>s. if s = ''7'' then Inr (JInt 7) else Inl ''expected value''),
      to_str = (\<lambda>_. ''7''), to_str_pretty = (\<lambda>_. ''7''), mismatch = (\<lambda>_ _. []), repeated = (\<lambda>_ _. None)\<rparr>"

theorem validated_write_witness:
  "let t = table_open (table_mount (sink_namespace ''system'')
             (add_middleware vfs_middleware (add_middleware (json_validator digit_codec) table_new)))
   in table_write t ''logos://system/tasks'' ''7'' [] = ([''7''], Inr ()) \<and>
      (\<exists>v. from_str digit_codec ''7'' = Inr v)"
proof -
  define t where "t = table_open (table_mount (sink_namespace ''system'')
             (add_middleware vfs_middleware (add_middleware (json_validator digit_codec) table_new)))"
  have w: "table_write t ''logos://system/tasks'' ''7'' [] = ([''7''], Inr ())"
    by (simp add: t_def table_open_def table_mount_def add_middleware_def table_new_def
        sink_namespace_def vfs_middleware_def json_validator_def validate_json_def digit_codec_def
        table_write_def dispatch_def table_resolve_def uri_parse_def uri_strip_def uri_segments_def
        after_all_def step_defs)
  have "json_validator digit_codec \<in> set (rt_middlewares t)" "needs_json_validation ''logos://system/tasks''"
    by (simp_all add: t_def table_open_def table_mount_def add_middleware_def table_new_def
        needs_json_validation_def ends_with_def starts_with_def)
  from validated_write [OF this _ w] w show ?thesis by (simp add: t_def Let_def)
qed

text \<open>The validator looks at the spelling of the URI, the router at its segments: with one
  more slash after the scheme the same namespace and path are reached and no content is ever
  checked.\<close>

theorem extra_slash_unvalidated:
  "uri_parse (''logos:///'' @ rest) = uri_parse (''logos://'' @ rest) \<and>
   validate_json c what (''logos:///'' @ rest) content = Inr ()"
proof -
  have "uri_parse (''logos:///'' @ rest) = uri_parse (''logos://'' @ rest)"
    using uri_parse_logos [of "CHR ''/'' # rest"] uri_parse_logos [of rest] by simp
  moreover have "\<not> needs_json_validation (''logos:///'' @ rest)"
    by (simp add: needs_json_validation_def starts_with_def)
  ultimately show ?thesis by (simp add: validate_json_def)
qed

text \<open>Before \<open>open\<close> every request is refused and nothing changes: reads with \<open>NotReady\<close>,
  writes and patches with \<open>NotReady\<close> or the validator's complaint, which is the only
  middleware the kernel installs.\<close>

theorem closed_table_refuses:
  assumes "\<not> rt_open t" and "rt_middlewares t = [json_validator c]"
  shows "\<exists>e. serve t q s = (s, Inl e) \<and> (e = NotReady \<or> (\<exists>m. e = InvalidJson m)) \<and>
    (\<forall>uri. q = Read uri \<longrightarrow> e = NotReady)"
proof -
  have r: "table_resolve t raw = Inl NotReady" for raw
    using assms(1) by (simp add: table_resolve_def)
  show ?thesis
    by (cases q)
       (auto simp: table_read_def table_write_def table_patch_def dispatch_def r assms(2)
          json_validator_def vfs_middleware_def validate_json_def step_defs split: sum.splits)
qed

theorem closed_table_refuses_witness:
  "\<exists>e. serve (add_middleware (json_validator digit_codec) table_new)
         (Read ''logos://tmp/a'') ([] :: string list) = ([], Inl e) \<and> e = NotReady"
proof -
  have "\<not> rt_open (add_middleware (json_validator digit_codec) table_new)"
    "rt_middlewares (add_middleware (json_validator digit_codec) table_new) = [json_validator digit_codec]"
    by (simp_all add: add_middleware_def table_new_def)
  from closed_table_refuses [OF this, of "Read ''logos://tmp/a''" "[] :: string list"] show ?thesis
    by blast
qed

end
