(* ===== verification/Logos_Session.thy ===== *)
theory Logos_Session
  imports Logos_Vfs
begin

text \<open>
  Session clustering (\<open>logos-session/src/lib.rs\<close>): messages are grouped by their reply chains
  into sessions, kept in two in-memory layers and a third one on disk. Hash maps are maps with an
  iteration order as parameter. The store on disk (LanceDB), the embedding service and the derived
  serialisation are parameters, gathered in the record \<open>lance\<close>; instants are naturals.
\<close>

section \<open>Messages and sessions\<close>

record msg_ref =
  mr_msg_id :: int
  mr_chat_id :: string
  mr_reply_to :: "int option"
  mr_text :: string
  mr_speaker :: string
  mr_ts :: string

record sess =
  ss_id :: string
  ss_chat_id :: string
  ss_messages :: "msg_ref list"
  ss_last_active :: nat

definition sess_new :: "string \<Rightarrow> msg_ref \<Rightarrow> nat \<Rightarrow> sess" where
  "sess_new chat_id first_msg now =
     \<lparr>ss_id = ''s-'' @ chat_id @ ''-'' @ int_str (mr_msg_id first_msg), ss_chat_id = chat_id,
      ss_messages = [first_msg], ss_last_active = now\<rparr>"

definition add_message :: "msg_ref \<Rightarrow> nat \<Rightarrow> sess \<Rightarrow> sess" where
  "add_message msg now s = s\<lparr>ss_messages := ss_messages s @ [msg], ss_last_active := now\<rparr>"

definition msg_to_json :: "msg_ref \<Rightarrow> json" where
  "msg_to_json m = jobj
     [(''msg_id'', JInt (mr_msg_id m)), (''chat_id'', JStr (mr_chat_id m)),
      (''reply_to'', case mr_reply_to m of None \<Rightarrow> JNull | Some r \<Rightarrow> JInt r),
      (''text'', JStr (mr_text m)), (''speaker'', JStr (mr_speaker m)), (''ts'', JStr (mr_ts m))]"

definition sess_to_json :: "(nat \<Rightarrow> string) \<Rightarrow> sess \<Rightarrow> json" where
  "sess_to_json rfc s = jobj
     [(''session_id'', JStr (ss_id s)), (''chat_id'', JStr (ss_chat_id s)),
      (''messages'', JArr (map msg_to_json (ss_messages s))),
      (''last_active'', JStr (rfc (ss_last_active s)))]"

definition text_for_embed :: "sess \<Rightarrow> string" where
  "text_for_embed s = join [CHR 0x0A] (map mr_text (ss_messages s))"

section \<open>The store on disk\<close>

text \<open>
  A batch of rows as the driver returns it: the string columns of a row, and its distance.
  Queries may fail when they are planned, executed or collected.
\<close>

record lance_row =
  lr_cols :: "string \<rightharpoonup> string"
  lr_distance :: "32 word option"

record ('d, 'v) lance =
  lc_open :: "string \<Rightarrow> 'd \<Rightarrow> string + unit"
  lc_delete :: "string \<Rightarrow> string \<Rightarrow> 'd \<Rightarrow> string + 'd"
  lc_select :: "string \<Rightarrow> string \<Rightarrow> 'd \<Rightarrow> string + (string + lance_row list list)"
  lc_nearest :: "string \<Rightarrow> string \<Rightarrow> 'v list \<Rightarrow> 'd \<Rightarrow> string + (string + (string + lance_row list list))"
  lc_batch :: "string \<Rightarrow> ((string \<times> string) list \<times> 'v list) list \<Rightarrow> string + unit"
  lc_add :: "string \<Rightarrow> ((string \<times> string) list \<times> 'v list) list \<Rightarrow> 'd \<Rightarrow> string + 'd"
  lc_embed :: "string \<Rightarrow> 'v list vfs_result"
  lc_ser :: "sess \<Rightarrow> string + string"
  lc_deser :: "string \<Rightarrow> string + sess"
  lc_rfc3339 :: "nat \<Rightarrow> string"
  lc_dim :: nat

definition l2_open :: "('d, 'v) lance \<Rightarrow> string \<Rightarrow> ('d, unit) vfs_step" where
  "l2_open D table d = (d, map_err (\<lambda>e. Io (''open '' @ table @ '': '' @ e)) (lc_open D table d))"

definition l2_delete_rows :: "('d, 'v) lance \<Rightarrow> string \<Rightarrow> string \<Rightarrow> string \<Rightarrow> ('d, unit) vfs_step" where
  "l2_delete_rows D table cond prefix d =
     (case lc_delete D table cond d of Inl e \<Rightarrow> (d, Inl (Io (prefix @ e))) | Inr d' \<Rightarrow> (d', Inr ()))"

definition l2_add_rows ::
  "('d, 'v) lance \<Rightarrow> string \<Rightarrow> ((string \<times> string) list \<times> 'v list) list \<Rightarrow> string \<Rightarrow> ('d, unit) vfs_step" where
  "l2_add_rows D table rows prefix d =
     (case lc_add D table rows d of Inl e \<Rightarrow> (d, Inl (Io (prefix @ e))) | Inr d' \<Rightarrow> (d', Inr ()))"

definition ignoring :: "('s, 'e, 'a) step \<Rightarrow> ('s, 'f, unit) step" where
  "ignoring m = attempt m (\<lambda>_. ret ())"

text \<open>A filter on a column, as the sources print it: the value is not escaped.\<close>

definition col_is :: "string \<Rightarrow> string \<Rightarrow> string" where
  "col_is col v = col @ '' = '' @ [CHR 0x27] @ v @ [CHR 0x27]"

fun l2_forget_msgs :: "('d, 'v) lance \<Rightarrow> msg_ref list \<Rightarrow> ('d, unit) vfs_step" where
  "l2_forget_msgs D [] = ret ()"
| "l2_forget_msgs D (m # ms) =
     andthen (ignoring (l2_delete_rows D ''msg_index'' (col_is ''msg_id'' (int_str (mr_msg_id m))) [])) (\<lambda>_.
     l2_forget_msgs D ms)"

definition l2_update_msg_index :: "('d, 'v) lance \<Rightarrow> sess \<Rightarrow> ('d, unit) vfs_step" where
  "l2_update_msg_index D s =
     andthen (l2_open D ''msg_index'') (\<lambda>_.
     andthen (l2_forget_msgs D (ss_messages s)) (\<lambda>_.
     (let rows = map (\<lambda>m. ([(''msg_id'', int_str (mr_msg_id m)), (''session_id'', ss_id s)], []))
                   (ss_messages s) in
      andthen (lift_result (map_err (\<lambda>e. Io (''msg_index batch: '' @ e)) (lc_batch D ''msg_index'' rows))) (\<lambda>_.
      l2_add_rows D ''msg_index'' rows ''msg_index add: ''))))"

definition l2_persist :: "('d, 'v) lance \<Rightarrow> sess \<Rightarrow> ('d, unit) vfs_step" where
  "l2_persist D s =
     (let text = text_for_embed s in
      andthen (lift_result (lc_embed D text)) (\<lambda>vector.
      andthen (lift_result (map_err (\<lambda>e. Io (''serialize: '' @ e)) (lc_ser D s))) (\<lambda>data.
      andthen (l2_open D ''sessions'') (\<lambda>_.
      andthen (ignoring (l2_delete_rows D ''sessions'' (col_is ''session_id'' (ss_id s)) [])) (\<lambda>_.
      if length vector \<noteq> lc_dim D then
        fail (Io (''embedding dim mismatch: expected '' @ nat_str (lc_dim D) @ '', got ''
          @ nat_str (length vector)))
      else
        (let rows = [([(''session_id'', ss_id s), (''chat_id'', ss_chat_id s), (''data'', data),
                       (''last_active'', lc_rfc3339 D (ss_last_active s)), (''text_for_embed'', text)], vector)] in
         andthen (lift_result (map_err (\<lambda>e. Io (''record batch: '' @ e)) (lc_batch D ''sessions'' rows))) (\<lambda>_.
         andthen (l2_add_rows D ''sessions'' rows ''lancedb add: '') (\<lambda>_.
         l2_update_msg_index D s))))))))"

definition l2_delete :: "('d, 'v) lance \<Rightarrow> string \<Rightarrow> ('d, unit) vfs_step" where
  "l2_delete D sid =
     andthen (l2_open D ''sessions'') (\<lambda>_.
     andthen (l2_delete_rows D ''sessions'' (col_is ''session_id'' sid) ''lancedb delete: '') (\<lambda>_.
     andthen (l2_open D ''msg_index'') (\<lambda>_.
     l2_delete_rows D ''msg_index'' (col_is ''session_id'' sid) ''msg_index delete: '')))"

text \<open>The first row of the first batch, if it has one.\<close>

fun first_row :: "lance_row list list \<Rightarrow> lance_row option" where
  "first_row ((r # rs) # bs) = Some r"
| "first_row _ = None"

definition extract_session :: "('d, 'v) lance \<Rightarrow> lance_row list list \<Rightarrow> sess option vfs_result" where
  "extract_session D batches =
     (case first_row batches of
        None \<Rightarrow> Inr None
      | Some r \<Rightarrow>
          (case lr_cols r ''data'' of
             None \<Rightarrow> Inr None
           | Some json_str \<Rightarrow>
               (case lc_deser D json_str of
                  Inl e \<Rightarrow> Inl (Io (''deserialize: '' @ e))
                | Inr s \<Rightarrow> Inr (Some s))))"

definition l2_query ::
  "string \<Rightarrow> string + (string + lance_row list list) \<Rightarrow> lance_row list list vfs_result" where
  "l2_query prefix r =
     (case r of
        Inl e \<Rightarrow> Inl (Io (prefix @ ''query: '' @ e))
      | Inr (Inl e) \<Rightarrow> Inl (Io (prefix @ ''collect: '' @ e))
      | Inr (Inr bs) \<Rightarrow> Inr bs)"

definition l2_load_by_id :: "('d, 'v) lance \<Rightarrow> string \<Rightarrow> ('d, sess option) vfs_step" where
  "l2_load_by_id D sid =
     andthen (l2_open D ''sessions'') (\<lambda>_ d.
     andthen (lift_result (l2_query [] (lc_select D ''sessions'' (col_is ''session_id'' sid) d))) (\<lambda>bs.
     lift_result (extract_session D bs)) d)"

definition l2_load_by_msg :: "('d, 'v) lance \<Rightarrow> int \<Rightarrow> ('d, sess option) vfs_step" where
  "l2_load_by_msg D msg_id =
     andthen (l2_open D ''msg_index'') (\<lambda>_ d.
     andthen (lift_result (l2_query ''idx '' (lc_select D ''msg_index'' (col_is ''msg_id'' (int_str msg_id)) d))) (\<lambda>bs.
     case first_row bs of
       None \<Rightarrow> ret None
     | Some r \<Rightarrow>
         (case lr_cols r ''session_id'' of None \<Rightarrow> ret None | Some sid \<Rightarrow> l2_load_by_id D sid)) d)"

text \<open>A distance above one half, on the bits of an \<open>f32\<close> (a NaN is not above).\<close>

definition too_far :: "32 word \<Rightarrow> bool" where
  "too_far dist \<longleftrightarrow> 0x3F000000 < dist \<and> dist \<le> 0x7F800000"

definition l2_semantic_search :: "('d, 'v) lance \<Rightarrow> string \<Rightarrow> string \<Rightarrow> ('d, sess option) vfs_step" where
  "l2_semantic_search D text chat_id =
     andthen (lift_result (lc_embed D text)) (\<lambda>vector.
     andthen (l2_open D ''sessions'') (\<lambda>_ d.
     (case lc_nearest D ''sessions'' (col_is ''chat_id'' chat_id) vector d of
        Inl e \<Rightarrow> fail (Io (''vector search: '' @ e))
      | Inr (Inl e) \<Rightarrow> fail (Io (''search exec: '' @ e))
      | Inr (Inr (Inl e)) \<Rightarrow> fail (Io (''search collect: '' @ e))
      | Inr (Inr (Inr bs)) \<Rightarrow>
          (case first_row bs of
             None \<Rightarrow> ret None
           | Some r \<Rightarrow>
               (case lr_distance r of
                  Some dist \<Rightarrow> if too_far dist then ret None else lift_result (extract_session D bs)
                | None \<Rightarrow> lift_result (extract_session D bs)))) d))"

section \<open>The store in memory\<close>

record inner =
  in_msg_index :: "int \<rightharpoonup> string"
  in_l0 :: "string \<rightharpoonup> sess"
  in_l1 :: "string \<rightharpoonup> sess"
  in_l0_capacity :: nat
  in_l1_capacity :: nat

definition store_new :: "nat \<Rightarrow> nat \<Rightarrow> inner" where
  "store_new l0_capacity l1_capacity =
     \<lparr>in_msg_index = Map.empty, in_l0 = Map.empty, in_l1 = Map.empty,
      in_l0_capacity = l0_capacity, in_l1_capacity = l1_capacity\<rparr>"

text \<open>\<open>Iterator::min_by_key\<close> keeps the first of equal minima, \<open>max_by_key\<close> the last of equal maxima.\<close>

fun min_by_key :: "('a \<Rightarrow> 'k :: linorder) \<Rightarrow> 'a list \<Rightarrow> 'a option" where
  "min_by_key f [] = None"
| "min_by_key f (x # xs) =
     (case min_by_key f xs of None \<Rightarrow> Some x | Some y \<Rightarrow> if f x \<le> f y then Some x else Some y)"

fun max_by_key :: "('a \<Rightarrow> 'k :: linorder) \<Rightarrow> 'a list \<Rightarrow> 'a option" where
  "max_by_key f [] = None"
| "max_by_key f (x # xs) =
     (case max_by_key f xs of None \<Rightarrow> Some x | Some y \<Rightarrow> if f x \<le> f y then Some y else Some x)"

type_synonym order = "string set \<Rightarrow> string list"

definition oldest :: "order \<Rightarrow> (string \<rightharpoonup> sess) \<Rightarrow> string option" where
  "oldest ord m = min_by_key (\<lambda>k. ss_last_active (the (m k))) (map_keys ord m)"

text \<open>
  The two loops of \<open>evict_collect\<close>; each round takes one entry out of the layer, so as
  many rounds as the layer has entries are enough (\<open>evict_l0_done\<close>, \<open>evict_l1_done\<close>).
\<close>

fun evict_l0 :: "order \<Rightarrow> nat \<Rightarrow> inner \<Rightarrow> inner" where
  "evict_l0 ord 0 s = s"
| "evict_l0 ord (Suc n) s =
     (if card (dom (in_l0 s)) > in_l0_capacity s then
        (case oldest ord (in_l0 s) of
           None \<Rightarrow> s
         | Some key \<Rightarrow>
             evict_l0 ord n (case in_l0 s key of
                 None \<Rightarrow> s
               | Some x \<Rightarrow> s\<lparr>in_l0 := (in_l0 s)(key := None), in_l1 := (in_l1 s)(key \<mapsto> x)\<rparr>))
      else s)"

fun evict_l1 :: "order \<Rightarrow> nat \<Rightarrow> inner \<Rightarrow> sess list \<Rightarrow> inner \<times> sess list" where
  "evict_l1 ord 0 s evicted = (s, evicted)"
| "evict_l1 ord (Suc n) s evicted =
     (if card (dom (in_l1 s)) > in_l1_capacity s then
        (case oldest ord (in_l1 s) of
           None \<Rightarrow> (s, evicted)
         | Some key \<Rightarrow>
             (case in_l1 s key of
                None \<Rightarrow> evict_l1 ord n s evicted
              | Some x \<Rightarrow>
                  evict_l1 ord n (s\<lparr>in_l1 := (in_l1 s)(key := None),
                     in_msg_index := map_retain (\<lambda>_ v. v \<noteq> key) (in_msg_index s)\<rparr>) (evicted @ [x])))
      else (s, evicted))"

definition evict_collect :: "order \<Rightarrow> inner \<Rightarrow> inner \<times> sess list" where
  "evict_collect ord s =
     (let s1 = evict_l0 ord (card (dom (in_l0 s))) s
      in evict_l1 ord (card (dom (in_l1 s1))) s1 [])"

definition index_msg :: "int \<Rightarrow> string \<Rightarrow> inner \<Rightarrow> inner" where
  "index_msg msg_id sid s = s\<lparr>in_msg_index := (in_msg_index s)(msg_id \<mapsto> sid)\<rparr>"

definition put_l0 :: "sess \<Rightarrow> inner \<Rightarrow> inner" where
  "put_l0 x s = s\<lparr>in_l0 := (in_l0 s)(ss_id x \<mapsto> x)\<rparr>"

text \<open>A session from disk, with the new message, back in the first layer.\<close>

definition restore_session :: "sess \<Rightarrow> msg_ref \<Rightarrow> nat \<Rightarrow> inner \<Rightarrow> inner" where
  "restore_session x msg now s =
     put_l0 (add_message msg now x) (index_msg (mr_msg_id msg) (ss_id x)
       (fold (\<lambda>m. index_msg (mr_msg_id m) (ss_id x)) (ss_messages x) s))"

definition start_session :: "msg_ref \<Rightarrow> nat \<Rightarrow> inner \<Rightarrow> inner" where
  "start_session msg now s =
     (let x = sess_new (mr_chat_id msg) msg now
      in put_l0 x (index_msg (mr_msg_id msg) (ss_id x) s))"

definition promote_to_l0 :: "string \<Rightarrow> inner \<Rightarrow> inner" where
  "promote_to_l0 sid s =
     (case in_l1 s sid of
        None \<Rightarrow> s
      | Some x \<Rightarrow> s\<lparr>in_l1 := (in_l1 s)(sid := None), in_l0 := (in_l0 s)(sid \<mapsto> x)\<rparr>)"

definition join_session :: "string \<Rightarrow> msg_ref \<Rightarrow> nat \<Rightarrow> inner \<Rightarrow> inner" where
  "join_session sid msg now s =
     index_msg (mr_msg_id msg) sid
       (case in_l0 s sid of
          Some x \<Rightarrow> s\<lparr>in_l0 := (in_l0 s)(sid \<mapsto> add_message msg now x)\<rparr>
        | None \<Rightarrow>
            (case in_l1 s sid of
               Some x \<Rightarrow> promote_to_l0 sid (s\<lparr>in_l1 := (in_l1 s)(sid \<mapsto> add_message msg now x)\<rparr>)
             | None \<Rightarrow> s))"

text \<open>The part of \<open>observe\<close> under the lock, given what the disk had.\<close>

definition file_message :: "sess option \<Rightarrow> sess option \<Rightarrow> msg_ref \<Rightarrow> nat \<Rightarrow> inner \<Rightarrow> inner" where
  "file_message page_fault semantic msg now s =
     (case page_fault of
        Some x \<Rightarrow> restore_session x msg now s
      | None \<Rightarrow>
          (case mr_reply_to msg of
             Some reply_to \<Rightarrow>
               (case in_msg_index s reply_to of
                  Some sid \<Rightarrow> join_session sid msg now s
                | None \<Rightarrow> start_session msg now s)
           | None \<Rightarrow>
               (case semantic of
                  Some x \<Rightarrow> restore_session x msg now s
                | None \<Rightarrow> start_session msg now s)))"

text \<open>The store: the layers in memory, and the disk where there is one.\<close>

record 'd session_store =
  st_inner :: inner
  st_l2 :: 'd

definition on_l2 :: "('d, 'e, 'a) step \<Rightarrow> ('d session_store, 'e, 'a) step" where
  "on_l2 m s = (case m (st_l2 s) of (d, r) \<Rightarrow> (s\<lparr>st_l2 := d\<rparr>, r))"

text \<open>An optional session, an error counting as none.\<close>

definition or_none :: "('s, 'e, 'a option) step \<Rightarrow> ('s, 'f, 'a option) step" where
  "or_none m = attempt m (\<lambda>r. ret (unwrap_or r None))"

fun persist_all :: "('d, 'v) lance \<Rightarrow> sess list \<Rightarrow> ('d, 'e, unit) step" where
  "persist_all D [] = ret ()"
| "persist_all D (x # xs) = andthen (ignoring (l2_persist D x)) (\<lambda>_. persist_all D xs)"

definition observe ::
  "order \<Rightarrow> ('d, 'v) lance option \<Rightarrow> nat \<Rightarrow> msg_ref \<Rightarrow> ('d session_store, vfs_error, unit) step" where
  "observe ord l2 now msg =
     andthen (\<lambda>s. (case (mr_reply_to msg, l2) of
         (Some reply_to, Some D) \<Rightarrow>
           if in_msg_index (st_inner s) reply_to = None
           then or_none (on_l2 (l2_load_by_msg D reply_to)) else ret None
       | _ \<Rightarrow> ret None) s) (\<lambda>page_fault.
     andthen (case (page_fault, l2) of
         (Some x, Some D) \<Rightarrow> ignoring (on_l2 (l2_delete D (ss_id x))) | _ \<Rightarrow> ret ()) (\<lambda>_.
     andthen (case (mr_reply_to msg, page_fault, l2) of
         (None, None, Some D) \<Rightarrow> or_none (on_l2 (l2_semantic_search D (mr_text msg) (mr_chat_id msg)))
       | _ \<Rightarrow> ret None) (\<lambda>semantic.
     andthen (case (semantic, l2) of
         (Some x, Some D) \<Rightarrow> ignoring (on_l2 (l2_delete D (ss_id x))) | _ \<Rightarrow> ret ()) (\<lambda>_ s.
     (case evict_collect ord (file_message page_fault semantic msg now (st_inner s)) of
        (i, evicted) \<Rightarrow>
          (case l2 of None \<Rightarrow> ret () | Some D \<Rightarrow> on_l2 (persist_all D evicted)) (s\<lparr>st_inner := i\<rparr>))))))"

definition in_memory :: "inner \<Rightarrow> string \<Rightarrow> sess option" where
  "in_memory s sid = (case in_l0 s sid of Some x \<Rightarrow> Some x | None \<Rightarrow> in_l1 s sid)"

definition get_session_for_msg ::
  "('d, 'v) lance option \<Rightarrow> int \<Rightarrow> ('d session_store, vfs_error, sess option) step" where
  "get_session_for_msg l2 msg_id s =
     (case Option.bind (in_msg_index (st_inner s) msg_id) (in_memory (st_inner s)) of
        Some x \<Rightarrow> ret (Some x)
      | None \<Rightarrow> (case l2 of None \<Rightarrow> ret None | Some D \<Rightarrow> or_none (on_l2 (l2_load_by_msg D msg_id)))) s"

definition get_session ::
  "('d, 'v) lance option \<Rightarrow> string \<Rightarrow> ('d session_store, vfs_error, sess option) step" where
  "get_session l2 sid s =
     (case in_memory (st_inner s) sid of
        Some x \<Rightarrow> ret (Some x)
      | None \<Rightarrow> (case l2 of None \<Rightarrow> ret None | Some D \<Rightarrow> or_none (on_l2 (l2_load_by_id D sid)))) s"

definition get_active_session :: "order \<Rightarrow> string \<Rightarrow> 'd session_store \<Rightarrow> sess option" where
  "get_active_session ord chat_id s =
     max_by_key ss_last_active (filter (\<lambda>x. ss_chat_id x = chat_id) (map_values ord (in_l0 (st_inner s))))"

section \<open>Eviction\<close>

lemma min_by_key_Some:
  "min_by_key f xs = Some x \<Longrightarrow> x \<in> set xs \<and> (\<forall>y \<in> set xs. f x \<le> f y)"
proof (induction xs arbitrary: x)
  case (Cons z xs)
  show ?case
  proof (cases "min_by_key f xs")
    case None
    then have "xs = []" by (cases xs) (auto split: option.splits if_splits)
    with Cons.prems show ?thesis by simp
  next
    case (Some y)
    from Cons.IH [OF this] have y: "y \<in> set xs" "\<forall>v \<in> set xs. f y \<le> f v" by auto
    from Some Cons.prems have "x = (if f z \<le> f y then z else y)" by (simp split: if_splits)
    then show ?thesis
      using y by (cases "f z \<le> f y") (auto intro: order_trans)
  qed
qed simp

lemma min_by_key_None: "min_by_key f xs = None \<longleftrightarrow> xs = []"
  by (cases xs) (auto split: option.splits)

definition is_oldest :: "(string \<rightharpoonup> sess) \<Rightarrow> string \<Rightarrow> sess \<Rightarrow> bool" where
  "is_oldest m key x \<longleftrightarrow> m key = Some x \<and> (\<forall>k y. m k = Some y \<longrightarrow> ss_last_active x \<le> ss_last_active y)"

lemma oldest_cases:
  assumes "enumerates ord" and "finite (dom m)" and "card (dom m) > n"
  obtains key x where "oldest ord m = Some key" "is_oldest m key x"
proof (cases "oldest ord m")
  case None
  then have "dom m = {}"
    using set_map_keys [OF assms(1,2)] by (simp add: oldest_def min_by_key_None)
  with assms(3) show thesis by simp
next
  case (Some key)
  then have "key \<in> dom m" "\<forall>k \<in> dom m. ss_last_active (the (m key)) \<le> ss_last_active (the (m k))"
    using min_by_key_Some set_map_keys [OF assms(1,2)] unfolding oldest_def by metis+
  then show thesis using that [OF Some, of "the (m key)"] by (force simp: is_oldest_def)
qed

definition demote :: "string \<Rightarrow> sess \<Rightarrow> inner \<Rightarrow> inner" where
  "demote key x s = s\<lparr>in_l0 := (in_l0 s)(key := None), in_l1 := (in_l1 s)(key \<mapsto> x)\<rparr>"

definition archive :: "string \<Rightarrow> inner \<Rightarrow> inner" where
  "archive key s = s\<lparr>in_l1 := (in_l1 s)(key := None),
     in_msg_index := map_retain (\<lambda>_ v. v \<noteq> key) (in_msg_index s)\<rparr>"

lemma demote_simps:
  "in_l0 (demote key x s) = (in_l0 s)(key := None)" "in_l1 (demote key x s) = (in_l1 s)(key \<mapsto> x)"
  "in_msg_index (demote key x s) = in_msg_index s"
  "in_l0_capacity (demote key x s) = in_l0_capacity s"
  "in_l1_capacity (demote key x s) = in_l1_capacity s"
  by (simp_all add: demote_def)

lemma archive_simps:
  "in_l0 (archive key s) = in_l0 s" "in_l1 (archive key s) = (in_l1 s)(key := None)"
  "in_msg_index (archive key s) = map_retain (\<lambda>_ v. v \<noteq> key) (in_msg_index s)"
  "in_l0_capacity (archive key s) = in_l0_capacity s"
  "in_l1_capacity (archive key s) = in_l1_capacity s"
  by (simp_all add: archive_def)

lemma capacity_simps [simp]:
  "in_l0_capacity (demote key x s) = in_l0_capacity s" "in_l1_capacity (demote key x s) = in_l1_capacity s"
  "in_l0_capacity (archive key s) = in_l0_capacity s" "in_l1_capacity (archive key s) = in_l1_capacity s"
  by (simp_all add: demote_def archive_def)

lemma dom_demote [simp]: "dom (in_l0 (demote key x s)) = dom (in_l0 s) - {key}"
  unfolding demote_simps dom_fun_upd by simp

lemma dom_archive [simp]: "dom (in_l1 (archive key s)) = dom (in_l1 s) - {key}"
  unfolding archive_simps dom_fun_upd by simp

lemma evict_l0_step:
  "card (dom (in_l0 s)) > in_l0_capacity s \<Longrightarrow> oldest ord (in_l0 s) = Some key \<Longrightarrow>
   is_oldest (in_l0 s) key x \<Longrightarrow> evict_l0 ord (Suc n) s = evict_l0 ord n (demote key x s)"
  by (simp add: is_oldest_def demote_def)

lemma evict_l0_stop: "\<not> card (dom (in_l0 s)) > in_l0_capacity s \<Longrightarrow> evict_l0 ord n s = s"
  by (cases n) auto

lemma evict_l1_step:
  "card (dom (in_l1 s)) > in_l1_capacity s \<Longrightarrow> oldest ord (in_l1 s) = Some key \<Longrightarrow>
   is_oldest (in_l1 s) key x \<Longrightarrow> evict_l1 ord (Suc n) s ev = evict_l1 ord n (archive key s) (ev @ [x])"
  by (simp add: is_oldest_def archive_def)

lemma evict_l1_stop: "\<not> card (dom (in_l1 s)) > in_l1_capacity s \<Longrightarrow> evict_l1 ord n s ev = (s, ev)"
  by (cases n) auto

lemma card_dom_remove: "finite (dom m) \<Longrightarrow> m key = Some x \<Longrightarrow> card (dom (m(key := None))) = card (dom m) - 1"
  by (simp add: domI)

lemma evict_l0_induct:
  assumes "enumerates ord" and "finite (dom (in_l0 s))" and "P s"
    and "\<And>s key x. finite (dom (in_l0 s)) \<Longrightarrow> card (dom (in_l0 s)) > in_l0_capacity s \<Longrightarrow>
           is_oldest (in_l0 s) key x \<Longrightarrow> P s \<Longrightarrow> P (demote key x s)"
  shows "P (evict_l0 ord n s)"
  using assms(2,3)
proof (induction n arbitrary: s)
  case (Suc n)
  show ?case
  proof (cases "card (dom (in_l0 s)) > in_l0_capacity s")
    case True
    obtain key x where o: "oldest ord (in_l0 s) = Some key" "is_oldest (in_l0 s) key x"
      using oldest_cases [OF assms(1) Suc.prems(1) True] .
    have "P (evict_l0 ord n (demote key x s))"
      by (rule Suc.IH) (use Suc.prems assms(4) [OF _ True o(2)] in simp_all)
    then show ?thesis by (simp only: evict_l0_step [OF True o])
  qed (use Suc.prems in \<open>simp add: evict_l0_stop\<close>)
qed simp

lemma evict_l0_done:
  "enumerates ord \<Longrightarrow> finite (dom (in_l0 s)) \<Longrightarrow> card (dom (in_l0 s)) \<le> in_l0_capacity s + n \<Longrightarrow>
   card (dom (in_l0 (evict_l0 ord n s))) \<le> in_l0_capacity s"
proof (induction n arbitrary: s)
  case (Suc n)
  show ?case
  proof (cases "card (dom (in_l0 s)) > in_l0_capacity s")
    case True
    obtain key x where o: "oldest ord (in_l0 s) = Some key" "is_oldest (in_l0 s) key x"
      using oldest_cases [OF Suc.prems(1,2) True] .
    then have "card (dom (in_l0 (demote key x s))) = card (dom (in_l0 s)) - 1"
      using card_dom_remove [OF Suc.prems(2)] unfolding is_oldest_def demote_simps by blast
    moreover have "card (dom (in_l0 s)) > 0" using True by simp
    ultimately have "card (dom (in_l0 s) - {key}) \<le> in_l0_capacity s + n"
      using Suc.prems(3) by simp
    then have "card (dom (in_l0 (evict_l0 ord n (demote key x s)))) \<le> in_l0_capacity (demote key x s)"
      using Suc.prems by (intro Suc.IH) simp_all
    then show ?thesis by (simp only: evict_l0_step [OF True o] demote_simps)
  qed (simp add: evict_l0_stop)
qed simp

lemma evict_l1_induct:
  assumes "enumerates ord" and "finite (dom (in_l1 s))" and "P s ev"
    and "\<And>s ev key x. finite (dom (in_l1 s)) \<Longrightarrow> card (dom (in_l1 s)) > in_l1_capacity s \<Longrightarrow>
           is_oldest (in_l1 s) key x \<Longrightarrow> P s ev \<Longrightarrow> P (archive key s) (ev @ [x])"
  shows "case_prod P (evict_l1 ord n s ev)"
  using assms(2,3)
proof (induction n arbitrary: s ev)
  case (Suc n)
  show ?case
  proof (cases "card (dom (in_l1 s)) > in_l1_capacity s")
    case True
    obtain key x where o: "oldest ord (in_l1 s) = Some key" "is_oldest (in_l1 s) key x"
      using oldest_cases [OF assms(1) Suc.prems(1) True] .
    have "case_prod P (evict_l1 ord n (archive key s) (ev @ [x]))"
      by (rule Suc.IH) (use Suc.prems assms(4) [OF _ True o(2)] in simp_all)
    then show ?thesis by (simp only: evict_l1_step [OF True o])
  qed (use Suc.prems in \<open>simp add: evict_l1_stop\<close>)
qed simp

lemma evict_l1_done:
  "enumerates ord \<Longrightarrow> finite (dom (in_l1 s)) \<Longrightarrow> card (dom (in_l1 s)) \<le> in_l1_capacity s + n \<Longrightarrow>
   card (dom (in_l1 (fst (evict_l1 ord n s ev)))) \<le> in_l1_capacity s"
proof (induction n arbitrary: s ev)
  case (Suc n)
  show ?case
  proof (cases "card (dom (in_l1 s)) > in_l1_capacity s")
    case True
    obtain key x where o: "oldest ord (in_l1 s) = Some key" "is_oldest (in_l1 s) key x"
      using oldest_cases [OF Suc.prems(1,2) True] .
    then have "card (dom (in_l1 (archive key s))) = card (dom (in_l1 s)) - 1"
      using card_dom_remove [OF Suc.prems(2)] unfolding is_oldest_def archive_simps by blast
    moreover have "card (dom (in_l1 s)) > 0" using True by simp
    ultimately have "card (dom (in_l1 s) - {key}) \<le> in_l1_capacity s + n"
      using Suc.prems(3) by simp
    then have "card (dom (in_l1 (fst (evict_l1 ord n (archive key s) (ev @ [x])))))
        \<le> in_l1_capacity (archive key s)"
      using Suc.prems by (intro Suc.IH) simp_all
    then show ?thesis by (simp only: evict_l1_step [OF True o] archive_simps)
  qed (simp add: evict_l1_stop)
qed simp

section \<open>The invariant\<close>

text \<open>
  Finite layers, every session under its own id, and an index that points only at sessions
  in memory; within capacity after every \<open>observe\<close>.
\<close>

definition index_ok :: "inner \<Rightarrow> bool" where
  "index_ok s \<longleftrightarrow> finite (dom (in_l0 s)) \<and> finite (dom (in_l1 s)) \<and>
     (\<forall>k x. in_l0 s k = Some x \<or> in_l1 s k = Some x \<longrightarrow> ss_id x = k) \<and>
     (\<forall>m sid. in_msg_index s m = Some sid \<longrightarrow> sid \<in> dom (in_l0 s) \<union> dom (in_l1 s))"

definition within_capacity :: "inner \<Rightarrow> bool" where
  "within_capacity s \<longleftrightarrow> card (dom (in_l0 s)) \<le> in_l0_capacity s \<and> card (dom (in_l1 s)) \<le> in_l1_capacity s"

lemma index_ok_demote: "index_ok s \<Longrightarrow> in_l0 s key = Some x \<Longrightarrow> index_ok (demote key x s)"
  unfolding index_ok_def demote_simps by (auto split: if_splits)

lemma index_ok_archive: "index_ok s \<Longrightarrow> in_l1 s key = Some x \<Longrightarrow> index_ok (archive key s)"
  unfolding index_ok_def archive_simps by (auto split: if_splits)

lemma evict_collect_ok:
  assumes "enumerates ord" and "index_ok s" and "evict_collect ord s = (s', ev)"
  shows "index_ok s'" and "within_capacity s'"
    and "in_l0_capacity s' = in_l0_capacity s" and "in_l1_capacity s' = in_l1_capacity s"
proof -
  define same where "same t \<longleftrightarrow> index_ok t \<and> in_l0_capacity t = in_l0_capacity s
      \<and> in_l1_capacity t = in_l1_capacity s" for t
  define s1 where "s1 = evict_l0 ord (card (dom (in_l0 s))) s"
  have fin: "finite (dom (in_l0 s))" using assms(2) by (simp add: index_ok_def)
  have 1: "same s1"
    unfolding s1_def using assms(1) fin
    by (rule evict_l0_induct) (use assms(2) in \<open>auto simp: same_def is_oldest_def index_ok_demote\<close>)
  have c0: "card (dom (in_l0 s1)) \<le> in_l0_capacity s"
    unfolding s1_def using assms(1) fin by (rule evict_l0_done) simp
  have fin1: "finite (dom (in_l1 s1))" using 1 by (simp add: same_def index_ok_def)
  have s': "evict_l1 ord (card (dom (in_l1 s1))) s1 [] = (s', ev)"
    using assms(3) by (simp add: evict_collect_def Let_def s1_def)
  have "case_prod (\<lambda>t _. same t \<and> in_l0 t = in_l0 s1) (evict_l1 ord (card (dom (in_l1 s1))) s1 [])"
    using assms(1) fin1
    by (rule evict_l1_induct)
       (use 1 in \<open>auto simp: same_def is_oldest_def index_ok_archive archive_simps\<close>)
  then have 2: "same s'" "in_l0 s' = in_l0 s1" by (simp_all add: s')
  have "card (dom (in_l1 s')) \<le> in_l1_capacity s1"
    using evict_l1_done [OF assms(1) fin1, of "card (dom (in_l1 s1))" "[]"] by (simp add: s')
  then show "within_capacity s'"
    using 1 2 c0 by (simp add: within_capacity_def same_def)
  show "index_ok s'" "in_l0_capacity s' = in_l0_capacity s" "in_l1_capacity s' = in_l1_capacity s"
    using 2(1) by (simp_all add: same_def)
qed

lemma fold_index_msg:
  "in_l0 (fold (\<lambda>m. index_msg (f m) sid) ms s) = in_l0 s"
  "in_l1 (fold (\<lambda>m. index_msg (f m) sid) ms s) = in_l1 s"
  "in_msg_index (fold (\<lambda>m. index_msg (f m) sid) ms s) i =
     (if i \<in> f ` set ms then Some sid else in_msg_index s i)"
  by (induction ms arbitrary: s) (auto simp: index_msg_def)

lemma index_ok_file_message: "index_ok s \<Longrightarrow> index_ok (file_message pf sem msg now s)"
proof -
  assume ok: "index_ok s"
  have r: "index_ok (restore_session x msg now s)" for x
    using ok unfolding index_ok_def restore_session_def
    by (auto simp: put_l0_def index_msg_def fold_index_msg add_message_def split: if_splits)
  have st: "index_ok (start_session msg now s)"
    using ok unfolding index_ok_def start_session_def Let_def
    by (auto simp: put_l0_def index_msg_def sess_new_def split: if_splits)
  have j: "index_ok (join_session sid msg now s)" if "sid \<in> dom (in_l0 s) \<union> dom (in_l1 s)" for sid
    using ok that unfolding index_ok_def join_session_def
    by (auto simp: promote_to_l0_def index_msg_def add_message_def split: option.splits if_splits)
  have i: "in_msg_index s m = Some sid \<Longrightarrow> sid \<in> dom (in_l0 s) \<union> dom (in_l1 s)" for m sid
    using ok unfolding index_ok_def by blast
  show ?thesis
    unfolding file_message_def using r st j [OF i] by (simp split: option.splits)
qed

lemma on_l2_inner [simp]: "st_inner (fst (on_l2 m s)) = st_inner s"
  by (simp add: on_l2_def split: prod.splits)

lemma keeps_inner [keeps_intros]:
  "keeps (\<lambda>s. st_inner s = i) (on_l2 m)"
  "keeps I m' \<Longrightarrow> keeps I (or_none m')" "keeps I m'' \<Longrightarrow> keeps I (ignoring m'')"
  unfolding or_none_def ignoring_def by (auto simp: keeps_def step_defs split: prod.splits)

text \<open>What happens before the lock never fails and leaves the memory alone.\<close>

definition quiet :: "('d session_store, 'e, 'a) step \<Rightarrow> bool" where
  "quiet m \<longleftrightarrow> (\<forall>s. \<exists>s' a. m s = (s', Inr a) \<and> st_inner s' = st_inner s)"

lemma quiet_ret: "quiet (ret a)"
  by (simp add: quiet_def ret_def)

lemma quiet_on_l2: "quiet (or_none (on_l2 m))" "quiet (ignoring (on_l2 m'))"
  by (auto simp: quiet_def or_none_def ignoring_def on_l2_def step_defs split: prod.splits)

lemma quiet_andthen:
  assumes "quiet m"
  obtains a s' where "andthen m k s = k a s'" "st_inner s' = st_inner s"
proof -
  obtain s' a where "m s = (s', Inr a)" "st_inner s' = st_inner s"
    using assms unfolding quiet_def by blast
  then show thesis by (intro that [of a s']) (simp_all add: andthen_def)
qed

lemma persist_all_Inr: "\<exists>d'. persist_all D xs d = (d', Inr ())"
  by (induction xs arbitrary: d) (auto simp: ignoring_def step_defs split: prod.splits)

definition fetch_page :: "('d, 'v) lance option \<Rightarrow> msg_ref \<Rightarrow> ('d session_store, vfs_error, sess option) step" where
  "fetch_page l2 msg s =
     (case (mr_reply_to msg, l2) of
         (Some reply_to, Some D) \<Rightarrow>
           if in_msg_index (st_inner s) reply_to = None
           then or_none (on_l2 (l2_load_by_msg D reply_to)) else ret None
       | _ \<Rightarrow> ret None) s"

definition forget_page :: "('d, 'v) lance option \<Rightarrow> sess option \<Rightarrow> ('d session_store, vfs_error, unit) step" where
  "forget_page l2 page = (case (page, l2) of
     (Some x, Some D) \<Rightarrow> ignoring (on_l2 (l2_delete D (ss_id x))) | _ \<Rightarrow> ret ())"

definition match_page ::
  "('d, 'v) lance option \<Rightarrow> msg_ref \<Rightarrow> sess option \<Rightarrow> ('d session_store, vfs_error, sess option) step" where
  "match_page l2 msg page = (case (mr_reply_to msg, page, l2) of
     (None, None, Some D) \<Rightarrow> or_none (on_l2 (l2_semantic_search D (mr_text msg) (mr_chat_id msg)))
   | _ \<Rightarrow> ret None)"

lemma quiet_pages: "quiet (fetch_page l2 msg)" "quiet (forget_page l2 page)" "quiet (match_page l2 msg page)"
proof -
  have "quiet (\<lambda>s. (if P s then or_none (on_l2 m) else ret None) s)" for P and m :: "('a, vfs_error, 'c option) step"
    using quiet_on_l2(1) [of m] quiet_ret [of None] by (auto simp: quiet_def)
  then show "quiet (fetch_page l2 msg)"
    unfolding fetch_page_def by (cases "mr_reply_to msg"; cases l2) (simp_all add: quiet_ret)
  show "quiet (forget_page l2 page)" "quiet (match_page l2 msg page)"
    unfolding forget_page_def match_page_def
    by (auto simp: quiet_ret quiet_on_l2 split: option.splits)
qed

text \<open>
  The session the disk answers a message with: the one that holds the message it replies to,
  when that is not indexed; the nearest one for a message that replies to none. An error counts as
  no session.
\<close>

definition disk_session :: "('d, 'v) lance option \<Rightarrow> msg_ref \<Rightarrow> 'd session_store \<Rightarrow> sess option" where
  "disk_session l2 msg s =
     (case l2 of
        None \<Rightarrow> None
      | Some D \<Rightarrow>
          (case mr_reply_to msg of
             Some r \<Rightarrow> if in_msg_index (st_inner s) r = None
                then unwrap_or (snd (l2_load_by_msg D r (st_l2 s))) None else None
           | None \<Rightarrow> unwrap_or (snd (l2_semantic_search D (mr_text msg) (mr_chat_id msg) (st_l2 s))) None))"

lemma or_none_l2: "\<exists>s'. or_none (on_l2 m) s = (s', Inr (unwrap_or (snd (m (st_l2 s))) None)) \<and> st_inner s' = st_inner s"
  by (simp add: or_none_def on_l2_def step_defs split: prod.split)

lemma fetch_page_eq:
  "\<exists>s1. fetch_page l2 msg s = (s1, Inr (if mr_reply_to msg = None then None else disk_session l2 msg s)) \<and>
     st_inner s1 = st_inner s \<and> (mr_reply_to msg = None \<longrightarrow> s1 = s)"
proof (cases "mr_reply_to msg")
  case (Some r)
  then show ?thesis
    using or_none_l2 [of "l2_load_by_msg (the l2) r" s]
    by (cases l2; cases "in_msg_index (st_inner s) r") (simp_all add: fetch_page_def disk_session_def ret_def)
qed (simp add: fetch_page_def ret_def)

lemma match_page_eq:
  assumes "mr_reply_to msg = None \<longrightarrow> st_l2 s2 = st_l2 s"
  shows "\<exists>s3. match_page l2 msg (if mr_reply_to msg = None then None else disk_session l2 msg s) s2 =
      (s3, Inr (if mr_reply_to msg = None then disk_session l2 msg s else None)) \<and> st_inner s3 = st_inner s2"
proof (cases "mr_reply_to msg")
  case None
  show ?thesis
  proof (cases l2)
    case (Some D)
    then show ?thesis
      using or_none_l2 [of "l2_semantic_search D (mr_text msg) (mr_chat_id msg)" s2] None assms
      by (simp add: match_page_def disk_session_def)
  qed (use None in \<open>simp add: match_page_def disk_session_def ret_def\<close>)
qed (simp add: match_page_def ret_def)

lemma forget_page_eq:
  "\<exists>s2. forget_page l2 page s = (s2, Inr ()) \<and> st_inner s2 = st_inner s \<and> (page = None \<longrightarrow> s2 = s)"
proof -
  from quiet_pages(2) [of l2 page] obtain s2 where "forget_page l2 page s = (s2, Inr ())" "st_inner s2 = st_inner s"
    unfolding quiet_def by force
  then show ?thesis by (cases page) (auto simp: forget_page_def ret_def)
qed

definition persisted :: "('d, 'v) lance \<Rightarrow> sess list \<Rightarrow> 'd \<Rightarrow> bool" where
  "persisted D ev d' \<longleftrightarrow> (\<exists>d. persist_all D ev d = (d', Inr () :: unit vfs_result))"

lemma observe_inner:
  obtains pf sem where "st_inner (fst (observe ord l2 now msg s)) =
      fst (evict_collect ord (file_message pf sem msg now (st_inner s)))"
    and "snd (observe ord l2 now msg s) = Inr ()"
    and "pf = (if mr_reply_to msg = None then None else disk_session l2 msg s)"
    and "sem = (if mr_reply_to msg = None then disk_session l2 msg s else None)"
    and "\<forall>D. l2 = Some D \<longrightarrow> persisted D (snd (evict_collect ord (file_message pf sem msg now (st_inner s))))
      (st_l2 (fst (observe ord l2 now msg s)))"
proof -
  define pf where "pf = (if mr_reply_to msg = None then None else disk_session l2 msg s)"
  define sem where "sem = (if mr_reply_to msg = None then disk_session l2 msg s else None)"
  obtain s1 where 1: "fetch_page l2 msg s = (s1, Inr pf)" "st_inner s1 = st_inner s" "mr_reply_to msg = None \<longrightarrow> s1 = s"
    using fetch_page_eq unfolding pf_def by blast
  obtain s2 where 2: "forget_page l2 pf s1 = (s2, Inr ())" "st_inner s2 = st_inner s1" "pf = None \<longrightarrow> s2 = s1"
    using forget_page_eq by blast
  have "mr_reply_to msg = None \<longrightarrow> st_l2 s2 = st_l2 s" using 1(3) 2(3) by (simp add: pf_def)
  note this [THEN match_page_eq, of l2, folded pf_def sem_def]
  then obtain s3 where 3: "match_page l2 msg pf s2 = (s3, Inr sem)" "st_inner s3 = st_inner s2" by blast
  obtain s4 where 4: "forget_page l2 sem s3 = (s4, Inr ())" "st_inner s4 = st_inner s3"
    using forget_page_eq by blast
  have inner: "st_inner s4 = st_inner s" using 1 2 3 4 by simp
  obtain i ev where e: "evict_collect ord (file_message pf sem msg now (st_inner s)) = (i, ev)" by fastforce
  have run: "observe ord l2 now msg s = (case l2 of None \<Rightarrow> ret () | Some D \<Rightarrow> on_l2 (persist_all D ev)) (s4\<lparr>st_inner := i\<rparr>)"
    using 1(1) 2(1) 3(1) 4(1) e inner
    unfolding observe_def fetch_page_def [symmetric] forget_page_def [symmetric] match_page_def [symmetric] andthen_def
    by simp
  have "st_inner (fst (observe ord l2 now msg s)) = i \<and> snd (observe ord l2 now msg s) = Inr () \<and>
      (\<forall>D. l2 = Some D \<longrightarrow> persisted D ev (st_l2 (fst (observe ord l2 now msg s))))"
  proof (cases l2)
    case None
    then show ?thesis using run by (simp add: ret_def)
  next
    case (Some D)
    obtain d' where "persist_all D ev (st_l2 s4) = (d', Inr () :: unit vfs_result)"
      using persist_all_Inr by metis
    with Some run show ?thesis by (auto simp: on_l2_def persisted_def)
  qed
  then show thesis using that [of pf sem] e by (simp add: pf_def sem_def)
qed

lemma observe_no_disk:
  "observe ord None now msg s =
     (s\<lparr>st_inner := fst (evict_collect ord (file_message None None msg now (st_inner s)))\<rparr>, Inr ())"
  by (simp add: observe_def step_defs split: option.splits prod.splits)

section \<open>Where a message ends up\<close>

text \<open>
  The session a message belongs to, and the messages that session has before: the disk's where it
  answers, that of the message replied to where this is indexed, a new one otherwise.
\<close>

definition filed_under :: "('d, 'v) lance option \<Rightarrow> msg_ref \<Rightarrow> 'd session_store \<Rightarrow> string \<times> msg_ref list" where
  "filed_under l2 msg s =
     (case disk_session l2 msg s of
        Some y \<Rightarrow> (ss_id y, ss_messages y)
      | None \<Rightarrow>
          (case Option.bind (mr_reply_to msg) (in_msg_index (st_inner s)) of
             Some sid \<Rightarrow> (sid, ss_messages (the (in_memory (st_inner s) sid)))
           | None \<Rightarrow> (''s-'' @ mr_chat_id msg @ ''-'' @ int_str (mr_msg_id msg), [])))"

text \<open>
  What the first loop does: the first layer gives up its least recently active sessions, down
  to its capacity and no further, and no lookup notices.
\<close>

definition demoted :: "inner \<Rightarrow> inner \<Rightarrow> bool" where
  "demoted s t \<longleftrightarrow> in_l0 t \<subseteq>\<^sub>m in_l0 s \<and> finite (dom (in_l1 t)) \<and> in_memory t = in_memory s \<and>
     in_msg_index t = in_msg_index s \<and> in_l1_capacity t = in_l1_capacity s \<and> in_l0_capacity t = in_l0_capacity s \<and>
     min (card (dom (in_l0 s))) (in_l0_capacity s) \<le> card (dom (in_l0 t)) \<and>
     (\<forall>k x k' y. in_l0 s k = Some x \<and> in_l0 t k = None \<and> in_l0 t k' = Some y \<longrightarrow> ss_last_active x \<le> ss_last_active y) \<and>
     (\<forall>k x. in_l1 t k = Some x \<longrightarrow> in_l0 s k = Some x \<or> in_l1 s k = Some x)"

lemma in_memory_demote: "in_l0 s key = Some x \<Longrightarrow> in_memory (demote key x s) = in_memory s"
  by (auto simp: in_memory_def demote_simps fun_eq_iff split: option.splits)

lemma demoted_demote:
  assumes d: "demoted s t" and o: "is_oldest (in_l0 t) key x" and c: "card (dom (in_l0 t)) > in_l0_capacity t"
  shows "demoted s (demote key x t)"
proof -
  have x: "in_l0 t key = Some x" "\<And>k y. in_l0 t k = Some y \<Longrightarrow> ss_last_active x \<le> ss_last_active y"
    using o by (auto simp: is_oldest_def)
  have sub: "in_l0 t \<subseteq>\<^sub>m in_l0 s" using d by (simp add: demoted_def)
  then have xs: "in_l0 s key = Some x" using x(1) by (auto simp: map_le_def dest!: bspec [of _ _ key])
  have "finite (dom (in_l0 t))" using c by (intro card_ge_0_finite) simp
  then have "card (dom (in_l0 (demote key x t))) = card (dom (in_l0 t)) - 1"
    using x(1) unfolding dom_demote by (intro card_Diff_singleton) auto
  then have "min (card (dom (in_l0 s))) (in_l0_capacity s) \<le> card (dom (in_l0 (demote key x t)))"
    using c d by (simp add: demoted_def)
  moreover have "in_l0 (demote key x t) \<subseteq>\<^sub>m in_l0 s"
    using sub by (auto simp: map_le_def demote_simps)
  moreover have "\<forall>k z k' y. in_l0 s k = Some z \<and> in_l0 (demote key x t) k = None \<and> in_l0 (demote key x t) k' = Some y
      \<longrightarrow> ss_last_active z \<le> ss_last_active y"
  proof (intro allI impI, elim conjE)
    fix k z k' y
    assume a: "in_l0 s k = Some z" "in_l0 (demote key x t) k = None" "in_l0 (demote key x t) k' = Some y"
    show "ss_last_active z \<le> ss_last_active y"
    proof (cases "k = key")
      case True
      with a xs x(2) [of k' y] show ?thesis by (auto simp: demote_simps split: if_splits)
    next
      case False
      with a d show ?thesis by (auto simp: demoted_def demote_simps split: if_splits)
    qed
  qed
  moreover have "\<forall>k z. in_l1 (demote key x t) k = Some z \<longrightarrow> in_l0 s k = Some z \<or> in_l1 s k = Some z"
    using d xs by (auto simp: demoted_def demote_simps)
  moreover have "finite (dom (in_l1 (demote key x t)))" "in_memory (demote key x t) = in_memory s"
    "in_msg_index (demote key x t) = in_msg_index s"
    using d in_memory_demote [OF x(1)] by (simp_all add: demoted_def demote_simps)
  ultimately show ?thesis using d unfolding demoted_def capacity_simps by blast
qed

text \<open>
  The second loop: the second layer hands over its least recently active sessions, down to its
  capacity and no further, and the index forgets them.
\<close>

definition handed_over :: "inner \<Rightarrow> inner \<Rightarrow> sess list \<Rightarrow> bool" where
  "handed_over s t ev \<longleftrightarrow> in_l0 t = in_l0 s \<and> in_l1 t \<subseteq>\<^sub>m in_l1 s \<and> in_l1_capacity t = in_l1_capacity s \<and>
     (ev \<noteq> [] \<longrightarrow> in_l1_capacity s \<le> card (dom (in_l1 t))) \<and>
     (\<forall>x \<in> set ev. (\<exists>k. in_l1 s k = Some x \<and> in_l1 t k = None) \<and> (\<forall>k y. in_l1 t k = Some y \<longrightarrow> ss_last_active x \<le> ss_last_active y)) \<and>
     (\<forall>k x. in_memory s k = Some x \<longrightarrow>
        in_memory t k = Some x \<or> x \<in> set ev \<and> in_memory t k = None \<and> (\<forall>m. in_msg_index t m \<noteq> Some k))"

lemma in_memory_archive:
  "in_memory (archive key s) k = (if k = key \<and> in_l0 s key = None then None else in_memory s k)"
  by (auto simp: in_memory_def archive_simps split: option.splits)

lemma handed_over_archive:
  fixes s t :: inner
  assumes h: "handed_over s t ev" and o: "is_oldest (in_l1 t) key x" and c: "card (dom (in_l1 t)) > in_l1_capacity t"
  shows "handed_over s (archive key t) (ev @ [x])"
proof -
  have x: "in_l1 t key = Some x" "\<And>k y. in_l1 t k = Some y \<Longrightarrow> ss_last_active x \<le> ss_last_active y"
    using o by (auto simp: is_oldest_def)
  have sub: "in_l1 t \<subseteq>\<^sub>m in_l1 s" using h by (simp add: handed_over_def)
  then have xs: "in_l1 s key = Some x" using x(1) by (auto simp: map_le_def dest!: bspec [of _ _ key])
  have "finite (dom (in_l1 t))" using c by (intro card_ge_0_finite) simp
  then have "card (dom (in_l1 (archive key t))) = card (dom (in_l1 t)) - 1"
    using x(1) unfolding dom_archive by (intro card_Diff_singleton) auto
  then have "in_l1_capacity s \<le> card (dom (in_l1 (archive key t)))" using c h by (simp add: handed_over_def)
  moreover have "in_l1 (archive key t) \<subseteq>\<^sub>m in_l1 s" using sub by (auto simp: map_le_def archive_simps)
  moreover have "(\<exists>k. in_l1 s k = Some z \<and> in_l1 (archive key t) k = None) \<and>
      (\<forall>k y. in_l1 (archive key t) k = Some y \<longrightarrow> ss_last_active z \<le> ss_last_active y)" if "z \<in> set (ev @ [x])" for z
  proof (cases "z \<in> set ev")
    case True
    then have z: "\<exists>k. in_l1 s k = Some z \<and> in_l1 t k = None" "\<forall>k y. in_l1 t k = Some y \<longrightarrow> ss_last_active z \<le> ss_last_active y"
      using h unfolding handed_over_def by blast+
    then show ?thesis unfolding archive_simps by (metis fun_upd_apply option.distinct(1))
  next
    case False
    with that have "z = x" by simp
    with x xs show ?thesis unfolding archive_simps by (metis fun_upd_apply option.distinct(1))
  qed
  moreover have "in_memory (archive key t) k = Some z \<or> z \<in> set (ev @ [x]) \<and> in_memory (archive key t) k = None \<and>
      (\<forall>m. in_msg_index (archive key t) m \<noteq> Some k)" if "in_memory s k = Some z" for k z
  proof -
    from h that consider "in_memory t k = Some z" | "z \<in> set ev" "in_memory t k = None" "\<forall>m. in_msg_index t m \<noteq> Some k"
      unfolding handed_over_def by (metis (no_types, lifting))
    then show ?thesis
    proof cases
      case 1
      then show ?thesis using x(1) by (auto simp: in_memory_archive archive_simps in_memory_def [of t])
    next
      case 2
      then show ?thesis by (auto simp: in_memory_archive archive_simps)
    qed
  qed
  ultimately show ?thesis using h unfolding handed_over_def archive_simps by simp
qed

lemma evict_collect_spec:
  assumes "enumerates ord" and fin: "finite (dom (in_l0 s))" "finite (dom (in_l1 s))"
    and "evict_collect ord s = (s', ev)"
  obtains s1 where "demoted s s1" "handed_over s1 s' ev"
    "card (dom (in_l0 s')) \<le> in_l0_capacity s" "card (dom (in_l1 s')) \<le> in_l1_capacity s"
proof -
  define s1 where "s1 = evict_l0 ord (card (dom (in_l0 s))) s"
  have 1: "demoted s s1"
    unfolding s1_def using assms(1) fin(1)
    by (rule evict_l0_induct) (use fin in \<open>auto simp: demoted_def [of s s] intro: demoted_demote\<close>)
  have c0: "card (dom (in_l0 s1)) \<le> in_l0_capacity s"
    unfolding s1_def using assms(1) fin(1) by (rule evict_l0_done) simp
  have fin1: "finite (dom (in_l1 s1))" using 1 by (simp add: demoted_def)
  have s': "evict_l1 ord (card (dom (in_l1 s1))) s1 [] = (s', ev)"
    using assms(4) by (simp add: evict_collect_def Let_def s1_def)
  have "case_prod (handed_over s1) (evict_l1 ord (card (dom (in_l1 s1))) s1 [])"
    using assms(1) fin1
    by (rule evict_l1_induct) (auto simp: handed_over_def [of s1 s1] intro: handed_over_archive)
  then have 2: "handed_over s1 s' ev" by (simp add: s')
  have "card (dom (in_l1 s')) \<le> in_l1_capacity s1"
    using evict_l1_done [OF assms(1) fin1, of "card (dom (in_l1 s1))" "[]"] by (simp add: s')
  then have "card (dom (in_l1 s')) \<le> in_l1_capacity s" "card (dom (in_l0 s')) \<le> in_l0_capacity s"
    using 1 2 c0 by (simp_all add: demoted_def handed_over_def)
  with that [OF 1 2] show thesis by blast
qed

lemma evict_collect_keeps:
  assumes "enumerates ord" and "finite (dom (in_l0 s))" "finite (dom (in_l1 s))"
    and "evict_collect ord s = (s', ev)" and "in_memory s k = Some x"
  shows "in_memory s' k = Some x \<or> x \<in> set ev"
proof -
  from evict_collect_spec [OF assms(1-4)] obtain s1 where "demoted s s1" "handed_over s1 s' ev" by metis
  with assms(5) show ?thesis unfolding demoted_def handed_over_def by metis
qed

text \<open>
  A session in the first layer later active than all others there survives the eviction; it is still
  found by its messages unless the second layer has an older copy under its id.
\<close>

lemma newest_stays:
  assumes "enumerates ord" and "finite (dom (in_l0 s))" "finite (dom (in_l1 s))" and "in_l0_capacity s \<ge> 1"
    and x: "in_l0 s sid = Some x" and "\<forall>k y. k \<noteq> sid \<and> in_l0 s k = Some y \<longrightarrow> ss_last_active y < ss_last_active x"
  shows "in_l0 (fst (evict_collect ord s)) sid = Some x"
proof -
  obtain s' ev where run: "evict_collect ord s = (s', ev)" by fastforce
  from evict_collect_spec [OF assms(1-3) run] obtain s1 where d: "demoted s s1" and "handed_over s1 s' ev" by blast
  then have l0: "in_l0 s' = in_l0 s1" by (simp add: handed_over_def)
  have "in_l0 s1 sid \<noteq> None"
  proof
    assume gone: "in_l0 s1 sid = None"
    have "card (dom (in_l0 s)) \<ge> 1" using x assms(2) by (auto simp: Suc_le_eq card_gt_0_iff)
    with d assms(4) have "card (dom (in_l0 s1)) \<ge> 1" by (auto simp: demoted_def)
    then have "dom (in_l0 s1) \<noteq> {}" by (metis card.empty not_one_le_zero)
    then obtain k y where y: "in_l0 s1 k = Some y" by blast
    then have "in_l0 s k = Some y" "k \<noteq> sid" using d gone by (auto simp: demoted_def map_le_def dest!: bspec [of _ _ k])
    moreover have "ss_last_active x \<le> ss_last_active y" using d x gone y unfolding demoted_def by blast
    ultimately show False using assms(6) by force
  qed
  then have "in_l0 s1 sid = Some x" using d x by (auto simp: demoted_def map_le_def dest!: bspec [of _ _ sid])
  with l0 run show ?thesis by simp
qed

lemma index_stays:
  assumes "enumerates ord" and "finite (dom (in_l0 s))" "finite (dom (in_l1 s))"
    and "in_l0 (fst (evict_collect ord s)) sid = Some x" and "in_l1 s sid = None" and "in_msg_index s m = Some sid"
  shows "in_msg_index (fst (evict_collect ord s)) m = Some sid"
proof -
  define s1 where "s1 = evict_l0 ord (card (dom (in_l0 s))) s"
  obtain s' ev where run: "evict_l1 ord (card (dom (in_l1 s1))) s1 [] = (s', ev)" by fastforce
  then have e: "evict_collect ord s = (s', ev)" by (simp add: evict_collect_def Let_def s1_def)
  have d: "demoted s s1"
    unfolding s1_def using assms(1,2)
    by (rule evict_l0_induct) (use assms(3) in \<open>auto simp: demoted_def [of s s] intro: demoted_demote\<close>)
  have fin: "finite (dom (in_l1 s1))" using d by (simp add: demoted_def)
  have "in_l0 s1 = in_l0 s'"
    using evict_l1_induct [OF assms(1) fin, of "\<lambda>t ev. in_l0 t = in_l0 s1" "[]" "card (dom (in_l1 s1))"] run
    by (simp add: archive_simps)
  with e assms(4) have l0: "in_l0 s1 sid = Some x" by simp
  have none: "in_l1 s1 sid = None"
  proof -
    have "in_l0 s1 sid = Some x \<longrightarrow> in_l1 s1 sid = None"
      unfolding s1_def using assms(1,2)
    proof (rule evict_l0_induct)
      show "in_l0 s sid = Some x \<longrightarrow> in_l1 s sid = None" using assms(5) by simp
    next
      fix t :: inner and key z assume "in_l0 t sid = Some x \<longrightarrow> in_l1 t sid = None"
      then show "in_l0 (demote key z t) sid = Some x \<longrightarrow> in_l1 (demote key z t) sid = None"
        by (simp add: demote_simps)
    qed
    with l0 show ?thesis by simp
  qed
  have "case_prod (\<lambda>t _. in_l1 t sid = None \<and> in_msg_index t m = Some sid) (evict_l1 ord (card (dom (in_l1 s1))) s1 [])"
    using assms(1) fin
  proof (rule evict_l1_induct)
    show "in_l1 s1 sid = None \<and> in_msg_index s1 m = Some sid" using none d assms(6) by (simp add: demoted_def)
  next
    fix t :: inner and ev key z assume "is_oldest (in_l1 t) key z" "in_l1 t sid = None \<and> in_msg_index t m = Some sid"
    then show "in_l1 (archive key t) sid = None \<and> in_msg_index (archive key t) m = Some sid"
      by (auto simp: is_oldest_def archive_simps)
  qed
  with run e show ?thesis by simp
qed

text \<open>Under the lock, the message becomes the last one of the session it belongs to.\<close>

definition joins :: "msg_ref \<Rightarrow> inner \<Rightarrow> bool" where
  "joins msg s \<longleftrightarrow> Option.bind (mr_reply_to msg) (in_msg_index s) \<noteq> None"

lemma file_message_spec:
  fixes l2 :: "('d, 'v) lance option"
  assumes ok: "index_ok (st_inner s)" and to: "filed_under l2 msg s = (sid, earlier)"
    and pf: "pf = (if mr_reply_to msg = None then None else disk_session l2 msg s)"
    and sem: "sem = (if mr_reply_to msg = None then disk_session l2 msg s else None)"
  obtains x where "in_l0 (file_message pf sem msg now (st_inner s)) sid = Some x" "ss_id x = sid"
    "ss_last_active x = now" "ss_messages x = earlier @ [msg]"
    "in_msg_index (file_message pf sem msg now (st_inner s)) (mr_msg_id msg) = Some sid"
    "\<forall>k. k \<noteq> sid \<longrightarrow> in_l0 (file_message pf sem msg now (st_inner s)) k = in_l0 (st_inner s) k"
    "in_l1 (st_inner s) sid = None \<or> joins msg (st_inner s) \<and> in_l0 (st_inner s) sid = None \<Longrightarrow>
       in_l1 (file_message pf sem msg now (st_inner s)) sid = None"
proof (cases "disk_session l2 msg s")
  case (Some y)
  let ?f = "restore_session y msg now (st_inner s)"
  from Some pf sem have f: "file_message pf sem msg now (st_inner s) = ?f"
    by (simp add: file_message_def split: option.splits)
  from Some to have y: "sid = ss_id y" "earlier = ss_messages y" by (simp_all add: filed_under_def)
  have "\<not> joins msg (st_inner s)"
    using Some by (auto simp: joins_def disk_session_def bind_eq_Some_conv split: option.splits if_splits)
  then show thesis
    by (intro that [of "add_message msg now y"])
       (auto simp: f y restore_session_def put_l0_def index_msg_def add_message_def fold_index_msg)
next
  case None
  with pf sem have f: "file_message pf sem msg now (st_inner s) = file_message None None msg now (st_inner s)"
    by simp
  show thesis
  proof (cases "Option.bind (mr_reply_to msg) (in_msg_index (st_inner s))")
    case no: None
    then have "file_message None None msg now (st_inner s) = start_session msg now (st_inner s)"
      by (auto simp: file_message_def split: option.splits)
    then show thesis
      using no None to
      by (intro that [of "sess_new (mr_chat_id msg) msg now"])
         (auto simp: f start_session_def Let_def put_l0_def index_msg_def filed_under_def joins_def sess_new_def)
  next
    case t: (Some t)
    then have sid: "t = sid" "earlier = ss_messages (the (in_memory (st_inner s) sid))"
      using to None by (auto simp: filed_under_def)
    have g: "file_message None None msg now (st_inner s) = join_session sid msg now (st_inner s)"
      using t sid by (auto simp: file_message_def split: option.splits)
    have "sid \<in> dom (in_l0 (st_inner s)) \<union> dom (in_l1 (st_inner s))"
      using t sid ok by (auto simp: index_ok_def bind_eq_Some_conv)
    then obtain y where y: "in_memory (st_inner s) sid = Some y" "ss_id y = sid"
      using ok by (force simp: in_memory_def index_ok_def split: option.splits)
    show thesis
      by (rule that [of "add_message msg now y"])
         (use y sid in \<open>auto simp: f g join_session_def index_msg_def promote_to_l0_def
            add_message_def in_memory_def split: option.splits if_splits\<close>)
  qed
qed

fun observe_one :: "order \<Rightarrow> ('d, 'v) lance option \<Rightarrow> 'd session_store \<Rightarrow> nat \<times> msg_ref \<Rightarrow> 'd session_store" where
  "observe_one ord l2 s (now, msg) = fst (observe ord l2 now msg s)"

definition capacities :: "inner \<Rightarrow> nat \<times> nat" where
  "capacities s = (in_l0_capacity s, in_l1_capacity s)"

lemma capacities_parts:
  "capacities (index_msg m sid s) = capacities s" "capacities (put_l0 x s) = capacities s"
  "capacities (promote_to_l0 sid s) = capacities s"
  by (simp_all add: capacities_def index_msg_def put_l0_def promote_to_l0_def split: option.splits)

lemma capacities_fold: "capacities (fold (\<lambda>m. index_msg (f m) sid) ms s) = capacities s"
  by (induction ms arbitrary: s) (simp_all add: capacities_parts)

lemma capacities_file: "capacities (file_message pf sem msg now s) = capacities s"
proof -
  have "capacities (join_session sid msg now s) = capacities s" for sid
    by (simp add: join_session_def capacities_parts split: option.splits) (simp add: capacities_def)
  then show ?thesis
    by (simp add: file_message_def restore_session_def start_session_def Let_def capacities_parts
        capacities_fold split: option.splits)
qed

lemma file_message_capacity:
  "in_l0_capacity (file_message pf sem msg now s) = in_l0_capacity s"
  "in_l1_capacity (file_message pf sem msg now s) = in_l1_capacity s"
  using capacities_file [of pf sem msg now s] by (simp_all add: capacities_def)

interpretation store: machine "observe_one ord l2"
    "\<lambda>s. enumerates ord \<longrightarrow> index_ok (st_inner s) \<and> within_capacity (st_inner s) \<and>
       in_l0_capacity (st_inner s) = c0 \<and> in_l1_capacity (st_inner s) = c1"
  for ord and l2 :: "('d, 'v) lance option" and c0 c1
proof
  fix s :: "'d session_store" and e :: "nat \<times> msg_ref"
  assume I: "enumerates ord \<longrightarrow> index_ok (st_inner s) \<and> within_capacity (st_inner s) \<and>
       in_l0_capacity (st_inner s) = c0 \<and> in_l1_capacity (st_inner s) = c1"
  obtain now msg where e: "e = (now, msg)" by (cases e)
  obtain pf sem where o: "st_inner (fst (observe ord l2 now msg s)) =
      fst (evict_collect ord (file_message pf sem msg now (st_inner s)))"
    using observe_inner by blast
  show "enumerates ord \<longrightarrow> index_ok (st_inner (observe_one ord l2 s e)) \<and>
      within_capacity (st_inner (observe_one ord l2 s e)) \<and>
      in_l0_capacity (st_inner (observe_one ord l2 s e)) = c0 \<and>
      in_l1_capacity (st_inner (observe_one ord l2 s e)) = c1"
  proof
    assume ord: "enumerates ord"
    with I have ok: "index_ok (file_message pf sem msg now (st_inner s))"
      by (simp add: index_ok_file_message)
    show "index_ok (st_inner (observe_one ord l2 s e)) \<and> within_capacity (st_inner (observe_one ord l2 s e)) \<and>
      in_l0_capacity (st_inner (observe_one ord l2 s e)) = c0 \<and>
      in_l1_capacity (st_inner (observe_one ord l2 s e)) = c1"
      using evict_collect_ok [OF ord ok prod.collapse [symmetric]] I ord
      by (simp add: e o file_message_capacity)
  qed
qed

section \<open>Properties\<close>

text \<open>
  Through every run of messages, whatever the disk answers and whatever the clock shows,
  the two layers stay within their capacities and every indexed message points at a session in
  memory that carries that id.
\<close>

theorem session_store_invariant:
  fixes l2 :: "('d, 'v) lance option"
  assumes "enumerates ord" and "st_inner s0 = store_new c0 c1"
    and "s = foldl (observe_one ord l2) s0 msgs"
  shows "card (dom (in_l0 (st_inner s))) \<le> c0 \<and> card (dom (in_l1 (st_inner s))) \<le> c1 \<and>
    (\<forall>m sid. in_msg_index (st_inner s) m = Some sid \<longrightarrow>
       (\<exists>x. in_memory (st_inner s) sid = Some x \<and> ss_id x = sid))"
proof -
  have "index_ok (st_inner s) \<and> within_capacity (st_inner s) \<and>
      in_l0_capacity (st_inner s) = c0 \<and> in_l1_capacity (st_inner s) = c1"
    using store.run_inv [of ord s0 c0 c1 l2 msgs] assms
    by (simp add: index_ok_def within_capacity_def store_new_def)
  then show ?thesis
    by (force simp: index_ok_def within_capacity_def in_memory_def split: option.splits)
qed

definition demo_msg :: "int \<Rightarrow> string \<Rightarrow> int option \<Rightarrow> msg_ref" where
  "demo_msg i chat reply = \<lparr>mr_msg_id = i, mr_chat_id = chat, mr_reply_to = reply, mr_text = ''x'',
     mr_speaker = ''u'', mr_ts = ''0''\<rparr>"

definition demo_store :: "nat \<Rightarrow> nat \<Rightarrow> unit session_store" where
  "demo_store c0 c1 = \<lparr>st_inner = store_new c0 c1, st_l2 = ()\<rparr>"

theorem session_store_invariant_witness:
  "card (dom (in_l0 (st_inner (foldl (observe_one sorted_list_of_set (None :: (unit, nat) lance option))
     (demo_store 1 0) [(1, demo_msg 1 ''a'' None), (2, demo_msg 2 ''a'' None)])))) \<le> 1"
  using session_store_invariant [where ord = sorted_list_of_set and ?s0.0 = "demo_store 1 0"
      and msgs = "[(1, demo_msg 1 ''a'' None), (2, demo_msg 2 ''a'' None)]" and ?c0.0 = 1 and ?c1.0 = 0 and ?l2.0 = "None :: (unit, nat) lance option", OF enumerates_sorted_list _ refl]
  by (simp add: demo_store_def)

text \<open>
  C27: A message is filed and found again. With or without a disk, in every state a run of messages
  leads to: \<open>observe\<close> succeeds and puts the message at the end of the session it belongs to - the
  one the disk answers with (a page fault for the message replied to, the semantic match for a
  message that replies to none), else the one of the message replied to, else a new one - after all
  the messages of that session. The session is in memory afterwards, or among those handed to the
  disk. When the clock is past every other session of the first layer, which has room for one, it
  stays there; it is then found by the message unless an older session of the same id sits in the
  second layer (whose eviction makes the index forget both).
\<close>

theorem observed_message_is_filed:
  fixes l2 :: "('d, 'v) lance option"
  assumes "enumerates ord" and "st_inner s0 = store_new c0 c1" and "s = foldl (observe_one ord l2) s0 msgs"
    and "filed_under l2 msg s = (sid, earlier)"
    and "observe ord l2 now msg s = (s', r)"
  shows "r = Inr () \<and>
    (\<exists>x ev. ss_id x = sid \<and> ss_last_active x = now \<and> ss_messages x = earlier @ [msg] \<and>
       (in_memory (st_inner s') sid = Some x \<or> x \<in> set ev) \<and>
       (\<forall>D. l2 = Some D \<longrightarrow> persisted D ev (st_l2 s')) \<and>
       (c0 \<ge> 1 \<and> (\<forall>k y. k \<noteq> sid \<and> in_l0 (st_inner s) k = Some y \<longrightarrow> ss_last_active y < now) \<longrightarrow>
          in_l0 (st_inner s') sid = Some x \<and>
          (in_l1 (st_inner s) sid = None \<or> joins msg (st_inner s) \<and> in_l0 (st_inner s) sid = None \<longrightarrow>
             get_session_for_msg l2 (mr_msg_id msg) s' = (s', Inr (Some x)))))"
proof -
  have inv: "index_ok (st_inner s)" "in_l0_capacity (st_inner s) = c0"
    using store.run_inv [of ord s0 c0 c1 l2 msgs] assms(1-3)
    by (simp_all add: index_ok_def within_capacity_def store_new_def)
  obtain pf sem where o: "st_inner s' = fst (evict_collect ord (file_message pf sem msg now (st_inner s)))"
      "r = Inr ()" "pf = (if mr_reply_to msg = None then None else disk_session l2 msg s)"
      "sem = (if mr_reply_to msg = None then disk_session l2 msg s else None)"
      "\<forall>D. l2 = Some D \<longrightarrow> persisted D (snd (evict_collect ord (file_message pf sem msg now (st_inner s)))) (st_l2 s')"
    using observe_inner [of ord l2 now msg s] assms(5) by (metis fst_conv snd_conv)
  define f where "f = file_message pf sem msg now (st_inner s)"
  obtain x where x: "in_l0 f sid = Some x" "ss_id x = sid" "ss_last_active x = now" "ss_messages x = earlier @ [msg]"
    and ix: "in_msg_index f (mr_msg_id msg) = Some sid" and others: "\<forall>k. k \<noteq> sid \<longrightarrow> in_l0 f k = in_l0 (st_inner s) k"
    and l1: "in_l1 (st_inner s) sid = None \<or> joins msg (st_inner s) \<and> in_l0 (st_inner s) sid = None \<Longrightarrow> in_l1 f sid = None"
    using file_message_spec [OF inv(1) assms(4) o(3,4), of now] unfolding f_def by metis
  have fin: "finite (dom (in_l0 f))" "finite (dom (in_l1 f))"
    using index_ok_file_message [OF inv(1)] by (simp_all add: f_def index_ok_def)
  obtain ev where e: "evict_collect ord f = (st_inner s', ev)"
    using o(1) by (metis f_def prod.collapse)
  have kept: "in_memory (st_inner s') sid = Some x \<or> x \<in> set ev"
    using evict_collect_keeps [OF assms(1) fin e] x(1) by (simp add: in_memory_def)
  have stays: "in_l0 (st_inner s') sid = Some x"
    if "c0 \<ge> 1" "\<forall>k y. k \<noteq> sid \<and> in_l0 (st_inner s) k = Some y \<longrightarrow> ss_last_active y < now"
  proof -
    have "\<forall>k y. k \<noteq> sid \<and> in_l0 f k = Some y \<longrightarrow> ss_last_active y < ss_last_active x" using that(2) others x(3) by metis
    moreover have "in_l0_capacity f \<ge> 1" using that(1) inv(2) by (simp add: f_def file_message_capacity)
    ultimately show ?thesis using newest_stays [OF assms(1) fin _ x(1)] e by simp
  qed
  have found: "get_session_for_msg l2 (mr_msg_id msg) s' = (s', Inr (Some x))"
    if "in_l0 (st_inner s') sid = Some x" "in_l1 f sid = None"
    using index_stays [OF assms(1) fin _ that(2) ix, of x] that(1) e
    by (simp add: get_session_for_msg_def in_memory_def ret_def)
  show ?thesis
    using o(2) o(5) x(2-4) kept stays found l1 e unfolding f_def [symmetric] by (intro conjI exI [of _ x] exI [of _ ev]) auto
qed

text \<open>Steps for running the store on concrete input: no eviction below capacity.\<close>

lemma evict_collect_idle: "within_capacity s \<Longrightarrow> evict_collect ord s = (s, [])"
  by (simp add: evict_collect_def Let_def within_capacity_def evict_l0_stop evict_l1_stop)

text \<open>A disk that holds one session, for the witnesses.\<close>

definition disk_of :: "sess \<Rightarrow> (unit, nat) lance" where
  "disk_of x = \<lparr>lc_open = (\<lambda>_ _. Inr ()), lc_delete = (\<lambda>_ _ d. Inr d),
     lc_select = (\<lambda>_ _ _. Inr (Inr [[\<lparr>lr_cols = [''session_id'' \<mapsto> ss_id x, ''data'' \<mapsto> []], lr_distance = None\<rparr>]])),
     lc_nearest = (\<lambda>_ _ _ _. Inr (Inr (Inr []))), lc_batch = (\<lambda>_ _. Inr ()), lc_add = (\<lambda>_ _ d. Inr d),
     lc_embed = (\<lambda>_. Inr [0]), lc_ser = (\<lambda>_. Inr []), lc_deser = (\<lambda>_. Inr x), lc_rfc3339 = nat_str, lc_dim = 1\<rparr>"

theorem observed_message_is_filed_witness:
  "\<exists>s'. observe sorted_list_of_set (Some (disk_of (sess_new ''a'' (demo_msg 1 ''a'' None) 5))) 9
       (demo_msg 2 ''a'' (Some 1)) (demo_store 1 1) = (s', Inr ()) \<and>
     (\<exists>x. get_session_for_msg (Some (disk_of (sess_new ''a'' (demo_msg 1 ''a'' None) 5))) 2 s' = (s', Inr (Some x)) \<and>
       ss_messages x = [demo_msg 1 ''a'' None, demo_msg 2 ''a'' (Some 1)])"
proof -
  let ?x = "sess_new ''a'' (demo_msg 1 ''a'' None) 5"
  let ?D = "Some (disk_of ?x)" and ?m = "demo_msg 2 ''a'' (Some 1)"
  obtain s' r where run: "observe sorted_list_of_set ?D 9 ?m (demo_store 1 1) = (s', r)" by fastforce
  have x: "ss_messages ?x = [demo_msg 1 ''a'' None]" by (simp add: sess_new_def)
  have "disk_session ?D ?m (demo_store 1 1) = Some ?x"
    by (simp add: disk_session_def demo_store_def store_new_def demo_msg_def [of 2] disk_of_def l2_load_by_msg_def l2_load_by_id_def
        l2_open_def l2_query_def extract_session_def step_defs)
  then have "filed_under ?D ?m (demo_store 1 1) = (ss_id ?x, ss_messages ?x)" by (simp add: filed_under_def)
  from observed_message_is_filed [OF enumerates_sorted_list _ _ this run, of "demo_store 1 1" 1 1 "[]"] run x
  show ?thesis by (auto simp: demo_store_def store_new_def demo_msg_def)
qed

text \<open>
  C28: Eviction moves the least recently active sessions down, no more than needed, and loses
  nothing: the first layer keeps as many of its sessions as fit, none of them less recently active
  than one that left; the second layer ends within its capacity, and exactly at it when a session is
  handed to the disk; those handed over are sessions of the memory, no more recently active than any
  left in the second layer; every session a lookup found is found afterwards, or handed over
  and then neither found nor indexed. (A session of the second layer hidden by one of the same id in
  the first is found by no lookup: the hiding one may replace it.)
\<close>

theorem eviction_conserves_sessions:
  assumes "enumerates ord" and "finite (dom (in_l0 s))" and "finite (dom (in_l1 s))"
    and "evict_collect ord s = (s', ev)"
  shows "in_l0 s' \<subseteq>\<^sub>m in_l0 s \<and> card (dom (in_l0 s')) = min (card (dom (in_l0 s))) (in_l0_capacity s) \<and>
    (\<forall>k x k' y. in_l0 s k = Some x \<and> in_l0 s' k = None \<and> in_l0 s' k' = Some y \<longrightarrow>
       ss_last_active x \<le> ss_last_active y) \<and>
    card (dom (in_l1 s')) \<le> in_l1_capacity s \<and> (ev \<noteq> [] \<longrightarrow> card (dom (in_l1 s')) = in_l1_capacity s) \<and>
    (\<forall>x \<in> set ev. (\<exists>k. in_l0 s k = Some x \<or> in_l1 s k = Some x) \<and>
       (\<forall>k y. in_l1 s' k = Some y \<longrightarrow> ss_last_active x \<le> ss_last_active y)) \<and>
    (\<forall>k x. in_memory s k = Some x \<longrightarrow>
       in_memory s' k = Some x \<or> x \<in> set ev \<and> in_memory s' k = None \<and> (\<forall>m. in_msg_index s' m \<noteq> Some k))"
proof -
  from evict_collect_spec [OF assms] obtain s1 where d: "demoted s s1" and h: "handed_over s1 s' ev"
    and c: "card (dom (in_l0 s')) \<le> in_l0_capacity s" "card (dom (in_l1 s')) \<le> in_l1_capacity s"
    by metis
  have l0: "in_l0 s' = in_l0 s1" using h by (simp add: handed_over_def)
  have sub: "in_l0 s' \<subseteq>\<^sub>m in_l0 s" using d l0 by (simp add: demoted_def)
  have "card (dom (in_l0 s')) \<le> card (dom (in_l0 s))"
    using assms(2) map_le_implies_dom_le [OF sub] by (rule card_mono)
  moreover have "min (card (dom (in_l0 s))) (in_l0_capacity s) \<le> card (dom (in_l0 s'))"
    using d l0 by (simp only: demoted_def)
  ultimately have "card (dom (in_l0 s')) = min (card (dom (in_l0 s))) (in_l0_capacity s)"
    using c(1) by simp
  moreover have "ev \<noteq> [] \<longrightarrow> card (dom (in_l1 s')) = in_l1_capacity s"
    using d h c(2) by (simp add: demoted_def handed_over_def)
  moreover have "\<forall>x \<in> set ev. (\<exists>k. in_l0 s k = Some x \<or> in_l1 s k = Some x) \<and>
      (\<forall>k y. in_l1 s' k = Some y \<longrightarrow> ss_last_active x \<le> ss_last_active y)"
    using d h unfolding demoted_def handed_over_def by metis
  moreover have "\<forall>k x. in_memory s k = Some x \<longrightarrow>
      in_memory s' k = Some x \<or> x \<in> set ev \<and> in_memory s' k = None \<and> (\<forall>m. in_msg_index s' m \<noteq> Some k)"
    using d h unfolding demoted_def handed_over_def by simp
  moreover have "\<forall>k x k' y. in_l0 s k = Some x \<and> in_l0 s' k = None \<and> in_l0 s' k' = Some y \<longrightarrow>
       ss_last_active x \<le> ss_last_active y"
    using d unfolding l0 demoted_def by blast
  ultimately show ?thesis using sub c(2) by blast
qed

definition demo_full :: inner where
  "demo_full = (store_new 1 1)\<lparr>in_l0 := [''k'' \<mapsto> sess_new ''a'' (demo_msg 1 ''a'' None) 5,
     ''l'' \<mapsto> sess_new ''b'' (demo_msg 2 ''b'' None) 9]\<rparr>"

theorem eviction_conserves_sessions_witness:
  "\<exists>s' ev. evict_collect sorted_list_of_set demo_full = (s', ev) \<and> in_l0 s' = [''l'' \<mapsto> sess_new ''b'' (demo_msg 2 ''b'' None) 9]"
proof -
  let ?x = "sess_new ''a'' (demo_msg 1 ''a'' None) 5" and ?y = "sess_new ''b'' (demo_msg 2 ''b'' None) 9"
  obtain s' ev where run: "evict_collect sorted_list_of_set demo_full = (s', ev)" by fastforce
  have l0: "in_l0 demo_full = [''k'' \<mapsto> ?x, ''l'' \<mapsto> ?y]" "in_l0_capacity demo_full = 1" "in_l1 demo_full = Map.empty"
    by (simp_all add: demo_full_def store_new_def)
  then have fin: "finite (dom (in_l0 demo_full))" "finite (dom (in_l1 demo_full))" by simp_all
  have e: "in_l0 s' \<subseteq>\<^sub>m in_l0 demo_full" "card (dom (in_l0 s')) = 1"
    "\<forall>k x k' y. in_l0 demo_full k = Some x \<and> in_l0 s' k = None \<and> in_l0 s' k' = Some y \<longrightarrow> ss_last_active x \<le> ss_last_active y"
    using eviction_conserves_sessions [OF enumerates_sorted_list fin run] by (simp_all add: l0)
  from e(2) obtain k where k: "dom (in_l0 s') = {k}" by (auto simp: card_1_singleton_iff)
  then obtain z where z: "in_l0 s' k = Some z" by blast
  have none: "in_l0 s' j = None" if "j \<noteq> k" for j using k that by (auto simp: domIff)
  have "in_l0 demo_full k = Some z" using e(1) z k by (simp add: map_le_def)
  then have "k = ''k'' \<and> z = ?x \<or> k = ''l'' \<and> z = ?y" by (auto simp: l0 split: if_splits)
  moreover have "k \<noteq> ''k''"
  proof
    assume kk: "k = ''k''"
    then have "z = ?x" "in_l0 s' ''l'' = None" using \<open>in_l0 demo_full k = Some z\<close> none by (simp_all add: l0)
    with e(3) [rule_format, of "''l''" ?y "''k''" ?x] z kk show False by (simp add: l0 sess_new_def)
  qed
  ultimately have "in_l0 s' = [''l'' \<mapsto> ?y]" using z none by (auto simp: fun_eq_iff)
  with run show ?thesis by blast
qed

text \<open>
  The message index has no chat: when two chats number their messages alike, a reply
  in one chat to its own message 1 is filed in the other chat's session.
\<close>

theorem reply_crosses_chats:
  "let s = foldl (observe_one sorted_list_of_set (None :: (unit, nat) lance option)) (demo_store 8 8)
        [(1, demo_msg 1 ''a'' None), (2, demo_msg 1 ''b'' None), (3, demo_msg 2 ''a'' (Some 1))]
   in in_msg_index (st_inner s) 2 = Some ''s-b-1'' \<and>
      map_option ss_chat_id (in_l0 (st_inner s) ''s-b-1'') = Some ''b'' \<and>
      map_option (map mr_chat_id \<circ> ss_messages) (in_l0 (st_inner s) ''s-b-1'') = Some [''b'', ''a'']"
proof -
  have i: "int_str 1 = ''1''" by code_simp
  show ?thesis
    by (simp add: Let_def demo_store_def observe_no_disk file_message_def start_session_def join_session_def
        put_l0_def index_msg_def store_new_def sess_new_def demo_msg_def i add_message_def
        evict_collect_idle within_capacity_def)
qed

end
