(* ===== verification/Logos_Sql.thy ===== *)
theory Logos_Sql
  imports Logos_Vfs "HOL-Library.Multiset"
begin

text \<open>
  What the components with a SQLite database share. A table is the list of its rows in
  rowid order; a statement is a step whose errors are the driver's messages, and
  \<open>sql\<close> is the driver call with \<open>map_err\<close>: it may also fail for reasons of its own,
  which the fault assignment of the \<open>world\<close> says. The clock is part of the world too, one
  instant per call site. Full-text indexes (FTS5), the formatting of instants (chrono), the
  serialiser and the order in which a statement without \<open>ORDER BY\<close> (or among ties) yields its
  rows belong to libraries and are parameters.
\<close>

section \<open>The world of a call\<close>

record 't world =
  w_flt :: faults
  w_clk :: "string list \<Rightarrow> 't"

definition at_w :: "string \<Rightarrow> 't world \<Rightarrow> 't world" where
  "at_w site w = \<lparr>w_flt = at site (w_flt w), w_clk = (\<lambda>p. w_clk w (site # p))\<rparr>"

definition calm :: "'t world \<Rightarrow> bool" where
  "calm w \<longleftrightarrow> w_flt w = no_faults"

definition still :: "'t \<Rightarrow> 't world" where
  "still t = \<lparr>w_flt = no_faults, w_clk = (\<lambda>_. t)\<rparr>"

lemma calm_at [simp]: "calm w \<Longrightarrow> calm (at_w site w)"
  by (simp add: calm_def at_w_def)

lemma calm_still [simp]: "calm (still t)"
  by (simp add: calm_def still_def)

record 't chrono =
  fmt_secs :: "'t \<Rightarrow> string"
  fmt_minute :: "'t \<Rightarrow> string"
  fmt_hour :: "'t \<Rightarrow> string"
  fmt_compact :: "'t \<Rightarrow> string"

text \<open>The formats \<open>%Y-%m-%dT%H:%M:%SZ\<close>, \<open>%Y-%m-%dT%H:%M\<close>, \<open>%Y-%m-%dT%H\<close>, \<open>%Y%m%dT%H%M%S\<close>.\<close>

section \<open>Statements\<close>

definition sql :: "'t world \<Rightarrow> string \<Rightarrow> string \<Rightarrow> ('s, string, 'a) step \<Rightarrow> ('s, 'a) vfs_step" where
  "sql w label prefix m s =
     (case w_flt w [label] of
        Some e \<Rightarrow> (s, Inl (Sqlite (prefix @ e)))
      | None \<Rightarrow> (case m s of (s', r) \<Rightarrow> (s', map_err (\<lambda>e. Sqlite (prefix @ e)) r)))"

lemma sql_calm: "calm w \<Longrightarrow>
    sql w label prefix m s = (case m s of (s', r) \<Rightarrow> (s', map_err (\<lambda>e. Sqlite (prefix @ e)) r))"
  by (simp add: sql_def calm_def no_faults_def)

lemma fst_sql_calm: "calm w \<Longrightarrow> fst (sql w label prefix m s) = fst (m s)"
  by (simp add: sql_calm split: prod.splits)

lemma keeps_sql [keeps_intros]: "keeps I m \<Longrightarrow> keeps I (sql w label prefix m)"
  by (rule keepsI) (auto simp: sql_def split: option.splits prod.splits dest: keepsD')

lemma sql_okD: "sql w label prefix m s = (s', Inr a) \<Longrightarrow> m s = (s', Inr a)"
  by (auto simp: sql_def split: option.splits prod.splits)

lemma sql_bindE:
  assumes "andthen (sql w label prefix m) k s = (s', Inr b)"
  obtains s1 a where "m s = (s1, Inr a)" "k a s1 = (s', Inr b)"
  using assms by (auto simp: andthen_def split: prod.splits sum.splits dest: sql_okD)

text \<open>\<open>let _ = \<dots>.await\<close> and \<open>if let Err(e) = \<dots> { eprintln! }\<close>.\<close>

definition ignore_errors :: "('s, 'e, 'a) step \<Rightarrow> ('s, 'f, unit) step" where
  "ignore_errors m = attempt m (\<lambda>_. ret ())"

lemma keeps_ignore_errors [keeps_intros]: "keeps I m \<Longrightarrow> keeps I (ignore_errors m)"
  unfolding ignore_errors_def by (intro keeps_intros)

lemma ignore_errors_eq: "ignore_errors m s = (fst (m s), Inr ())"
  by (simp add: ignore_errors_def step_defs split: prod.splits)

lemma andthen_ignore [simp]: "andthen (ignore_errors m) k s = k () (fst (m s))"
  by (simp add: andthen_def ignore_errors_eq)

lemma andthen_ok: "m s = (s', Inr a) \<Longrightarrow> andthen m k s = k a s'"
  by (simp add: andthen_def)

definition row_not_found :: string where
  "row_not_found = ''no rows returned by a query that expected to return at least one row''"

definition unique_failed :: "string \<Rightarrow> string" where
  "unique_failed cols =
     ''error returned from database: (code: 1555) UNIQUE constraint failed: '' @ cols"

text \<open>A table without an integer key numbers a new row one above its largest rowid.\<close>

definition next_rowid :: "nat list \<Rightarrow> nat" where
  "next_rowid ids = Suc (foldr max ids 0)"

lemma less_next_rowid: "i \<in> set ids \<Longrightarrow> i < next_rowid ids"
  by (induction ids) (auto simp: next_rowid_def less_Suc_eq_le max.coboundedI2)

text \<open>\<open>ORDER BY\<close> on rows as the scan yields them.\<close>

definition order_asc :: "('r \<Rightarrow> 'k :: linorder) \<Rightarrow> 'r list \<Rightarrow> 'r list" where
  "order_asc key rows = sort_key key rows"

definition order_desc :: "('r \<Rightarrow> 'k :: linorder) \<Rightarrow> 'r list \<Rightarrow> 'r list" where
  "order_desc key rows = rev (sort_key key rows)"

definition scans :: "('r list \<Rightarrow> 'r list) \<Rightarrow> bool" where
  "scans scan \<longleftrightarrow> (\<forall>rows. mset (scan rows) = mset rows)"

lemma mset_order_asc [simp]: "mset (order_asc key rows) = mset rows"
  by (simp add: order_asc_def)

lemma mset_order_desc [simp]: "mset (order_desc key rows) = mset rows"
  by (simp add: order_desc_def)

lemma scans_id: "scans (\<lambda>rows. rows)"
  by (simp add: scans_def)

lemma set_scan: "scans scan \<Longrightarrow> set (scan rows) = set rows"
  by (metis scans_def set_mset_mset)

lemma sorted_order_desc: "sorted_wrt (\<ge>) (map key (order_desc key rows))"
  by (simp add: order_desc_def rev_map [symmetric] sorted_wrt_rev)

lemma sorted_order_asc: "sorted_wrt (\<le>) (map key (order_asc key rows))"
  by (simp add: order_asc_def)

section \<open>Full-text indexes\<close>

text \<open>
  An FTS5 table over an external content table: rows are added and removed by rowid with
  the texts of the indexed columns; a match yields rowids, best rank first.
\<close>

record 'f fts =
  fts_insert :: "nat \<Rightarrow> string list \<Rightarrow> 'f \<Rightarrow> string + 'f"
  fts_delete :: "nat \<Rightarrow> string list \<Rightarrow> 'f \<Rightarrow> string + 'f"
  fts_match :: "string \<Rightarrow> 'f \<Rightarrow> string + nat list"

text \<open>The escape the sources apply to a query: a quoted phrase, quotes in it doubled.\<close>

definition fts_escape :: "string \<Rightarrow> string" where
  "fts_escape q = ''\"'' @ replace_all ''\"'' ''\"\"'' q @ ''\"''"

text \<open>How FTS5 reads a quoted phrase: up to a quote that is not doubled.\<close>

fun fts_phrase :: "string \<Rightarrow> (string \<times> string) option" where
  "fts_phrase [] = None"
| "fts_phrase [c] = (if c = CHR 0x22 then Some ([], []) else None)"
| "fts_phrase (c # d # s) =
     (if c = CHR 0x22
      then (if d = CHR 0x22 then map_option (\<lambda>(w, r). (c # w, r)) (fts_phrase s)
            else Some ([], d # s))
      else map_option (\<lambda>(w, r). (c # w, r)) (fts_phrase (d # s)))"

lemma replace_quote_Cons:
  "replace_all ''\"'' r (c # s) = (if c = CHR 0x22 then r @ replace_all ''\"'' r s
     else c # replace_all ''\"'' r s)"
  by (simp add: replace_all_hit [of "''\"''" r s, simplified] replace_all_miss starts_with_def)

lemma fts_phrase_plain: "c \<noteq> CHR 0x22 \<Longrightarrow> fts_phrase (c # s) = map_option (\<lambda>(w, r). (c # w, r)) (fts_phrase s)"
  by (cases s) auto

lemma fts_escape_phrase: "fts_phrase (replace_all ''\"'' ''\"\"'' q @ ''\"'') = Some (q, [])"
  by (induction q) (auto simp: replace_quote_Cons fts_phrase_plain)

end
