(* ===== verification/Logos_Memory.thy ===== *)
theory Logos_Memory
  imports Logos_Session Logos_Sql
begin

text \<open>
  The crate \<open>logos-mm\<close>: the messages of a group (\<open>messages.rs\<close>), the plugins \<open>summary\<close>
  (\<open>summaries.rs\<close>) and \<open>graph\<close> (\<open>graph.rs\<close>), the views (\<open>views.rs\<close>) and the namespace
  \<open>memory\<close> that dispatches to them (\<open>lib.rs\<close>). Each group has a database of its own, opened on
  first use; a group is its chat id, so two ids that spell one file in different ways are not
  identified. The full-text index, the scan order and the formatting of instants are parameters.
\<close>

section \<open>Rows, databases, libraries\<close>

record msg_row =
  ms_msg_id :: int
  ms_ts :: string
  ms_chat_id :: string
  ms_speaker :: string
  ms_reply_to :: "int option"
  ms_text :: string
  ms_mentions :: string

record summary_row =
  sm_id :: nat
  sm_chat_id :: string
  sm_layer :: string
  sm_period_start :: string
  sm_period_end :: string
  sm_source_refs :: string
  sm_content :: string
  sm_generated_at :: string

record triple_row =
  tr_subject :: string
  tr_predicate :: string
  tr_object :: string
  tr_source_refs :: string
  tr_updated_at :: string

text \<open>Messages are kept in rowid order, the other tables in the order of insertion.\<close>

record 'f group_db =
  gd_messages :: "msg_row list"
  gd_fts :: 'f
  gd_summaries :: "summary_row list"
  gd_triples :: "triple_row list"

record ('f, 'd) memory =
  mm_open :: "string set"
  mm_groups :: "string \<rightharpoonup> 'f group_db"
  mm_sessions :: "'d session_store"

text \<open>
  The libraries: the index over \<open>messages\<close> (rowids are the message ids), the id SQLite picks
  when the largest one is taken, the scans.
\<close>

record 'f msg_fts =
  mf_new :: 'f
  mf_insert :: "int \<Rightarrow> string \<Rightarrow> 'f \<Rightarrow> string + 'f"
  mf_match :: "string \<Rightarrow> 'f \<Rightarrow> string + int list"

record ('f, 't) mm_lib =
  ml_codec :: codec
  ml_chrono :: "'t chrono"
  ml_fts :: "'f msg_fts"
  ml_spare_id :: "int list \<Rightarrow> string + int"
  ml_scan_summaries :: "summary_row list \<Rightarrow> summary_row list"
  ml_scan_triples :: "triple_row list \<Rightarrow> triple_row list"
  ml_root :: string

type_synonym ('f, 'a) group_step = "('f group_db, 'a) vfs_step"

definition on_group :: "string \<Rightarrow> ('f, 'a) group_step \<Rightarrow> (('f, 'd) memory, 'a) vfs_step" where
  "on_group chat_id m s =
     (case mm_groups s chat_id of
        None \<Rightarrow> (s, Inl (Sqlite ''no such database''))
      | Some g \<Rightarrow> (case m g of (g', r) \<Rightarrow> (s\<lparr>mm_groups := (mm_groups s)(chat_id \<mapsto> g')\<rparr>, r)))"

definition now_iso8601 :: "('f, 't) mm_lib \<Rightarrow> 't world \<Rightarrow> string" where
  "now_iso8601 L w = fmt_secs (ml_chrono L) (w_clk w [''now''])"

section \<open>Messages\<close>

definition empty_group :: "('f, 't) mm_lib \<Rightarrow> 'f group_db" where
  "empty_group L = \<lparr>gd_messages = [], gd_fts = mf_new (ml_fts L), gd_summaries = [], gd_triples = []\<rparr>"

definition msg_init_schema :: "'t world \<Rightarrow> ('s, unit) vfs_step" where
  "msg_init_schema w =
     andthen (sql w ''messages'' ''init messages schema: '' (ret ())) (\<lambda>_.
     andthen (sql w ''chat_ts'' ''init messages index: '' (ret ())) (\<lambda>_.
     andthen (sql w ''reply_to'' ''init messages index: '' (ret ())) (\<lambda>_.
     sql w ''messages_fts'' ''init fts: '' (ret ()))))"

text \<open>
  \<open>pool\<close>: a group that is not open yet is opened, which creates its database and its tables
  where they are missing.
\<close>

definition open_group :: "('f, 't) mm_lib \<Rightarrow> string \<Rightarrow> ('f, 'd) memory \<Rightarrow> ('f, 'd) memory" where
  "open_group L chat_id s = s\<lparr>mm_open := insert chat_id (mm_open s),
     mm_groups := (mm_groups s)(chat_id \<mapsto> opt_or (mm_groups s chat_id) (empty_group L))\<rparr>"

definition pool :: "('f, 't) mm_lib \<Rightarrow> 't world \<Rightarrow> string \<Rightarrow> (('f, 'd) memory, unit) vfs_step" where
  "pool L w chat_id s =
     (if chat_id \<in> mm_open s then (s, Inr ())
      else
        andthen (sql w ''open'' (''open '' @ ml_root L @ ''/'' @ chat_id @ ''.db: '') (ret ())) (\<lambda>_.
        andthen (msg_init_schema w) (\<lambda>_. modify (open_group L chat_id))) s)"

definition msg_row_to_json :: "msg_row \<Rightarrow> json" where
  "msg_row_to_json r = jobj
     [(''msg_id'', JInt (ms_msg_id r)), (''ts'', JStr (ms_ts r)), (''chat_id'', JStr (ms_chat_id r)),
      (''speaker'', JStr (ms_speaker r)),
      (''reply_to'', (case ms_reply_to r of None \<Rightarrow> JNull | Some i \<Rightarrow> JInt i)),
      (''text'', JStr (ms_text r)), (''mentions'', JStr (ms_mentions r))]"

definition msg_lookup :: "int \<Rightarrow> 'f group_db \<Rightarrow> msg_row option" where
  "msg_lookup i g = find (\<lambda>r. ms_msg_id r = i) (gd_messages g)"

text \<open>The rowid of a row inserted without one.\<close>

definition next_msg_id :: "('f, 't) mm_lib \<Rightarrow> 'f group_db \<Rightarrow> string + int" where
  "next_msg_id L g =
     (let ids = map ms_msg_id (gd_messages g) in
      if ids = [] then Inr 1
      else if Max (set ids) < 2 ^ 63 - 1 then Inr (Max (set ids) + 1)
      else ml_spare_id L ids)"

definition insert_msg_row ::
  "('f, 't) mm_lib \<Rightarrow> int option \<Rightarrow> msg_row \<Rightarrow> ('f group_db, string, int) step" where
  "insert_msg_row L user_msg_id r g =
     (case (case user_msg_id of Some i \<Rightarrow> Inr i | None \<Rightarrow> next_msg_id L g) of
        Inl e \<Rightarrow> (g, Inl e)
      | Inr i \<Rightarrow>
          if msg_lookup i g \<noteq> None then (g, Inl (unique_failed ''messages.msg_id''))
          else (g\<lparr>gd_messages := insort_key ms_msg_id (r\<lparr>ms_msg_id := i\<rparr>) (gd_messages g)\<rparr>, Inr i))"

definition insert_msg_fts :: "('f, 't) mm_lib \<Rightarrow> int \<Rightarrow> string \<Rightarrow> ('f group_db, string, unit) step" where
  "insert_msg_fts L i t g =
     (case mf_insert (ml_fts L) i t (gd_fts g) of
        Inl e \<Rightarrow> (g, Inl e)
      | Inr x \<Rightarrow> (g\<lparr>gd_fts := x\<rparr>, Inr ()))"

definition new_msg_row :: "codec \<Rightarrow> string \<Rightarrow> string \<Rightarrow> json \<Rightarrow> msg_row" where
  "new_msg_row c now chat_id val =
     \<lparr>ms_msg_id = 0, ms_ts = str_field val ''ts'' now, ms_chat_id = chat_id,
      ms_speaker = str_field val ''speaker'' [], ms_reply_to = as_i64 (jget val ''reply_to''),
      ms_text = str_field val ''text'' [],
      ms_mentions = (case as_array (jget val ''mentions'') of None \<Rightarrow> ''[]'' | Some a \<Rightarrow> to_str c (JArr a))\<rparr>"

definition msg_insert ::
  "('f, 't) mm_lib \<Rightarrow> 't world \<Rightarrow> string \<Rightarrow> string \<Rightarrow> (('f, 'd) memory, int) vfs_step" where
  "msg_insert L w chat_id content =
     andthen (lift_result (map_err InvalidJson (from_str (ml_codec L) content))) (\<lambda>val.
     andthen (pool L (at_w ''pool'' w) chat_id) (\<lambda>_.
     on_group chat_id (
       (let r = new_msg_row (ml_codec L) (now_iso8601 L w) chat_id val in
        andthen (sql w ''insert'' ''insert: '' (insert_msg_row L (as_i64 (jget val ''msg_id'')) r)) (\<lambda>msg_id.
        andthen (sql w ''fts'' ''fts sync: '' (insert_msg_fts L msg_id (ms_text r))) (\<lambda>_.
        ret msg_id))))))"

definition get_by_id ::
  "('f, 't) mm_lib \<Rightarrow> 't world \<Rightarrow> string \<Rightarrow> int \<Rightarrow> (('f, 'd) memory, string option) vfs_step" where
  "get_by_id L w chat_id msg_id =
     andthen (pool L (at_w ''pool'' w) chat_id) (\<lambda>_.
     andthen (on_group chat_id (sql w ''get'' [] (query (msg_lookup msg_id)))) (\<lambda>row.
     ret (map_option (\<lambda>r. to_str (ml_codec L) (msg_row_to_json r)) row)))"

definition FTS_MAX_LIMIT :: int where "FTS_MAX_LIMIT = 50"
definition RANGE_FETCH_MAX_LIMIT :: int where "RANGE_FETCH_MAX_LIMIT = 200"

text \<open>The join of the index's hits with the messages, in rank order.\<close>

definition fts_rows :: "('f, 't) mm_lib \<Rightarrow> string \<Rightarrow> int \<Rightarrow> ('f group_db, string, msg_row list) step" where
  "fts_rows L q limit g =
     (g, (case mf_match (ml_fts L) q (gd_fts g) of
            Inl e \<Rightarrow> Inl e
          | Inr ids \<Rightarrow> Inr (take (nat limit) (List.map_filter (\<lambda>i. msg_lookup i g) ids))))"

definition search_fts ::
  "('f, 't) mm_lib \<Rightarrow> 't world \<Rightarrow> string \<Rightarrow> string \<Rightarrow> int \<Rightarrow> (('f, 'd) memory, string) vfs_step" where
  "search_fts L w chat_id q limit =
     andthen (pool L (at_w ''pool'' w) chat_id) (\<lambda>_.
     andthen (on_group chat_id (sql w ''search'' []
        (fts_rows L (fts_escape q) (clamp 1 FTS_MAX_LIMIT limit)))) (\<lambda>rows.
     ret (to_str (ml_codec L) (JArr (map msg_row_to_json rows)))))"

fun range_of_json :: "json \<Rightarrow> (int \<times> int) option" where
  "range_of_json r =
     Option.bind (as_array r) (\<lambda>arr.
     Option.bind (get_at arr 0) (\<lambda>s. Option.bind (as_i64 s) (\<lambda>s.
     Option.bind (get_at arr 1) (\<lambda>e. Option.bind (as_i64 e) (\<lambda>e. Some (s, e))))))"

definition in_ranges :: "(int \<times> int) list \<Rightarrow> int \<Rightarrow> bool" where
  "in_ranges ranges i \<longleftrightarrow> (\<exists>(s, e) \<in> set ranges. s \<le> i \<and> i \<le> e)"

definition range_rows :: "(int \<times> int) list \<Rightarrow> int \<Rightarrow> int \<Rightarrow> 'f group_db \<Rightarrow> msg_row list" where
  "range_rows ranges limit offset g =
     take (nat limit) (drop (nat offset)
       (order_asc ms_msg_id (filter (\<lambda>r. in_ranges ranges (ms_msg_id r)) (gd_messages g))))"

definition range_fetch ::
  "('f, 't) mm_lib \<Rightarrow> 't world \<Rightarrow> string \<Rightarrow> string \<Rightarrow> (('f, 'd) memory, string) vfs_step" where
  "range_fetch L w chat_id params =
     andthen (lift_result (map_err InvalidJson (from_str (ml_codec L) params))) (\<lambda>val.
     (let ranges = List.map_filter range_of_json (opt_or (as_array (jget val ''ranges'')) []) in
      if ranges = [] then ret ''[]''
      else
        (let limit = clamp 1 RANGE_FETCH_MAX_LIMIT (opt_or (as_i64 (jget val ''limit'')) 50);
             offset = max 0 (opt_or (as_i64 (jget val ''offset'')) 0) in
         andthen (pool L (at_w ''pool'' w) chat_id) (\<lambda>_.
         andthen (on_group chat_id (sql w ''range'' [] (query (range_rows ranges limit offset)))) (\<lambda>rows.
         ret (to_str (ml_codec L) (JArr (map msg_row_to_json rows))))))))"

section \<open>Views\<close>

definition view_json :: "msg_row \<Rightarrow> json" where
  "view_json r = jobj
     [(''msg_id'', JInt (ms_msg_id r)), (''ts'', JStr (ms_ts r)), (''speaker'', JStr (ms_speaker r)),
      (''text'', JStr (ms_text r)),
      (''reply_to'', (case ms_reply_to r of None \<Rightarrow> JNull | Some i \<Rightarrow> JInt i))]"

definition view_limit :: "json \<Rightarrow> int" where
  "view_limit val = clamp 1 200 (opt_or (as_i64 (jget val ''limit'')) 20)"

definition latest_rows :: "(msg_row \<Rightarrow> bool) \<Rightarrow> int \<Rightarrow> 'f group_db \<Rightarrow> msg_row list" where
  "latest_rows P limit g = take (nat limit) (order_desc ms_msg_id (filter P (gd_messages g)))"

definition by_speaker_query ::
  "('f, 't) mm_lib \<Rightarrow> 't world \<Rightarrow> string \<Rightarrow> string \<Rightarrow> ('f, string) group_step" where
  "by_speaker_query L w chat_id params =
     andthen (lift_result (map_err InvalidJson (from_str (ml_codec L) params))) (\<lambda>val.
     (let speaker = str_field val ''speaker'' [] in
      andthen (sql w ''by_speaker'' [] (query (latest_rows
        (\<lambda>r. ms_chat_id r = chat_id \<and> ms_speaker r = speaker) (view_limit val)))) (\<lambda>rows.
      ret (to_str (ml_codec L) (JArr (map view_json rows))))))"

definition recent_query ::
  "('f, 't) mm_lib \<Rightarrow> 't world \<Rightarrow> string \<Rightarrow> string \<Rightarrow> ('f, string) group_step" where
  "recent_query L w chat_id params =
     (let val = unwrap_or (from_str (ml_codec L) params) (JObj []) in
      andthen (sql w ''recent'' [] (query (latest_rows (\<lambda>r. ms_chat_id r = chat_id) (view_limit val)))) (\<lambda>rows.
      ret (to_str (ml_codec L) (JArr (map view_json rows)))))"

text \<open>The views \<open>init\<close> mounts, by name.\<close>

definition view_of ::
  "('f, 't) mm_lib \<Rightarrow> 't world \<Rightarrow> string \<Rightarrow> (string \<Rightarrow> string \<Rightarrow> ('f, string) group_step) option" where
  "view_of L w name =
     (if name = ''by_speaker'' then Some (by_speaker_query L w)
      else if name = ''recent'' then Some (recent_query L w)
      else None)"

section \<open>Summaries\<close>

text \<open>\<open>LIKE\<close>: any text for a percent sign, one character for an underscore, ASCII letters alike in either case.\<close>

definition fold_case :: "char \<Rightarrow> char" where
  "fold_case c = (if CHR ''A'' \<le> c \<and> c \<le> CHR ''Z'' then char_of (of_char c + 32 :: nat) else c)"

fun like :: "string \<Rightarrow> string \<Rightarrow> bool" where
  "like [] s \<longleftrightarrow> s = []"
| "like (p # ps) s \<longleftrightarrow>
     (if p = CHR ''%'' then (case s of [] \<Rightarrow> like ps [] | c # t \<Rightarrow> like ps (c # t) \<or> like (p # ps) t)
      else if p = CHR ''_'' then (case s of [] \<Rightarrow> False | c # t \<Rightarrow> like ps (dropWhile continuation t))
      else (case s of [] \<Rightarrow> False | c # t \<Rightarrow> fold_case c = fold_case p \<and> like ps t))"

definition summary_row_to_json :: "summary_row \<Rightarrow> json" where
  "summary_row_to_json r = jobj
     [(''id'', JInt (int (sm_id r))), (''chat_id'', JStr (sm_chat_id r)), (''layer'', JStr (sm_layer r)),
      (''period_start'', JStr (sm_period_start r)), (''period_end'', JStr (sm_period_end r)),
      (''source_refs'', JStr (sm_source_refs r)), (''content'', JStr (sm_content r)),
      (''generated_at'', JStr (sm_generated_at r))]"

definition new_summary_row :: "codec \<Rightarrow> string \<Rightarrow> string \<Rightarrow> json \<Rightarrow> summary_row" where
  "new_summary_row c now chat_id val =
     \<lparr>sm_id = 0, sm_chat_id = chat_id, sm_layer = str_field val ''layer'' [],
      sm_period_start = str_field val ''period_start'' [],
      sm_period_end = str_field val ''period_end'' (str_field val ''period_start'' []),
      sm_source_refs = (case jget val ''source_refs'' of JStr s \<Rightarrow> s | v \<Rightarrow> to_str c v),
      sm_content = str_field val ''content'' [], sm_generated_at = now\<rparr>"

definition insert_summary_row :: "summary_row \<Rightarrow> ('f group_db, string, unit) step" where
  "insert_summary_row r g =
     (g\<lparr>gd_summaries := gd_summaries g @ [r\<lparr>sm_id := next_rowid (map sm_id (gd_summaries g))\<rparr>]\<rparr>, Inr ())"

definition summary_write ::
  "('f, 't) mm_lib \<Rightarrow> 't world \<Rightarrow> string \<Rightarrow> string \<Rightarrow> ('f, unit) group_step" where
  "summary_write L w chat_id content =
     andthen (lift_result (map_err InvalidJson (from_str (ml_codec L) content))) (\<lambda>val.
     sql w ''insert summary'' ''insert summary: ''
       (insert_summary_row (new_summary_row (ml_codec L) (now_iso8601 L w) chat_id val)))"

definition first_of :: "'a list \<Rightarrow> 'a option" where
  "first_of xs = get_at xs 0"

definition summary_row_of :: "('f, 't) mm_lib \<Rightarrow> string \<Rightarrow> string \<Rightarrow> string \<Rightarrow> 'f group_db \<Rightarrow> summary_row option" where
  "summary_row_of L chat_id layer period_key g =
     (let rows = filter (\<lambda>r. sm_chat_id r = chat_id \<and> sm_layer r = layer)
                   (ml_scan_summaries L (gd_summaries g)) in
      first_of (if period_key = ''latest'' then order_desc sm_period_start rows
        else if layer = ''long'' then
          order_desc sm_period_start (filter (\<lambda>r. like (period_key @ ''%'') (sm_period_start r)) rows)
        else filter (\<lambda>r. sm_period_start r = period_key) rows))"

definition summary_read ::
  "('f, 't) mm_lib \<Rightarrow> 't world \<Rightarrow> string \<Rightarrow> string \<Rightarrow> string \<Rightarrow> ('f, string option) group_step" where
  "summary_read L w chat_id layer period_key =
     andthen (sql w ''read summary'' [] (query (summary_row_of L chat_id layer period_key))) (\<lambda>row.
     ret (map_option (\<lambda>r. to_str (ml_codec L) (summary_row_to_json r)) row))"

text \<open>The plugin trait, and the summary tree as a plugin.\<close>

record 'f mem_plugin =
  mp_name :: string
  mp_docs :: string
  mp_init_schema :: "('f, unit) group_step"
  mp_read :: "string \<Rightarrow> string list \<Rightarrow> ('f, string) group_step"
  mp_write :: "string \<Rightarrow> string list \<Rightarrow> string \<Rightarrow> ('f, unit) group_step"
  mp_patch :: "string \<Rightarrow> string list \<Rightarrow> string \<Rightarrow> ('f, unit) group_step"

definition hierarchical_read ::
  "('f, 't) mm_lib \<Rightarrow> 't world \<Rightarrow> string \<Rightarrow> string list \<Rightarrow> ('f, string) group_step" where
  "hierarchical_read L w chat_id path =
     andthen (lift_result (ok_or (get_at path 0) (InvalidPath ''missing layer''))) (\<lambda>layer.
     andthen (summary_read L w chat_id layer (opt_or (get_at path 1) ''latest'')) (\<lambda>row.
     ret (opt_or row ''null'')))"

definition hierarchical_patch ::
  "('f, 't) mm_lib \<Rightarrow> 't world \<Rightarrow> string \<Rightarrow> string list \<Rightarrow> string \<Rightarrow> ('f, unit) group_step" where
  "hierarchical_patch L w chat_id path partial =
     andthen (hierarchical_read L w chat_id path) (\<lambda>existing.
     case (from_str (ml_codec L) existing, from_str (ml_codec L) partial) of
       (Inr base, Inr patch_val) \<Rightarrow>
         summary_write L w chat_id (to_str (ml_codec L) (json_deep_merge base patch_val))
     | _ \<Rightarrow> summary_write L w chat_id partial)"

definition ensure_schema :: "'t world \<Rightarrow> ('f, unit) group_step" where
  "ensure_schema w =
     andthen (sql w ''summaries'' ''init summaries schema: '' (ret ())) (\<lambda>_.
     sql w ''summaries index'' ''init summaries index: '' (ret ()))"

definition text_lines :: "string list \<Rightarrow> string" where
  "text_lines ls = join [CHR 0x0A] ls"

definition hierarchical_plugin :: "('f, 't) mm_lib \<Rightarrow> 't world \<Rightarrow> 'f mem_plugin" where
  "hierarchical_plugin L w =
     \<lparr>mp_name = ''summary'',
      mp_docs = text_lines
        [''summary/ : Hierarchical summary tree. Navigate by time.'',
         ''- summary/short/latest : most recent hourly summary'',
         ''- summary/short/{date}T{hour} : specific hour'',
         ''- summary/mid/{date} : daily summary'',
         ''- summary/long/{year-month} : monthly summary'',
         ''Each node has source_refs pointing to the layer below for drill-down.''],
      mp_init_schema = ensure_schema w, mp_read = hierarchical_read L w,
      mp_write = (\<lambda>chat_id _ content. summary_write L w chat_id content),
      mp_patch = hierarchical_patch L w\<rparr>"

section \<open>The knowledge graph\<close>

definition triple_row_to_json :: "triple_row \<Rightarrow> json" where
  "triple_row_to_json r = jobj
     [(''subject'', JStr (tr_subject r)), (''predicate'', JStr (tr_predicate r)),
      (''object'', JStr (tr_object r)), (''source_refs'', JStr (tr_source_refs r)),
      (''updated_at'', JStr (tr_updated_at r))]"

definition triple_key :: "triple_row \<Rightarrow> string \<times> string \<times> string" where
  "triple_key r = (tr_subject r, tr_predicate r, tr_object r)"

text \<open>\<open>INSERT OR REPLACE\<close>: the row with the key goes, the new one is added.\<close>

definition replace_triple :: "triple_row \<Rightarrow> ('f group_db, string, unit) step" where
  "replace_triple r = modify (\<lambda>g. g\<lparr>gd_triples :=
     filter (\<lambda>x. triple_key x \<noteq> triple_key r) (gd_triples g) @ [r]\<rparr>)"

definition subjects :: "'f group_db \<Rightarrow> string list" where
  "subjects g = sort (remdups (map tr_subject (gd_triples g)))"

definition triples_of :: "('f, 't) mm_lib \<Rightarrow> string \<Rightarrow> 'f group_db \<Rightarrow> triple_row list" where
  "triples_of L subject g =
     order_asc tr_predicate (filter (\<lambda>r. tr_subject r = subject) (ml_scan_triples L (gd_triples g)))"

definition graph_read ::
  "('f, 't) mm_lib \<Rightarrow> 't world \<Rightarrow> string \<Rightarrow> string list \<Rightarrow> ('f, string) group_step" where
  "graph_read L w chat_id path =
     (case path of
        [] \<Rightarrow>
          andthen (sql w ''subjects'' [] (query subjects)) (\<lambda>ss.
          ret (to_str (ml_codec L) (JArr (map JStr ss))))
      | subject # _ \<Rightarrow>
          andthen (sql w ''triples'' [] (query (triples_of L subject))) (\<lambda>rows.
          if rows = [] then fail (NotFound (''no triples for subject: '' @ subject))
          else ret (to_str (ml_codec L) (JArr (map triple_row_to_json rows)))))"

definition triple_of_json :: "codec \<Rightarrow> string \<Rightarrow> string \<Rightarrow> json \<Rightarrow> triple_row" where
  "triple_of_json c now subject t =
     \<lparr>tr_subject = subject, tr_predicate = str_field t ''predicate'' [], tr_object = str_field t ''object'' [],
      tr_source_refs = to_str c (jget t ''source_refs''), tr_updated_at = now\<rparr>"

fun write_triples :: "'t world \<Rightarrow> nat \<Rightarrow> triple_row list \<Rightarrow> ('f, unit) group_step" where
  "write_triples w n [] = ret ()"
| "write_triples w n (r # rs) =
     (if tr_predicate r = [] \<or> tr_object r = [] then write_triples w (Suc n) rs
      else andthen (sql (at_w (nat_str n) w) ''triple'' ''write triple: '' (replace_triple r)) (\<lambda>_.
        write_triples w (Suc n) rs))"

definition graph_write ::
  "('f, 't) mm_lib \<Rightarrow> 't world \<Rightarrow> string \<Rightarrow> string list \<Rightarrow> string \<Rightarrow> ('f, unit) group_step" where
  "graph_write L w chat_id path content =
     (case path of
        [] \<Rightarrow> fail (InvalidPath ''graph write requires subject'')
      | subject # _ \<Rightarrow>
          andthen (lift_result (map_err InvalidJson (from_str (ml_codec L) content))) (\<lambda>val.
          (let triples = (case val of JArr xs \<Rightarrow> xs | v \<Rightarrow> [v]) in
           write_triples w 0 (map (triple_of_json (ml_codec L) (now_iso8601 L w) subject) triples))))"

definition graph_init_schema :: "'t world \<Rightarrow> ('f, unit) group_step" where
  "graph_init_schema w =
     andthen (sql w ''triples schema'' ''init triples schema: '' (ret ())) (\<lambda>_.
     andthen (sql w ''subject index'' ''init triples index: '' (ret ())) (\<lambda>_.
     sql w ''object index'' ''init triples index: '' (ret ())))"

definition graph_plugin :: "('f, 't) mm_lib \<Rightarrow> 't world \<Rightarrow> 'f mem_plugin" where
  "graph_plugin L w =
     \<lparr>mp_name = ''graph'',
      mp_docs = text_lines
        [''graph/ : Knowledge graph. Navigate by subject.'',
         ''- graph/ : list all unique subjects'',
         ''- graph/{subject} : all triples where subject matches'',
         ''Triples are (subject, predicate, object) '' @ [CHR 0xE2, CHR 0x80, CHR 0x94] @ '' no fixed schema.'',
         ''Write: logos_write('' @ [CHR 0x22] @ ''graph/{subject}'' @ [CHR 0x22] @ '', [{'' @ [CHR 0x22] @
           ''predicate'' @ [CHR 0x22] @ '':'' @ [CHR 0x22] @ ''...'' @ [CHR 0x22] @ '','' @ [CHR 0x22] @
           ''object'' @ [CHR 0x22] @ '':'' @ [CHR 0x22] @ ''...'' @ [CHR 0x22] @ ''}])''],
      mp_init_schema = graph_init_schema w, mp_read = graph_read L w, mp_write = graph_write L w,
      mp_patch = graph_write L w\<rparr>"

section \<open>The module\<close>

definition plugins :: "('f, 't) mm_lib \<Rightarrow> 't world \<Rightarrow> 'f mem_plugin list" where
  "plugins L w = [hierarchical_plugin L w, graph_plugin L w]"

text \<open>\<open>MemoryModule::init\<close> over the databases that are on disk.\<close>

definition memory_init ::
  "'t world \<Rightarrow> (string \<rightharpoonup> 'f group_db) \<Rightarrow> 'd session_store \<Rightarrow> vfs_error + ('f, 'd) memory" where
  "memory_init w disk sessions =
     (case w_flt w [''mkdir''] of
        Some e \<Rightarrow> Inl (Io (''create memory dir: '' @ e))
      | None \<Rightarrow> Inr \<lparr>mm_open = {}, mm_groups = disk, mm_sessions = sessions\<rparr>)"

definition plugin_list :: "'f mem_plugin list \<Rightarrow> json list" where
  "plugin_list ps = map (\<lambda>p. jobj [(''name'', JStr (mp_name p)), (''docs'', JStr (mp_docs p))]) ps"

text \<open>The first plugin of the name, on the group's database with its tables made.\<close>

definition with_plugin ::
  "('f, 't) mm_lib \<Rightarrow> 't world \<Rightarrow> string \<Rightarrow> string \<Rightarrow>
   ('f mem_plugin \<Rightarrow> ('f, 'a) group_step) \<Rightarrow> (('f, 'd) memory, 'a) vfs_step \<Rightarrow> (('f, 'd) memory, 'a) vfs_step" where
  "with_plugin L w gid resource f otherwise =
     (case find (\<lambda>p. mp_name p = resource) (plugins L w) of
        None \<Rightarrow> otherwise
      | Some p \<Rightarrow>
          andthen (pool L (at_w ''pool'' w) gid) (\<lambda>_.
          on_group gid (andthen (mp_init_schema p) (\<lambda>_. f p))))"

definition bad_memory_path :: vfs_error where
  "bad_memory_path = InvalidPath ''expected logos://memory/groups/{gid}/...''"

definition memory_read ::
  "('f, 't) mm_lib \<Rightarrow> 't world \<Rightarrow> string list \<Rightarrow> (('f, 'd) memory, string) vfs_step" where
  "memory_read L w path =
     (if get_at path 0 = Some ''plugins'' then ret (to_str (ml_codec L) (JArr (plugin_list (plugins L w))))
      else if length path < 3 \<or> path ! 0 \<noteq> ''groups'' then fail bad_memory_path
      else
        (let gid = path ! 1; resource = path ! 2 in
         if resource = ''messages'' then
           andthen (lift_result (ok_or (get_at path 3)
             (InvalidPath ''expected logos://memory/groups/{gid}/messages/{msg_id}''))) (\<lambda>msg_id_str.
           andthen (lift_result (ok_or (parse_int 63 msg_id_str)
             (InvalidPath (''invalid msg_id: '' @ msg_id_str)))) (\<lambda>msg_id.
           andthen (get_by_id L w gid msg_id) (\<lambda>row.
           ret (opt_or row ''null''))))
         else if resource = ''views'' then
           andthen (lift_result (ok_or (get_at path 3) (InvalidPath ''missing view name''))) (\<lambda>view_name.
           andthen (lift_result (ok_or (view_of L w view_name) (NotFound (''unknown view: '' @ view_name)))) (\<lambda>view.
           andthen (pool L (at_w ''pool'' w) gid) (\<lambda>_.
           on_group gid (view gid (opt_or (get_at path 4) ''{}'')))))
         else with_plugin L w gid resource (\<lambda>p. mp_read p gid (drop 3 path))
           (fail (InvalidPath (''unknown memory resource: '' @ resource)))))"

definition on_sessions :: "('d session_store, 'e, 'a) step \<Rightarrow> (('f, 'd) memory, 'e, 'a) step" where
  "on_sessions m s = (case m (mm_sessions s) of (x, r) \<Rightarrow> (s\<lparr>mm_sessions := x\<rparr>, r))"

definition msg_ref_of :: "string \<Rightarrow> int \<Rightarrow> json \<Rightarrow> msg_ref" where
  "msg_ref_of gid msg_id val =
     \<lparr>mr_msg_id = msg_id, mr_chat_id = gid, mr_reply_to = as_i64 (jget val ''reply_to''),
      mr_text = str_field val ''text'' [], mr_speaker = str_field val ''speaker'' [],
      mr_ts = str_field val ''ts'' []\<rparr>"

text \<open>The cluster's order and disk, and its clock (the tick the message is observed at).\<close>

definition memory_write ::
  "('f, 't) mm_lib \<Rightarrow> order \<Rightarrow> ('d, 'v) lance option \<Rightarrow> nat \<Rightarrow> 't world \<Rightarrow> string list \<Rightarrow> string \<Rightarrow>
   (('f, 'd) memory, unit) vfs_step" where
  "memory_write L ord l2 tick w path content =
     (if length path < 3 \<or> path ! 0 \<noteq> ''groups'' then fail bad_memory_path
      else
        (let gid = path ! 1; resource = path ! 2 in
         if resource = ''messages'' then
           andthen (msg_insert L w gid content) (\<lambda>msg_id.
           (case from_str (ml_codec L) content of
              Inl _ \<Rightarrow> ret ()
            | Inr val \<Rightarrow> on_sessions (observe ord l2 tick (msg_ref_of gid msg_id val))))
         else with_plugin L w gid resource (\<lambda>p. mp_write p gid (drop 3 path) content)
           (fail (InvalidPath (''unknown memory resource for write: '' @ resource)))))"

definition memory_patch ::
  "('f, 't) mm_lib \<Rightarrow> order \<Rightarrow> ('d, 'v) lance option \<Rightarrow> nat \<Rightarrow> 't world \<Rightarrow> string list \<Rightarrow> string \<Rightarrow>
   (('f, 'd) memory, unit) vfs_step" where
  "memory_patch L ord l2 tick w path partial =
     (if length path < 3 \<or> path ! 0 \<noteq> ''groups'' then fail bad_memory_path
      else with_plugin L w (path ! 1) (path ! 2) (\<lambda>p. mp_patch p (path ! 1) (drop 3 path) partial)
        (memory_write L ord l2 tick w path partial))"

definition memory_namespace ::
  "('f, 't) mm_lib \<Rightarrow> order \<Rightarrow> ('d, 'v) lance option \<Rightarrow> nat \<Rightarrow> 't world \<Rightarrow> (('f, 'd) memory) namespace" where
  "memory_namespace L ord l2 tick w =
     \<lparr>ns_name = ''memory'', ns_read = memory_read L w, ns_write = memory_write L ord l2 tick w,
      ns_patch = memory_patch L ord l2 tick w\<rparr>"

definition handle_call ::
  "('f, 't) mm_lib \<Rightarrow> 't world \<Rightarrow> string \<Rightarrow> string \<Rightarrow> (('f, 'd) memory, string) vfs_step" where
  "handle_call L w tool params =
     andthen (lift_result (map_err InvalidJson (from_str (ml_codec L) params))) (\<lambda>val.
     (let chat_id = str_field val ''chat_id'' [] in
      if tool = ''memory.search'' then
        search_fts L w chat_id (str_field val ''query'' []) (opt_or (as_i64 (jget val ''limit'')) 10)
      else if tool = ''memory.range_fetch'' then range_fetch L w chat_id params
      else if starts_with tool ''memory.view.'' then
        (let view_name = opt_or (strip_prefix ''memory.view.'' tool) [] in
         andthen (lift_result (ok_or (view_of L w view_name) (NotFound (''unknown view: '' @ view_name)))) (\<lambda>view.
         andthen (pool L (at_w ''pool'' w) chat_id) (\<lambda>_.
         on_group chat_id (view chat_id params))))
      else fail (NotFound (''unknown memory tool: '' @ tool))))"

section \<open>The archive of messages\<close>

text \<open>
  A group's messages have distinct ids and stand in the order of their ids; what a run started
  with stays. \<open>group_inv\<close> is the invariant of one group, \<open>mem_inv\<close> of the module.
\<close>

definition msgs_ok :: "'f group_db \<Rightarrow> bool" where
  "msgs_ok g \<longleftrightarrow> sorted_wrt (<) (map ms_msg_id (gd_messages g))"

definition group_inv :: "msg_row set \<Rightarrow> 'f group_db \<Rightarrow> bool" where
  "group_inv R g \<longleftrightarrow> msgs_ok g \<and> R \<subseteq> set (gd_messages g)"

definition rows_in :: "('f, 'd) memory \<Rightarrow> string \<Rightarrow> msg_row set" where
  "rows_in s chat_id = (case mm_groups s chat_id of None \<Rightarrow> {} | Some g \<Rightarrow> set (gd_messages g))"

definition mem_inv :: "('f, 'd) memory \<Rightarrow> ('f, 'd) memory \<Rightarrow> bool" where
  "mem_inv s0 s \<longleftrightarrow>
     (\<forall>chat g. mm_groups s chat = Some g \<longrightarrow> msgs_ok g) \<and> (\<forall>chat. rows_in s0 chat \<subseteq> rows_in s chat)"

lemma mem_inv_same:
  assumes "mem_inv s0 s" "\<And>c g. mm_groups s' c = Some g \<Longrightarrow> msgs_ok g" "\<And>c. rows_in s' c = rows_in s c"
  shows "mem_inv s0 s'"
  using assms by (auto simp: mem_inv_def)

lemma keeps_on_group [keeps_intros]:
  assumes "\<And>R. keeps (group_inv R) m"
  shows "keeps (mem_inv s0) (on_group chat m)"
proof (rule keepsI)
  fix s assume I: "mem_inv s0 s"
  show "mem_inv s0 (fst (on_group chat m s))"
  proof (cases "mm_groups s chat")
    case None
    with I show ?thesis by (simp add: on_group_def)
  next
    case (Some g)
    obtain g' r where m: "m g = (g', r)" by fastforce
    have "group_inv (rows_in s0 chat) g"
      using I Some by (auto simp: mem_inv_def group_inv_def rows_in_def split: option.splits)
    from keepsD' [OF assms this m] have "group_inv (rows_in s0 chat) g'" .
    with I Some m show ?thesis
      by (auto simp: on_group_def mem_inv_def group_inv_def rows_in_def)
  qed
qed

lemma rows_in_open [simp]: "rows_in (open_group L chat s) c = rows_in s c"
  by (cases "mm_groups s chat") (auto simp: open_group_def rows_in_def empty_group_def)

lemma mem_inv_open: "mem_inv s0 s \<Longrightarrow> mem_inv s0 (open_group L chat s)"
  by (rule mem_inv_same; (assumption | simp)?; cases "mm_groups s chat")
     (auto simp: open_group_def mem_inv_def empty_group_def msgs_ok_def split: if_splits)

lemma keeps_msg_init_schema [keeps_intros]: "keeps I (msg_init_schema w)"
  unfolding msg_init_schema_def by (intro keeps_intros)

lemma keeps_pool [keeps_intros]: "keeps (mem_inv s0) (pool L w chat)"
proof -
  have "keeps (mem_inv s0)
      (andthen (sql w ''open'' (''open '' @ ml_root L @ ''/'' @ chat @ ''.db: '') (ret ())) (\<lambda>_.
        andthen (msg_init_schema w) (\<lambda>_. modify (open_group L chat))))"
    by (intro keeps_intros keeps_modify mem_inv_open)
  then show ?thesis by (simp add: keeps_def pool_def)
qed

lemma msgs_ok_insort:
  assumes "sorted_wrt (<) (map ms_msg_id rs)" "find (\<lambda>x. ms_msg_id x = ms_msg_id r) rs = None"
  shows "sorted_wrt (<) (map ms_msg_id (insort_key ms_msg_id r rs))"
proof -
  have "sorted (map ms_msg_id (insort_key ms_msg_id r rs))"
    using assms(1) by (simp add: sorted_insort_key strict_sorted_iff)
  moreover have "distinct (map ms_msg_id (insort_key ms_msg_id r rs))"
  proof -
    have "mset (map ms_msg_id (insort_key ms_msg_id r rs)) = mset (ms_msg_id r # map ms_msg_id rs)" by simp
    moreover have "distinct (ms_msg_id r # map ms_msg_id rs)"
      using assms by (auto simp: strict_sorted_iff find_None_iff)
    ultimately show ?thesis by (metis mset_eq_imp_distinct_iff)
  qed
  ultimately show ?thesis by (simp add: strict_sorted_iff)
qed

lemma keeps_insert_msg_row [keeps_intros]:
  fixes L :: "('f, 't) mm_lib"
  shows "keeps (group_inv R) (insert_msg_row L i r)"
proof (rule keepsI)
  fix g :: "'f group_db" assume I: "group_inv R g"
  show "group_inv R (fst (insert_msg_row L i r g))"
  proof (cases "case i of Some i \<Rightarrow> Inr i | None \<Rightarrow> next_msg_id L g")
    case (Inl e)
    with I show ?thesis by (simp add: insert_msg_row_def)
  next
    case (Inr k)
    with I msgs_ok_insort [of "gd_messages g" "r\<lparr>ms_msg_id := k\<rparr>"] show ?thesis
      by (auto simp: insert_msg_row_def msg_lookup_def group_inv_def msgs_ok_def set_insort_key)
  qed
qed

lemma keeps_other_tables:
  assumes "\<And>g. gd_messages (fst (m g)) = gd_messages g"
  shows "keeps (group_inv R) m"
  using assms by (simp add: keeps_def group_inv_def msgs_ok_def)

lemma keeps_insert_msg_fts [keeps_intros]: "keeps (group_inv R) (insert_msg_fts L i t)"
  by (rule keeps_other_tables) (simp add: insert_msg_fts_def split: sum.splits)

lemma keeps_fts_rows [keeps_intros]: "keeps (group_inv R) (fts_rows L q n)"
  by (rule keeps_other_tables) (simp add: fts_rows_def)

lemma keeps_insert_summary_row [keeps_intros]: "keeps (group_inv R) (insert_summary_row r)"
  by (rule keeps_other_tables) (simp add: insert_summary_row_def)

lemma keeps_replace_triple [keeps_intros]: "keeps (group_inv R) (replace_triple r)"
  by (rule keeps_other_tables) (simp add: replace_triple_def modify_def)

lemma keeps_write_triples [keeps_intros]: "keeps (group_inv R) (write_triples w n rs)"
  by (induction rs arbitrary: n) (auto intro!: keeps_intros)

lemma keeps_on_sessions [keeps_intros]: "keeps (mem_inv s0) (on_sessions m)"
  by (rule keepsI) (auto simp: on_sessions_def mem_inv_def rows_in_def split: prod.splits)

lemmas group_ops = by_speaker_query_def recent_query_def summary_write_def summary_read_def
  hierarchical_read_def hierarchical_patch_def ensure_schema_def graph_read_def graph_write_def
  graph_init_schema_def Let_def

lemma keeps_by_speaker [keeps_intros]: "keeps (group_inv R) (by_speaker_query L w chat params)"
  and keeps_recent [keeps_intros]: "keeps (group_inv R) (recent_query L w chat params)"
  and keeps_summary_write [keeps_intros]: "keeps (group_inv R) (summary_write L w chat content)"
  and keeps_summary_read [keeps_intros]: "keeps (group_inv R) (summary_read L w chat layer period)"
  and keeps_ensure_schema [keeps_intros]: "keeps (group_inv R) (ensure_schema w)"
  and keeps_graph_init_schema [keeps_intros]: "keeps (group_inv R) (graph_init_schema w)"
  unfolding group_ops by (intro keeps_intros)+

lemma keeps_hierarchical_read [keeps_intros]: "keeps (group_inv R) (hierarchical_read L w chat path)"
  unfolding hierarchical_read_def by (intro keeps_intros)

lemma keeps_hierarchical_patch [keeps_intros]: "keeps (group_inv R) (hierarchical_patch L w chat path partial)"
  unfolding hierarchical_patch_def by (intro keeps_intros)

lemma keeps_graph_read [keeps_intros]: "keeps (group_inv R) (graph_read L w chat path)"
  and keeps_graph_write [keeps_intros]: "keeps (group_inv R) (graph_write L w chat path content)"
  by (cases path; auto simp: graph_read_def graph_write_def Let_def intro!: keeps_intros)+

lemma keeps_view_of: "view_of L w name = Some view \<Longrightarrow> keeps (group_inv R) (view chat params)"
  by (auto simp: view_of_def intro!: keeps_intros split: if_splits)

lemma keeps_plugins:
  "p \<in> set (plugins L w) \<Longrightarrow> keeps (group_inv R) (mp_init_schema p) \<and> keeps (group_inv R) (mp_read p chat path) \<and>
     keeps (group_inv R) (mp_write p chat path content) \<and> keeps (group_inv R) (mp_patch p chat path content)"
  by (auto simp: plugins_def hierarchical_plugin_def graph_plugin_def intro!: keeps_intros)

lemma keeps_with_plugin:
  assumes "\<And>p R. p \<in> set (plugins L w) \<Longrightarrow> keeps (group_inv R) (f p)" and "keeps (mem_inv s0) otherwise"
  shows "keeps (mem_inv s0) (with_plugin L w gid resource f otherwise)"
proof (cases "find (\<lambda>p. mp_name p = resource) (plugins L w)")
  case None
  with assms(2) show ?thesis by (simp add: with_plugin_def)
next
  case (Some p)
  then have p: "p \<in> set (plugins L w)" by (auto simp: find_Some_iff)
  show ?thesis
    unfolding with_plugin_def Some option.case
    by (intro keeps_intros assms(1) [OF p] keeps_plugins [OF p, THEN conjunct1])
qed

lemma keeps_lift_ok_or:
  assumes "\<And>a. x = Some a \<Longrightarrow> keeps I (k a)"
  shows "keeps I (andthen (lift_result (ok_or x e)) k)"
  using assms by (cases x) (auto simp: keeps_def step_defs)

lemma keeps_msg_insert [keeps_intros]: "keeps (mem_inv s0) (msg_insert L w chat content)"
  and keeps_get_by_id [keeps_intros]: "keeps (mem_inv s0) (get_by_id L w chat i)"
  and keeps_search_fts [keeps_intros]: "keeps (mem_inv s0) (search_fts L w chat q n)"
  and keeps_range_fetch [keeps_intros]: "keeps (mem_inv s0) (range_fetch L w chat params)"
  unfolding msg_insert_def get_by_id_def search_fts_def range_fetch_def Let_def
  by (intro keeps_intros)+

lemma keeps_memory_read: "keeps (mem_inv s0) (memory_read L w path)"
  unfolding memory_read_def Let_def
  by (intro keeps_intros keeps_lift_ok_or keeps_with_plugin)
     (auto intro: keeps_view_of simp: keeps_plugins)

lemma keeps_memory_write: "keeps (mem_inv s0) (memory_write L ord l2 tick w path content)"
  unfolding memory_write_def Let_def
  by (intro keeps_intros keeps_with_plugin) (auto simp: keeps_plugins)

lemma keeps_memory_patch: "keeps (mem_inv s0) (memory_patch L ord l2 tick w path partial)"
  unfolding memory_patch_def Let_def
  by (intro keeps_intros keeps_with_plugin keeps_memory_write) (auto simp: keeps_plugins)

lemma keeps_handle_call: "keeps (mem_inv s0) (handle_call L w tool params)"
  unfolding handle_call_def Let_def
  by (intro keeps_intros keeps_lift_ok_or) (auto intro: keeps_view_of)

datatype 't memory_op =
    MemRead "'t world" "string list"
  | MemWrite nat "'t world" "string list" string
  | MemPatch nat "'t world" "string list" string
  | MemCall "'t world" string string

fun memory_exec ::
  "('f, 't) mm_lib \<Rightarrow> order \<Rightarrow> ('d, 'v) lance option \<Rightarrow> ('f, 'd) memory \<Rightarrow> 't memory_op \<Rightarrow> ('f, 'd) memory" where
  "memory_exec L ord l2 s (MemRead w path) = fst (memory_read L w path s)"
| "memory_exec L ord l2 s (MemWrite tick w path content) = fst (memory_write L ord l2 tick w path content s)"
| "memory_exec L ord l2 s (MemPatch tick w path partial) = fst (memory_patch L ord l2 tick w path partial s)"
| "memory_exec L ord l2 s (MemCall w tool params) = fst (handle_call L w tool params s)"

interpretation archive: machine "memory_exec L ord l2" "mem_inv s0" for L ord l2 s0
proof
  fix s e assume "mem_inv s0 s"
  then show "mem_inv s0 (memory_exec L ord l2 s e)"
    by (cases e)
       (auto intro: keepsD [OF keeps_memory_read] keepsD [OF keeps_memory_write]
          keepsD [OF keeps_memory_patch] keepsD [OF keeps_handle_call])
qed

lemma msg_lookup_row:
  assumes "msgs_ok g" "r \<in> set (gd_messages g)"
  shows "msg_lookup (ms_msg_id r) g = Some r"
proof -
  have "distinct (map ms_msg_id (gd_messages g))" using assms(1) by (simp add: msgs_ok_def strict_sorted_iff)
  with assms(2) show ?thesis
    by (cases "msg_lookup (ms_msg_id r) g")
       (auto simp: msg_lookup_def find_None_iff find_Some_iff distinct_map inj_on_def)
qed

section \<open>The graph as a map\<close>

definition triple_map :: "'f group_db \<Rightarrow> (string \<times> string \<times> string) \<rightharpoonup> triple_row" where
  "triple_map g k = find (\<lambda>r. triple_key r = k) (gd_triples g)"

definition triples_ok :: "'f group_db \<Rightarrow> bool" where
  "triples_ok g \<longleftrightarrow> distinct (map triple_key (gd_triples g))"

definition put_triple :: "triple_row \<Rightarrow> ((string \<times> string \<times> string) \<rightharpoonup> triple_row) \<Rightarrow> ((string \<times> string \<times> string) \<rightharpoonup> triple_row)" where
  "put_triple r m = (if tr_predicate r = [] \<or> tr_object r = [] then m else m(triple_key r \<mapsto> r))"

lemma replace_triple_map:
  "triple_map (fst (replace_triple r g)) = (triple_map g)(triple_key r \<mapsto> r)"
proof
  fix k
  have "find (\<lambda>x. triple_key x \<noteq> triple_key r \<and> triple_key x = k) xs =
      (if k = triple_key r then None else find (\<lambda>x. triple_key x = k) xs)" for xs
    by (induction xs) auto
  then show "triple_map (fst (replace_triple r g)) k = ((triple_map g)(triple_key r \<mapsto> r)) k"
    by (auto simp: triple_map_def replace_triple_def modify_def find_append find_filter_conj split: option.splits)
qed

lemma replace_triple_ok: "triples_ok g \<Longrightarrow> triples_ok (fst (replace_triple r g))"
  by (auto simp: triples_ok_def replace_triple_def modify_def distinct_map inj_on_def)

lemma write_triples_map:
  "write_triples w n rs g = (g', Inr ()) \<Longrightarrow> triple_map g' = fold put_triple rs (triple_map g)"
proof (induction rs arbitrary: n g)
  case (Cons r rs)
  show ?case
  proof (cases "tr_predicate r = [] \<or> tr_object r = []")
    case True
    with Cons show ?thesis by (simp add: put_triple_def)
  next
    case False
    with Cons.prems have "andthen (sql (at_w (nat_str n) w) ''triple'' ''write triple: '' (replace_triple r)) (\<lambda>_.
        write_triples w (Suc n) rs) g = (g', Inr ())" by simp
    then obtain g1 u where "replace_triple r g = (g1, Inr u)" "write_triples w (Suc n) rs g1 = (g', Inr ())"
      by (elim sql_bindE) (rule that)
    moreover from this(1) replace_triple_map [of r g] have "triple_map g1 = put_triple r (triple_map g)"
      using False by (simp add: put_triple_def)
    ultimately show ?thesis using Cons.IH by simp
  qed
qed (simp add: ret_def)

lemma keeps_replace_triple_ok [keeps_intros]: "keeps triples_ok (replace_triple r)"
  by (simp add: keeps_def replace_triple_ok)

lemma keeps_triples_ok: "keeps triples_ok (write_triples w n rs)"
  by (induction rs arbitrary: n) (auto intro!: keeps_intros)

lemma fold_put_other:
  "\<forall>r \<in> set rs. tr_subject r = s \<Longrightarrow> t \<noteq> s \<Longrightarrow> fold put_triple rs m (t, p, q) = m (t, p, q)"
  by (induction rs arbitrary: m) (auto simp: put_triple_def triple_key_def)

section \<open>Properties\<close>

text \<open>
  The messages of a group are a lossless archive: no read, write, patch or call, on any path
  and with any failure, ever changes or removes a message that was stored, and ids stay unique.\<close>

theorem messages_archive:
  assumes "\<forall>chat g. mm_groups s0 chat = Some g \<longrightarrow> msgs_ok g"
    and "mm_groups s0 chat = Some g0" "r \<in> set (gd_messages g0)"
  shows "\<exists>g. mm_groups (foldl (memory_exec L ord l2) s0 ops) chat = Some g \<and> msgs_ok g \<and>
    msg_lookup (ms_msg_id r) g = Some r"
proof -
  have "mem_inv s0 s0" using assms(1) by (simp add: mem_inv_def)
  from archive.run_inv [OF this, of L ord l2 ops] have I: "mem_inv s0 (foldl (memory_exec L ord l2) s0 ops)" .
  have "r \<in> rows_in s0 chat" using assms(2,3) by (simp add: rows_in_def)
  with I have "r \<in> rows_in (foldl (memory_exec L ord l2) s0 ops) chat" by (auto simp: mem_inv_def)
  then obtain g where g: "mm_groups (foldl (memory_exec L ord l2) s0 ops) chat = Some g" "r \<in> set (gd_messages g)"
    by (auto simp: rows_in_def split: option.splits)
  with I have "msgs_ok g" by (auto simp: mem_inv_def)
  with g msg_lookup_row show ?thesis by blast
qed

definition demo_row :: msg_row where
  "demo_row = \<lparr>ms_msg_id = 7, ms_ts = ''t'', ms_chat_id = ''c'', ms_speaker = ''u'', ms_reply_to = None,
     ms_text = ''hi'', ms_mentions = ''[]''\<rparr>"

definition demo_group :: "unit group_db" where
  "demo_group = \<lparr>gd_messages = [demo_row], gd_fts = (), gd_summaries = [], gd_triples = []\<rparr>"

definition demo_memory :: "(unit, unit) memory" where
  "demo_memory = \<lparr>mm_open = {''c''}, mm_groups = [''c'' \<mapsto> demo_group],
     mm_sessions = \<lparr>st_inner = store_new 1 1, st_l2 = ()\<rparr>\<rparr>"

definition demo_mm_lib :: "(unit, nat) mm_lib" where
  "demo_mm_lib = \<lparr>ml_codec = note_codec,
     ml_chrono = \<lparr>fmt_secs = nat_str, fmt_minute = nat_str, fmt_hour = nat_str, fmt_compact = nat_str\<rparr>,
     ml_fts = \<lparr>mf_new = (), mf_insert = (\<lambda>_ _ _. Inr ()), mf_match = (\<lambda>_ _. Inr [])\<rparr>,
     ml_spare_id = (\<lambda>_. Inl ''full''), ml_scan_summaries = (\<lambda>rs. rs), ml_scan_triples = (\<lambda>rs. rs),
     ml_root = ''/m''\<rparr>"

theorem messages_archive_witness:
  "\<exists>g. mm_groups (foldl (memory_exec demo_mm_lib sorted_list_of_set (None :: (unit, nat) lance option)) demo_memory
      [MemWrite 0 (still 0) [''groups'', ''c'', ''messages''] (to_str note_codec (JObj [(''msg_id'', JInt 7)])),
       MemCall (still 1) ''memory.search'' ''x'']) ''c'' = Some g \<and> msg_lookup 7 g = Some demo_row"
proof -
  have "\<forall>chat g. mm_groups demo_memory chat = Some g \<longrightarrow> msgs_ok g"
    "mm_groups demo_memory ''c'' = Some demo_group" "demo_row \<in> set (gd_messages demo_group)"
    by (auto simp: demo_memory_def demo_group_def msgs_ok_def)
  from messages_archive [OF this, of demo_mm_lib sorted_list_of_set "None :: (unit, nat) lance option"
      "[MemWrite 0 (still 0) [''groups'', ''c'', ''messages''] (to_str note_codec (JObj [(''msg_id'', JInt 7)])),
       MemCall (still 1) ''memory.search'' ''x'']"]
  obtain g where "mm_groups (foldl (memory_exec demo_mm_lib sorted_list_of_set (None :: (unit, nat) lance option)) demo_memory
      [MemWrite 0 (still 0) [''groups'', ''c'', ''messages''] (to_str note_codec (JObj [(''msg_id'', JInt 7)])),
       MemCall (still 1) ''memory.search'' ''x'']) ''c'' = Some g" "msg_lookup (ms_msg_id demo_row) g = Some demo_row"
    by blast
  moreover have "ms_msg_id demo_row = 7" by (simp add: demo_row_def)
  ultimately show ?thesis by metis
qed

text \<open>
  C32: Writing triples about a subject is an update of a map keyed by (subject, predicate,
  object): each triple that names a predicate and an object replaces the entry with its key, in
  the order given, the others are skipped, nothing about other subjects changes, and no key is
  stored twice.\<close>

theorem graph_write_refines:
  assumes "graph_write L w chat (subject # rest) content g = (g', Inr ())" and "triples_ok g"
    and "from_str (ml_codec L) content = Inr val"
  shows "triple_map g' = fold put_triple (map (triple_of_json (ml_codec L) (now_iso8601 L w) subject)
      (case val of JArr xs \<Rightarrow> xs | v \<Rightarrow> [v])) (triple_map g) \<and> triples_ok g' \<and>
    (\<forall>t p q. t \<noteq> subject \<longrightarrow> triple_map g' (t, p, q) = triple_map g (t, p, q))"
proof -
  let ?rs = "map (triple_of_json (ml_codec L) (now_iso8601 L w) subject) (case val of JArr xs \<Rightarrow> xs | v \<Rightarrow> [v])"
  have run: "write_triples w 0 ?rs g = (g', Inr ())"
    using assms(1,3) by (simp add: graph_write_def andthen_def lift_result_def)
  have subj: "\<forall>r \<in> set ?rs. tr_subject r = subject" by (auto simp: triple_of_json_def)
  have m: "triple_map g' = fold put_triple ?rs (triple_map g)" by (rule write_triples_map [OF run])
  have "triple_map g' (t, p, q) = triple_map g (t, p, q)" if "t \<noteq> subject" for t p q
    unfolding m by (rule fold_put_other [OF subj that])
  with m keepsD' [OF keeps_triples_ok assms(2) run] show ?thesis by blast
qed

theorem graph_write_refines_witness:
  "triple_map (fst (graph_write demo_mm_lib (still 0) ''c'' [''alice'']
      (to_str note_codec (JObj [(''object'', JStr ''rust''), (''predicate'', JStr ''likes'')])) demo_group))
     (''alice'', ''likes'', ''rust'') \<noteq> None"
proof -
  let ?val = "JObj [(''object'', JStr ''rust''), (''predicate'', JStr ''likes'')]"
  have wf: "wf_json ?val" "float_free ?val" by (simp_all add: sorted_keys_def less_char_def)
  have p: "from_str (ml_codec demo_mm_lib) (to_str note_codec ?val) = Inr ?val"
    using codec_okD(1) [OF note_codec_ok wf] by (simp add: demo_mm_lib_def)
  obtain g' where run: "graph_write demo_mm_lib (still 0) ''c'' [''alice''] (to_str note_codec ?val) demo_group = (g', Inr ())"
    using p by (simp add: graph_write_def andthen_def lift_result_def sql_calm replace_triple_def modify_def ret_def
        triple_of_json_def str_field_def)
  have "triples_ok demo_group" by (simp add: triples_ok_def demo_group_def)
  from graph_write_refines [OF run this p] run show ?thesis
    by (simp add: put_triple_def triple_key_def triple_of_json_def str_field_def)
qed

text \<open>
  Range queries page through a group: consecutive pages of \<open>n\<close> rows put together are the
  messages whose ids lie in one of the ranges, in ascending order and each once; whatever limit
  a caller asks for, a page has at most two hundred rows.\<close>

theorem range_pages:
  assumes "msgs_ok g" and "1 \<le> n"
  shows "concat (map (\<lambda>k. range_rows ranges n (int k * n) g) [0 ..< m]) =
      take (m * nat n) (filter (\<lambda>r. in_ranges ranges (ms_msg_id r)) (gd_messages g)) \<and>
    length (range_rows ranges (clamp 1 RANGE_FETCH_MAX_LIMIT limit) offset g) \<le> 200"
proof
  let ?rows = "filter (\<lambda>r. in_ranges ranges (ms_msg_id r)) (gd_messages g)"
  have "sorted (map ms_msg_id ?rows)"
    using assms(1) by (simp add: msgs_ok_def strict_sorted_iff sorted_filter)
  then have rows: "order_asc ms_msg_id ?rows = ?rows"
    by (simp add: order_asc_def sort_key_id_if_sorted)
  have off: "nat (int k * n) = k * nat n" for k using assms(2) by (simp add: nat_mult_distrib)
  show "concat (map (\<lambda>k. range_rows ranges n (int k * n) g) [0 ..< m]) = take (m * nat n) ?rows"
  proof (induction m)
    case (Suc m)
    have "take (Suc m * nat n) ?rows = take (m * nat n) ?rows @ take (nat n) (drop (m * nat n) ?rows)"
      by (simp add: take_add [symmetric] add.commute)
    with Suc show ?case by (simp add: range_rows_def rows off)
  qed simp
  have "nat (clamp 1 RANGE_FETCH_MAX_LIMIT limit) \<le> 200" by (simp add: clamp_def RANGE_FETCH_MAX_LIMIT_def nat_le_iff)
  then show "length (range_rows ranges (clamp 1 RANGE_FETCH_MAX_LIMIT limit) offset g) \<le> 200"
    unfolding range_rows_def length_take by (rule le_trans [OF min.cobounded2])
qed

theorem range_pages_witness:
  "concat (map (\<lambda>k. range_rows [(1, 9)] 1 (int k * 1) demo_group) [0 ..< 2]) = [demo_row]"
proof -
  have "msgs_ok demo_group" by (simp add: msgs_ok_def demo_group_def)
  from range_pages [OF this, of 1 "[(1, 9)]" 2] show ?thesis
    by (simp add: demo_group_def in_ranges_def demo_row_def)
qed

text \<open>
  A summary is never replaced: writing one for a layer and period that has one adds a row
  that the query by period does not find while the table is scanned in the order of insertion,
  so readers keep getting the first text.\<close>

theorem summary_not_replaced:
  assumes "ml_scan_summaries L = (\<lambda>rs. rs)" and "layer \<noteq> ''long''" "period \<noteq> ''latest''"
    and "summary_row_of L chat layer period g = Some r"
    and "summary_write L w chat content g = (g', res)"
  shows "summary_row_of L chat layer period g' = Some r"
proof -
  have "\<exists>xs. gd_summaries g' = gd_summaries g @ xs"
    using assms(5)
    by (auto simp: summary_write_def andthen_def lift_result_def sql_def insert_summary_row_def
        split: sum.splits option.splits)
  with assms(1-4) show ?thesis
    by (auto simp: summary_row_of_def first_of_def get_at_def nth_append Let_def split: if_splits)
qed

theorem summary_not_replaced_witness:
  "\<exists>g1 g2 a b r. summary_write demo_mm_lib (still 0) ''c'' a demo_group = (g1, Inr ()) \<and>
     summary_write demo_mm_lib (still 1) ''c'' b g1 = (g2, Inr ()) \<and>
     summary_row_of demo_mm_lib ''c'' ''short'' ''p'' g2 = Some r \<and> sm_content r = ''old''"
proof -
  let ?s = "\<lambda>t. JObj [(''content'', JStr t), (''layer'', JStr ''short''), (''period_start'', JStr ''p'')]"
  have wf: "wf_json (?s t)" "float_free (?s t)" for t by (simp_all add: sorted_keys_def less_char_def)
  have p: "from_str note_codec (to_str note_codec (?s t)) = Inr (?s t)" for t
    using codec_okD(1) [OF note_codec_ok wf] .
  obtain g1 where g1: "summary_write demo_mm_lib (still 0) ''c'' (to_str note_codec (?s ''old'')) demo_group = (g1, Inr ())"
    and r: "\<exists>r. summary_row_of demo_mm_lib ''c'' ''short'' ''p'' g1 = Some r \<and> sm_content r = ''old''"
    by (simp add: summary_write_def andthen_def lift_result_def sql_calm insert_summary_row_def demo_mm_lib_def p
        summary_row_of_def first_of_def new_summary_row_def str_field_def demo_group_def)
  obtain g2 where g2: "summary_write demo_mm_lib (still 1) ''c'' (to_str note_codec (?s ''new'')) g1 = (g2, Inr ())"
    by (simp add: summary_write_def andthen_def lift_result_def sql_calm insert_summary_row_def demo_mm_lib_def p)
  from r obtain r where "summary_row_of demo_mm_lib ''c'' ''short'' ''p'' g1 = Some r" "sm_content r = ''old''" by blast
  with summary_not_replaced [OF _ _ _ this(1) g2] g1 g2 show ?thesis
    by (auto simp: demo_mm_lib_def)
qed

end
