(* ===== verification/Logos_Fs.thy ===== *)
theory Logos_Fs
  imports Logos_Vfs
begin

text \<open>
  The files the kernel keeps: the calls of \<open>std::fs\<close> and \<open>tokio::fs\<close> the sources make, on a
  tree of directories and files without links, and the three namespaces that are directories:
  \<open>users\<close> (\<open>logos-kernel/src/users.rs\<close>), \<open>svc-store\<close> (\<open>services.rs\<close>) and \<open>proc-store\<close>
  (\<open>proc_store.rs\<close>). A path is the list of its components; \<open>..\<close> is resolved as the operating
  system does, component by component. Faults of a call (permissions, a full disk, text that is
  not UTF-8) are assigned per call site; a call that only reads, makes a directory or opens a
  file fails without an effect, while a write that has opened its file can fail after a part of
  the text is written (\<open>io_data\<close>). The order of a directory listing is a parameter.
\<close>

section \<open>The tree\<close>

datatype node = Dir | File string

type_synonym fpath = "string list"
type_synonym tree = "fpath \<rightharpoonup> node"

datatype io_error = ENOENT | EEXIST | ENOTDIR | EISDIR | EOther string

fun io_display :: "io_error \<Rightarrow> string" where
  "io_display ENOENT = ''No such file or directory (os error 2)''"
| "io_display EEXIST = ''File exists (os error 17)''"
| "io_display ENOTDIR = ''Not a directory (os error 20)''"
| "io_display EISDIR = ''Is a directory (os error 21)''"
| "io_display (EOther m) = m"

definition path_display :: "fpath \<Rightarrow> string" where
  "path_display p = ''/'' @ join ''/'' p"

text \<open>\<open>PathBuf::join\<close> with a text: an absolute one replaces the path.\<close>

definition path_join :: "fpath \<Rightarrow> string \<Rightarrow> fpath" where
  "path_join p s = (if starts_with s ''/'' then uri_segments s else p @ uri_segments s)"

text \<open>\<open>Path::parent\<close> is lexical and passes over final dots.\<close>

definition path_parent :: "fpath \<Rightarrow> fpath option" where
  "path_parent p =
     (let q = rev (dropWhile (\<lambda>c. c = ''.'') (rev p)) in if q = [] then None else Some (butlast q))"

definition enter :: "fpath \<Rightarrow> string \<Rightarrow> fpath" where
  "enter cur c = (if c = ''.'' then cur else if c = ''..'' then butlast cur else cur @ [c])"

fun walk :: "tree \<Rightarrow> fpath \<Rightarrow> string list \<Rightarrow> io_error + fpath" where
  "walk fs cur [] = Inr cur"
| "walk fs cur (c # cs) =
     (case fs cur of
        None \<Rightarrow> Inl ENOENT
      | Some (File _) \<Rightarrow> Inl ENOTDIR
      | Some Dir \<Rightarrow> walk fs (enter cur c) cs)"

section \<open>Calls\<close>

definition is_dir :: "fpath \<Rightarrow> tree \<Rightarrow> bool" where
  "is_dir p fs = (case walk fs [] p of Inl _ \<Rightarrow> False | Inr q \<Rightarrow> fs q = Some Dir)"

definition path_exists :: "fpath \<Rightarrow> tree \<Rightarrow> bool" where
  "path_exists p fs = (case walk fs [] p of Inl _ \<Rightarrow> False | Inr q \<Rightarrow> fs q \<noteq> None)"

definition read_to_string :: "fpath \<Rightarrow> (tree, io_error, string) step" where
  "read_to_string p fs = (fs,
     (case walk fs [] p of
        Inl e \<Rightarrow> Inl e
      | Inr q \<Rightarrow> (case fs q of None \<Rightarrow> Inl ENOENT | Some Dir \<Rightarrow> Inl EISDIR | Some (File c) \<Rightarrow> Inr c)))"

definition write_to :: "fpath \<Rightarrow> (string \<Rightarrow> string) \<Rightarrow> (tree, io_error, unit) step" where
  "write_to p f fs =
     (case walk fs [] p of
        Inl e \<Rightarrow> (fs, Inl e)
      | Inr q \<Rightarrow>
          (case fs q of
             Some Dir \<Rightarrow> (fs, Inl EISDIR)
           | Some (File c) \<Rightarrow> (fs(q \<mapsto> File (f c)), Inr ())
           | None \<Rightarrow> (fs(q \<mapsto> File (f [])), Inr ())))"

definition fs_write :: "fpath \<Rightarrow> string \<Rightarrow> (tree, io_error, unit) step" where
  "fs_write p content = write_to p (\<lambda>_. content)"

definition fs_append :: "fpath \<Rightarrow> string \<Rightarrow> (tree, io_error, unit) step" where
  "fs_append p content = write_to p (\<lambda>c. c @ content)"

definition mkdir :: "fpath \<Rightarrow> (tree, io_error, unit) step" where
  "mkdir p fs =
     (case walk fs [] p of
        Inl e \<Rightarrow> (fs, Inl e)
      | Inr q \<Rightarrow> (case fs q of Some _ \<Rightarrow> (fs, Inl EEXIST) | None \<Rightarrow> (fs(q \<mapsto> Dir), Inr ())))"

definition ok_if_dir :: "fpath \<Rightarrow> tree \<times> (io_error + unit) \<Rightarrow> tree \<times> (io_error + unit)" where
  "ok_if_dir p r = (case r of (fs, Inl e) \<Rightarrow> (if is_dir p fs then (fs, Inr ()) else (fs, Inl e)) | _ \<Rightarrow> r)"

lemma length_path_parent:
  assumes "path_parent p = Some q"
  shows "length q < length p"
proof -
  define r where "r = rev (dropWhile (\<lambda>c. c = ''.'') (rev p))"
  from assms have "r \<noteq> []" "q = butlast r"
    by (simp_all add: path_parent_def Let_def r_def split: if_splits)
  moreover have "length r \<le> length p"
    using length_dropWhile_le [of "\<lambda>c. c = ''.''" "rev p"] by (simp add: r_def)
  ultimately show ?thesis by (cases r) auto
qed

text \<open>\<open>create_dir_all\<close>: make the directory, after its parents where one is missing.\<close>

function create_dir_all :: "fpath \<Rightarrow> (tree, io_error, unit) step" where
  "create_dir_all p fs =
     (case mkdir p fs of
        (fs1, Inl ENOENT) \<Rightarrow>
          (case path_parent p of
             None \<Rightarrow> (fs1, Inl (EOther ''failed to create whole tree''))
           | Some q \<Rightarrow>
               (case create_dir_all q fs1 of
                  (fs2, Inl e) \<Rightarrow> (fs2, Inl e)
                | (fs2, Inr _) \<Rightarrow> ok_if_dir p (mkdir p fs2)))
      | r \<Rightarrow> ok_if_dir p r)"
  by pat_completeness auto
termination
  by (relation "measure (\<lambda>(p, fs). length p)") (auto intro: length_path_parent)

declare create_dir_all.simps [simp del]

type_synonym dir_order = "string set \<Rightarrow> string list"

definition dir_names :: "dir_order \<Rightarrow> tree \<Rightarrow> fpath \<Rightarrow> string list" where
  "dir_names ord fs q = filter (\<lambda>n. fs (q @ [n]) \<noteq> None) (ord {n. fs (q @ [n]) \<noteq> None})"

definition read_dir :: "dir_order \<Rightarrow> fpath \<Rightarrow> (tree, io_error, string list) step" where
  "read_dir ord p fs = (fs,
     (case walk fs [] p of
        Inl e \<Rightarrow> Inl e
      | Inr q \<Rightarrow>
          (case fs q of None \<Rightarrow> Inl ENOENT | Some (File _) \<Rightarrow> Inl ENOTDIR
           | Some Dir \<Rightarrow> Inr (dir_names ord fs q))))"

section \<open>Paths without dots\<close>

text \<open>
  What the calls do on a path whose components are ordinary names: the path is followed as it
  is spelt, so the only nodes a call changes are on it.
\<close>

definition clean :: "fpath \<Rightarrow> bool" where
  "clean p \<longleftrightarrow> (\<forall>w \<in> set p. seg_ok w \<and> w \<noteq> ''.'' \<and> w \<noteq> ''..'')"

lemma clean_simps [simp]:
  "clean []" "clean (w # p) \<longleftrightarrow> (seg_ok w \<and> w \<noteq> ''.'' \<and> w \<noteq> ''..'') \<and> clean p"
  "clean (p @ q) \<longleftrightarrow> clean p \<and> clean q"
  by (auto simp: clean_def)

lemma clean_butlast: "clean p \<Longrightarrow> clean (butlast p)"
  by (auto simp: clean_def dest: in_set_butlastD)

definition dirs_to :: "tree \<Rightarrow> fpath \<Rightarrow> bool" where
  "dirs_to fs p \<longleftrightarrow> (\<forall>n \<le> length p. fs (take n p) = Some Dir)"

lemma dirs_toD: "dirs_to fs p \<Longrightarrow> fs p = Some Dir"
  by (auto simp: dirs_to_def dest: spec [of _ "length p"])

lemma dirs_to_butlast: "dirs_to fs p \<Longrightarrow> dirs_to fs (butlast p)"
  by (auto simp: dirs_to_def butlast_conv_take min_def)

lemma all_le_Suc: "(\<forall>n \<le> Suc k. P n) \<longleftrightarrow> P 0 \<and> (\<forall>n \<le> k. P (Suc n))"
  by (metis Suc_le_mono le0 nat.exhaust)

lemma walk_from:
  assumes "clean p"
  shows "walk fs cur p = Inr q \<longleftrightarrow> q = cur @ p \<and> (p \<noteq> [] \<longrightarrow> (\<forall>n \<le> length p - 1. fs (cur @ take n p) = Some Dir))"
  using assms
proof (induction p arbitrary: cur)
  case (Cons c p)
  then have c: "enter cur c = cur @ [c]" by (simp add: enter_def)
  show ?case
  proof (cases "fs cur = Some Dir")
    case True
    with Cons c show ?thesis by (cases p) (auto simp: all_le_Suc)
  next
    case False
    then have "walk fs cur (c # p) \<noteq> Inr q"
      by (auto split: option.splits node.splits)
    with False show ?thesis by (auto dest: spec [of _ 0])
  qed
qed auto

lemma walk_append:
  "clean p \<Longrightarrow> \<forall>n < length p. fs (cur @ take n p) = Some Dir \<Longrightarrow> walk fs cur (p @ q) = walk fs (cur @ p) q"
proof (induction p arbitrary: cur)
  case (Cons a p)
  from Cons.prems(2) have "fs cur = Some Dir" "\<forall>n < length p. fs ((cur @ [a]) @ take n p) = Some Dir"
    by (simp_all add: All_less_Suc2)
  with Cons.IH [of "cur @ [a]"] Cons.prems(1) show ?case by (simp add: enter_def)
qed simp

lemma walk_clean:
  assumes "clean p"
  shows "walk fs [] p = Inr q \<longleftrightarrow> q = p \<and> (p \<noteq> [] \<longrightarrow> dirs_to fs (butlast p))"
proof -
  have "p \<noteq> [] \<Longrightarrow> dirs_to fs (butlast p) \<longleftrightarrow> (\<forall>n \<le> length p - 1. fs (take n p) = Some Dir)"
    by (simp add: dirs_to_def butlast_conv_take)
  with walk_from [OF assms, of fs "[]" q] show ?thesis by auto
qed

lemma dirs_to_iff: "dirs_to fs p \<longleftrightarrow> (p \<noteq> [] \<longrightarrow> dirs_to fs (butlast p)) \<and> fs p = Some Dir"
proof (cases p rule: rev_cases)
  case (snoc q w)
  then show ?thesis by (auto simp: dirs_to_def le_Suc_eq)
qed (simp add: dirs_to_def)

lemma is_dir_clean: "clean p \<Longrightarrow> is_dir p fs \<longleftrightarrow> dirs_to fs p"
proof -
  assume p: "clean p"
  show ?thesis
  proof (cases "walk fs [] p")
    case (Inl e)
    with walk_clean [OF p, of fs p] dirs_to_iff [of fs p] show ?thesis by (simp add: is_dir_def)
  next
    case (Inr q)
    with walk_clean [OF p, of fs q] dirs_to_iff [of fs p] show ?thesis by (simp add: is_dir_def)
  qed
qed

text \<open>A tree that only gained directories on the way to \<open>p\<close>.\<close>

definition grown :: "fpath \<Rightarrow> tree \<Rightarrow> tree \<Rightarrow> bool" where
  "grown p fs fs' \<longleftrightarrow>
     (\<forall>q. fs' q = fs q \<or> (fs q = None \<and> fs' q = Some Dir \<and> (\<exists>n \<le> length p. q = take n p)))"

lemma grown_refl [simp]: "grown p fs fs"
  by (simp add: grown_def)

lemma grown_trans: "grown p fs fs1 \<Longrightarrow> grown p fs1 fs2 \<Longrightarrow> grown p fs fs2"
  unfolding grown_def by (metis option.distinct(1))

lemma grown_butlast:
  assumes "grown (butlast p) fs fs'"
  shows "grown p fs fs'"
  unfolding grown_def
proof
  fix q
  have "\<exists>n \<le> length p. q = take n p" if "n \<le> length (butlast p)" "q = take n (butlast p)" for n
    using that by (intro exI [of _ n]) (auto simp: butlast_conv_take min_def split: if_splits)
  with assms show "fs' q = fs q \<or> (fs q = None \<and> fs' q = Some Dir \<and> (\<exists>n \<le> length p. q = take n p))"
    unfolding grown_def by blast
qed

lemma grown_longer: "grown d fs fs' \<Longrightarrow> take (length d) p = d \<Longrightarrow> grown p fs fs'"
  unfolding grown_def by (metis min.cobounded1 min.commute take_take length_take min.boundedE min_def)

lemma grown_keeps: "grown p fs fs' \<Longrightarrow> fs q = Some x \<Longrightarrow> fs' q = Some x"
  unfolding grown_def by (metis option.distinct(1))

lemma mkdir_grows:
  assumes p: "clean p" and m: "mkdir p fs = (fs', r)"
  shows "grown p fs fs'" "r = Inr () \<Longrightarrow> dirs_to fs' p"
proof -
  have "grown p fs fs' \<and> (r = Inr () \<longrightarrow> dirs_to fs' p)"
  proof (cases "walk fs [] p")
    case (Inl e)
    with m show ?thesis by (auto simp: mkdir_def)
  next
    case (Inr q)
    with walk_clean [OF p] have q: "q = p" "p \<noteq> [] \<Longrightarrow> dirs_to fs (butlast p)" by auto
    show ?thesis
    proof (cases "fs p")
      case None
      with m Inr q have fs': "fs' = fs(p \<mapsto> Dir)" by (simp add: mkdir_def)
      moreover have "dirs_to fs' (butlast p)" if "p \<noteq> []"
        using q(2) [OF that] that None unfolding dirs_to_def fs'
        by (metis dirs_toD dirs_to_def fun_upd_apply)
      moreover have "grown p fs fs'"
        unfolding fs' grown_def using None by (auto intro: exI [of _ "length p"])
      ultimately show ?thesis by (simp add: dirs_to_iff [of _ p])
    next
      case (Some x)
      with m Inr q show ?thesis by (auto simp: mkdir_def)
    qed
  qed
  then show "grown p fs fs'" "r = Inr () \<Longrightarrow> dirs_to fs' p" by auto
qed

lemma create_dir_all_grows:
  "clean p \<Longrightarrow> create_dir_all p fs = (fs', r) \<Longrightarrow> grown p fs fs' \<and> (r = Inr () \<longrightarrow> dirs_to fs' p)"
proof (induction p fs arbitrary: fs' r rule: create_dir_all.induct)
  case (1 p fs)
  obtain fs1 r1 where m1: "mkdir p fs = (fs1, r1)" by fastforce
  note g1 = mkdir_grows [OF \<open>clean p\<close> m1]
  have ok: "grown p fs0 fs' \<and> (r = Inr () \<longrightarrow> dirs_to fs' p)"
    if "ok_if_dir p (mkdir p fs0) = (fs', r)" for fs0
    using that mkdir_grows [OF \<open>clean p\<close>, of fs0] is_dir_clean [OF \<open>clean p\<close>]
    by (cases "mkdir p fs0") (auto simp: ok_if_dir_def split: sum.splits if_splits)
  show ?case
  proof (cases "r1 = Inl ENOENT")
    case False
    with 1(3) m1 have "ok_if_dir p (mkdir p fs) = (fs', r)"
      by (subst (asm) create_dir_all.simps) (auto split: sum.splits io_error.splits)
    then show ?thesis by (rule ok)
  next
    case True
    show ?thesis
    proof (cases "path_parent p")
      case None
      with 1(3) m1 True g1 show ?thesis
        by (subst (asm) create_dir_all.simps) auto
    next
      case (Some q)
      have q: "p \<noteq> []" "q = butlast p"
        using Some \<open>clean p\<close> by (cases p rule: rev_cases; auto simp: path_parent_def)+
      obtain fs2 r2 where c: "create_dir_all q fs1 = (fs2, r2)" by fastforce
      have IH: "grown q fs1 fs2 \<and> (r2 = Inr () \<longrightarrow> dirs_to fs2 q)"
        by (rule 1(1) [OF m1 [symmetric] True refl Some _ c]) (simp add: q clean_butlast \<open>clean p\<close>)
      then have g2: "grown p fs fs2"
        using g1(1) grown_butlast grown_trans q(2) by blast
      show ?thesis
      proof (cases r2)
        case (Inl e)
        with 1(3) m1 True Some c g2 show ?thesis
          by (subst (asm) create_dir_all.simps) auto
      next
        case (Inr u)
        with 1(3) m1 True Some c have "ok_if_dir p (mkdir p fs2) = (fs', r)"
          by (subst (asm) create_dir_all.simps) auto
        from ok [OF this] g2 show ?thesis by (blast intro: grown_trans)
      qed
    qed
  qed
qed

lemma write_to_clean:
  assumes p: "clean p" and m: "write_to p f fs = (fs', r)"
  shows "r = Inr () \<Longrightarrow> p \<noteq> [] \<longrightarrow> dirs_to fs (butlast p)"
    and "r = Inr () \<Longrightarrow> fs p \<noteq> Some Dir"
    and "r = Inr () \<Longrightarrow> fs' = fs(p \<mapsto> File (f (case fs p of Some (File c) \<Rightarrow> c | _ \<Rightarrow> [])))"
    and "r \<noteq> Inr () \<Longrightarrow> fs' = fs"
  using m walk_clean [OF p]
  by (auto simp: write_to_def split: sum.splits option.splits node.splits)

lemma read_to_string_clean:
  "clean p \<Longrightarrow> p \<noteq> [] \<Longrightarrow> dirs_to fs (butlast p) \<Longrightarrow> fs p = Some (File c) \<Longrightarrow>
   read_to_string p fs = (fs, Inr c)"
  using walk_clean [of p fs p] by (simp add: read_to_string_def)

lemma read_to_string_same [simp]: "fst (read_to_string p fs) = fs"
  by (simp add: read_to_string_def)

lemma read_dir_same [simp]: "fst (read_dir ord p fs) = fs"
  by (simp add: read_dir_def)

lemma path_join_clean:
  assumes "clean p" "p \<noteq> []"
  shows "path_join root (join ''/'' p) = root @ p"
proof -
  obtain w ws where p: "p = w # ws" using assms(2) by (cases p) auto
  with assms(1) obtain c w' where w: "w = c # w'" "c \<noteq> CHR ''/''"
    by (cases w) (auto simp: seg_ok_def)
  have "\<exists>r. join ''/'' p = c # r"
    by (cases ws) (auto simp: p w)
  with w have "\<not> starts_with (join ''/'' p) ''/''" by (auto simp: starts_with_def)
  moreover have "uri_segments (join ''/'' p) = p"
    using assms(1) by (intro uri_segments_join) (auto simp: clean_def)
  ultimately show ?thesis by (simp add: path_join_def)
qed

lemma path_parent_clean:
  assumes "clean p" "p \<noteq> []"
  shows "path_parent p = Some (butlast p)"
  using assms by (cases p rule: rev_cases) (auto simp: path_parent_def)

text \<open>A call with its faults and its \<open>map_err\<close>.\<close>

definition io :: "faults \<Rightarrow> string \<Rightarrow> (io_error \<Rightarrow> vfs_error) \<Rightarrow> (tree, io_error, 'a) step \<Rightarrow> (tree, 'a) vfs_step" where
  "io flt label err m fs =
     (case flt [label] of
        Some msg \<Rightarrow> (fs, Inl (err (EOther msg)))
      | None \<Rightarrow> (case m fs of (fs', r) \<Rightarrow> (fs', map_err err r)))"

text \<open>
  Writing text to a file, as \<open>tokio::fs::write\<close> and \<open>write_all\<close> do it: when a fault strikes the
  file after it was opened (for a whole-file write: emptied), a beginning of the text is in it.
  The length of that beginning is read off the faults as well.
\<close>

definition written :: "faults \<Rightarrow> string \<Rightarrow> nat" where
  "written flt label = length (opt_or (flt [label, ''data'', ''written'']) [])"

definition io_data ::
  "faults \<Rightarrow> string \<Rightarrow> (io_error \<Rightarrow> vfs_error) \<Rightarrow> string \<Rightarrow>
   (string \<Rightarrow> (tree, io_error, unit) step) \<Rightarrow> (tree, unit) vfs_step" where
  "io_data flt label err content wr fs =
     (case flt [label, ''data''] of
        None \<Rightarrow> io flt label err (wr content) fs
      | Some msg \<Rightarrow>
          (case io flt label err (wr (take (written flt label) content)) fs of
             (fs', Inr _) \<Rightarrow> (fs', Inl (err (EOther msg)))
           | (fs', Inl e) \<Rightarrow> (fs', Inl e)))"

lemma io_data_no_faults [simp]: "io_data no_faults l err x wr = io no_faults l err (wr x)"
  by (simp add: io_data_def no_faults_def fun_eq_iff)

definition io_err :: "string \<Rightarrow> io_error \<Rightarrow> vfs_error" where
  "io_err what e = Io (what @ '': '' @ io_display e)"

section \<open>Directory namespaces\<close>

text \<open>
  The texts in which the three differ: the root, the name in the URI, and whether errors
  carry the path.
\<close>

record dir_ns =
  dn_root :: fpath
  dn_name :: string
  dn_paths_in_errors :: bool

definition err_at :: "dir_ns \<Rightarrow> string \<Rightarrow> fpath \<Rightarrow> io_error \<Rightarrow> vfs_error" where
  "err_at N what p = io_err (if dn_paths_in_errors N then what @ '' '' @ path_display p else what)"

definition json_names :: "codec \<Rightarrow> string list \<Rightarrow> string" where
  "json_names c names = to_str c (JArr (map JStr names))"

definition dir_read_at ::
  "codec \<Rightarrow> dir_order \<Rightarrow> faults \<Rightarrow> dir_ns \<Rightarrow> string list \<Rightarrow> fpath \<Rightarrow> (tree, string) vfs_step" where
  "dir_read_at c ord flt N path file_path fs =
     (if is_dir file_path fs then
        andthen (io flt ''read dir'' (err_at N ''read dir'' file_path) (read_dir ord file_path)) (\<lambda>entries.
        ret (json_names c entries))
      else io flt ''read'' (\<lambda>e. if e = ENOENT
             then NotFound (''logos://'' @ dn_name N @ ''/'' @ join ''/'' path)
             else err_at N ''read'' file_path e)
           (read_to_string file_path)) fs"

definition dir_write_at :: "faults \<Rightarrow> dir_ns \<Rightarrow> fpath \<Rightarrow> string \<Rightarrow> (tree, unit) vfs_step" where
  "dir_write_at flt N file_path content =
     andthen (case path_parent file_path of
         Some parent \<Rightarrow> io flt ''mkdir'' (err_at N ''mkdir'' parent) (create_dir_all parent)
       | None \<Rightarrow> ret ()) (\<lambda>_.
     io_data flt ''write'' (err_at N ''write'' file_path) content (fs_write file_path))"

text \<open>
  A write to a path without dots: the file holds the content, its directories exist, and no
  other node changes but for directories made on the way.
\<close>

definition file_at :: "fpath \<Rightarrow> tree \<Rightarrow> string \<Rightarrow> bool" where
  "file_at p fs c \<longleftrightarrow> p \<noteq> [] \<and> dirs_to fs (butlast p) \<and> fs p = Some (File c)"

lemma io_ok: "io flt l err m fs = (fs', Inr a) \<Longrightarrow> m fs = (fs', Inr a)"
  by (auto simp: io_def split: option.splits prod.splits)

lemma io_cases:
  assumes "io flt l err m fs = (fs', r)"
  obtains "fs' = fs" | r' where "m fs = (fs', r')" "r = map_err err r'"
  using assms by (auto simp: io_def split: option.splits prod.splits)

lemma io_data_cases:
  assumes m: "io_data flt l err x wr fs = (fs', r)"
    and wr: "\<And>y fs1 e. wr y fs = (fs1, Inl e) \<Longrightarrow> fs1 = fs"
  obtains "fs' = fs" "\<not> is_ok r"
  | "wr x fs = (fs', Inr ())" "is_ok r"
  | n where "wr (take n x) fs = (fs', Inr ())" "\<not> is_ok r" "flt [l, ''data''] \<noteq> None"
proof -
  have io: "(fs1 = fs \<and> \<not> is_ok r1) \<or> (wr y fs = (fs1, Inr ()) \<and> is_ok r1)"
    if "io flt l err (wr y) fs = (fs1, r1)" for y fs1 r1
  proof -
    obtain fs2 q where w: "wr y fs = (fs2, q)" by fastforce
    with that wr [of y] show ?thesis
      by (cases q) (auto simp: io_def split: option.splits)
  qed
  show thesis
  proof (cases "flt [l, ''data'']")
    case None
    with m have "io flt l err (wr x) fs = (fs', r)" by (simp add: io_data_def)
    from io [OF this] that(1,2) show ?thesis by blast
  next
    case (Some msg)
    obtain fs1 r1 where i: "io flt l err (wr (take (written flt l) x)) fs = (fs1, r1)" by fastforce
    with m Some have "fs' = fs1" "\<not> is_ok r" by (auto simp: io_data_def split: sum.splits)
    with io [OF i] that(1,3) Some show ?thesis by auto
  qed
qed

lemma fs_write_unchanged: "clean p \<Longrightarrow> fs_write p y fs = (fs1, Inl e) \<Longrightarrow> fs1 = fs"
  using write_to_clean(4) [of p "\<lambda>_. y" fs fs1 "Inl e"] by (simp add: fs_write_def)

text \<open>
  What a write leaves: the directories made on the way; after a success the content in the
  file; after a failure possibly a beginning of it.
\<close>

lemma dir_write_at_spec:
  assumes p: "clean p" "p \<noteq> []" and w: "dir_write_at flt N p content fs = (fs', r)"
  obtains fs1 where "grown (butlast p) fs fs1" "fs' = fs1" "\<not> is_ok r"
  | fs1 y where "grown (butlast p) fs fs1" "fs' = fs1(p \<mapsto> File y)" "dirs_to fs1 (butlast p)" "fs1 p \<noteq> Some Dir"
      "if is_ok r then y = content else flt [''write'', ''data''] \<noteq> None \<and> (\<exists>n. y = take n content)"
proof -
  note pp = path_parent_clean [OF p]
  obtain fs1 r1 where m: "io flt ''mkdir'' (err_at N ''mkdir'' (butlast p)) (create_dir_all (butlast p)) fs = (fs1, r1)"
    by fastforce
  then have g: "grown (butlast p) fs fs1"
    by (rule io_cases) (auto dest: create_dir_all_grows [OF clean_butlast [OF p(1)]])
  show thesis
  proof (cases r1)
    case (Inl e)
    with w m pp g that(1) show ?thesis by (auto simp: dir_write_at_def andthen_def)
  next
    case (Inr u)
    with w m pp have w2: "io_data flt ''write'' (err_at N ''write'' p) content (fs_write p) fs1 = (fs', r)"
      by (auto simp: dir_write_at_def andthen_def)
    have f: "fs' = fs1(p \<mapsto> File y) \<and> dirs_to fs1 (butlast p) \<and> fs1 p \<noteq> Some Dir"
      if "fs_write p y fs1 = (fs', Inr ())" for y
      using write_to_clean(1-3) [OF p(1) that [unfolded fs_write_def]] p(2) by auto
    from w2 fs_write_unchanged [OF p(1)] show ?thesis
    proof (rule io_data_cases)
      assume "fs' = fs1" "\<not> is_ok r"
      with g that(1) show ?thesis by blast
    next
      assume "fs_write p content fs1 = (fs', Inr ())" "is_ok r"
      with g f that(2) [of fs1 content] show ?thesis by auto
    next
      fix n assume "fs_write p (take n content) fs1 = (fs', Inr ())" "\<not> is_ok r" "flt [''write'', ''data''] \<noteq> None"
      with g f that(2) [of fs1 "take n content"] show ?thesis by auto
    qed
  qed
qed

lemma butlast_ne: "p \<noteq> [] \<Longrightarrow> take n (butlast p) \<noteq> p"
  by (cases p rule: rev_cases) (auto dest: arg_cong [of _ _ length])

lemma file_at_write: "p \<noteq> [] \<Longrightarrow> dirs_to fs (butlast p) \<Longrightarrow> file_at p (fs(p \<mapsto> File c)) c"
  by (auto simp: file_at_def dirs_to_def butlast_ne)

lemma file_at_grown: "grown p fs fs' \<Longrightarrow> file_at q fs c \<Longrightarrow> file_at q fs' c"
  by (auto simp: file_at_def dirs_to_def dest: grown_keeps)

lemma file_at_update:
  "file_at q fs c \<Longrightarrow> q \<noteq> p \<Longrightarrow> fs p \<noteq> Some Dir \<Longrightarrow> file_at q (fs(p \<mapsto> File x)) c"
  by (auto simp: file_at_def dirs_to_def)

lemma dir_write_at_file:
  assumes p: "clean p" "p \<noteq> []" and w: "dir_write_at flt N p content fs = (fs', Inr ())"
  shows "file_at p fs' content"
  using p w by (rule dir_write_at_spec) (use p(2) in \<open>auto intro: file_at_write\<close>)

lemma dir_write_at_frame:
  assumes p: "clean p" "p \<noteq> []" and w: "dir_write_at flt N p content fs = (fs', r)"
    and f: "file_at q fs c" and ne: "q \<noteq> p"
  shows "file_at q fs' c"
  using p w by (rule dir_write_at_spec) (use file_at_grown [OF _ f] file_at_update [OF _ ne] in blast)+

text \<open>The text a write of \<open>x\<close> over \<open>old\<close> leaves.\<close>

definition overwrites :: "string \<Rightarrow> faults \<times> string \<times> bool \<Rightarrow> string \<Rightarrow> bool" where
  "overwrites old = (\<lambda>(flt, x, ok) new. if ok then new = x
     else new = old \<or> flt [''write'', ''data''] \<noteq> None \<and> (\<exists>n. new = take n x))"

lemma dir_write_at_same:
  assumes p: "clean p" "p \<noteq> []" and w: "dir_write_at flt N p content fs = (fs', r)" and f: "file_at p fs c"
  shows "\<exists>c'. overwrites c (flt, content, is_ok r) c' \<and> file_at p fs' c'"
  using p w
proof (rule dir_write_at_spec)
  fix fs1 assume "grown (butlast p) fs fs1" "fs' = fs1" "\<not> is_ok r"
  with file_at_grown [OF _ f] show ?thesis by (auto simp: overwrites_def)
next
  fix fs1 y assume "fs' = fs1(p \<mapsto> File y)" "dirs_to fs1 (butlast p)"
    "if is_ok r then y = content else flt [''write'', ''data''] \<noteq> None \<and> (\<exists>n. y = take n content)"
  with file_at_write [OF p(2)] show ?thesis by (auto simp: overwrites_def split: if_splits)
qed

subsection \<open>users\<close>

definition users_dir :: "fpath \<Rightarrow> dir_ns" where
  "users_dir root = \<lparr>dn_root = root, dn_name = ''users'', dn_paths_in_errors = True\<rparr>"

definition users_read ::
  "codec \<Rightarrow> dir_order \<Rightarrow> faults \<Rightarrow> fpath \<Rightarrow> string list \<Rightarrow> (tree, string) vfs_step" where
  "users_read c ord flt root path =
     (if path = [] then fail (InvalidPath ''empty users path'')
      else dir_read_at c ord flt (users_dir root) path (path_join root (join ''/'' path)))"

definition users_write_file :: "faults \<Rightarrow> fpath \<Rightarrow> string list \<Rightarrow> string \<Rightarrow> (tree, unit) vfs_step" where
  "users_write_file flt root path content =
     dir_write_at flt (users_dir root) (path_join root (join ''/'' path)) content"

definition append_persona_short ::
  "codec \<Rightarrow> faults \<Rightarrow> fpath \<Rightarrow> string list \<Rightarrow> string \<Rightarrow> (tree, unit) vfs_step" where
  "append_persona_short c flt root path content =
     (let file_path = (if length path \<ge> 4 then path_join root (join ''/'' path)
                       else path_join root (path ! 0 @ ''/persona/short/latest'')) in
      andthen (attempt (io flt ''read'' (\<lambda>e. if e = ENOENT then NotFound [] else err_at (users_dir root) ''read'' file_path e)
          (read_to_string file_path)) (\<lambda>r.
        case r of
          Inr s \<Rightarrow> ret s
        | Inl (NotFound _) \<Rightarrow> ret ''[]''
        | Inl e \<Rightarrow> fail e)) (\<lambda>existing.
      andthen (lift_result (case from_str c existing of
          Inr (JArr xs) \<Rightarrow> Inr xs
        | Inr v \<Rightarrow> Inl (InvalidJson (''corrupt persona/short at '' @ path_display file_path
                     @ '': '' @ mismatch c ''Vec<Value>'' v))
        | Inl e \<Rightarrow> Inl (InvalidJson (''corrupt persona/short at '' @ path_display file_path @ '': '' @ e)))) (\<lambda>entries.
      (let new_entry = unwrap_or (from_str c content) (JStr content);
           merged = to_str c (JArr (entries @ [new_entry]))
       in dir_write_at flt (users_dir root) file_path merged))))"

definition users_write ::
  "codec \<Rightarrow> faults \<Rightarrow> fpath \<Rightarrow> string list \<Rightarrow> string \<Rightarrow> (tree, unit) vfs_step" where
  "users_write c flt root path content =
     (if path = [] then fail (InvalidPath ''empty users path'')
      else if length path \<ge> 3 \<and> path ! 1 = ''persona'' \<and> path ! 2 = ''short''
      then append_persona_short c flt root path content
      else users_write_file flt root path content)"

definition users_patch ::
  "codec \<Rightarrow> faults \<Rightarrow> fpath \<Rightarrow> string list \<Rightarrow> string \<Rightarrow> (tree, unit) vfs_step" where
  "users_patch c flt root path partial =
     (if path = [] then fail (InvalidPath ''empty users path'')
      else
        attempt (io flt ''read'' (io_err []) (read_to_string (path_join root (join ''/'' path)))) (\<lambda>r.
        case (from_str c (unwrap_or r []), from_str c partial) of
          (Inr base, Inr patch) \<Rightarrow>
            users_write_file flt root path (to_str_pretty c (json_deep_merge base patch))
        | _ \<Rightarrow> users_write_file flt root path partial))"

definition users_namespace :: "codec \<Rightarrow> dir_order \<Rightarrow> faults \<Rightarrow> fpath \<Rightarrow> tree namespace" where
  "users_namespace c ord flt root =
     \<lparr>ns_name = ''users'', ns_read = users_read c ord flt root, ns_write = users_write c flt root,
      ns_patch = users_patch c flt root\<rparr>"

text \<open>The \<open>init\<close> of the three makes the root directory.\<close>

definition dir_init :: "faults \<Rightarrow> string \<Rightarrow> fpath \<Rightarrow> (tree, unit) vfs_step" where
  "dir_init flt what root = io flt ''init'' (io_err (''create '' @ what @ '' dir'')) (create_dir_all root)"

subsection \<open>svc-store and proc-store\<close>

definition svc_store_dir :: "fpath \<Rightarrow> dir_ns" where
  "svc_store_dir root = \<lparr>dn_root = root, dn_name = ''svc-store'', dn_paths_in_errors = True\<rparr>"

definition proc_store_dir :: "fpath \<Rightarrow> dir_ns" where
  "proc_store_dir root = \<lparr>dn_root = root, dn_name = ''proc-store'', dn_paths_in_errors = False\<rparr>"

definition store_read ::
  "codec \<Rightarrow> dir_order \<Rightarrow> faults \<Rightarrow> dir_ns \<Rightarrow> string list \<Rightarrow> (tree, string) vfs_step" where
  "store_read c ord flt N path =
     (if path = [] then
        andthen (io flt ''list'' (io_err (''read '' @ dn_name N)) (read_dir ord (dn_root N))) (\<lambda>entries.
        ret (json_names c entries))
      else dir_read_at c ord flt N path (path_join (dn_root N) (join ''/'' path)))"

definition store_write :: "faults \<Rightarrow> dir_ns \<Rightarrow> string list \<Rightarrow> string \<Rightarrow> (tree, unit) vfs_step" where
  "store_write flt N path content =
     (if path = [] then fail (InvalidPath (''empty '' @ dn_name N @ '' path''))
      else dir_write_at flt N (path_join (dn_root N) (join ''/'' path)) content)"

definition store_namespace :: "codec \<Rightarrow> dir_order \<Rightarrow> faults \<Rightarrow> dir_ns \<Rightarrow> tree namespace" where
  "store_namespace c ord flt N =
     \<lparr>ns_name = dn_name N, ns_read = store_read c ord flt N, ns_write = store_write flt N,
      ns_patch = store_write flt N\<rparr>"

section \<open>What the directories promise\<close>

definition user_path :: "string list \<Rightarrow> bool" where
  "user_path p \<longleftrightarrow> clean p \<and> p \<noteq> []"

definition persona_short :: "string list \<Rightarrow> bool" where
  "persona_short p \<longleftrightarrow> length p \<ge> 3 \<and> p ! 1 = ''persona'' \<and> p ! 2 = ''short''"

text \<open>The file a path of \<open>users\<close> is written to, below the root.\<close>

definition user_file :: "string list \<Rightarrow> string list" where
  "user_file p = (if persona_short p \<and> length p = 3 then p @ [''latest''] else p)"

definition persona_entry :: "codec \<Rightarrow> string \<Rightarrow> json" where
  "persona_entry c content = unwrap_or (from_str c content) (JStr content)"

definition user_update :: "codec \<Rightarrow> string list \<Rightarrow> string \<Rightarrow> string \<Rightarrow> string" where
  "user_update c p content old =
     (if persona_short p
      then (case from_str c old of Inr (JArr xs) \<Rightarrow> to_str c (JArr (xs @ [persona_entry c content])) | _ \<Rightarrow> old)
      else content)"

lemma user_file_clean: "user_path p \<Longrightarrow> clean (user_file p) \<and> user_file p \<noteq> []"
  by (auto simp: user_path_def user_file_def seg_ok_def)

lemma persona_user_file [simp]: "persona_short (user_file p) \<longleftrightarrow> persona_short p"
  by (auto simp: user_file_def persona_short_def nth_append)

lemma persona_file:
  assumes "user_path p" "persona_short p"
  shows "(if length p \<ge> 4 then path_join root (join ''/'' p)
          else path_join root (p ! 0 @ ''/persona/short/latest'')) = root @ user_file p"
proof (cases "length p \<ge> 4")
  case True
  with assms show ?thesis by (simp add: user_path_def path_join_clean user_file_def)
next
  case False
  with assms have "length p = Suc (Suc (Suc 0))" by (simp add: persona_short_def)
  with assms obtain u where p: "p = [u, ''persona'', ''short'']"
    by (auto simp: persona_short_def length_Suc_conv)
  then have "p ! 0 @ ''/persona/short/latest'' = join ''/'' (user_file p)"
    by (simp add: user_file_def persona_short_def)
  with False user_file_clean [OF assms(1)] show ?thesis by (simp add: path_join_clean)
qed

lemma users_write_cases:
  assumes root: "clean root" and p: "user_path p" and w: "users_write c flt root p content fs = (fs', r)"
  shows "(fs' = fs \<and> \<not> is_ok r) \<or>
    (\<exists>x. dir_write_at flt (users_dir root) (root @ user_file p) x fs = (fs', r) \<and>
         (\<not> persona_short p \<longrightarrow> x = content) \<and>
         (\<forall>old. file_at (root @ user_file p) fs old \<longrightarrow> x = user_update c p content old))"
proof (cases "persona_short p")
  case False
  then have "users_write c flt root p content fs =
      dir_write_at flt (users_dir root) (root @ user_file p) content fs"
    using p by (auto simp: users_write_def users_write_file_def user_path_def persona_short_def
        path_join_clean user_file_def)
  with w False show ?thesis by (auto simp: user_update_def)
next
  case True
  let ?f = "root @ user_file p"
  have f: "clean ?f" "?f \<noteq> []" using root user_file_clean [OF p] by auto
  have "users_write c flt root p content = append_persona_short c flt root p content"
    using True p by (simp add: users_write_def persona_short_def user_path_def)
  note w' = w [unfolded this append_persona_short_def persona_file [OF p True] Let_def]
  define rd where "rd = attempt (io flt ''read'' (\<lambda>e. if e = ENOENT then NotFound [] else err_at (users_dir root) ''read'' ?f e)
          (read_to_string ?f)) (\<lambda>r.
        case r of Inr s \<Rightarrow> ret s | Inl (NotFound _) \<Rightarrow> ret ''[]'' | Inl e \<Rightarrow> fail e)"
  have same: "fst (rd fs) = fs"
    by (auto simp: rd_def attempt_def io_def step_defs read_to_string_def
        split: option.splits sum.splits prod.splits vfs_error.splits)
  obtain q where rd: "rd fs = (fs, q)" using same by (cases "rd fs") auto
  note w2 = w' [folded rd_def, unfolded andthen_def rd lift_result_def]
  show ?thesis
  proof (cases q)
    case (Inl e)
    with w2 show ?thesis by auto
  next
    case (Inr existing)
    show ?thesis
    proof (cases "\<exists>xs. from_str c existing = Inr (JArr xs)")
      case False
      with w2 Inr show ?thesis by (auto split: sum.splits json.splits)
    next
      case True
      then obtain xs where xs: "from_str c existing = Inr (JArr xs)" by blast
      let ?x = "to_str c (JArr (xs @ [persona_entry c content]))"
      have "dir_write_at flt (users_dir root) ?f ?x fs = (fs', r)"
        using w2 Inr xs by (simp add: persona_entry_def)
      moreover have "?x = user_update c p content old" if "file_at ?f fs old" for old
      proof -
        have "read_to_string ?f fs = (fs, Inr old)"
          using that f by (auto simp: file_at_def intro: read_to_string_clean)
        then have "existing = old \<or> flt [''read''] \<noteq> None"
          using rd Inr by (auto simp: rd_def attempt_def io_def ret_def split: option.splits)
        moreover have "flt [''read''] = None"
          using rd Inr by (auto simp: rd_def attempt_def io_def step_defs err_at_def io_err_def split: option.splits)
        ultimately show ?thesis using xs \<open>persona_short p\<close> by (simp add: user_update_def)
      qed
      ultimately show ?thesis using \<open>persona_short p\<close> by blast
    qed
  qed
qed

definition user_eff :: "codec \<Rightarrow> string list \<Rightarrow> faults \<times> string \<times> bool \<Rightarrow> string \<Rightarrow> string \<Rightarrow> bool" where
  "user_eff c f = (\<lambda>(flt, w, ok) old. overwrites old (flt, user_update c f w old, ok))"

lemma users_write_same:
  assumes "clean root" "user_path p" and w: "users_write c flt root p content fs = (fs', r)"
    and f: "file_at (root @ user_file p) fs old"
  shows "\<exists>v'. user_eff c (user_file p) (flt, content, is_ok r) old v' \<and> file_at (root @ user_file p) fs' v'"
proof -
  have u: "user_update c (user_file p) = user_update c p" by (simp add: user_update_def fun_eq_iff)
  have p: "clean (root @ user_file p)" "root @ user_file p \<noteq> []"
    using assms(1) user_file_clean [OF assms(2)] by auto
  from users_write_cases [OF assms(1-3)] f consider "fs' = fs" "\<not> is_ok r"
    | "dir_write_at flt (users_dir root) (root @ user_file p) (user_update c p content old) fs = (fs', r)" by auto
  then show ?thesis
  proof cases
    case 1
    with f show ?thesis by (auto simp: user_eff_def overwrites_def)
  next
    case 2
    from dir_write_at_same [OF p 2 f] show ?thesis by (simp add: user_eff_def u)
  qed
qed

interpretation user_files: registers "\<lambda>flt. users_write c flt root" "\<lambda>p. clean root \<and> user_path p"
  user_file "user_eff c" "\<lambda>f fs. file_at (root @ f) fs" for c root
proof (unfold_locales, goal_cases)
  case 1
  then show ?case using users_write_same by blast
next
  case (2 k k' s v f w s' r)
  then have k': "clean root" "user_path k'" and p: "clean (root @ user_file k')" "root @ user_file k' \<noteq> []"
    using user_file_clean [of k'] by auto
  from users_write_cases [OF k' 2(4)] show ?case
  proof (elim disjE exE conjE)
    fix x assume "dir_write_at f (users_dir root) (root @ user_file k') x s = (s', r)"
    from dir_write_at_frame [OF p this 2(3)] 2(5) show ?thesis by simp
  qed (use 2(3) in simp)
qed

definition torn_text :: "string \<Rightarrow> string \<Rightarrow> bool" where
  "torn_text w t \<longleftrightarrow> (\<exists>n. t = take n w)"

interpretation user_docs: key_store "\<lambda>flt. users_write c flt root" "\<lambda>p. clean root \<and> user_path p"
  user_file "user_eff c" "\<lambda>f fs. file_at (root @ f) fs" "\<lambda>f. \<not> persona_short f" torn_text for c root
proof (unfold_locales, goal_cases)
  case (1 f flt w b v v')
  then show ?case by (auto simp: user_eff_def user_update_def overwrites_def torn_text_def split: if_splits)
next
  case (2 k f w s s')
  then have k: "clean root" "user_path k" "\<not> persona_short k" by auto
  have f: "clean (root @ user_file k)" "root @ user_file k \<noteq> []" using k user_file_clean [of k] by auto
  from users_write_cases [OF k(1,2) 2(3)] k(3)
  have "dir_write_at f (users_dir root) (root @ user_file k) w s = (s', Inr ())" by auto
  from dir_write_at_file [OF f this] show ?case .
qed

lemma store_write_at: "user_path p \<Longrightarrow> store_write f N p x s = dir_write_at f N (dn_root N @ p) x s"
  by (simp add: store_write_def user_path_def path_join_clean)

interpretation store_files: key_store "\<lambda>flt. store_write flt N" "\<lambda>p. clean (dn_root N) \<and> user_path p"
  "\<lambda>p. p" "\<lambda>_ x old. overwrites old x" "\<lambda>f fs. file_at (dn_root N @ f) fs" "\<lambda>_. True" torn_text for N
proof (unfold_locales, goal_cases)
  case (1 k s v f w s' r)
  then have p: "clean (dn_root N @ k)" "dn_root N @ k \<noteq> []" by (auto simp: user_path_def)
  from 1 have "dir_write_at f N (dn_root N @ k) w s = (s', r)" by (simp add: store_write_at)
  from dir_write_at_same [OF p this 1(2)] show ?case .
next
  case (2 k k' s v f w s' r)
  then have p: "clean (dn_root N @ k')" "dn_root N @ k' \<noteq> []" by (auto simp: user_path_def)
  from 2 have "dir_write_at f N (dn_root N @ k') w s = (s', r)" by (simp add: store_write_at)
  from dir_write_at_frame [OF p this 2(3)] 2(5) show ?case by simp
next
  case (3 f w b v v')
  then show ?case by (auto simp: overwrites_def torn_text_def split: if_splits)
next
  case (4 k f w s s')
  then have p: "clean (dn_root N @ k)" "dn_root N @ k \<noteq> []" by (auto simp: user_path_def)
  from 4 have "dir_write_at f N (dn_root N @ k) w s = (s', Inr ())" by (simp add: store_write_at)
  from dir_write_at_file [OF p this] show ?case .
qed

lemma dir_read_file:
  assumes "clean p" "file_at p fs v"
  shows "dir_read_at c ord no_faults N path p fs = (fs, Inr v)"
  using assms dirs_toD [of fs p]
  by (auto simp: dir_read_at_def is_dir_clean file_at_def io_def no_faults_def read_to_string_clean)

text \<open>Entries appended to a log, where no failed write was torn.\<close>

lemma chain_persona:
  assumes "codec_ok c" "persona_short p"
    and "\<forall>(flt, w, b) \<in> set xs. flt [''write'', ''data''] = None \<and> float_free (persona_entry c w)"
  shows "chain (user_eff c p) xs (to_str c (JArr js)) v \<Longrightarrow> wf_json (JArr js) \<Longrightarrow> float_free (JArr js) \<Longrightarrow>
    v = to_str c (JArr (js @ [persona_entry c w. (flt, w, b) \<leftarrow> xs, b]))"
  using assms(3)
proof (induction xs arbitrary: js)
  case (Cons x xs)
  obtain flt w b where x: "x = (flt, w, b)" by (cases x)
  from Cons.prems(1) x obtain u where u: "user_eff c p (flt, w, b) (to_str c (JArr js)) u"
    and ch: "chain (user_eff c p) xs u v" by auto
  have ok: "flt [''write'', ''data''] = None" "float_free (persona_entry c w)" using Cons.prems(4) x by auto
  have "wf_json (persona_entry c w)"
    using codec_okD(3) [OF assms(1)] by (cases "from_str c w") (auto simp: persona_entry_def)
  with Cons.prems ok have j: "wf_json (JArr (js @ [persona_entry c w]))" "float_free (JArr (js @ [persona_entry c w]))"
    by auto
  have up: "user_update c p w (to_str c (JArr js)) = to_str c (JArr (js @ [persona_entry c w]))"
    using codec_okD(1) [OF assms(1) Cons.prems(2,3)] assms(2) by (simp add: user_update_def)
  have rest: "\<forall>(flt, w, b) \<in> set xs. flt [''write'', ''data''] = None \<and> float_free (persona_entry c w)"
    using Cons.prems(4) by simp
  show ?case
  proof (cases b)
    case True
    with u up have "u = to_str c (JArr (js @ [persona_entry c w]))" by (simp add: user_eff_def overwrites_def)
    with Cons.IH [OF _ j rest] ch True show ?thesis by (simp add: x)
  next
    case False
    with u ok have "u = to_str c (JArr js)" by (simp add: user_eff_def overwrites_def)
    with Cons.IH [OF _ Cons.prems(2,3) rest] ch False show ?thesis by (simp add: x)
  qed
qed simp

lemma dir_write_changes:
  assumes p: "clean p" "p \<noteq> []" and w: "dir_write_at flt N p content fs = (fs', r)" and q: "fs' q \<noteq> fs q"
  shows "q = p \<or> (fs q = None \<and> fs' q = Some Dir \<and> (\<exists>n \<le> length p. q = take n p))"
proof -
  have g: ?thesis if "grown (butlast p) fs fs1" "fs' q = fs1 q" for fs1
    using grown_butlast [OF that(1)] that(2) q by (auto simp: grown_def)
  from p w show ?thesis by (rule dir_write_at_spec) (use g in \<open>auto split: if_splits\<close>)
qed

lemma take_below:
  assumes "n \<le> length (root @ u # t)"
  shows "(\<exists>t'. take n (root @ u # t) = root @ u # t') \<or> (\<exists>m \<le> length root. take n (root @ u # t) = take m root)"
proof (cases "n \<le> length root")
  case False
  then obtain k where "n - length root = Suc k" by (cases "n - length root") auto
  with False show ?thesis by simp
qed auto

lemma users_patch_cases:
  assumes "clean root" "user_path p" and m: "users_patch c flt root p partial fs = (fs', r)"
  shows "\<exists>x. dir_write_at flt (users_dir root) (root @ p) x fs = (fs', r) \<and>
     (\<forall>old. file_at (root @ p) fs old \<longrightarrow> flt [''read''] = None \<longrightarrow>
        x = (case (from_str c old, from_str c partial) of
               (Inr base, Inr patch) \<Rightarrow> to_str_pretty c (json_deep_merge base patch) | _ \<Rightarrow> partial))"
proof -
  have p: "path_join root (join ''/'' p) = root @ p" "p \<noteq> []" "clean (root @ p)"
    using assms by (auto simp: user_path_def path_join_clean)
  obtain q where q: "io flt ''read'' (io_err []) (read_to_string (root @ p)) fs = (fs, q)"
    by (cases "flt [''read'']") (auto simp: io_def read_to_string_def)
  have "q = Inr old" if "file_at (root @ p) fs old" "flt [''read''] = None" for old
  proof -
    have "read_to_string (root @ p) fs = (fs, Inr old)"
      using that(1) p(2,3) by (auto simp: file_at_def intro: read_to_string_clean)
    with q that(2) show ?thesis by (simp add: io_def)
  qed
  moreover obtain x where "x = (case (from_str c (unwrap_or q []), from_str c partial) of
      (Inr base, Inr patch) \<Rightarrow> to_str_pretty c (json_deep_merge base patch) | _ \<Rightarrow> partial)" by blast
  moreover from this have "dir_write_at flt (users_dir root) (root @ p) x fs = (fs', r)"
    using m p q by (auto simp: users_patch_def attempt_def users_write_file_def split: sum.splits)
  ultimately show ?thesis by auto
qed

text \<open>Without faults a write into an existing directory succeeds.\<close>

lemma create_dir_all_there:
  assumes "clean p" "dirs_to fs p"
  shows "create_dir_all p fs = (fs, Inr ())"
proof -
  have "walk fs [] p = Inr p" "fs p = Some Dir"
    using walk_clean [OF assms(1)] dirs_to_butlast [OF assms(2)] dirs_toD [OF assms(2)] by auto
  then show ?thesis
    using is_dir_clean [OF assms(1)] assms(2) by (simp add: create_dir_all.simps mkdir_def ok_if_dir_def)
qed

lemma dir_write_ok:
  assumes p: "clean p" "p \<noteq> []" and d: "dirs_to fs (butlast p)" "fs p \<noteq> Some Dir"
  shows "dir_write_at no_faults N p content fs = (fs(p \<mapsto> File content), Inr ())"
proof -
  have "walk fs [] p = Inr p" using walk_clean [OF p(1)] d(1) by auto
  with d(2) have "fs_write p content fs = (fs(p \<mapsto> File content), Inr ())"
    by (auto simp: fs_write_def write_to_def split: option.splits node.splits)
  then show ?thesis
    using create_dir_all_there [OF clean_butlast [OF p(1)] d(1)] path_parent_clean [OF p]
    by (simp add: dir_write_at_def io_def no_faults_def andthen_def)
qed

text \<open>A path that leaves a directory again by \<open>..\<close> names what lies beside it.\<close>

lemma walk_dots:
  assumes "clean (base @ [d])" "dirs_to fs (base @ [d])"
  shows "walk fs [] (base @ d # ''..'' # q) = walk fs [] (base @ q)"
proof -
  have d: "dirs_to fs base" using dirs_to_butlast [OF assms(2)] by simp
  then have b: "clean base" "\<forall>n < length base. fs ([] @ take n base) = Some Dir" "fs base = Some Dir"
    using assms(1) dirs_toD [OF d] by (simp_all add: dirs_to_def)
  have "walk fs base (d # ''..'' # q) = walk fs base q"
    using assms(1) b(3) dirs_toD [OF assms(2)] by (simp add: enter_def)
  then show ?thesis using walk_append [OF b(1,2), of "d # ''..'' # q"] walk_append [OF b(1,2), of q] by simp
qed

lemma dir_write_dots:
  assumes "clean (base @ [d])" "dirs_to fs (base @ [d])"
    and rest: "clean rest" "rest \<noteq> []" and d: "dirs_to fs (base @ butlast rest)" and nd: "fs (base @ rest) \<noteq> Some Dir"
  shows "dir_write_at no_faults N (base @ d # ''..'' # rest) x fs = (fs(base @ rest \<mapsto> File x), Inr ())"
proof -
  note w = walk_dots [OF assms(1,2)]
  have c: "clean (base @ rest)" "clean (base @ butlast rest)" using assms(1) rest(1) by (auto simp: clean_butlast)
  have parent: "path_parent (base @ d # ''..'' # rest) = Some (base @ d # ''..'' # butlast rest)"
    using rest by (cases rest rule: rev_cases) (auto simp: path_parent_def butlast_append)
  have "walk fs [] (base @ butlast rest) = Inr (base @ butlast rest)"
    using walk_clean [OF c(2)] dirs_to_butlast [OF d] by auto
  then have mk: "create_dir_all (base @ d # ''..'' # butlast rest) fs = (fs, Inr ())"
    using dirs_toD [OF d] by (simp add: create_dir_all.simps mkdir_def w ok_if_dir_def is_dir_def)
  have "walk fs [] (base @ rest) = Inr (base @ rest)"
    using walk_clean [OF c(1)] d rest(2) by (simp add: butlast_append)
  then have "fs_write (base @ d # ''..'' # rest) x fs = (fs(base @ rest \<mapsto> File x), Inr ())"
    using nd by (auto simp: fs_write_def write_to_def w split: option.splits node.splits)
  with mk parent show ?thesis by (simp add: dir_write_at_def io_def no_faults_def andthen_def)
qed

lemma path_join_dots:
  assumes "clean rest"
  shows "path_join root (join ''/'' (''..'' # rest)) = root @ ''..'' # rest"
proof -
  have "uri_segments (join ''/'' (''..'' # rest)) = ''..'' # rest"
    using assms by (intro uri_segments_join) (auto simp: clean_def seg_ok_def)
  moreover have "\<not> starts_with (join ''/'' (''..'' # rest)) ''/''"
    by (cases rest) (simp_all add: starts_with_def)
  ultimately show ?thesis by (simp add: path_join_def)
qed

lemma users_write_there:
  assumes p: "clean root" "user_path p" and f: "file_at (root @ user_file p) fs old"
    and u: "persona_short p \<Longrightarrow> from_str c old = Inr (JArr xs)"
  shows "users_write c no_faults root p content fs =
    (fs(root @ user_file p \<mapsto> File (user_update c p content old)), Inr ())"
proof -
  let ?f = "root @ user_file p"
  have cf: "clean ?f" "?f \<noteq> []" using p user_file_clean [OF p(2)] by auto
  have w: "dir_write_at no_faults N ?f x fs = (fs(?f \<mapsto> File x), Inr ())" for N x
    using dir_write_ok [OF cf] f by (simp add: file_at_def)
  show ?thesis
  proof (cases "persona_short p")
    case False
    then show ?thesis
      using p w by (auto simp: users_write_def users_write_file_def user_path_def persona_short_def
        path_join_clean user_file_def user_update_def)
  next
    case True
    note xs = u [OF True]
    have r: "read_to_string (root @ user_file p) fs = (fs, Inr old)"
      using f cf by (auto simp: file_at_def intro: read_to_string_clean)
    have "users_write c no_faults root p content = append_persona_short c no_faults root p content"
      using True p by (simp add: users_write_def persona_short_def user_path_def)
    then show ?thesis
      using xs w True
      by (simp add: append_persona_short_def persona_file [OF p(2) True] Let_def io_def no_faults_def r
          attempt_def andthen_def ret_def lift_result_def user_update_def persona_entry_def)
  qed
qed

text \<open>A disk that is full when the text of a file is written, after the file was emptied.\<close>

definition full_disk :: "string \<Rightarrow> faults" where
  "full_disk msg = [[''write'', ''data''] \<mapsto> msg]"

lemma users_write_full_disk:
  assumes p: "clean root" "user_path p" "persona_short p" and f: "file_at (root @ user_file p) fs old"
    and xs: "from_str c old = Inr (JArr xs)" and w: "users_write c (full_disk msg) root p content fs = (fs', r)"
  shows "file_at (root @ user_file p) fs' [] \<and> \<not> is_ok r"
proof -
  let ?f = "root @ user_file p"
  have cf: "clean ?f" "?f \<noteq> []" using p user_file_clean [OF p(2)] by auto
  have d: "dirs_to fs (butlast ?f)" "fs ?f = Some (File old)" using f by (auto simp: file_at_def)
  have rd: "read_to_string ?f fs = (fs, Inr old)"
    using f cf by (auto simp: file_at_def intro: read_to_string_clean)
  have "walk fs [] ?f = Inr ?f" using walk_clean [OF cf(1)] d(1) by auto
  with d(2) have wr: "fs_write ?f [] fs = (fs(?f \<mapsto> File []), Inr ())" by (simp add: fs_write_def write_to_def)
  have "dir_write_at (full_disk msg) N ?f x fs = (fs(?f \<mapsto> File []), Inl (err_at N ''write'' ?f (EOther msg)))" for N x
    using create_dir_all_there [OF clean_butlast [OF cf(1)] d(1)] path_parent_clean [OF cf] wr
    by (simp add: dir_write_at_def io_def io_data_def full_disk_def written_def andthen_def)
  moreover have "users_write c (full_disk msg) root p content = append_persona_short c (full_disk msg) root p content"
    using p by (simp add: users_write_def persona_short_def user_path_def)
  ultimately have "fs' = fs(?f \<mapsto> File [])" "\<not> is_ok r"
    using w xs
    by (auto simp: append_persona_short_def persona_file [OF p(2,3)] Let_def io_def rd full_disk_def
        attempt_def andthen_def ret_def lift_result_def)
  with file_at_write [OF cf(2) d(1)] show ?thesis by simp
qed

lemma no_array_refused:
  assumes p: "clean root" "user_path p" "persona_short p" and f: "file_at (root @ user_file p) fs []"
    and e: "from_str c [] = Inl e" and w: "users_write c flt root p content fs = (fs', r)"
  shows "fs' = fs \<and> \<not> is_ok r"
proof -
  let ?f = "root @ user_file p"
  have cf: "clean ?f" "?f \<noteq> []" using p user_file_clean [OF p(2)] by auto
  have rd: "read_to_string ?f fs = (fs, Inr [])"
    using f cf by (auto simp: file_at_def intro: read_to_string_clean)
  have "users_write c flt root p content = append_persona_short c flt root p content"
    using p by (simp add: users_write_def persona_short_def user_path_def)
  with w e show ?thesis
    by (auto simp: append_persona_short_def persona_file [OF p(2,3)] Let_def io_def rd err_at_def io_err_def
        attempt_def andthen_def ret_def fail_def lift_result_def split: option.splits)
qed

lemma no_array_refuses:
  "clean root \<Longrightarrow> file_at (root @ user_file p) fs [] \<Longrightarrow> from_str c [] = Inl e \<Longrightarrow> \<forall>(flt, q, x) \<in> set ws. user_path q \<Longrightarrow>
   put_all (\<lambda>flt. users_write c flt root) ws fs = (fs', outs) \<Longrightarrow> user_path p \<Longrightarrow> persona_short p \<Longrightarrow>
   file_at (root @ user_file p) fs' [] \<and> (\<forall>(flt, q, x, ok) \<in> set outs. user_file q = user_file p \<longrightarrow> \<not> ok)"
proof (induction ws arbitrary: fs outs)
  case (Cons y ws)
  obtain flt q x where y: "y = (flt, q, x)" by (cases y)
  from Cons.prems(5) [unfolded y] obtain fs1 r outs' where w: "users_write c flt root q x fs = (fs1, r)"
    and a: "put_all (\<lambda>flt. users_write c flt root) ws fs1 = (fs', outs')"
    and outs: "outs = (flt, q, x, is_ok r) # outs'" by (rule put_all_Cons)
  have q: "user_path q" "\<forall>(flt, q, x) \<in> set ws. user_path q" using Cons.prems(4) y by auto
  have "file_at (root @ user_file p) fs1 [] \<and> (user_file q = user_file p \<longrightarrow> \<not> is_ok r)"
  proof (cases "user_file q = user_file p")
    case True
    with Cons.prems(7) have "persona_short q" by (metis persona_user_file)
    from no_array_refused [OF Cons.prems(1) q(1) this _ Cons.prems(3) w] True Cons.prems(2) show ?thesis by simp
  next
    case False
    with user_files.put_other [of root p q, OF _ _ Cons.prems(2) w] Cons.prems(1,6) q(1) show ?thesis by auto
  qed
  with Cons.IH [OF Cons.prems(1) _ Cons.prems(3) q(2) a Cons.prems(6,7)] outs show ?case by auto
qed simp

section \<open>Properties\<close>

text \<open>
  C30: A user file holds what was written to it last: after any sequence of writes to paths
  without dot segments, with any failures, reading a path other than a \<open>persona/short\<close> one
  returns the text of the last acknowledged write to it or, when writes to it failed later, possibly
  the beginning of the text of one of those: a write empties the file before it fills it. What is
  written to other paths never shows.\<close>

theorem users_last_write:
  assumes "clean root" and "\<forall>(flt, p, w) \<in> set ws. user_path p"
    and "put_all (\<lambda>flt. users_write c flt root) ws fs = (fs', before @ (flt, p, w, True) # later)"
    and "\<not> persona_short p" and "\<forall>(flt, q, x, ok) \<in> set later. q = p \<longrightarrow> \<not> ok"
  shows "\<exists>t. users_read c ord no_faults root p fs' = (fs', Inr t) \<and>
    (t = w \<or> (\<exists>flt x n. (flt, p, x, False) \<in> set later \<and> t = take n x))"
proof -
  have p: "user_path p" using put_all_outs [OF assms(3), of flt p w True] assms(2) by auto
  have same: "q = p" if "user_file q = user_file p" for q
    using that assms(4) by (metis persona_user_file user_file_def)
  have "\<forall>(flt, q, x, ok) \<in> set later. user_file q = user_file p \<longrightarrow> q = p \<and> \<not> ok"
    using assms(5) by (auto dest: same)
  from user_docs.last_write_holds [OF _ _ _ assms(3) this] assms(1,2,4) p
  obtain t where t: "file_at (root @ p) fs' t" "t = w \<or> (\<exists>flt x. (flt, p, x, False) \<in> set later \<and> torn_text x t)"
    by (auto simp: user_file_def)
  with assms(1) p have "users_read c ord no_faults root p fs' = (fs', Inr t)"
    by (simp add: users_read_def path_join_clean dir_read_file user_path_def)
  with t(2) show ?thesis by (auto simp: torn_text_def)
qed

definition demo_tree :: tree where
  "demo_tree = [[] \<mapsto> Dir, [''data''] \<mapsto> Dir]"

lemmas write_eval = users_write_def users_write_file_def dir_write_at_def users_dir_def path_join_def
  uri_segments_def path_parent_def io_def no_faults_def create_dir_all.simps mkdir_def ok_if_dir_def
  is_dir_def fs_write_def write_to_def enter_def step_defs starts_with_def io_data_def written_def

definition torn_write :: faults where
  "torn_write = [[''write'', ''data''] \<mapsto> ''No space left on device (os error 28)'',
     [''write'', ''data'', ''written''] \<mapsto> ''xx'']"

theorem users_last_write_witness:
  "let (fs', outs) = put_all (\<lambda>flt. users_write note_codec flt [''data''])
         [(no_faults, [''u1'', ''profile''], ''old''), (torn_write, [''u1'', ''profile''], ''fresh'')] demo_tree
   in outs = [(no_faults, [''u1'', ''profile''], ''old'', True), (torn_write, [''u1'', ''profile''], ''fresh'', False)] \<and>
      fs' [''data'', ''u1'', ''profile''] = Some (File ''fr'') \<and>
      (\<exists>t. users_read note_codec sorted_list_of_set no_faults [''data''] [''u1'', ''profile''] fs' = (fs', Inr t) \<and>
         (t = ''old'' \<or> (\<exists>n. t = take n ''fresh'')))"
proof -
  let ?ws = "[(no_faults, [''u1'', ''profile''], ''old''), (torn_write, [''u1'', ''profile''], ''fresh'')]"
  let ?put = "\<lambda>flt. users_write note_codec flt [''data'']"
  obtain fs' outs where run: "put_all ?put ?ws demo_tree = (fs', outs)" by fastforce
  then have outs: "outs = [] @ (no_faults, [''u1'', ''profile''], ''old'', True) # [(torn_write, [''u1'', ''profile''], ''fresh'', False)]"
    and f: "fs' [''data'', ''u1'', ''profile''] = Some (File ''fr'')"
    by (auto simp: write_eval demo_tree_def torn_write_def)
  have "\<exists>t. users_read note_codec sorted_list_of_set no_faults [''data''] [''u1'', ''profile''] fs' = (fs', Inr t) \<and>
      (t = ''old'' \<or> (\<exists>flt x n. (flt, [''u1'', ''profile''], x, False) \<in> set [(torn_write, [''u1'', ''profile''], ''fresh'', False)] \<and> t = take n x))"
    by (rule users_last_write [OF _ _ run [unfolded outs]])
       (simp_all add: seg_ok_def persona_short_def user_path_def)
  with run outs f show ?thesis by (simp del: put_all.simps)
qed

text \<open>
  A \<open>persona/short\<close> file is an append-only log as far as writes go: after any sequence of
  writes to paths without dot segments, failures included as long as no write of this file fails
  halfway, it holds the array it held before with one entry per acknowledged write to it, in
  order; an entry is the JSON the text is, or the text.\<close>

theorem persona_short_log:
  assumes "codec_ok c" and "clean root" and "\<forall>(flt, p, w) \<in> set ws. user_path p"
    and "put_all (\<lambda>flt. users_write c flt root) ws fs = (fs', outs)"
    and "user_path p" "persona_short p" and "file_at (root @ user_file p) fs (to_str c (JArr xs))"
    and "wf_json (JArr xs)" "float_free (JArr xs)"
    and "\<forall>(flt, k, w, ok) \<in> set outs. user_file k = user_file p \<longrightarrow>
      flt [''write'', ''data''] = None \<and> float_free (persona_entry c w)"
  shows "file_at (root @ user_file p) fs'
    (to_str c (JArr (xs @ [persona_entry c w. (flt, k, w, ok) \<leftarrow> outs, ok \<and> user_file k = user_file p])))"
proof -
  let ?os = "[(flt, w, ok). (flt, k, w, ok) \<leftarrow> outs, user_file k = user_file p]"
  from user_files.put_all_holds [OF _ assms(7) _ assms(4)] assms(2,3,5)
  obtain v where ch: "chain (user_eff c (user_file p)) ?os (to_str c (JArr xs)) v"
    and v: "file_at (root @ user_file p) fs' v" by auto
  have "\<forall>(flt, w, b) \<in> set ?os. flt [''write'', ''data''] = None \<and> float_free (persona_entry c w)"
    using assms(10) by fastforce
  from chain_persona [OF assms(1) _ this ch assms(8,9)] assms(6)
  have "v = to_str c (JArr (xs @ [persona_entry c w. (flt, w, b) \<leftarrow> ?os, b]))" by simp
  moreover have "[persona_entry c w. (flt, w, b) \<leftarrow> ?os, b] =
      [persona_entry c w. (flt, k, w, ok) \<leftarrow> outs, ok \<and> user_file k = user_file p]"
    by (induction outs) auto
  ultimately show ?thesis using v by simp
qed

definition demo_log :: tree where
  "demo_log = demo_tree([''data'', ''u1''] \<mapsto> Dir, [''data'', ''u1'', ''persona''] \<mapsto> Dir,
     [''data'', ''u1'', ''persona'', ''short''] \<mapsto> Dir,
     [''data'', ''u1'', ''persona'', ''short'', ''latest''] \<mapsto> File (to_str note_codec (JArr [JStr ''a''])))"

lemma demo_log_dirs: "dirs_to demo_log [''data'', ''u1'', ''persona'', ''short'']"
  by (simp add: dirs_to_def all_le_Suc demo_log_def demo_tree_def)

lemma note_no_parse: "from_str note_codec ''walked'' = Inl ''expected value''"
  by code_simp

theorem persona_short_log_witness:
  "fst (put_all (\<lambda>flt. users_write note_codec flt [''data''])
      [(no_faults, [''u1'', ''persona'', ''short''], ''walked'')] demo_log)
     [''data'', ''u1'', ''persona'', ''short'', ''latest''] =
   Some (File (to_str note_codec (JArr [JStr ''a'', JStr ''walked''])))"
proof -
  let ?p = "[''u1'', ''persona'', ''short'']"
  let ?put = "\<lambda>flt. users_write note_codec flt [''data'']"
  obtain fs' outs where run: "put_all ?put [(no_faults, ?p, ''walked'')] demo_log = (fs', outs)" by fastforce
  have p: "user_path ?p" "persona_short ?p" "user_file ?p = ?p @ [''latest'']"
    by (simp_all add: user_path_def persona_short_def user_file_def seg_ok_def)
  have f: "file_at ([''data''] @ user_file ?p) demo_log (to_str note_codec (JArr [JStr ''a'']))"
    using demo_log_dirs by (simp add: file_at_def user_file_def persona_short_def demo_log_def)
  have root: "clean [''data'']" by (simp add: seg_ok_def)
  have wf: "wf_json (JArr [JStr ''a''])" "float_free (JArr [JStr ''a''])" by simp_all
  from users_write_there [OF root p(1) f] codec_okD(1) [OF note_codec_ok wf]
  have "\<exists>fs1. users_write note_codec no_faults [''data''] ?p ''walked'' demo_log = (fs1, Inr ())" by blast
  with run have outs: "outs = [(no_faults, ?p, ''walked'', True)]" by auto
  have "file_at ([''data''] @ user_file ?p) fs' (to_str note_codec (JArr ([JStr ''a''] @
      [persona_entry note_codec w. (flt, k, w, ok) \<leftarrow> outs, ok \<and> user_file k = user_file ?p])))"
    by (rule persona_short_log [OF note_codec_ok root _ run p(1,2) f wf])
       (simp_all add: p(1) outs persona_entry_def note_no_parse, simp add: no_faults_def)
  then show ?thesis
    by (simp add: run [unfolded outs] outs persona_entry_def note_no_parse p(3) file_at_def del: put_all.simps)
qed

text \<open>
  One append to a \<open>persona/short\<close> log that fails before its text is written (a full disk)
  loses the log: the file, and with it every entry acknowledged before, is empty; and since an
  empty text is no JSON array, every later append to that log is refused, whatever else is
  written in between.\<close>

theorem persona_log_lost:
  assumes "clean root" and "user_path p" "persona_short p"
    and "file_at (root @ user_file p) fs old" and "from_str c old = Inr (JArr xs)" and "from_str c [] = Inl e"
    and "\<forall>(flt, q, x) \<in> set ws. user_path q"
    and "put_all (\<lambda>flt. users_write c flt root) ((full_disk msg, p, w) # ws) fs = (fs', outs)"
  shows "file_at (root @ user_file p) fs' [] \<and> (\<forall>(flt, q, x, ok) \<in> set outs. user_file q = user_file p \<longrightarrow> \<not> ok)"
proof -
  have f: "clean (root @ user_file p)" "root @ user_file p \<noteq> []"
    using assms(1) user_file_clean [OF assms(2)] by auto
  from assms(8) obtain fs1 r outs' where p: "users_write c (full_disk msg) root p w fs = (fs1, r)"
    and a: "put_all (\<lambda>flt. users_write c flt root) ws fs1 = (fs', outs')"
    and outs: "outs = (full_disk msg, p, w, is_ok r) # outs'" by (rule put_all_Cons)
  from users_write_full_disk [OF assms(1-5) p] have "file_at (root @ user_file p) fs1 []" "\<not> is_ok r" by auto
  with no_array_refuses [OF assms(1) _ assms(6,7) a assms(2,3)] outs show ?thesis by auto
qed

lemma note_empty: "from_str note_codec [] = Inl ''expected value''"
  by code_simp

theorem persona_log_lost_witness:
  "\<exists>fs' outs. put_all (\<lambda>flt. users_write note_codec flt [''data''])
      [(full_disk ''full'', [''u1'', ''persona'', ''short''], ''walked''),
       (no_faults, [''u1'', ''persona'', ''short''], ''slept'')] demo_log = (fs', outs) \<and>
    file_at [''data'', ''u1'', ''persona'', ''short'', ''latest''] fs' [] \<and>
    (\<forall>(flt, q, x, ok) \<in> set outs. user_file q = [''u1'', ''persona'', ''short'', ''latest''] \<longrightarrow> \<not> ok)"
proof -
  let ?p = "[''u1'', ''persona'', ''short'']"
  let ?put = "\<lambda>flt. users_write note_codec flt [''data'']"
  obtain fs' outs where run: "put_all ?put ((full_disk ''full'', ?p, ''walked'') # [(no_faults, ?p, ''slept'')]) demo_log = (fs', outs)"
    by fastforce
  have p: "user_path ?p" "persona_short ?p" "user_file ?p = ?p @ [''latest'']"
    by (simp_all add: user_path_def persona_short_def user_file_def seg_ok_def)
  have f: "file_at ([''data''] @ user_file ?p) demo_log (to_str note_codec (JArr [JStr ''a'']))"
    using demo_log_dirs by (simp add: file_at_def user_file_def persona_short_def demo_log_def)
  have root: "clean [''data'']" by (simp add: seg_ok_def)
  have js: "from_str note_codec (to_str note_codec (JArr [JStr ''a''])) = Inr (JArr [JStr ''a''])"
    by (rule codec_okD(1) [OF note_codec_ok]) simp_all
  have ws: "\<forall>(flt, q, x) \<in> set [(no_faults, ?p, ''slept'')]. user_path q" by (simp add: p(1))
  from persona_log_lost [OF root p(1,2) f js note_empty ws run] show ?thesis
    by (intro exI [of _ fs'] exI [of _ outs]) (simp add: run p(3) del: put_all.simps)
qed

text \<open>
  What is written or patched below one user's directory, by a path without dot segments,
  stays there: whatever fails on the way, no node outside that directory changes, except that
  missing directories on the way to the root are made.\<close>

theorem users_isolation:
  assumes "clean root" and "user_path (uid # rest)"
    and "users_write c flt root (uid # rest) content fs = (fs', r) \<or>
         users_patch c flt root (uid # rest) content fs = (fs', r)"
    and "fs' q \<noteq> fs q"
  shows "(\<exists>t. q = root @ uid # t) \<or>
    (fs q = None \<and> fs' q = Some Dir \<and> (\<exists>n \<le> length root. q = take n root))"
proof -
  have "\<exists>t N x. clean (root @ uid # t) \<and> dir_write_at flt N (root @ uid # t) x fs = (fs', r)"
    using assms(3)
  proof
    assume "users_write c flt root (uid # rest) content fs = (fs', r)"
    from users_write_cases [OF assms(1,2) this] assms(4)
    obtain x where "dir_write_at flt (users_dir root) (root @ user_file (uid # rest)) x fs = (fs', r)" by auto
    moreover obtain t where "user_file (uid # rest) = uid # t"
      by (cases "persona_short (uid # rest) \<and> length (uid # rest) = 3") (auto simp: user_file_def)
    ultimately show ?thesis using user_file_clean [OF assms(2)] assms(1) by fastforce
  next
    assume "users_patch c flt root (uid # rest) content fs = (fs', r)"
    from users_patch_cases [OF assms(1,2) this] assms(1,2) show ?thesis
      unfolding user_path_def clean_simps(3) by blast
  qed
  then obtain t N x where p: "clean (root @ uid # t)" "dir_write_at flt N (root @ uid # t) x fs = (fs', r)" by blast
  from dir_write_changes [OF p(1) _ p(2) assms(4)] take_below [of _ root uid t]
  show ?thesis by auto
qed

theorem users_isolation_witness:
  "fst (users_write note_codec no_faults [''data''] [''u1'', ''a''] ''x'' demo_tree) [''data'', ''u2''] =
   demo_tree [''data'', ''u2'']"
proof (rule ccontr)
  obtain fs' r where w: "users_write note_codec no_faults [''data''] [''u1'', ''a''] ''x'' demo_tree = (fs', r)"
    by fastforce
  assume "\<not> ?thesis"
  with w have ne: "fs' [''data'', ''u2''] \<noteq> demo_tree [''data'', ''u2'']" by simp
  have p: "clean [''data'']" "user_path [''u1'', ''a'']" by (simp_all add: user_path_def seg_ok_def)
  from users_isolation [OF p disjI1 [OF w] ne] obtain n where
    "n \<le> length [''data'']" "[''data'', ''u2''] = take n [''data'']" by auto
  then have "length [''data'', ''u2''] \<le> length [''data'']" by (metis length_take min.cobounded1)
  then show False by simp
qed

text \<open>
  Dot segments are not refused, and a URI can carry them: writing \<open>../f\<close> in \<open>users\<close>
  creates or replaces a file beside the root directory, outside every user's files.\<close>

theorem dotdot_escapes:
  assumes "clean (base @ [d])" and "dirs_to fs (base @ [d])"
    and "clean rest" "rest \<noteq> []" and "dirs_to fs (base @ butlast rest)" and "fs (base @ rest) \<noteq> Some Dir"
    and "\<not> persona_short (''..'' # rest)"
  shows "users_write c no_faults (base @ [d]) (''..'' # rest) content fs = (fs(base @ rest \<mapsto> File content), Inr ())"
  using dir_write_dots [OF assms(1-6)] path_join_dots [OF assms(3)] assms(4,7)
  by (auto simp: users_write_def users_write_file_def persona_short_def)

theorem dotdot_escapes_witness:
  "uri_parse ''logos://users/../passwd'' = Inr \<lparr>uri_namespace = ''users'', uri_path = [''..'', ''passwd'']\<rparr> \<and>
   fst (users_write note_codec no_faults [''data''] [''..'', ''passwd''] ''x'' demo_tree) [''passwd''] = Some (File ''x'')"
proof -
  have u: "uri_parse ''logos://users/../passwd'' = Inr \<lparr>uri_namespace = ''users'', uri_path = [''..'', ''passwd'']\<rparr>"
    by (simp add: uri_parse_def uri_strip_def uri_segments_def)
  have "clean ([] @ [''data''])" "dirs_to demo_tree ([] @ [''data''])" "clean [''passwd'']" "[''passwd''] \<noteq> []"
    "dirs_to demo_tree ([] @ butlast [''passwd''])" "demo_tree ([] @ [''passwd'']) \<noteq> Some Dir"
    "\<not> persona_short [''..'', ''passwd'']"
    by (simp_all add: dirs_to_def all_le_Suc demo_tree_def seg_ok_def persona_short_def)
  from dotdot_escapes [OF this, of note_codec "''x''"]
  have "fst (users_write note_codec no_faults [''data''] [''..'', ''passwd''] ''x'' demo_tree) [''passwd''] = Some (File ''x'')"
    by simp
  with u show ?thesis by (rule conjI)
qed

text \<open>
  A patch of a JSON file with a JSON text leaves the deep merge of the two in the file;
  \<open>persona/short\<close> logs are not excepted, so a patch with an array replaces the log.\<close>

theorem users_patch_merges:
  assumes "codec_ok c" and "clean root" and "user_path p" and "file_at (root @ p) fs old"
    and "from_str c old = Inr base" "from_str c partial = Inr patch"
    and "float_free (json_deep_merge base patch)"
    and "users_patch c flt root p partial fs = (fs', Inr ())" and "flt [''read''] = None"
  shows "\<exists>t. users_read c ord no_faults root p fs' = (fs', Inr t) \<and>
    from_str c t = Inr (json_deep_merge base patch)"
proof -
  let ?t = "to_str_pretty c (json_deep_merge base patch)"
  from users_patch_cases [OF assms(2,3,8)] assms(4,5,6,9)
  have w: "dir_write_at flt (users_dir root) (root @ p) ?t fs = (fs', Inr ())" by auto
  have p: "clean (root @ p)" "root @ p \<noteq> []" using assms(2,3) by (auto simp: user_path_def)
  from dir_write_at_file [OF p w]
  have "users_read c ord no_faults root p fs' = (fs', Inr ?t)"
    using assms(3) p by (simp add: users_read_def path_join_clean dir_read_file user_path_def)
  moreover have "wf_json (json_deep_merge base patch)"
    using codec_okD(3) [OF assms(1)] assms(5,6) by (simp add: wf_json_merge)
  ultimately show ?thesis using codec_okD(2) [OF assms(1) _ assms(7)] by blast
qed

definition demo_doc :: tree where
  "demo_doc = demo_tree([''data'', ''a''] \<mapsto> File (to_str note_codec (JObj [(''k'', JInt 1)])))"

theorem users_patch_merges_witness:
  "\<exists>fs' t. users_patch note_codec no_faults [''data''] [''a''] (to_str note_codec (JObj [(''j'', JNull)])) demo_doc = (fs', Inr ()) \<and>
     users_read note_codec sorted_list_of_set no_faults [''data''] [''a''] fs' = (fs', Inr t) \<and>
     from_str note_codec t = Inr (JObj [(''j'', JNull), (''k'', JInt 1)])"
proof -
  let ?base = "JObj [(''k'', JInt 1)]" and ?patch = "JObj [(''j'', JNull)]"
  have wf: "wf_json ?base" "wf_json ?patch" by (simp_all add: sorted_keys_def)
  note parse = codec_okD(1) [OF note_codec_ok, of ?base] codec_okD(1) [OF note_codec_ok, of ?patch]
  have merged: "json_deep_merge ?base ?patch = JObj [(''j'', JNull), (''k'', JInt 1)]" by code_simp
  obtain fs' r where run: "users_patch note_codec no_faults [''data''] [''a''] (to_str note_codec ?patch) demo_doc = (fs', r)"
    by fastforce
  moreover have d: "dirs_to demo_doc [''data'']" by (simp add: dirs_to_def all_le_Suc demo_doc_def demo_tree_def)
  then have "file_at ([''data''] @ [''a'']) demo_doc (to_str note_codec ?base)"
    by (simp add: file_at_def demo_doc_def)
  moreover have "r = Inr ()"
  proof -
    have p: "clean [''data'']" "user_path [''a'']" by (simp_all add: user_path_def seg_ok_def)
    from users_patch_cases [OF p run] obtain x where
      "dir_write_at no_faults (users_dir [''data'']) [''data'', ''a''] x demo_doc = (fs', r)" by auto
    moreover have "dir_write_at no_faults (users_dir [''data'']) [''data'', ''a''] x demo_doc =
        (demo_doc([''data'', ''a''] \<mapsto> File x), Inr ())"
      by (rule dir_write_ok) (simp_all add: d seg_ok_def, simp add: demo_doc_def)
    ultimately show ?thesis by simp
  qed
  ultimately show ?thesis
    using users_patch_merges [OF note_codec_ok _ _ _ parse(1) parse(2), of "[''data'']" "[''a'']" demo_doc no_faults fs'] wf
    by (simp add: merged user_path_def seg_ok_def no_faults_def)
qed

text \<open>
  A file of \<open>svc-store\<close> or \<open>proc-store\<close> holds what was written or patched into it last
  (a patch is a write): after any sequence of writes to paths without dot segments, failures
  included, reading a path returns the text of the last acknowledged write to it, or a beginning
  of the text of a write to it that failed later.\<close>

theorem store_last_write:
  assumes "clean (dn_root N)" and "\<forall>(flt, p, w) \<in> set ws. user_path p"
    and "put_all (\<lambda>flt. ns_patch (store_namespace c ord flt N)) ws fs = (fs', before @ (flt, p, w, True) # later)"
    and "\<forall>(flt, q, x, ok) \<in> set later. q = p \<longrightarrow> \<not> ok"
  shows "\<exists>t. ns_read (store_namespace c ord no_faults N) p fs' = (fs', Inr t) \<and>
    (t = w \<or> (\<exists>flt x n. (flt, p, x, False) \<in> set later \<and> t = take n x))"
proof -
  have p: "user_path p" using put_all_outs [OF assms(3), of flt p w True] assms(2) by auto
  have run: "put_all (\<lambda>flt. store_write flt N) ws fs = (fs', before @ (flt, p, w, True) # later)"
    using assms(3) by (simp add: store_namespace_def)
  have later: "\<forall>(flt, q, x, ok) \<in> set later. q = p \<longrightarrow> q = p \<and> \<not> ok" using assms(4) by auto
  from store_files.last_write_holds [OF _ _ _ run later] assms(1,2) p
  obtain t where t: "file_at (dn_root N @ p) fs' t" "t = w \<or> (\<exists>flt x. (flt, p, x, False) \<in> set later \<and> torn_text x t)"
    by auto
  with assms(1) p have "ns_read (store_namespace c ord no_faults N) p fs' = (fs', Inr t)"
    by (simp add: store_namespace_def store_read_def path_join_clean dir_read_file user_path_def)
  with t(2) show ?thesis by (auto simp: torn_text_def)
qed

theorem store_last_write_witness:
  "ns_read (store_namespace note_codec sorted_list_of_set no_faults (proc_store_dir [''data''])) [''t'']
     (fst (put_all (\<lambda>flt. ns_patch (store_namespace note_codec sorted_list_of_set flt (proc_store_dir [''data''])))
        [(no_faults, [''t''], ''x'')] demo_tree)) =
   (demo_tree([''data'', ''t''] \<mapsto> File ''x''), Inr ''x'')"
proof -
  let ?N = "proc_store_dir [''data'']"
  let ?put = "\<lambda>flt. ns_patch (store_namespace note_codec sorted_list_of_set flt ?N)"
  have p: "clean (dn_root ?N)" "user_path [''t'']"
    by (simp_all add: proc_store_dir_def user_path_def seg_ok_def)
  have "clean [''data'', ''t'']" "dirs_to demo_tree (butlast [''data'', ''t''])" "demo_tree [''data'', ''t''] \<noteq> Some Dir"
    by (simp_all add: dirs_to_def all_le_Suc demo_tree_def seg_ok_def)
  from dir_write_ok [OF this(1) _ this(2,3)] p
  have run: "put_all ?put [(no_faults, [''t''], ''x'')] demo_tree = (demo_tree([''data'', ''t''] \<mapsto> File ''x''), [] @ (no_faults, [''t''], ''x'', True) # [])"
    by (simp add: store_namespace_def store_write_def path_join_def starts_with_def uri_segments_word
        user_path_def proc_store_dir_def)
  show ?thesis
    using store_last_write [OF p(1) _ run] p(2) by (simp add: run del: put_all.simps)
qed

end
