(* ===== verification/Logos_Registry.thy ===== *)
theory Logos_Registry
  imports Logos_Fs
begin

text \<open>
  The namespaces of \<open>logos-kernel\<close> that are tables in memory: \<open>tmp\<close> (\<open>tmp.rs\<close>), the service
  registry and its restoration from \<open>svc-store\<close> (\<open>services.rs\<close>), and \<open>devices\<close> with the driver
  for the host machine (\<open>devices.rs\<close>). The programs the driver starts are a parameter.
\<close>

section \<open>tmp\<close>

type_synonym tmp_store = "string \<rightharpoonup> string"
type_synonym key_order = "string set \<Rightarrow> string list"

definition tmp_new :: tmp_store where
  "tmp_new = Map.empty"

definition tmp_read :: "codec \<Rightarrow> key_order \<Rightarrow> string list \<Rightarrow> (tmp_store, string) vfs_step" where
  "tmp_read c ord path s =
     (let key = join ''/'' path in
      if key = [] then (s, Inr (json_names c (map_keys ord s)))
      else (s, ok_or (s key) (NotFound (''logos://tmp/'' @ key))))"

definition tmp_write :: "string list \<Rightarrow> string \<Rightarrow> (tmp_store, unit) vfs_step" where
  "tmp_write path content =
     (let key = join ''/'' path in
      if key = [] then fail (InvalidPath ''empty tmp path'')
      else modify (\<lambda>s. s(key \<mapsto> content)))"

definition tmp_namespace :: "codec \<Rightarrow> key_order \<Rightarrow> tmp_store namespace" where
  "tmp_namespace c ord =
     \<lparr>ns_name = ''tmp'', ns_read = tmp_read c ord, ns_write = tmp_write, ns_patch = tmp_write\<rparr>"

lemma join_ne: "p \<noteq> [] \<Longrightarrow> \<forall>w \<in> set p. seg_ok w \<Longrightarrow> join ''/'' p \<noteq> []"
  by (cases p; cases "tl p") (auto simp: seg_ok_def)

lemma join_inj:
  "\<forall>w \<in> set p. seg_ok w \<Longrightarrow> \<forall>w \<in> set q. seg_ok w \<Longrightarrow> join ''/'' p = join ''/'' q \<Longrightarrow> p = q"
  by (metis uri_segments_join)

interpretation tmp: key_store "\<lambda>_ :: unit. tmp_write" "\<lambda>p. p \<noteq> [] \<and> (\<forall>w \<in> set p. seg_ok w)"
  "join ''/''" "\<lambda>_ (u, w, ok) v v'. ok \<and> v' = w" "\<lambda>key s v. s key = Some v" "\<lambda>_. True" "\<lambda>_ _. False"
  by unfold_locales (auto simp: tmp_write_def step_defs join_ne Let_def)

section \<open>The service registry\<close>

record service_entry =
  se_name :: string
  se_source :: string
  se_svc_type :: string
  se_endpoint :: string
  se_status :: string

type_synonym registry = "string \<rightharpoonup> service_entry"

definition entry_fields :: "string list" where
  "entry_fields = [''name'', ''source'', ''svc_type'', ''endpoint'', ''status'']"

text \<open>The derived serialisation: fields in order when printed, sorted as a value.\<close>

definition entry_pairs :: "service_entry \<Rightarrow> (string \<times> json) list" where
  "entry_pairs e =
     [(''name'', JStr (se_name e)), (''source'', JStr (se_source e)), (''svc_type'', JStr (se_svc_type e)),
      (''endpoint'', JStr (se_endpoint e)), (''status'', JStr (se_status e))]"

text \<open>
  The derived deserialisation: an object with the five fields as texts, others ignored, or an
  array of five texts.
\<close>

definition entry_of_texts :: "json list \<Rightarrow> service_entry option" where
  "entry_of_texts vs =
     (case vs of
        [JStr n, JStr src, JStr t, JStr ep, JStr st] \<Rightarrow>
          Some \<lparr>se_name = n, se_source = src, se_svc_type = t, se_endpoint = ep, se_status = st\<rparr>
      | _ \<Rightarrow> None)"

definition entry_of_json :: "json \<Rightarrow> service_entry option" where
  "entry_of_json v =
     (case v of
        JObj kvs \<Rightarrow> entry_of_texts (map (\<lambda>f. opt_or (map_of kvs f) JNull) entry_fields)
      | JArr xs \<Rightarrow> entry_of_texts xs
      | _ \<Rightarrow> None)"

definition entry_from_value :: "codec \<Rightarrow> json \<Rightarrow> string + service_entry" where
  "entry_from_value c v = ok_or (entry_of_json v) (mismatch c ''ServiceEntry'' v)"

definition entry_from_str :: "codec \<Rightarrow> string \<Rightarrow> string + service_entry" where
  "entry_from_str c s =
     (case from_str c s of
        Inl e \<Rightarrow> Inl e
      | Inr v \<Rightarrow>
          (case repeated c entry_fields s of
             Some e \<Rightarrow> Inl e
           | None \<Rightarrow> entry_from_value c v))"

definition services_read :: "codec \<Rightarrow> key_order \<Rightarrow> string list \<Rightarrow> (registry, string) vfs_step" where
  "services_read c ord path reg =
     (reg,
      (case path of
         [] \<Rightarrow> Inr (to_str c (JArr (map (\<lambda>e. JObj (entry_pairs e)) (map_values ord reg))))
       | [name] \<Rightarrow>
           (case reg name of
              Some e \<Rightarrow> Inr (to_str c (JObj (entry_pairs e)))
            | None \<Rightarrow> Inl (NotFound (''service not registered: '' @ name)))
       | _ \<Rightarrow> Inl (InvalidPath (''unexpected services path: '' @ join ''/'' path))))"

definition services_write :: "codec \<Rightarrow> string list \<Rightarrow> string \<Rightarrow> (registry, unit) vfs_step" where
  "services_write c path content =
     (case path of
        [] \<Rightarrow> fail (InvalidPath ''expected logos://services/{name}'')
      | name # _ \<Rightarrow>
          andthen (lift_result (map_err (\<lambda>e. InvalidJson (''invalid service entry: '' @ e))
              (entry_from_str c content))) (\<lambda>entry.
          modify (\<lambda>reg. reg(name \<mapsto> entry))))"

definition services_patch :: "codec \<Rightarrow> string list \<Rightarrow> string \<Rightarrow> (registry, unit) vfs_step" where
  "services_patch c path partial =
     (case path of
        [] \<Rightarrow> fail (InvalidPath ''expected logos://services/{name}'')
      | name # _ \<Rightarrow>
          andthen (\<lambda>reg. (reg, ok_or (reg name) (NotFound (''service not registered: '' @ name)))) (\<lambda>existing.
          (let base = jobj (entry_pairs existing) in
          andthen (lift_result (map_err InvalidJson (from_str c partial))) (\<lambda>patch_val.
          andthen (lift_result (map_err (\<lambda>e. InvalidJson (''merge result invalid: '' @ e))
              (entry_from_value c (json_deep_merge base patch_val)))) (\<lambda>updated.
          modify (\<lambda>reg. reg(name \<mapsto> updated)))))))"

definition services_namespace :: "codec \<Rightarrow> key_order \<Rightarrow> registry namespace" where
  "services_namespace c ord =
     \<lparr>ns_name = ''services'', ns_read = services_read c ord, ns_write = services_write c,
      ns_patch = services_patch c\<rparr>"

subsection \<open>Restoring from svc-store\<close>

text \<open>
  One directory of the store: its \<open>compose.yaml\<close>, when there is one that can be read and
  parsed. \<open>serde_yaml\<close> is the argument \<open>yaml\<close>.
\<close>

definition compose_of :: "(string \<Rightarrow> json option) \<Rightarrow> faults \<Rightarrow> tree \<Rightarrow> fpath \<Rightarrow> string \<Rightarrow> json option" where
  "compose_of yaml flt fs root name =
     (let compose_path = path_join (root @ [name]) ''compose.yaml'' in
      if flt [''file_type'', name] \<noteq> None \<or> fs (root @ [name]) \<noteq> Some Dir then None
      else if \<not> path_exists compose_path fs then None
      else (case snd (io flt (''read '' @ name) (io_err []) (read_to_string compose_path) fs) of
              Inl _ \<Rightarrow> None
            | Inr content \<Rightarrow> yaml content))"

definition restored_entry :: "string \<Rightarrow> json \<Rightarrow> service_entry" where
  "restored_entry name v =
     \<lparr>se_name = opt_or (as_str (jget v ''name'')) name, se_source = ''agent'',
      se_svc_type = (if as_str (jget v ''command'') \<noteq> None then ''daemon'' else ''oneshot''),
      se_endpoint = [], se_status = ''stopped''\<rparr>"

fun restore_each :: "(string \<Rightarrow> json option) \<Rightarrow> string list \<Rightarrow> registry \<times> nat \<Rightarrow> registry \<times> nat" where
  "restore_each compose [] acc = acc"
| "restore_each compose (name # names) (reg, count) =
     (case compose name of
        None \<Rightarrow> restore_each compose names (reg, count)
      | Some v \<Rightarrow>
          (let e = restored_entry name v
           in restore_each compose names (reg(se_name e \<mapsto> e), count + 1)))"

definition restore_from_store ::
  "(string \<Rightarrow> json option) \<Rightarrow> dir_order \<Rightarrow> faults \<Rightarrow> tree \<Rightarrow> fpath \<Rightarrow> (registry, nat) vfs_step" where
  "restore_from_store yaml ord flt fs root reg =
     (case snd (io flt ''list'' (io_err ''read svc-store'') (read_dir ord root) fs) of
        Inl e \<Rightarrow> (reg, Inl e)
      | Inr names \<Rightarrow>
          (let (reg', count) = restore_each (compose_of yaml flt fs root) names (reg, 0)
           in (reg', Inr count)))"

section \<open>devices\<close>

record 's device_driver =
  dd_name :: string
  dd_capabilities :: json
  dd_state :: "('s, string) vfs_step"
  dd_control :: "string \<Rightarrow> ('s, unit) vfs_step"

type_synonym 's drivers = "string \<rightharpoonup> 's device_driver"

definition devices_new :: "'s drivers" where
  "devices_new = Map.empty"

definition devices_register :: "'s device_driver \<Rightarrow> 's drivers \<Rightarrow> 's drivers" where
  "devices_register d ds = ds(dd_name d \<mapsto> d)"

definition with_driver :: "'s drivers \<Rightarrow> string \<Rightarrow> ('s device_driver \<Rightarrow> ('s, 'a) vfs_step) \<Rightarrow> ('s, 'a) vfs_step" where
  "with_driver ds n f =
     (case ds n of None \<Rightarrow> fail (NotFound (''device not found: '' @ n)) | Some d \<Rightarrow> f d)"

definition devices_read :: "codec \<Rightarrow> key_order \<Rightarrow> 's drivers \<Rightarrow> string list \<Rightarrow> ('s, string) vfs_step" where
  "devices_read c ord ds path =
     (case path of
        [] \<Rightarrow> ret (json_names c (map_keys ord ds))
      | [n] \<Rightarrow> with_driver ds n (\<lambda>d. ret (to_str c (dd_capabilities d)))
      | [n, what] \<Rightarrow>
          if what = ''state'' then with_driver ds n dd_state
          else if what = ''capabilities'' then with_driver ds n (\<lambda>d. ret (to_str c (dd_capabilities d)))
          else fail (InvalidPath (''unexpected devices path: '' @ join ''/'' path))
      | _ \<Rightarrow> fail (InvalidPath (''unexpected devices path: '' @ join ''/'' path)))"

definition devices_write :: "'s drivers \<Rightarrow> string list \<Rightarrow> string \<Rightarrow> ('s, unit) vfs_step" where
  "devices_write ds path content =
     (if length path = 2 \<and> path ! 1 = ''control''
      then with_driver ds (path ! 0) (\<lambda>d. dd_control d content)
      else fail (InvalidPath (''devices write only supports .../control: '' @ join ''/'' path)))"

definition devices_patch :: "string list \<Rightarrow> string \<Rightarrow> ('s, unit) vfs_step" where
  "devices_patch path _ = fail (InvalidPath (''devices does not support patch: '' @ join ''/'' path))"

definition devices_namespace :: "codec \<Rightarrow> key_order \<Rightarrow> 's drivers \<Rightarrow> 's namespace" where
  "devices_namespace c ord ds =
     \<lparr>ns_name = ''devices'', ns_read = devices_read c ord ds, ns_write = devices_write ds,
      ns_patch = devices_patch\<rparr>"

subsection \<open>The host's driver\<close>

text \<open>
  \<open>spawn\<close> starts a program with its arguments and waits for it: an error when it cannot be
  started, else its status and its two outputs, decoded.
\<close>

record proc_output =
  out_success :: bool
  out_stdout :: string
  out_stderr :: string

type_synonym 's spawn = "string \<Rightarrow> string list \<Rightarrow> 's \<Rightarrow> 's \<times> (string + proc_output)"

definition run_cmd :: "'s spawn \<Rightarrow> string \<Rightarrow> string list \<Rightarrow> ('s, vfs_error, string) step" where
  "run_cmd spawn cmd args s =
     (case spawn cmd args s of
        (s', Inl _) \<Rightarrow> (s', Inr [])
      | (s', Inr out) \<Rightarrow> (s', Inr (out_stdout out)))"

definition run_osascript :: "'s spawn \<Rightarrow> string \<Rightarrow> ('s, vfs_error, string) step" where
  "run_osascript spawn script = run_cmd spawn ''osascript'' [''-e'', script]"

definition capability :: "string \<Rightarrow> bool \<Rightarrow> bool \<Rightarrow> string \<Rightarrow> json" where
  "capability n r w d = jobj [(''name'', JStr n), (''read'', JBool r), (''write'', JBool w), (''description'', JStr d)]"

definition mac_capabilities :: json where
  "mac_capabilities = jobj
     [(''name'', JStr ''system''),
      (''description'', JStr ''macOS system controls''),
      (''capabilities'', JArr
        [capability ''volume'' True True ''Audio volume (0-100) and mute state'',
         capability ''battery'' True False ''Battery level and charging status'',
         capability ''screenshot'' False True ''Capture screen to file'',
         capability ''info'' True False ''System hardware/software info'',
         capability ''dark_mode'' True True ''Dark mode on/off''])]"

definition battery_percent :: "string \<Rightarrow> string" where
  "battery_percent battery =
     trim (opt_or
       (Option.bind (find (\<lambda>l. contains_sub l ''InternalBattery'') (str_lines battery)) (\<lambda>l.
        Option.bind (get_at (split_on (CHR 0x09) l) 1) (\<lambda>s.
        get_at (split_on (CHR ''%'') s) 0)))
       ''unknown'')"

definition dark_mode_query :: string where
  "dark_mode_query =
     ''tell application '' @ [CHR 0x22] @ ''System Events'' @ [CHR 0x22] @
     '' to tell appearance preferences to get dark mode''"

definition mac_state :: "codec \<Rightarrow> 's spawn \<Rightarrow> ('s, string) vfs_step" where
  "mac_state c spawn =
     andthen (run_osascript spawn ''output volume of (get volume settings)'') (\<lambda>volume.
     andthen (run_osascript spawn ''output muted of (get volume settings)'') (\<lambda>muted.
     andthen (run_osascript spawn dark_mode_query) (\<lambda>dark_mode.
     andthen (run_cmd spawn ''pmset'' [''-g'', ''batt'']) (\<lambda>battery.
     (let charging = contains_sub battery ''charging'' \<and> \<not> contains_sub battery ''discharging'' in
      ret (to_str c (jobj
        [(''volume'', JInt (opt_or (parse_int 31 (trim volume)) (- 1))),
         (''muted'', JBool (trim muted = ''true'')),
         (''dark_mode'', JBool (trim dark_mode = ''true'')),
         (''battery_percent'', JStr (battery_percent battery)),
         (''battery_charging'', JBool charging)])))))))"

definition bool_str :: "bool \<Rightarrow> string" where
  "bool_str b = (if b then ''true'' else ''false'')"

definition mac_control :: "codec \<Rightarrow> 's spawn \<Rightarrow> string \<Rightarrow> ('s, unit) vfs_step" where
  "mac_control c spawn command =
     andthen (lift_result (map_err InvalidJson (from_str c command))) (\<lambda>val.
     (let action = str_field val ''action'' [] in
      if action = ''set_volume'' then
        andthen (run_osascript spawn (''set volume output volume ''
                   @ int_str (opt_or (as_i64 (jget val ''value'')) 50))) (\<lambda>_. ret ())
      else if action = ''mute'' then
        andthen (run_osascript spawn ''set volume output muted true'') (\<lambda>_. ret ())
      else if action = ''unmute'' then
        andthen (run_osascript spawn ''set volume output muted false'') (\<lambda>_. ret ())
      else if action = ''screenshot'' then
        (\<lambda>s. case spawn ''screencapture'' [''-x'', str_field val ''path'' ''/tmp/logos-screenshot.png''] s of
             (s', Inl e) \<Rightarrow> (s', Inl (Io (''screenshot: '' @ e)))
           | (s', Inr out) \<Rightarrow>
               (s', if out_success out then Inr ()
                    else Inl (Io (''screenshot failed: '' @ out_stderr out))))
      else if action = ''dark_mode'' then
        andthen (run_osascript spawn (''tell application '' @ [CHR 0x22] @ ''System Events'' @ [CHR 0x22] @
            '' to tell appearance preferences to set dark mode to ''
            @ bool_str (opt_or (as_bool (jget val ''value'')) True))) (\<lambda>_. ret ())
      else fail (InvalidPath (''unknown action: '' @ action))))"

definition mac_driver :: "codec \<Rightarrow> 's spawn \<Rightarrow> 's device_driver" where
  "mac_driver c spawn =
     \<lparr>dd_name = ''system'', dd_capabilities = mac_capabilities, dd_state = mac_state c spawn,
      dd_control = mac_control c spawn\<rparr>"

section \<open>Facts\<close>

lemma jobj_entry_pairs:
  "jobj (entry_pairs e) = JObj
     [(''endpoint'', JStr (se_endpoint e)), (''name'', JStr (se_name e)), (''source'', JStr (se_source e)),
      (''status'', JStr (se_status e)), (''svc_type'', JStr (se_svc_type e))]"
  by (simp add: jobj_def entry_pairs_def less_char_def)

text \<open>The text a patch leaves in a field.\<close>

definition patched :: "(string \<times> json) list \<Rightarrow> string \<Rightarrow> string \<Rightarrow> string" where
  "patched kvs f old = (case map_of kvs f of Some (JStr s) \<Rightarrow> s | _ \<Rightarrow> old)"

definition patched_entry :: "(string \<times> json) list \<Rightarrow> service_entry \<Rightarrow> service_entry" where
  "patched_entry kvs e =
     \<lparr>se_name = patched kvs ''name'' (se_name e), se_source = patched kvs ''source'' (se_source e),
      se_svc_type = patched kvs ''svc_type'' (se_svc_type e),
      se_endpoint = patched kvs ''endpoint'' (se_endpoint e), se_status = patched kvs ''status'' (se_status e)\<rparr>"

definition field_ok :: "(string \<times> json) list \<Rightarrow> string \<Rightarrow> bool" where
  "field_ok kvs f \<longleftrightarrow> (case map_of kvs f of None \<Rightarrow> True | Some (JStr _) \<Rightarrow> True | _ \<Rightarrow> False)"

lemma field_value:
  "opt_or (merge_entry (Some (JStr old)) (map_of kvs f)) JNull =
     (case map_of kvs f of None \<Rightarrow> JStr old | Some v \<Rightarrow> v)"
  by (cases "map_of kvs f") (simp_all add: merge_replace)

lemma field_value_text:
  "(case map_of kvs f of None \<Rightarrow> JStr old | Some v \<Rightarrow> v) = JStr s \<longleftrightarrow> field_ok kvs f \<and> s = patched kvs f old"
  by (auto simp: field_ok_def patched_def split: option.splits json.splits)

lemma entry_of_texts_Some:
  "entry_of_texts [a, b, d, e, f] = Some x \<longleftrightarrow>
     a = JStr (se_name x) \<and> b = JStr (se_source x) \<and> d = JStr (se_svc_type x) \<and>
     e = JStr (se_endpoint x) \<and> f = JStr (se_status x)"
  by (cases x) (auto simp: entry_of_texts_def split: json.splits)

lemma entry_of_merge:
  assumes "wf_json (JObj kvs)"
  shows "entry_of_json (json_deep_merge (jobj (entry_pairs e)) (JObj kvs)) =
    (if list_all (field_ok kvs) entry_fields then Some (patched_entry kvs e) else None)"
proof -
  let ?val = "\<lambda>f old. case map_of kvs f of None \<Rightarrow> JStr old | Some v \<Rightarrow> v"
  have "entry_of_json (json_deep_merge (jobj (entry_pairs e)) (JObj kvs)) =
      entry_of_texts [?val ''name'' (se_name e), ?val ''source'' (se_source e), ?val ''svc_type'' (se_svc_type e),
        ?val ''endpoint'' (se_endpoint e), ?val ''status'' (se_status e)]"
    using assms
    by (simp add: jobj_entry_pairs merge_objs entry_of_json_def entry_fields_def wf_merge_into_lookup
        field_value del: wf_json.simps)
  moreover have "\<dots> = Some x \<longleftrightarrow> list_all (field_ok kvs) entry_fields \<and> x = patched_entry kvs e" for x
    unfolding entry_of_texts_Some field_value_text
    by (cases x) (auto simp: entry_fields_def patched_entry_def)
  ultimately show ?thesis by (metis not_None_eq)
qed

definition found :: "(string \<Rightarrow> json option) \<Rightarrow> string list \<Rightarrow> service_entry list" where
  "found compose names = List.map_filter (\<lambda>x. map_option (restored_entry x) (compose x)) names"

lemma restore_each_found:
  "restore_each compose names (reg, n) =
     (reg ++ map_of (rev (map (\<lambda>e. (se_name e, e)) (found compose names))), n + length (found compose names))"
  by (induction names arbitrary: reg n) (auto simp: found_def List.map_filter_simps Let_def split: option.splits)

lemma set_found: "set (found compose names) = {restored_entry x v | x v. x \<in> set names \<and> compose x = Some v}"
  by (force simp: found_def List.map_filter_def)

lemma length_found: "length (found compose names) = length (filter (\<lambda>x. compose x \<noteq> None) names)"
  by (induction names) (auto simp: found_def List.map_filter_simps split: option.splits)

section \<open>Properties\<close>

text \<open>
  \<open>tmp\<close> is a plain store: after any sequence of writes and patches (a patch is a write),
  reading a path returns the text of the last acknowledged one; different paths never share an
  entry, although the entries are keyed by the joined path.\<close>

theorem tmp_last_write:
  assumes "\<forall>(u, p, w) \<in> set ws. p \<noteq> [] \<and> (\<forall>x \<in> set p. seg_ok x)"
    and "put_all (\<lambda>_ :: unit. ns_patch (tmp_namespace c ord)) ws s = (s', before @ (u, p, w, True) # later)"
    and "\<forall>(u, q, x, ok) \<in> set later. q = p \<longrightarrow> \<not> ok"
  shows "ns_read (tmp_namespace c ord) p s' = (s', Inr w)"
proof -
  have run: "put_all (\<lambda>_ :: unit. tmp_write) ws s = (s', before @ (u, p, w, True) # later)"
    using assms(2) by (simp add: tmp_namespace_def)
  have p: "p \<noteq> []" "\<forall>x \<in> set p. seg_ok x" using put_all_outs [OF run, of u p w True] assms(1) by auto
  have "q = p" if "(u', q, x, ok) \<in> set later" "join ''/'' q = join ''/'' p" for u' q x ok
    using put_all_outs [OF run, of u' q x ok] that(1) assms(1) p(2) by (auto intro!: join_inj [OF _ _ that(2)])
  with assms(3) have "\<forall>(u, q, x, ok) \<in> set later. join ''/'' q = join ''/'' p \<longrightarrow> q = p \<and> \<not> ok" by blast
  from tmp.last_write_holds [OF _ _ _ run this] assms(1) p have "s' (join ''/'' p) = Some w" by auto
  with p show ?thesis by (simp add: tmp_namespace_def tmp_read_def join_ne Let_def)
qed

theorem tmp_last_write_witness:
  "ns_read (tmp_namespace note_codec sorted_list_of_set) [''a'', ''b'']
     (fst (put_all (\<lambda>_ :: unit. ns_patch (tmp_namespace note_codec sorted_list_of_set))
       [((), [''a'', ''b''], ''1''), ((), [''a''], ''2'')] tmp_new)) =
   ([''a/b'' \<mapsto> ''1'', ''a'' \<mapsto> ''2''], Inr ''1'')"
proof -
  let ?put = "\<lambda>_ :: unit. ns_patch (tmp_namespace note_codec sorted_list_of_set)"
  let ?ws = "[((), [''a'', ''b''], ''1''), ((), [''a''], ''2'')]"
  have run: "put_all ?put ?ws tmp_new = ([''a/b'' \<mapsto> ''1'', ''a'' \<mapsto> ''2''],
      [] @ ((), [''a'', ''b''], ''1'', True) # [((), [''a''], ''2'', True)])"
    by (simp add: tmp_namespace_def tmp_write_def tmp_new_def step_defs)
  have "ns_read (tmp_namespace note_codec sorted_list_of_set) [''a'', ''b''] [''a/b'' \<mapsto> ''1'', ''a'' \<mapsto> ''2''] =
      ([''a/b'' \<mapsto> ''1'', ''a'' \<mapsto> ''2''], Inr ''1'')"
    by (rule tmp_last_write [OF _ run]) (simp_all add: seg_ok_def)
  then show ?thesis by (simp add: run del: put_all.simps)
qed

text \<open>
  A patch of a registered service with a JSON object replaces exactly the fields the object
  names and keeps the others; it is refused, and the entry left as it was, when the object gives
  one of the five fields a value that is not a text. No other service is touched.\<close>

theorem services_patch_fields:
  assumes "reg name = Some e" and "from_str c partial = Inr (JObj kvs)" and "wf_json (JObj kvs)"
  shows "(list_all (field_ok kvs) entry_fields \<longrightarrow>
      services_patch c (name # rest) partial reg = (reg(name \<mapsto> patched_entry kvs e), Inr ())) \<and>
    (\<not> list_all (field_ok kvs) entry_fields \<longrightarrow>
      (\<exists>m. services_patch c (name # rest) partial reg = (reg, Inl (InvalidJson m))))"
  using assms
  by (simp add: services_patch_def step_defs Let_def entry_from_value_def entry_of_merge del: wf_json.simps)

theorem services_patch_fields_witness:
  "services_patch note_codec [''db''] (to_str note_codec (JObj [(''status'', JStr ''running'')]))
     [''db'' \<mapsto> \<lparr>se_name = ''db'', se_source = ''agent'', se_svc_type = ''daemon'', se_endpoint = [], se_status = ''stopped''\<rparr>] =
   ([''db'' \<mapsto> \<lparr>se_name = ''db'', se_source = ''agent'', se_svc_type = ''daemon'', se_endpoint = [], se_status = ''running''\<rparr>],
    Inr ())"
proof -
  let ?e = "\<lparr>se_name = ''db'', se_source = ''agent'', se_svc_type = ''daemon'', se_endpoint = [], se_status = ''stopped''\<rparr>"
  let ?kvs = "[(''status'', JStr ''running'')]"
  have wf: "wf_json (JObj ?kvs)" "float_free (JObj ?kvs)" by (simp_all add: sorted_keys_def)
  have "list_all (field_ok ?kvs) entry_fields" by (simp add: entry_fields_def field_ok_def)
  then show ?thesis
    using services_patch_fields [of "[''db'' \<mapsto> ?e]" "''db''" ?e note_codec _ ?kvs "[]",
        OF _ codec_okD(1) [OF note_codec_ok wf] wf(1)]
    by (simp add: patched_entry_def patched_def)
qed

text \<open>
  Restoring at boot registers one stopped agent service for every directory of the store
  with a readable \<open>compose.yaml\<close>, under the name the file gives it (the last one listed where two
  give the same), keeps what else was registered, and returns the number of such directories.\<close>

theorem restore_registers:
  assumes "enumerates ord" "finite {n. fs (root @ [n]) \<noteq> None}" "clean root"
    and "restore_from_store yaml ord flt fs root reg = (reg', Inr count)"
  defines "compose \<equiv> compose_of yaml flt fs root"
  shows "count = card {x. compose x \<noteq> None} \<and>
    (\<forall>x v. compose x = Some v \<longrightarrow> se_name (restored_entry x v) \<in> dom reg') \<and>
    (\<forall>k e. reg' k = Some e \<longrightarrow> reg k = Some e \<or>
       (\<exists>x v. compose x = Some v \<and> e = restored_entry x v \<and> k = se_name e \<and> se_status e = ''stopped''))"
proof -
  let ?names = "dir_names ord fs root"
  from assms(4) obtain names where l: "snd (io flt ''list'' (io_err ''read svc-store'') (read_dir ord root) fs) = Inr names"
    by (auto simp: restore_from_store_def split: sum.splits)
  then obtain q where "walk fs [] root = Inr q" "names = dir_names ord fs q"
    by (auto simp: io_def read_dir_def split: option.splits sum.splits node.splits)
  with walk_clean [OF assms(3)] have names: "names = ?names" by auto
  have set_names: "set ?names = {n. fs (root @ [n]) \<noteq> None}" "distinct ?names"
    using assms(1,2) by (auto simp: dir_names_def enumerates_def)
  have there: "x \<in> set ?names" if "compose x = Some v" for x v
    using that by (auto simp: compose_def compose_of_def set_names Let_def split: if_splits)
  from assms(4) l have reg': "reg' = reg ++ map_of (rev (map (\<lambda>e. (se_name e, e)) (found compose ?names)))"
    and count: "count = length (found compose ?names)"
    by (auto simp: restore_from_store_def names restore_each_found compose_def)
  have "count = card {x. compose x \<noteq> None}"
  proof -
    have "{x. compose x \<noteq> None} = set (filter (\<lambda>x. compose x \<noteq> None) ?names)" using there by auto
    moreover have "card (set (filter (\<lambda>x. compose x \<noteq> None) ?names)) = length (filter (\<lambda>x. compose x \<noteq> None) ?names)"
      by (rule distinct_card) (simp add: set_names(2))
    ultimately show ?thesis by (simp only: count length_found)
  qed
  moreover have "se_name (restored_entry x v) \<in> dom reg'" if "compose x = Some v" for x v
  proof -
    have "restored_entry x v \<in> set (found compose ?names)" using that there by (auto simp: set_found)
    then show ?thesis by (auto simp: reg' dom_map_of_conv_image_fst image_image)
  qed
  moreover have "\<exists>x v. compose x = Some v \<and> e = restored_entry x v \<and> k = se_name e \<and> se_status e = ''stopped''"
    if "reg' k = Some e" "reg k \<noteq> Some e" for k e
  proof -
    from that have "map_of (rev (map (\<lambda>e. (se_name e, e)) (found compose ?names))) k = Some e"
      by (auto simp: reg' map_add_Some_iff)
    then have "k = se_name e" "e \<in> set (found compose ?names)" by (auto dest: map_of_SomeD)
    then obtain x v where "compose x = Some v" "e = restored_entry x v" by (auto simp: set_found)
    with \<open>k = se_name e\<close> show ?thesis
      by (intro exI [of _ x] exI [of _ v]) (simp add: restored_entry_def)
  qed
  ultimately show ?thesis by blast
qed

definition demo_store :: tree where
  "demo_store = [[] \<mapsto> Dir, [''svc''] \<mapsto> Dir, [''svc'', ''db''] \<mapsto> Dir, [''svc'', ''db'', ''compose.yaml''] \<mapsto> File ''name: pg'']"

definition demo_yaml :: "string \<Rightarrow> json option" where
  "demo_yaml s = Some (JObj [(''name'', JStr ''pg'')])"

theorem restore_registers_witness:
  "\<exists>reg' count. restore_from_store demo_yaml sorted_list_of_set no_faults demo_store [''svc''] Map.empty = (reg', Inr count) \<and>
     ''pg'' \<in> dom reg'"
proof -
  let ?r = "restore_from_store demo_yaml sorted_list_of_set no_faults demo_store [''svc''] Map.empty"
  have names: "{n. demo_store ([''svc''] @ [n]) \<noteq> None} = {''db''}" by (auto simp: demo_store_def)
  have "walk demo_store [] [''svc''] = Inr [''svc'']" "demo_store [''svc''] = Some Dir"
    by (simp_all add: demo_store_def enter_def)
  then obtain reg' count where r: "?r = (reg', Inr count)"
    by (simp add: restore_from_store_def io_def no_faults_def read_dir_def restore_each_found del: walk.simps)
  have c: "compose_of demo_yaml no_faults demo_store [''svc''] ''db'' = Some (JObj [(''name'', JStr ''pg'')])"
    by (simp add: compose_of_def demo_store_def no_faults_def path_join_def starts_with_def uri_segments_def
        path_exists_def enter_def io_def read_to_string_def demo_yaml_def Let_def)
  have "finite {n. demo_store ([''svc''] @ [n]) \<noteq> None}" "clean [''svc'']"
    by (simp_all add: names [simplified] seg_ok_def)
  from restore_registers [OF enumerates_sorted_list this r] c
  have "se_name (restored_entry ''db'' (JObj [(''name'', JStr ''pg'')])) \<in> dom reg'" by blast
  with r show ?thesis by (simp add: restored_entry_def)
qed

text \<open>
  What a client sends to the host's driver never becomes script text: a control command runs
  at most one program, and that is \<open>osascript\<close> with one of five fixed forms (an integer or a
  truth value filled in) or \<open>screencapture\<close> with the path as one argument; an unknown action
  runs none and is refused.\<close>

definition log_spawn :: "(string \<Rightarrow> string list \<Rightarrow> string + proc_output) \<Rightarrow> (string \<times> string list) list spawn" where
  "log_spawn f cmd args s = (s @ [(cmd, args)], f cmd args)"

definition script_ok :: "string \<Rightarrow> bool" where
  "script_ok t \<longleftrightarrow>
     t \<in> {''set volume output muted true'', ''set volume output muted false''} \<or>
     (\<exists>n. - (2 ^ 63) \<le> n \<and> n < 2 ^ 63 \<and> t = ''set volume output volume '' @ int_str n) \<or>
     (\<exists>b. t = ''tell application '' @ [CHR 0x22] @ ''System Events'' @ [CHR 0x22] @
        '' to tell appearance preferences to set dark mode to '' @ bool_str b)"

theorem mac_control_scripts:
  "\<exists>l. fst (mac_control c (log_spawn f) command s) = s @ l \<and> length l \<le> 1 \<and>
     (\<forall>(cmd, args) \<in> set l. (cmd = ''osascript'' \<and> (\<exists>t. args = [''-e'', t] \<and> script_ok t)) \<or>
        (cmd = ''screencapture'' \<and> (\<exists>path. args = [''-x'', path])))"
proof -
  define Q where "Q m \<longleftrightarrow> (\<exists>l. fst (m s) = s @ l \<and> length l \<le> 1 \<and>
     (\<forall>(cmd, args) \<in> set l. (cmd = ''osascript'' \<and> (\<exists>t. args = [''-e'', t] \<and> script_ok t)) \<or>
        (cmd = ''screencapture'' \<and> (\<exists>path. args = [''-x'', path]))))"
    for m :: "((string \<times> string list) list, unit) vfs_step"
  have branch: "Q x \<Longrightarrow> Q y \<Longrightarrow> Q (if b then x else y)" for b x y by simp
  have none: "Q (fail e)" for e by (auto simp: Q_def fail_def)
  have osa: "Q (andthen (run_osascript (log_spawn f) t) (\<lambda>_. ret ()))" if "script_ok t" for t
    using that
    by (cases "f ''osascript'' [''-e'', t]")
       (auto simp: Q_def run_osascript_def run_cmd_def log_spawn_def step_defs)
  have shot: "Q (\<lambda>s. case log_spawn f ''screencapture'' [''-x'', path] s of
       (s', Inl e) \<Rightarrow> (s', Inl (Io (''screenshot: '' @ e)))
     | (s', Inr out) \<Rightarrow> (s', if out_success out then Inr () else Inl (Io (''screenshot failed: '' @ out_stderr out))))" for path
    by (cases "f ''screencapture'' [''-x'', path]") (auto simp: Q_def log_spawn_def)
  have n: "- (2 ^ 63) \<le> opt_or (as_i64 v) 50 \<and> opt_or (as_i64 v) 50 < 2 ^ 63" for v
    by (cases v) auto
  have "Q (mac_control c (log_spawn f) command)"
  proof (cases "from_str c command")
    case (Inl e)
    then have "mac_control c (log_spawn f) command = fail (InvalidJson e)"
      by (simp add: mac_control_def step_defs fun_eq_iff)
    with none show ?thesis by simp
  next
    case (Inr val)
    have volume: "script_ok (''set volume output volume '' @ int_str (opt_or (as_i64 (jget val ''value'')) 50))"
      unfolding script_ok_def using n [of "jget val ''value''"] by blast
    have dark: "script_ok (''tell application '' @ [CHR 0x22] @ ''System Events'' @ [CHR 0x22] @
        '' to tell appearance preferences to set dark mode to '' @ bool_str b)" for b
      unfolding script_ok_def by blast
    have mute: "script_ok ''set volume output muted true''" "script_ok ''set volume output muted false''"
      by (simp_all add: script_ok_def)
    from Inr show ?thesis
      by (simp only: mac_control_def map_err_simps Let_def andthen_lift_Inr)
         (intro branch osa volume mute shot dark none)
  qed
  then show ?thesis by (simp add: Q_def)
qed

theorem mac_control_scripts_witness:
  "length (fst (mac_control note_codec (log_spawn (\<lambda>_ _. Inl ''not found''))
     (to_str note_codec (JObj [(''action'', JStr ''mute'')])) [])) \<le> 1"
  using mac_control_scripts [of note_codec "\<lambda>_ _. Inl ''not found''" "to_str note_codec (JObj [(''action'', JStr ''mute'')])" "[]"]
  by auto

end
