(* ===== verification/Logos_Proc.thy ===== *)
theory Logos_Proc
  imports Logos_Registry
begin

text \<open>
  The namespace \<open>proc\<close> (\<open>logos-kernel/src/proc.rs\<close>): the tool table, \<open>logos_call\<close>, and the call
  slots through which a client submits a call, polls for its outcome and fetches it once. The
  tools work on the rest of the kernel's state, the type parameter \<open>'t\<close>; instants are numbers of
  nanoseconds on the monotone clock.
\<close>

section \<open>Tools and slots\<close>

record 't proc_tool =
  pt_name :: string
  pt_schema :: json
  pt_call :: "string \<Rightarrow> ('t, string) vfs_step"

type_synonym 't tools = "string \<rightharpoonup> 't proc_tool"

record call_slot =
  cs_tool_name :: string
  cs_input :: string
  cs_output :: "string option"
  cs_error :: "string option"
  cs_created_at :: int

record 't proc_state =
  ps_slots :: "string \<rightharpoonup> call_slot"
  ps_rest :: 't

definition proc_new :: "'t tools" where
  "proc_new = Map.empty"

definition proc_register :: "'t proc_tool \<Rightarrow> 't tools \<Rightarrow> 't tools" where
  "proc_register tool ts = ts(pt_name tool \<mapsto> tool)"

definition call_tool :: "'t proc_tool \<Rightarrow> string \<Rightarrow> 't proc_state \<Rightarrow> 't proc_state \<times> string vfs_result" where
  "call_tool tool params st =
     (case pt_call tool params (ps_rest st) of (t, r) \<Rightarrow> (st\<lparr>ps_rest := t\<rparr>, r))"

definition proc_call :: "'t tools \<Rightarrow> string \<Rightarrow> string \<Rightarrow> ('t proc_state, string) vfs_step" where
  "proc_call ts tool_name params =
     (case ts tool_name of
        None \<Rightarrow> fail (NotFound (''unknown proc tool: '' @ tool_name))
      | Some tool \<Rightarrow> call_tool tool params)"

text \<open>The instants read for a new slot and for the cleanup.\<close>

record instants =
  t_created :: int
  t_cleanup :: int

definition SLOT_TTL :: int where
  "SLOT_TTL = 300 * 10 ^ 9"

definition slot_key :: "string \<Rightarrow> string \<Rightarrow> string" where
  "slot_key tool_name call_id = tool_name @ ''/'' @ call_id"

definition execute_call ::
  "'t tools \<Rightarrow> instants \<Rightarrow> string \<Rightarrow> string \<Rightarrow> string \<Rightarrow> ('t proc_state, unit) vfs_step" where
  "execute_call ts now tool_name call_id input =
     (case ts tool_name of
        None \<Rightarrow> fail (NotFound (''unknown proc tool: '' @ tool_name))
      | Some tool \<Rightarrow>
          (\<lambda>st. case call_tool tool input st of
             (st', result) \<Rightarrow>
               (let key = slot_key tool_name call_id;
                    slot = (case ps_slots st' key of
                        Some slot \<Rightarrow> slot
                      | None \<Rightarrow> \<lparr>cs_tool_name = tool_name, cs_input = input, cs_output = None, cs_error = None,
                                 cs_created_at = t_created now\<rparr>);
                    slot' = (case result of
                        Inr output' \<Rightarrow> slot\<lparr>cs_input := input, cs_output := Some output', cs_error := None\<rparr>
                      | Inl e \<Rightarrow> slot\<lparr>cs_input := input, cs_output := None, cs_error := Some (vfs_error_display e)\<rparr>);
                    cutoff = t_cleanup now - SLOT_TTL
                in (st'\<lparr>ps_slots := map_retain (\<lambda>_ s. cs_created_at s > cutoff) ((ps_slots st')(key \<mapsto> slot'))\<rparr>,
                    Inr ()))))"

section \<open>The namespace\<close>

definition read_schema :: "codec \<Rightarrow> 't tools \<Rightarrow> string \<Rightarrow> ('t proc_state, string) vfs_step" where
  "read_schema c ts n =
     (case ts n of
        None \<Rightarrow> fail (NotFound (''unknown tool: '' @ n))
      | Some tool \<Rightarrow> ret (to_str c (pt_schema tool)))"

definition with_slot ::
  "string \<Rightarrow> (call_slot \<Rightarrow> ('t proc_state, string) vfs_step) \<Rightarrow> ('t proc_state, string) vfs_step" where
  "with_slot key f st =
     (case ps_slots st key of
        None \<Rightarrow> (st, Inl (NotFound (''call not found: '' @ key)))
      | Some slot \<Rightarrow> f slot st)"

definition read_output :: "string \<Rightarrow> ('t proc_state, string) vfs_step" where
  "read_output key =
     with_slot key (\<lambda>slot st.
       case cs_output slot of
         Some out \<Rightarrow> (st\<lparr>ps_slots := (ps_slots st)(key := None)\<rparr>, Inr out)
       | None \<Rightarrow> (st, Inl (NotFound (''call '' @ key @ '': no output yet''))))"

definition proc_read :: "codec \<Rightarrow> key_order \<Rightarrow> 't tools \<Rightarrow> string list \<Rightarrow> ('t proc_state, string) vfs_step" where
  "proc_read c ord ts path =
     (let bad = fail (InvalidPath (''unexpected proc path: '' @ join ''/'' path)) in
      case path of
        [] \<Rightarrow> ret (json_names c (map_keys ord ts))
      | [n] \<Rightarrow> read_schema c ts n
      | [n, what] \<Rightarrow> if what = ''.schema'' then read_schema c ts n else bad
      | [n, call_id, what] \<Rightarrow>
          if what = ''output'' then read_output (slot_key n call_id)
          else if what = ''error'' then
            with_slot (slot_key n call_id) (\<lambda>slot. ret (opt_or (cs_error slot) ''null''))
          else if what = ''input'' then with_slot (slot_key n call_id) (\<lambda>slot. ret (cs_input slot))
          else bad
      | _ \<Rightarrow> bad)"

definition proc_write :: "'t tools \<Rightarrow> instants \<Rightarrow> string list \<Rightarrow> string \<Rightarrow> ('t proc_state, unit) vfs_step" where
  "proc_write ts now path content =
     (if length path = 3 \<and> path ! 2 = ''input'' then execute_call ts now (path ! 0) (path ! 1) content
      else fail (InvalidPath (''proc write only supports .../{call_id}/input: '' @ join ''/'' path)))"

definition proc_patch :: "string list \<Rightarrow> string \<Rightarrow> ('t proc_state, unit) vfs_step" where
  "proc_patch path _ = fail (InvalidPath (''proc does not support patch: '' @ join ''/'' path))"

definition proc_namespace :: "codec \<Rightarrow> key_order \<Rightarrow> 't tools \<Rightarrow> instants \<Rightarrow> 't proc_state namespace" where
  "proc_namespace c ord ts now =
     \<lparr>ns_name = ''proc'', ns_read = proc_read c ord ts, ns_write = proc_write ts now,
      ns_patch = proc_patch\<rparr>"

section \<open>What the slots promise\<close>

text \<open>A slot is settled: it has an output or an error, not both, and names its tool.\<close>

definition slot_settled :: "call_slot \<Rightarrow> bool" where
  "slot_settled s \<longleftrightarrow> (cs_output s = None) \<noteq> (cs_error s = None)"

definition slots_ok :: "'t proc_state \<Rightarrow> bool" where
  "slots_ok st \<longleftrightarrow> (\<forall>key s. ps_slots st key = Some s \<longrightarrow> slot_settled s \<and> (\<exists>cid. key = slot_key (cs_tool_name s) cid))"

definition fresh_from :: "int \<Rightarrow> 't proc_state \<Rightarrow> bool" where
  "fresh_from cutoff st \<longleftrightarrow> (\<forall>key s. ps_slots st key = Some s \<longrightarrow> cs_created_at s > cutoff)"

lemma slot_key_inj:
  "seg_ok t \<Longrightarrow> seg_ok t' \<Longrightarrow> slot_key t i = slot_key t' i' \<longleftrightarrow> t = t' \<and> i = i'"
proof
  assume t: "seg_ok t" "seg_ok t'" and "slot_key t i = slot_key t' i'"
  then have "split_on (CHR ''/'') (t @ CHR ''/'' # i) = split_on (CHR ''/'') (t' @ CHR ''/'' # i')"
    by (simp add: slot_key_def)
  with t have "t = t'" by (simp add: split_on_word_append seg_ok_def)
  with \<open>slot_key t i = slot_key t' i'\<close> show "t = t' \<and> i = i'" by (simp add: slot_key_def)
qed simp

lemma proc_read_slot:
  "proc_read c ord ts [n, cid, ''output''] = read_output (slot_key n cid)"
  "proc_read c ord ts [n, cid, ''error''] = with_slot (slot_key n cid) (\<lambda>slot. ret (opt_or (cs_error slot) ''null''))"
  "proc_read c ord ts [n, cid, ''input''] = with_slot (slot_key n cid) (\<lambda>slot. ret (cs_input slot))"
  by (simp_all add: proc_read_def)

lemma call_tool_slots: "ps_slots (fst (call_tool tool params st)) = ps_slots st"
  by (simp add: call_tool_def split: prod.splits)

datatype proc_op =
    ProcWrite instants "string list" string
  | ProcRead "string list"
  | ProcCall string string

fun proc_exec :: "codec \<Rightarrow> key_order \<Rightarrow> 't tools \<Rightarrow> 't proc_state \<Rightarrow> proc_op \<Rightarrow> 't proc_state" where
  "proc_exec c ord ts st (ProcWrite now path content) = fst (proc_write ts now path content st)"
| "proc_exec c ord ts st (ProcRead path) = fst (proc_read c ord ts path st)"
| "proc_exec c ord ts st (ProcCall n params) = fst (proc_call ts n params st)"

lemma read_output_slots: "ps_slots (fst (read_output key st)) = ps_slots st \<or>
   ps_slots (fst (read_output key st)) = (ps_slots st)(key := None)"
  by (auto simp: read_output_def with_slot_def split: option.splits)

lemma with_slot_same: "(\<And>s. fst (f s st) = st) \<Longrightarrow> fst (with_slot key f st) = st"
  by (simp add: with_slot_def split: option.splits)

lemma proc_read_slots:
  "(\<exists>key. ps_slots (fst (proc_read c ord ts path st)) = (ps_slots st)(key := None)) \<or>
   ps_slots (fst (proc_read c ord ts path st)) = ps_slots st"
proof -
  have schema: "fst (read_schema c ts n st) = st" for n
    by (simp add: read_schema_def step_defs split: option.splits)
  have slot: "fst (with_slot key (\<lambda>s. ret (g s)) st) = st" for key g
    by (rule with_slot_same) (simp add: ret_def)
  show ?thesis
    using read_output_slots [of _ st]
    by (auto simp: proc_read_def Let_def schema slot step_defs split: list.splits)
qed

lemma execute_call_slots:
  assumes "ps_slots (fst (execute_call ts now n cid input st)) key = Some s"
  shows "cs_created_at s > t_cleanup now - SLOT_TTL \<or> ts n = None"
    and "ps_slots st key = Some s \<or>
      (slot_settled s \<and> key = slot_key n cid \<and>
       (cs_tool_name s = n \<or> (\<exists>s0. ps_slots st key = Some s0 \<and> cs_tool_name s = cs_tool_name s0)))"
proof -
  show "cs_created_at s > t_cleanup now - SLOT_TTL \<or> ts n = None"
    using assms
    by (auto simp: execute_call_def Let_def split: option.splits prod.splits)
  show "ps_slots st key = Some s \<or>
      (slot_settled s \<and> key = slot_key n cid \<and>
       (cs_tool_name s = n \<or> (\<exists>s0. ps_slots st key = Some s0 \<and> cs_tool_name s = cs_tool_name s0)))"
  proof (cases "ts n")
    case None
    with assms show ?thesis by (simp add: execute_call_def fail_def)
  next
    case (Some tool)
    obtain st' r where t: "call_tool tool input st = (st', r)" by fastforce
    with call_tool_slots [of tool input st] have "ps_slots st' = ps_slots st" by simp
    with assms Some t show ?thesis
      by (cases r; cases "ps_slots st (slot_key n cid)")
         (auto simp: execute_call_def Let_def slot_settled_def split: if_splits)
  qed
qed

interpretation slots: machine "proc_exec c ord ts" slots_ok for c ord ts
proof
  fix st :: "'a proc_state" and e
  assume I: "slots_ok st"
  show "slots_ok (proc_exec c ord ts st e)"
  proof (cases e)
    case (ProcWrite now path content)
    show ?thesis
    proof (cases "length path = 3 \<and> path ! 2 = ''input''")
      case True
      with ProcWrite have "proc_exec c ord ts st e = fst (execute_call ts now (path ! 0) (path ! 1) content st)"
        by (simp add: proc_write_def)
      with I show ?thesis
        unfolding slots_ok_def by (metis execute_call_slots(2))
    qed (use I ProcWrite in \<open>auto simp: proc_write_def fail_def\<close>)
  next
    case (ProcRead path)
    with I proc_read_slots [of c ord ts path st] show ?thesis
      by (auto simp: slots_ok_def split: if_splits)
  next
    case (ProcCall n params)
    with I show ?thesis
      by (auto simp: slots_ok_def proc_call_def fail_def call_tool_slots split: option.splits)
  qed
qed

section \<open>Properties\<close>

text \<open>
  In every run of calls, writes and reads, whatever the tools do, a slot holds either an
  output or an error, never both and never neither, and its key begins with the tool it names; a
  call through a slot that returns leaves no slot older than five minutes.\<close>

theorem proc_slots_invariant:
  assumes "ps_slots st0 = Map.empty"
  shows "slots_ok (foldl (proc_exec c ord ts) st0 ops) \<and>
    (\<forall>now n cid input st'. execute_call ts now n cid input (foldl (proc_exec c ord ts) st0 ops) = (st', Inr ()) \<longrightarrow>
       fresh_from (t_cleanup now - SLOT_TTL) st')"
proof
  let ?st = "foldl (proc_exec c ord ts) st0 ops"
  show "slots_ok ?st" by (rule slots.run_inv) (simp add: slots_ok_def assms)
  have "fresh_from (t_cleanup now - SLOT_TTL) st'"
    if "execute_call ts now n cid input ?st = (st', Inr ())" for now n cid input st'
  proof -
    from that have "ts n \<noteq> None" by (cases "ts n") (auto simp: execute_call_def fail_def)
    with that execute_call_slots(1) [of ts now n cid input ?st] show ?thesis
      by (auto simp: fresh_from_def)
  qed
  then show "\<forall>now n cid input st'. execute_call ts now n cid input ?st = (st', Inr ()) \<longrightarrow>
       fresh_from (t_cleanup now - SLOT_TTL) st'" by blast
qed

definition echo_tool :: "unit proc_tool" where
  "echo_tool = \<lparr>pt_name = ''echo'', pt_schema = JNull,
     pt_call = (\<lambda>params. if params = ''bad'' then fail (Io ''bad'') else ret params)\<rparr>"

definition echo_state :: "unit proc_state" where
  "echo_state = \<lparr>ps_slots = Map.empty, ps_rest = ()\<rparr>"

theorem proc_slots_invariant_witness:
  "slots_ok (foldl (proc_exec note_codec sorted_list_of_set (proc_register echo_tool proc_new)) echo_state
     [ProcWrite \<lparr>t_created = 0, t_cleanup = 1\<rparr> [''echo'', ''c1'', ''input''] ''hi'', ProcRead [''echo'', ''c1'', ''output'']])"
  using proc_slots_invariant [of echo_state note_codec sorted_list_of_set "proc_register echo_tool proc_new"]
  by (simp add: echo_state_def del: foldl.simps foldl_Cons)

text \<open>
  A submitted call is fetched exactly once: when the tool returns an output, the write
  succeeds, the first read of the output gives it and removes the slot, and the next one finds
  nothing. A slot reused from an earlier call must not have expired.\<close>

theorem proc_output_once:
  assumes "ts n = Some tool" and "pt_call tool input (ps_rest st) = (t', Inr out)"
    and "t_created now > t_cleanup now - SLOT_TTL"
    and "\<forall>s. ps_slots st (slot_key n cid) = Some s \<longrightarrow> cs_created_at s > t_cleanup now - SLOT_TTL"
  shows "\<exists>st1 st2. proc_write ts now [n, cid, ''input''] input st = (st1, Inr ()) \<and>
    proc_read c ord ts [n, cid, ''error''] st1 = (st1, Inr ''null'') \<and>
    proc_read c ord ts [n, cid, ''input''] st1 = (st1, Inr input) \<and>
    proc_read c ord ts [n, cid, ''output''] st1 = (st2, Inr out) \<and>
    (\<exists>m. proc_read c ord ts [n, cid, ''output''] st2 = (st2, Inl (NotFound m))) \<and>
    ps_slots st2 = (map_retain (\<lambda>_ s. cs_created_at s > t_cleanup now - SLOT_TTL) (ps_slots st))(slot_key n cid := None)"
proof -
  let ?key = "slot_key n cid" and ?keep = "\<lambda>_ s. cs_created_at s > t_cleanup now - SLOT_TTL"
  obtain st1 s where w: "proc_write ts now [n, cid, ''input''] input st = (st1, Inr ())"
    and slots: "ps_slots st1 = map_retain ?keep ((ps_slots st)(?key \<mapsto> s))"
    and s: "cs_output s = Some out" "cs_error s = None" "cs_input s = input" "?keep ?key s"
    using assms
    by (cases "ps_slots st ?key") (auto simp: proc_write_def execute_call_def call_tool_def Let_def)
  let ?st2 = "st1\<lparr>ps_slots := (ps_slots st1)(?key := None)\<rparr>"
  from slots s(4) have key: "ps_slots st1 ?key = Some s" by simp
  have "ps_slots ?st2 = (map_retain ?keep (ps_slots st))(?key := None)"
    by (auto simp: slots map_retain_def fun_eq_iff)
  moreover from key s have "proc_read c ord ts [n, cid, ''error''] st1 = (st1, Inr ''null'')"
    "proc_read c ord ts [n, cid, ''input''] st1 = (st1, Inr input)"
    "proc_read c ord ts [n, cid, ''output''] st1 = (?st2, Inr out)"
    by (simp_all add: proc_read_slot read_output_def with_slot_def ret_def)
  moreover have "proc_read c ord ts [n, cid, ''output''] ?st2 = (?st2, Inl (NotFound (''call not found: '' @ ?key)))"
    by (simp add: proc_read_slot read_output_def with_slot_def)
  ultimately show ?thesis using w by blast
qed

theorem proc_output_once_witness:
  "\<exists>st1 st2. proc_write (proc_register echo_tool proc_new) \<lparr>t_created = 0, t_cleanup = 1\<rparr> [''echo'', ''c1'', ''input''] ''hi'' echo_state = (st1, Inr ()) \<and>
    proc_read note_codec sorted_list_of_set (proc_register echo_tool proc_new) [''echo'', ''c1'', ''output''] st1 = (st2, Inr ''hi'')"
proof -
  let ?ts = "proc_register echo_tool proc_new" and ?now = "\<lparr>t_created = 0, t_cleanup = 1\<rparr>"
  have "?ts ''echo'' = Some echo_tool" "pt_call echo_tool ''hi'' (ps_rest echo_state) = ((), Inr ''hi'')"
    "t_created ?now > t_cleanup ?now - SLOT_TTL"
    by (simp_all add: proc_register_def proc_new_def echo_tool_def ret_def echo_state_def SLOT_TTL_def)
  from proc_output_once [where ts = ?ts and n = "''echo''" and now = ?now, OF this, of "''c1''" note_codec sorted_list_of_set] show ?thesis
    by (auto simp: echo_state_def)
qed

text \<open>
  A call that fails is still acknowledged; its error text is read back any number of times,
  and reading the output says there is none without giving up the slot.\<close>

theorem proc_error_kept:
  assumes "ts n = Some tool" and "pt_call tool input (ps_rest st) = (t', Inl e)"
    and "t_created now > t_cleanup now - SLOT_TTL" and "ps_slots st (slot_key n cid) = None"
  shows "\<exists>st1. proc_write ts now [n, cid, ''input''] input st = (st1, Inr ()) \<and>
    proc_read c ord ts [n, cid, ''error''] st1 = (st1, Inr (vfs_error_display e)) \<and>
    (\<exists>m. proc_read c ord ts [n, cid, ''output''] st1 = (st1, Inl (NotFound m)))"
  using assms
  by (simp add: proc_write_def execute_call_def call_tool_def Let_def proc_read_def read_output_def
      with_slot_def ret_def map_retain_def)

theorem proc_error_kept_witness:
  "\<exists>st1. proc_write (proc_register echo_tool proc_new) \<lparr>t_created = 0, t_cleanup = 1\<rparr> [''echo'', ''c1'', ''input''] ''bad'' echo_state = (st1, Inr ()) \<and>
    proc_read note_codec sorted_list_of_set (proc_register echo_tool proc_new) [''echo'', ''c1'', ''error''] st1 = (st1, Inr ''io error: bad'')"
proof -
  let ?ts = "proc_register echo_tool proc_new" and ?now = "\<lparr>t_created = 0, t_cleanup = 1\<rparr>"
  have "?ts ''echo'' = Some echo_tool" "pt_call echo_tool ''bad'' (ps_rest echo_state) = ((), Inl (Io ''bad''))"
    "t_created ?now > t_cleanup ?now - SLOT_TTL" "ps_slots echo_state (slot_key ''echo'' ''c1'') = None"
    by (simp_all add: proc_register_def proc_new_def echo_tool_def fail_def echo_state_def SLOT_TTL_def)
  from proc_error_kept [where ts = ?ts and n = "''echo''" and now = ?now and cid = "''c1''", OF this, of note_codec sorted_list_of_set] show ?thesis by auto
qed

text \<open>
  The cleanup looks at when a slot was first made, not at when it was last used: submitting a
  call again on a slot that was never fetched for five minutes runs the tool, reports success and
  loses the outcome.\<close>

theorem proc_stale_slot_lost:
  assumes "ts n = Some tool" and "ps_slots st (slot_key n cid) = Some s"
    and "cs_created_at s \<le> t_cleanup now - SLOT_TTL"
  shows "\<exists>st1. proc_write ts now [n, cid, ''input''] input st = (st1, Inr ()) \<and>
    ps_rest st1 = fst (pt_call tool input (ps_rest st)) \<and>
    (\<exists>m. proc_read c ord ts [n, cid, ''output''] st1 = (st1, Inl (NotFound m)))"
  using assms
  by (cases "pt_call tool input (ps_rest st)"; cases "snd (pt_call tool input (ps_rest st))")
     (simp_all add: proc_write_def execute_call_def call_tool_def Let_def proc_read_def read_output_def
      with_slot_def map_retain_def)

theorem proc_stale_slot_lost_witness:
  "\<exists>st1 m. proc_write (proc_register echo_tool proc_new) \<lparr>t_created = 301 * 10 ^ 9, t_cleanup = 301 * 10 ^ 9\<rparr>
       [''echo'', ''c1'', ''input''] ''hi''
       (echo_state\<lparr>ps_slots := [''echo/c1'' \<mapsto> \<lparr>cs_tool_name = ''echo'', cs_input = ''a'', cs_output = Some ''a'', cs_error = None, cs_created_at = 0\<rparr>]\<rparr>)
     = (st1, Inr ()) \<and>
   proc_read note_codec sorted_list_of_set (proc_register echo_tool proc_new) [''echo'', ''c1'', ''output''] st1 = (st1, Inl (NotFound m))"
proof -
  let ?s = "\<lparr>cs_tool_name = ''echo'', cs_input = ''a'', cs_output = Some ''a'', cs_error = None, cs_created_at = 0\<rparr>"
  let ?ts = "proc_register echo_tool proc_new" and ?now = "\<lparr>t_created = 301 * 10 ^ 9, t_cleanup = 301 * 10 ^ 9\<rparr>"
  have "?ts ''echo'' = Some echo_tool" "ps_slots (echo_state\<lparr>ps_slots := [''echo/c1'' \<mapsto> ?s]\<rparr>) (slot_key ''echo'' ''c1'') = Some ?s"
    "cs_created_at ?s \<le> t_cleanup ?now - SLOT_TTL"
    by (simp_all add: proc_register_def proc_new_def echo_tool_def SLOT_TTL_def slot_key_def)
  from proc_stale_slot_lost [where ts = ?ts and n = "''echo''" and now = ?now and cid = "''c1''", OF this, of "''hi''" note_codec sorted_list_of_set] show ?thesis by blast
qed

end
