(* ===== verification/Logos_Sandbox.thy ===== *)
theory Logos_Sandbox
  imports Logos_Proc
begin

text \<open>
  The namespace \<open>sandbox\<close> (\<open>logos-kernel/src/sandbox.rs\<close>): one container per agent, one directory
  per task in it, the translation of URIs in commands, and the host executor; and the tools kept
  in \<open>proc-store\<close> (\<open>proc_store.rs\<close>), which run in the sandbox. The executor is a record of its
  trait's methods, so that containerd (\<open>Logos_Containerd\<close>) can stand for it; the shell the host executor
  starts is a parameter.
\<close>

section \<open>State and executors\<close>

record exec_result =
  er_stdout :: string
  er_stderr :: string
  er_exit_code :: int

record container_info =
  ci_container_id :: string
  ci_host_path :: fpath

record sandbox =
  sb_fs :: tree
  sb_containers :: "string \<rightharpoonup> container_info"
  sb_task_agent :: "string \<rightharpoonup> string"

record executor =
  ex_ensure :: "string \<Rightarrow> bool \<Rightarrow> (tree, container_info) vfs_step"
  ex_exec :: "string \<Rightarrow> string \<Rightarrow> string \<Rightarrow> (tree, exec_result) vfs_step"
  ex_remove :: "string \<Rightarrow> (tree, unit) vfs_step"

definition CONTAINER_WORKDIR :: string where
  "CONTAINER_WORKDIR = ''/workspace''"

definition on_fs :: "(tree, 'a) vfs_step \<Rightarrow> (sandbox, 'a) vfs_step" where
  "on_fs m sb = (case m (sb_fs sb) of (fs, r) \<Rightarrow> (sb\<lparr>sb_fs := fs\<rparr>, r))"

text \<open>The executor of \<open>SANDBOX_MODE=host\<close>.\<close>

definition host_ensure :: "faults \<Rightarrow> fpath \<Rightarrow> string \<Rightarrow> bool \<Rightarrow> (tree, container_info) vfs_step" where
  "host_ensure flt root agent_config_id _ =
     (let workspace = path_join root agent_config_id in
      andthen (io flt ''host workspace'' (io_err (''create host workspace '' @ agent_config_id))
          (create_dir_all workspace)) (\<lambda>_.
      ret \<lparr>ci_container_id = ''host-'' @ agent_config_id, ci_host_path = workspace\<rparr>))"

definition host_cwd :: "fpath \<Rightarrow> string \<Rightarrow> string \<Rightarrow> fpath" where
  "host_cwd root container_id cwd =
     (let agent_id = opt_or (strip_prefix ''host-'' container_id) container_id;
          workspace = path_join root agent_id
      in case strip_prefix CONTAINER_WORKDIR cwd of
           Some relative \<Rightarrow>
             (let relative = opt_or (strip_prefix ''/'' relative) relative
              in if relative = [] then workspace else path_join workspace relative)
         | None \<Rightarrow> path_join [] cwd)"

type_synonym shell = "fpath \<Rightarrow> string \<Rightarrow> tree \<Rightarrow> tree \<times> (string + exec_result)"

definition host_exec ::
  "faults \<Rightarrow> shell \<Rightarrow> fpath \<Rightarrow> string \<Rightarrow> string \<Rightarrow> string \<Rightarrow> (tree, exec_result) vfs_step" where
  "host_exec flt sh root container_id command cwd =
     (let actual_cwd = host_cwd root container_id cwd in
      andthen (io flt ''cwd'' (io_err (''create cwd '' @ path_display actual_cwd)) (create_dir_all actual_cwd)) (\<lambda>_ fs.
      case sh actual_cwd command fs of
        (fs', Inl e) \<Rightarrow> (fs', Inl (Io (''exec host command: '' @ e)))
      | (fs', Inr out) \<Rightarrow> (fs', Inr out)))"

definition host_executor :: "faults \<Rightarrow> shell \<Rightarrow> fpath \<Rightarrow> executor" where
  "host_executor flt sh root =
     \<lparr>ex_ensure = host_ensure flt root, ex_exec = host_exec flt sh root, ex_remove = (\<lambda>_. ret ())\<rparr>"

section \<open>Containers and paths\<close>

definition ensure_container :: "executor \<Rightarrow> fpath \<Rightarrow> string \<Rightarrow> (sandbox, container_info) vfs_step" where
  "ensure_container ex host_root agent_config_id sb =
     (case sb_containers sb agent_config_id of
        Some info \<Rightarrow> (sb, Inr info)
      | None \<Rightarrow>
          (let sock = path_exists (path_join host_root ''logos.sock'') (sb_fs sb) in
           andthen (on_fs (ex_ensure ex agent_config_id sock)) (\<lambda>info.
           andthen (modify (\<lambda>sb. sb\<lparr>sb_containers := (sb_containers sb)(agent_config_id \<mapsto> info)\<rparr>)) (\<lambda>_.
           ret info)) sb))"

definition ensure_container_for :: "executor \<Rightarrow> fpath \<Rightarrow> string \<Rightarrow> string \<Rightarrow> (sandbox, unit) vfs_step" where
  "ensure_container_for ex host_root agent_config_id task_id =
     andthen (ensure_container ex host_root agent_config_id) (\<lambda>_.
     modify (\<lambda>sb. sb\<lparr>sb_task_agent := (sb_task_agent sb)(task_id \<mapsto> agent_config_id)\<rparr>))"

definition resolve_path :: "faults \<Rightarrow> fpath \<Rightarrow> string list \<Rightarrow> (sandbox, fpath) vfs_step" where
  "resolve_path flt host_root path =
     (case path of
        [] \<Rightarrow> fail (InvalidPath ''empty sandbox path'')
      | task_id # rest \<Rightarrow>
          if task_id = ''__system__'' then ret (path_join host_root (join ''/'' path))
          else
            (\<lambda>sb. case sb_task_agent sb task_id of
               None \<Rightarrow> (sb, Inl (Io (''no agent registered for task '' @ task_id)))
             | Some agent_id \<Rightarrow>
                 (case sb_containers sb agent_id of
                    None \<Rightarrow> (sb, Inl (Io (''no container for agent '' @ agent_id)))
                  | Some info \<Rightarrow>
                      (let task_dir = path_join (ci_host_path info) task_id in
                       andthen (on_fs (io flt ''task dir'' (io_err (''create task dir '' @ task_id)) (create_dir_all task_dir))) (\<lambda>_.
                       ret (if length path > 1 then path_join task_dir (join ''/'' rest) else task_dir)) sb))))"

section \<open>Commands\<close>

definition translate_service_uris :: "fpath \<Rightarrow> string \<Rightarrow> string" where
  "translate_service_uris host_root command =
     replace_all ''logos://services/'' (path_display host_root @ ''/__system__/svc/'') command"

definition extract_task_id :: "string \<Rightarrow> string option" where
  "extract_task_id command =
     (case find_sub ''logos://sandbox/'' command of
        None \<Rightarrow> None
      | Some start \<Rightarrow>
          (let rest = drop (start + length ''logos://sandbox/'') command;
               task_id = opt_or (get_at (split_on (CHR ''/'') rest) 0) []
           in if task_id \<noteq> [] then Some task_id else None))"

definition translate_command :: "fpath \<Rightarrow> string \<Rightarrow> string \<Rightarrow> string" where
  "translate_command host_root task_id command =
     (let task_workspace = CONTAINER_WORKDIR @ ''/'' @ task_id;
          translated = replace_all (''logos://sandbox/'' @ task_id @ ''/'') (task_workspace @ ''/'') command;
          translated = replace_all (''logos://sandbox/'' @ task_id) task_workspace translated
      in translate_service_uris host_root translated)"

definition sandbox_exec ::
  "executor \<Rightarrow> faults \<Rightarrow> fpath \<Rightarrow> string \<Rightarrow> string \<Rightarrow> string \<Rightarrow> (sandbox, exec_result) vfs_step" where
  "sandbox_exec ex flt host_root command agent_config_id task_id =
     andthen (ensure_container ex host_root agent_config_id) (\<lambda>info.
     andthen (on_fs (io flt ''task dir'' (io_err (''create task dir '' @ task_id))
         (create_dir_all (path_join (ci_host_path info) task_id)))) (\<lambda>_.
     on_fs (ex_exec ex (ci_container_id info) (translate_command host_root task_id command)
         (CONTAINER_WORKDIR @ ''/'' @ task_id))))"

section \<open>The namespace\<close>

definition sandbox_dir :: "fpath \<Rightarrow> dir_ns" where
  "sandbox_dir root = \<lparr>dn_root = root, dn_name = ''sandbox'', dn_paths_in_errors = True\<rparr>"

definition sandbox_read ::
  "codec \<Rightarrow> dir_order \<Rightarrow> faults \<Rightarrow> fpath \<Rightarrow> string list \<Rightarrow> (sandbox, string) vfs_step" where
  "sandbox_read c ord flt host_root path =
     (if path = [] then fail (InvalidPath ''empty sandbox path'')
      else andthen (resolve_path flt host_root path) (\<lambda>file_path.
        on_fs (dir_read_at c ord flt (sandbox_dir host_root) path file_path)))"

definition sandbox_write :: "faults \<Rightarrow> fpath \<Rightarrow> string list \<Rightarrow> string \<Rightarrow> (sandbox, unit) vfs_step" where
  "sandbox_write flt host_root path content =
     (if path = [] then fail (InvalidPath ''empty sandbox path'')
      else andthen (resolve_path flt host_root path) (\<lambda>file_path.
        on_fs (dir_write_at flt (sandbox_dir host_root) file_path content)))"

text \<open>
  Appending to a log: the parent directories, the file opened for appending (created when
  missing), the text, a line feed. A \<open>tokio\<close> file reports the failure of a write at the call after
  it: the last part of the text fails in the \<open>write_all\<close> of the line feed (\<open>late\<close>), an earlier part
  of a text longer than the file's buffer in its own, and the failure of the line feed, which
  nothing follows, is reported nowhere.
\<close>

definition log_append_at :: "faults \<Rightarrow> fpath \<Rightarrow> fpath \<Rightarrow> string \<Rightarrow> (tree, unit) vfs_step" where
  "log_append_at flt host_root file_path partial =
     andthen (case path_parent file_path of
         Some parent \<Rightarrow> io flt ''mkdir'' (err_at (sandbox_dir host_root) ''mkdir'' parent) (create_dir_all parent)
       | None \<Rightarrow> ret ()) (\<lambda>_.
     andthen (io flt ''open'' (err_at (sandbox_dir host_root) ''open log'' file_path) (fs_append file_path [])) (\<lambda>_.
     andthen (io_data flt ''append'' (io_err (if flt [''append'', ''late''] = None then ''append log'' else ''append newline''))
       partial (fs_append file_path)) (\<lambda>_.
     attempt (io flt ''newline'' (io_err []) (fs_append file_path [CHR 0x0A])) (\<lambda>_. ret ()))))"

definition sandbox_patch :: "faults \<Rightarrow> fpath \<Rightarrow> string list \<Rightarrow> string \<Rightarrow> (sandbox, unit) vfs_step" where
  "sandbox_patch flt host_root path partial =
     (if path \<noteq> [] \<and> last path = ''log''
      then andthen (resolve_path flt host_root path) (\<lambda>file_path.
        on_fs (log_append_at flt host_root file_path partial))
      else sandbox_write flt host_root path partial)"

definition sandbox_namespace ::
  "codec \<Rightarrow> dir_order \<Rightarrow> faults \<Rightarrow> fpath \<Rightarrow> sandbox namespace" where
  "sandbox_namespace c ord flt host_root =
     \<lparr>ns_name = ''sandbox'', ns_read = sandbox_read c ord flt host_root,
      ns_write = sandbox_write flt host_root, ns_patch = sandbox_patch flt host_root\<rparr>"

section \<open>Tools of proc-store\<close>

definition sys_path :: "string \<Rightarrow> string list" where
  "sys_path tool_name = [''__system__'', ''proc'', tool_name]"

definition external_call ::
  "executor \<Rightarrow> faults \<Rightarrow> fpath \<Rightarrow> string \<Rightarrow> string \<Rightarrow> string \<Rightarrow> (sandbox, string) vfs_step" where
  "external_call ex flt host_root tool_name run params =
     (let tool_dir = ''logos://sandbox/__system__/proc/'' @ tool_name in
      andthen (sandbox_write (at ''input'' flt) host_root (sys_path tool_name @ [''input.json'']) params) (\<lambda>_.
      andthen (sandbox_exec ex (at ''exec'' flt) host_root
          (''cd '' @ tool_dir @ '' && '' @ run @ '' < '' @ tool_dir @ ''/input.json'')
          ''__system__'' ''__system__'') (\<lambda>result.
      if er_exit_code result \<noteq> 0
      then fail (Io (''proc tool '' @ tool_name @ '' exited with code '' @ int_str (er_exit_code result)
                     @ '': '' @ er_stderr result))
      else ret (er_stdout result))))"

definition external_proc_tool ::
  "executor \<Rightarrow> faults \<Rightarrow> fpath \<Rightarrow> string \<Rightarrow> json \<Rightarrow> string \<Rightarrow> sandbox proc_tool" where
  "external_proc_tool ex flt host_root tool_name schema run =
     \<lparr>pt_name = tool_name, pt_schema = schema,
      pt_call = external_call ex (at tool_name flt) host_root tool_name run\<rparr>"

text \<open>The declaration of one tool, when its directory has a readable \<open>schema.json\<close> with a command.\<close>

definition tool_decl :: "codec \<Rightarrow> faults \<Rightarrow> fpath \<Rightarrow> string \<Rightarrow> tree \<Rightarrow> (json \<times> string) option" where
  "tool_decl c flt root name fs =
     (let schema_path = path_join (root @ [name]) ''schema.json'' in
      if flt [''file_type'', name] \<noteq> None \<or> fs (root @ [name]) \<noteq> Some Dir then None
      else if \<not> path_exists schema_path fs then None
      else (case snd (io flt (''read '' @ name) (io_err []) (read_to_string schema_path) fs) of
              Inl _ \<Rightarrow> None
            | Inr content \<Rightarrow>
                (case from_str c content of
                   Inl _ \<Rightarrow> None
                 | Inr schema \<Rightarrow> map_option (Pair schema) (as_str (jget schema ''run'')))))"

text \<open>Clone the tool's repository, or pull where it is there; \<open>False\<close> skips the tool.\<close>

definition fetch_tool ::
  "codec \<Rightarrow> dir_order \<Rightarrow> executor \<Rightarrow> faults \<Rightarrow> fpath \<Rightarrow> string \<Rightarrow> string \<Rightarrow> (sandbox, bool) vfs_step" where
  "fetch_tool c ord ex flt host_root tool_name git_url =
     (let sandbox_path = ''logos://sandbox/__system__/proc/'' @ tool_name in
      attempt (sandbox_read c ord (at ''exists'' flt) host_root (sys_path tool_name)) (\<lambda>exists.
      if \<not> is_ok exists
      then attempt (sandbox_exec ex (at ''clone'' flt) host_root
              (''git clone '' @ git_url @ '' '' @ sandbox_path) ''__system__'' ''__system__'') (\<lambda>r. ret (is_ok r))
      else attempt (sandbox_exec ex (at ''pull'' flt) host_root
              (''cd '' @ sandbox_path @ '' && git pull --ff-only'') ''__system__'' ''__system__'') (\<lambda>_. ret True)))"

fun restore_tools_each ::
  "codec \<Rightarrow> dir_order \<Rightarrow> executor \<Rightarrow> faults \<Rightarrow> fpath \<Rightarrow> fpath \<Rightarrow> string list \<Rightarrow>
   (sandbox, sandbox proc_tool list) vfs_step" where
  "restore_tools_each c ord ex flt host_root root [] = ret []"
| "restore_tools_each c ord ex flt host_root root (name # names) =
     (\<lambda>sb. case tool_decl c flt root name (sb_fs sb) of
        None \<Rightarrow> restore_tools_each c ord ex flt host_root root names sb
      | Some (schema, run) \<Rightarrow>
          andthen (case as_str (jget schema ''git'') of
              None \<Rightarrow> ret True
            | Some git_url \<Rightarrow> fetch_tool c ord ex (at name flt) host_root name git_url) (\<lambda>ok.
          andthen (restore_tools_each c ord ex flt host_root root names) (\<lambda>tools.
          ret (if ok then external_proc_tool ex flt host_root name schema run # tools else tools))) sb)"

definition restore_tools ::
  "codec \<Rightarrow> dir_order \<Rightarrow> executor \<Rightarrow> faults \<Rightarrow> fpath \<Rightarrow> fpath \<Rightarrow> (sandbox, sandbox proc_tool list) vfs_step" where
  "restore_tools c ord ex flt host_root root =
     andthen (on_fs (io flt ''list'' (io_err ''read proc-store'') (read_dir ord root))) (\<lambda>names.
     restore_tools_each c ord ex flt host_root root names)"

section \<open>What the namespace promises\<close>

definition content_of :: "fpath \<Rightarrow> tree \<Rightarrow> string" where
  "content_of p fs = (case fs p of Some (File c) \<Rightarrow> c | _ \<Rightarrow> [])"

lemma fs_append_cases:
  assumes p: "clean p" "p \<noteq> []" and m: "fs_append p x fs = (fs', r)"
  shows "(fs' = fs \<and> \<not> is_ok r) \<or>
    (r = Inr () \<and> fs' = fs(p \<mapsto> File (content_of p fs @ x)) \<and> dirs_to fs (butlast p) \<and> fs p \<noteq> Some Dir)"
  using write_to_clean [OF p(1) m [unfolded fs_append_def]] p(2)
  by (cases r) (auto simp: content_of_def)

lemma fs_append_unchanged: "clean p \<Longrightarrow> p \<noteq> [] \<Longrightarrow> fs_append p y fs = (fs1, Inl e) \<Longrightarrow> fs1 = fs"
  using fs_append_cases [of p y fs fs1 "Inl e"] by simp

lemma fs_append_open:
  assumes "clean p" "file_at p fs v"
  shows "fs_append p x fs = (fs(p \<mapsto> File (v @ x)), Inr ())"
  using walk_clean [OF assms(1), of fs p] assms(2) by (auto simp: file_at_def fs_append_def write_to_def)

lemma io_mkdir:
  assumes p: "clean p" "p \<noteq> []"
    and m: "(case path_parent p of Some parent \<Rightarrow> io flt l (err parent) (create_dir_all parent) | None \<Rightarrow> ret ()) fs = (fs', r)"
  shows "grown (butlast p) fs fs'"
proof -
  from m path_parent_clean [OF p] have "io flt l (err (butlast p)) (create_dir_all (butlast p)) fs = (fs', r)" by simp
  then show ?thesis
    by (rule io_cases) (auto dest: create_dir_all_grows [OF clean_butlast [OF p(1)]])
qed

text \<open>
  What an append adds to a log: the text and the line feed when it succeeds, unless the line
  feed's write fails; a beginning of the text when it fails.
\<close>

definition log_adds :: "faults \<times> string \<times> bool \<Rightarrow> string \<Rightarrow> bool" where
  "log_adds = (\<lambda>(flt, x, ok) y. if ok then y = x @ (if flt [''newline''] = None then [CHR 0x0A] else [])
     else (\<exists>n. y = take n x))"

lemma newline_step:
  assumes p: "clean p" and f: "file_at p fs v"
  shows "attempt (io flt ''newline'' err (fs_append p [CHR 0x0A])) (\<lambda>_. ret () :: (tree, unit) vfs_step) fs =
    (fs(p \<mapsto> File (v @ (if flt [''newline''] = None then [CHR 0x0A] else []))), Inr ())"
  using fs_append_open [OF p f] f
  by (auto simp: attempt_def io_def ret_def file_at_def map_upd_triv split: option.splits)

lemma text_step:
  assumes p: "clean p" "p \<noteq> []" and f: "file_at p fs v"
    and a: "io_data flt ''append'' err x (fs_append p) fs = (fs', r)"
  obtains y where "fs' = fs(p \<mapsto> File (v @ y))" "is_ok r \<Longrightarrow> y = x" "\<exists>n. y = take n x"
proof -
  note app = fs_append_open [OF p(1) f]
  from a fs_append_unchanged [OF p] show thesis
  proof (rule io_data_cases)
    assume "fs' = fs" "\<not> is_ok r"
    with f that [of "[]"] show thesis by (auto simp: file_at_def map_upd_triv intro: exI [of _ 0])
  next
    assume "fs_append p x fs = (fs', Inr ())"
    moreover have "x = take (length x) x" by simp
    ultimately show thesis using app that [of x] by (metis prod.inject)
  next
    fix n assume "fs_append p (take n x) fs = (fs', Inr ())" "\<not> is_ok r"
    with app that [of "take n x"] show thesis by auto
  qed
qed

lemma log_append_spec:
  assumes p: "clean p" "p \<noteq> []" and a: "log_append_at flt hr p x fs = (fs', r)"
  obtains fs1 where "grown (butlast p) fs fs1" "fs' = fs1" "\<not> is_ok r"
  | fs1 y where "grown (butlast p) fs fs1" "fs' = fs1(p \<mapsto> File (content_of p fs1 @ y))" "fs1 p \<noteq> Some Dir"
      "dirs_to fs1 (butlast p)" "log_adds (flt, x, is_ok r) y"
proof -
  obtain fs1 r1 where m: "(case path_parent p of
         Some parent \<Rightarrow> io flt ''mkdir'' (err_at (sandbox_dir hr) ''mkdir'' parent) (create_dir_all parent)
       | None \<Rightarrow> ret ()) fs = (fs1, r1)" by fastforce
  note g = io_mkdir [OF p m]
  obtain fs2 r2 where o: "io flt ''open'' (err_at (sandbox_dir hr) ''open log'' p) (fs_append p []) fs1 = (fs2, r2)"
    by fastforce
  have o2: "(\<not> is_ok r2 \<and> fs2 = fs1) \<or> (is_ok r2 \<and> fs_append p [] fs1 = (fs2, Inr ()))"
    using o fs_append_unchanged [OF p, of "[]" fs1] by (cases "fs_append p [] fs1"; cases "snd (fs_append p [] fs1)")
      (auto simp: io_def split: option.splits)
  note step = a [unfolded log_append_at_def, unfolded andthen_def, unfolded m [unfolded andthen_def], unfolded prod.case]
  consider (mk) e where "r1 = Inl e" | (op) u e where "r1 = Inr u" "r2 = Inl e" "fs2 = fs1"
    | (ok) u u' where "r1 = Inr u" "r2 = Inr u'" "fs_append p [] fs1 = (fs2, Inr ())"
    using o2 by (cases r1; cases r2) auto
  then show thesis
  proof cases
    case mk
    with step g that(1) show ?thesis by auto
  next
    case op
    with step o g that(1) show ?thesis by auto
  next
    case ok
    from fs_append_cases [OF p ok(3)] have
      fs2: "fs2 = fs1(p \<mapsto> File (content_of p fs1))" and d: "dirs_to fs1 (butlast p)" "fs1 p \<noteq> Some Dir" by auto
    obtain fs3 r3 where t: "io_data flt ''append'' (io_err (if flt [''append'', ''late''] = None then ''append log'' else ''append newline''))
       x (fs_append p) fs2 = (fs3, r3)" by fastforce
    have "file_at p fs2 (content_of p fs1)" using file_at_write [OF p(2) d(1)] by (simp add: fs2)
    from text_step [OF p this t] obtain y where
      y: "fs3 = fs1(p \<mapsto> File (content_of p fs1 @ y))" "is_ok r3 \<Longrightarrow> y = x" "\<exists>n. y = take n x"
      by (auto simp: fs2)
    show ?thesis
    proof (cases r3)
      case (Inl e)
      with step ok o t have "fs' = fs3" "r = Inl e" by simp_all
      with that(2) [OF g _ d(2,1), of y] y show ?thesis by (auto simp: log_adds_def)
    next
      case (Inr u3)
      have f3: "file_at p fs3 (content_of p fs1 @ y)" using file_at_write [OF p(2) d(1)] by (simp add: y(1))
      from step ok o t Inr newline_step [OF p(1) f3, of flt "io_err []"] have
        "fs' = fs3(p \<mapsto> File ((content_of p fs1 @ y) @ (if flt [''newline''] = None then [CHR 0x0A] else [])))" "r = Inr ()"
        by simp_all
      with that(2) [OF g _ d(2,1)] y Inr show ?thesis by (simp add: log_adds_def)
    qed
  qed
qed

text \<open>Where a path leads, the containers and tasks being what they are.\<close>

definition sandbox_loc :: "fpath \<Rightarrow> sandbox \<Rightarrow> string list \<Rightarrow> fpath option" where
  "sandbox_loc hr sb path =
     (case path of
        [] \<Rightarrow> None
      | t # _ \<Rightarrow>
          if t = ''__system__'' then Some (hr @ path)
          else Option.bind (sb_task_agent sb t) (\<lambda>a.
               Option.bind (sb_containers sb a) (\<lambda>info. Some (ci_host_path info @ path))))"

lemma sandbox_loc_fs [simp]: "sandbox_loc hr (sb\<lparr>sb_fs := fs\<rparr>) path = sandbox_loc hr sb path"
  by (cases path) (simp_all add: sandbox_loc_def)

lemma on_fs_eq: "on_fs m sb = (sb', r) \<longleftrightarrow> (\<exists>fs. m (sb_fs sb) = (fs, r) \<and> sb' = sb\<lparr>sb_fs := fs\<rparr>)"
  by (auto simp: on_fs_def split: prod.splits)

lemma resolve_path_spec:
  assumes loc: "sandbox_loc hr sb path = Some p" and c: "clean p" and r: "resolve_path flt hr path sb = (sb', r)"
  shows "\<exists>fs1. sb' = sb\<lparr>sb_fs := fs1\<rparr> \<and> grown p (sb_fs sb) fs1 \<and> (r = Inr p \<or> \<not> is_ok r)"
proof -
  obtain t rest where path: "path = t # rest" using loc by (cases path) (auto simp: sandbox_loc_def)
  show ?thesis
  proof (cases "t = ''__system__''")
    case True
    with loc have p: "p = hr @ path" by (simp add: sandbox_loc_def path)
    with c True r show ?thesis
      by (intro exI [of _ "sb_fs sb"]) (simp add: resolve_path_def path path_join_clean ret_def)
  next
    case False
    with loc obtain a info where a: "sb_task_agent sb t = Some a" "sb_containers sb a = Some info"
      and p: "p = ci_host_path info @ path"
      by (auto simp: sandbox_loc_def path split: bind_splits)
    let ?d = "ci_host_path info @ [t]"
    have d: "path_join (ci_host_path info) t = ?d"
      using c path_join_clean [of "[t]" "ci_host_path info"] by (simp add: p path)
    have rest: "rest \<noteq> [] \<Longrightarrow> path_join ?d (join ''/'' rest) = p"
      using c path_join_clean [of rest ?d] by (simp add: p path)
    obtain fs1 r1 where m: "io flt ''task dir'' (io_err (''create task dir '' @ t)) (create_dir_all ?d) (sb_fs sb) = (fs1, r1)"
      by fastforce
    then have "grown ?d (sb_fs sb) fs1"
      by (rule io_cases) (use c in \<open>auto simp: p path dest: create_dir_all_grows [rotated]\<close>)
    then have g: "grown p (sb_fs sb) fs1"
      by (rule grown_longer) (simp add: p path)
    have "sb' = sb\<lparr>sb_fs := fs1\<rparr> \<and> (r = Inr p \<or> \<not> is_ok r)"
      using r m rest
      by (cases r1; cases "rest = []")
         (auto simp: resolve_path_def path False a d andthen_def on_fs_def Let_def ret_def p)
    with g show ?thesis by blast
  qed
qed

lemma sandbox_write_cases:
  assumes loc: "sandbox_loc hr sb path = Some p" and c: "clean p" and w: "sandbox_write flt hr path x sb = (sb', r)"
  shows "\<exists>fs1 fs'. grown p (sb_fs sb) fs1 \<and> sb' = sb\<lparr>sb_fs := fs'\<rparr> \<and>
    ((\<not> is_ok r \<and> fs' = fs1) \<or> dir_write_at flt (sandbox_dir hr) p x fs1 = (fs', r))"
proof -
  obtain sb1 r1 where res: "resolve_path flt hr path sb = (sb1, r1)" by fastforce
  from resolve_path_spec [OF loc c res] obtain fs1 where
    1: "sb1 = sb\<lparr>sb_fs := fs1\<rparr>" "grown p (sb_fs sb) fs1" "r1 = Inr p \<or> \<not> is_ok r1" by blast
  have "path \<noteq> []" using loc by (auto simp: sandbox_loc_def)
  note np = this
  show ?thesis
  proof (cases r1)
    case (Inl e)
    with w res 1 np have "sb' = sb\<lparr>sb_fs := fs1\<rparr>" "r = Inl e" by (auto simp: sandbox_write_def andthen_def)
    with 1(2) show ?thesis by (intro exI [of _ fs1]) simp
  next
    case (Inr q)
    with w res 1 np show ?thesis by (auto simp: sandbox_write_def andthen_def on_fs_eq)
  qed
qed

lemma sandbox_patch_cases:
  assumes loc: "sandbox_loc hr sb path = Some p" and c: "clean p" and w: "sandbox_patch flt hr path x sb = (sb', r)"
  shows "\<exists>fs1 fs'. grown p (sb_fs sb) fs1 \<and> sb' = sb\<lparr>sb_fs := fs'\<rparr> \<and>
    ((\<not> is_ok r \<and> fs' = fs1) \<or>
     (if last path = ''log'' then log_append_at flt hr p x fs1 = (fs', r)
      else dir_write_at flt (sandbox_dir hr) p x fs1 = (fs', r)))"
proof (cases "last path = ''log''")
  case False
  with w sandbox_write_cases [OF loc c, of flt x sb' r] show ?thesis by (simp add: sandbox_patch_def)
next
  case True
  obtain sb1 r1 where res: "resolve_path flt hr path sb = (sb1, r1)" by fastforce
  from resolve_path_spec [OF loc c res] obtain fs1 where
    1: "sb1 = sb\<lparr>sb_fs := fs1\<rparr>" "grown p (sb_fs sb) fs1" "r1 = Inr p \<or> \<not> is_ok r1" by blast
  have "path \<noteq> []" using loc by (auto simp: sandbox_loc_def)
  note np = this
  show ?thesis
  proof (cases r1)
    case (Inl e)
    with True w res 1 np have "sb' = sb\<lparr>sb_fs := fs1\<rparr>" "r = Inl e" by (auto simp: sandbox_patch_def andthen_def)
    with 1(2) show ?thesis by (intro exI [of _ fs1]) simp
  next
    case (Inr q)
    with True w res 1 np show ?thesis by (auto simp: sandbox_patch_def andthen_def on_fs_eq)
  qed
qed

lemma sandbox_loc_last: "sandbox_loc hr sb path = Some p \<Longrightarrow> last p = last path \<and> p \<noteq> []"
  by (auto simp: sandbox_loc_def split: list.splits if_splits bind_splits)

text \<open>What a patch does to the text of a file: a \<open>log\<close> grows, others are replaced.\<close>

definition patch_eff :: "fpath \<Rightarrow> faults \<times> string \<times> bool \<Rightarrow> string \<Rightarrow> string \<Rightarrow> bool" where
  "patch_eff p w old new = (if last p = ''log'' then \<exists>y. log_adds w y \<and> new = old @ y else overwrites old w new)"

lemma chain_pieces:
  "chain (\<lambda>w old new. \<exists>y. A w y \<and> new = old @ y) xs v v' \<Longrightarrow> \<exists>ys. list_all2 A xs ys \<and> v' = v @ concat ys"
proof (induction xs arbitrary: v)
  case (Cons x xs)
  then obtain y where y: "A x y" "chain (\<lambda>w old new. \<exists>y. A w y \<and> new = old @ y) xs (v @ y) v'" by auto
  from Cons.IH [OF y(2)] obtain ys where "list_all2 A xs ys" "v' = v @ y @ concat ys" by auto
  with y(1) show ?case by (intro exI [of _ "y # ys"]) simp
qed simp

lemma those_here:
  "[(flt, w, b). (flt, k, w, b) \<leftarrow> os, P k] = map (\<lambda>(flt, k, w, b). (flt, w, b)) (filter (\<lambda>(flt, k, w, b). P k) os)"
  by (induction os) auto

lemma log_append_same:
  assumes p: "clean p" "p \<noteq> []" and a: "log_append_at flt hr p x fs = (fs', r)" and f: "file_at p fs v"
  shows "\<exists>y. log_adds (flt, x, is_ok r) y \<and> file_at p fs' (v @ y)"
  using p a
proof (rule log_append_spec)
  fix fs1 assume "grown (butlast p) fs fs1" "fs' = fs1" "\<not> is_ok r"
  with file_at_grown [OF _ f] show ?thesis by (intro exI [of _ "[]"]) (auto simp: log_adds_def intro: exI [of _ 0])
next
  fix fs1 y assume *: "grown (butlast p) fs fs1" "fs' = fs1(p \<mapsto> File (content_of p fs1 @ y))"
    "dirs_to fs1 (butlast p)" "log_adds (flt, x, is_ok r) y"
  have "content_of p fs1 = v" using file_at_grown [OF *(1) f] by (simp add: file_at_def content_of_def)
  with * file_at_write [OF p(2) *(3)] show ?thesis by auto
qed

lemma sandbox_patch_same:
  assumes loc: "sandbox_loc hr sb path = Some p" and c: "clean p"
    and w: "sandbox_patch flt hr path x sb = (sb', r)" and f: "file_at p (sb_fs sb) v"
  shows "\<exists>v'. patch_eff p (flt, x, is_ok r) v v' \<and> file_at p (sb_fs sb') v'"
proof -
  note lp = sandbox_loc_last [OF loc]
  from sandbox_patch_cases [OF loc c w] obtain fs1 fs' where
    g: "grown p (sb_fs sb) fs1" and sb': "sb' = sb\<lparr>sb_fs := fs'\<rparr>"
    and m: "(\<not> is_ok r \<and> fs' = fs1) \<or>
       (if last path = ''log'' then log_append_at flt hr p x fs1 = (fs', r)
        else dir_write_at flt (sandbox_dir hr) p x fs1 = (fs', r))" by auto
  have f1: "file_at p fs1 v" using file_at_grown [OF g f] .
  from m consider "\<not> is_ok r" "fs' = fs1" | "last p = ''log''" "log_append_at flt hr p x fs1 = (fs', r)"
    | "last p \<noteq> ''log''" "dir_write_at flt (sandbox_dir hr) p x fs1 = (fs', r)" using lp by (auto split: if_splits)
  then show ?thesis
  proof cases
    case 1
    then have "patch_eff p (flt, x, is_ok r) v v"
      by (auto simp: patch_eff_def log_adds_def overwrites_def intro: exI [of _ 0])
    with 1 f1 show ?thesis by (auto simp: sb')
  next
    case 2
    from log_append_same [OF c conjunct2 [OF lp] 2(2) f1] 2(1) show ?thesis by (auto simp: patch_eff_def sb')
  next
    case 3
    from dir_write_at_same [OF c conjunct2 [OF lp] 3(2) f1] 3(1) show ?thesis by (auto simp: patch_eff_def sb')
  qed
qed

lemma sandbox_patch_other:
  assumes loc: "sandbox_loc hr sb path = Some p" and c: "clean p"
    and w: "sandbox_patch flt hr path x sb = (sb', r)" and f: "file_at q (sb_fs sb) v" and ne: "q \<noteq> p"
  shows "file_at q (sb_fs sb') v"
proof -
  note lp = sandbox_loc_last [OF loc]
  from sandbox_patch_cases [OF loc c w] obtain fs1 fs' where
    g: "grown p (sb_fs sb) fs1" and sb': "sb' = sb\<lparr>sb_fs := fs'\<rparr>"
    and m: "(\<not> is_ok r \<and> fs' = fs1) \<or>
       (if last path = ''log'' then log_append_at flt hr p x fs1 = (fs', r)
        else dir_write_at flt (sandbox_dir hr) p x fs1 = (fs', r))" by auto
  have f1: "file_at q fs1 v" using file_at_grown [OF g f] .
  from m consider "fs' = fs1" | "log_append_at flt hr p x fs1 = (fs', r)"
    | "dir_write_at flt (sandbox_dir hr) p x fs1 = (fs', r)" by (auto split: if_splits)
  then have "file_at q fs' v"
  proof cases
    case 1
    with f1 show ?thesis by simp
  next
    case 2
    from c conjunct2 [OF lp] 2 show ?thesis
      by (rule log_append_spec) (use file_at_grown [OF _ f1] file_at_update [OF _ ne] in blast)+
  next
    case 3
    from dir_write_at_frame [OF c conjunct2 [OF lp] 3 f1 ne] show ?thesis .
  qed
  then show ?thesis by (simp add: sb')
qed

text \<open>The files of the sandbox as registers, for given containers and tasks.\<close>

definition patch_fs ::
  "fpath \<Rightarrow> sandbox \<Rightarrow> faults \<Rightarrow> string list \<Rightarrow> string \<Rightarrow> (tree, unit) vfs_step" where
  "patch_fs hr sb flt path x fs =
     (case sandbox_patch flt hr path x (sb\<lparr>sb_fs := fs\<rparr>) of (sb', r) \<Rightarrow> (sb_fs sb', r))"

interpretation sandbox_files: registers "patch_fs hr sb"
  "\<lambda>path. \<exists>p. sandbox_loc hr sb path = Some p \<and> clean p" "\<lambda>path. the (sandbox_loc hr sb path)"
  patch_eff file_at for hr sb
proof (unfold_locales, goal_cases)
  case (1 k s v f w s' r)
  then obtain p where p: "sandbox_loc hr sb k = Some p" "clean p" by blast
  then have loc: "sandbox_loc hr (sb\<lparr>sb_fs := s\<rparr>) k = Some p" by simp
  from 1 obtain sb' where "sandbox_patch f hr k w (sb\<lparr>sb_fs := s\<rparr>) = (sb', r)" "sb_fs sb' = s'"
    by (auto simp: patch_fs_def split: prod.splits)
  with sandbox_patch_same [OF loc p(2) this(1), of v] 1 p show ?case by simp
next
  case (2 k k' s v f w s' r)
  then obtain p where p: "sandbox_loc hr sb k' = Some p" "clean p" by blast
  then have loc: "sandbox_loc hr (sb\<lparr>sb_fs := s\<rparr>) k' = Some p" by simp
  from 2 obtain sb' where "sandbox_patch f hr k' w (sb\<lparr>sb_fs := s\<rparr>) = (sb', r)" "sb_fs sb' = s'"
    by (auto simp: patch_fs_def split: prod.splits)
  with sandbox_patch_other [OF loc p(2) this(1)] 2 p show ?case by auto
qed

subsection \<open>Translated commands\<close>

lemma replace_all_colon_free: "CHR '':'' \<in> set p \<Longrightarrow> CHR '':'' \<notin> set s \<Longrightarrow> replace_all p r s = s"
proof (induction s)
  case (Cons c s)
  have "\<not> starts_with (c # s) p"
  proof
    assume "starts_with (c # s) p"
    then obtain q where "c # s = p @ q" by (auto simp: starts_with_iff)
    then have "set p \<subseteq> set (c # s)" by simp
    with Cons.prems show False by auto
  qed
  with Cons show ?case by (simp add: replace_all_miss)
qed simp

lemma not_logos:
  assumes "CHR '':'' \<notin> set a" "a \<noteq> []"
  shows "\<not> starts_with (a @ ''logos:'' @ b) (''logos:'' @ p)"
proof
  assume "starts_with (a @ ''logos:'' @ b) (''logos:'' @ p)"
  then obtain r where r: "a @ ''logos:'' @ b = ''logos:'' @ p @ r" by (auto simp: starts_with_iff)
  have "length a \<ge> 6 \<or> length a < 6" by auto
  then show False
  proof
    assume "length a \<ge> 6"
    then have "take 6 a = ''logos:''" using arg_cong [OF r, of "take 6"] by simp
    then have "CHR '':'' \<in> set (take 6 a)" by simp
    with assms(1) show False by (auto dest: in_set_takeD)
  next
    assume "length a < 6"
    with assms(2) r show False
      by (auto simp: less_Suc_eq numeral_eq_Suc length_Suc_conv)
  qed
qed

lemma replace_all_uri:
  assumes "CHR '':'' \<notin> set a"
  shows "replace_all (''logos:'' @ p) r (a @ (''logos:'' @ p) @ b) = a @ r @ replace_all (''logos:'' @ p) r b"
  using assms
proof (induction a)
  case Nil
  show ?case by (simp only: append_Nil) (rule replace_all_hit, simp)
next
  case (Cons c a)
  have "\<not> starts_with ((c # a) @ ''logos:'' @ p @ b) (''logos:'' @ p)"
    by (rule not_logos) (use Cons.prems in auto)
  with Cons show ?case by (simp add: replace_all_miss)
qed

lemma replace_all_other_uri:
  assumes "CHR '':'' \<notin> set a" "CHR '':'' \<notin> set b" "\<not> starts_with (''logos:'' @ b) (''logos:'' @ p)"
  shows "replace_all (''logos:'' @ p) r (a @ ''logos:'' @ b) = a @ ''logos:'' @ b"
  using assms(1)
proof (induction a)
  case Nil
  have "replace_all (''logos:'' @ p) r (CHR ''l'' # ''ogos:'' @ b) = CHR ''l'' # replace_all (''logos:'' @ p) r (''ogos:'' @ b)"
    by (rule replace_all_miss) (use assms(3) in simp)
  moreover have "replace_all (''logos:'' @ p) r (''ogos:'' @ b) = ''ogos:'' @ replace_all (''logos:'' @ p) r b"
    by (simp add: replace_all_miss starts_with_def)
  ultimately show ?case using assms(2) by (simp add: replace_all_colon_free)
next
  case (Cons c a)
  have "\<not> starts_with ((c # a) @ ''logos:'' @ b) (''logos:'' @ p)"
    by (rule not_logos) (use Cons.prems in auto)
  with Cons show ?case by (simp add: replace_all_miss)
qed

lemma translate_command_eq:
  "translate_command hr t cmd = translate_service_uris hr
     (replace_all (''logos://sandbox/'' @ t) (''/workspace/'' @ t)
       (replace_all (''logos://sandbox/'' @ t @ ''/'') (''/workspace/'' @ t @ ''/'') cmd))"
  by (simp add: translate_command_def CONTAINER_WORKDIR_def)

lemma translate_services_none: "CHR '':'' \<notin> set s \<Longrightarrow> translate_service_uris hr s = s"
  by (simp add: translate_service_uris_def replace_all_colon_free)

subsection \<open>Containers of the host executor\<close>

definition host_containers :: "fpath \<Rightarrow> sandbox \<Rightarrow> bool" where
  "host_containers hr sb \<longleftrightarrow>
     (\<forall>a info. sb_containers sb a = Some info \<longrightarrow>
        info = \<lparr>ci_container_id = ''host-'' @ a, ci_host_path = path_join hr a\<rparr>)"

lemma on_fs_host: "host_containers hr sb \<Longrightarrow> on_fs m sb = (sb', r) \<Longrightarrow> host_containers hr sb'"
  by (auto simp: on_fs_eq host_containers_def)

lemma ensure_container_host:
  assumes I: "host_containers hr sb" and e: "ensure_container (host_executor flt sh hr) hr a sb = (sb', r)"
  shows "host_containers hr sb'"
    and "r = Inr info \<Longrightarrow> info = \<lparr>ci_container_id = ''host-'' @ a, ci_host_path = path_join hr a\<rparr>"
proof -
  have "host_containers hr sb' \<and> (\<forall>info. r = Inr info \<longrightarrow>
      info = \<lparr>ci_container_id = ''host-'' @ a, ci_host_path = path_join hr a\<rparr>)"
  proof (cases "sb_containers sb a")
    case (Some info)
    with I e show ?thesis by (auto simp: ensure_container_def host_containers_def)
  next
    case None
    let ?x = "path_exists (path_join hr ''logos.sock'') (sb_fs sb)"
    obtain fs1 r1 where m: "host_ensure flt hr a ?x (sb_fs sb) = (fs1, r1)" by fastforce
    then have i: "r1 = Inr info \<Longrightarrow> info = \<lparr>ci_container_id = ''host-'' @ a, ci_host_path = path_join hr a\<rparr>" for info
      by (auto simp: host_ensure_def Let_def andthen_def ret_def split: prod.splits sum.splits)
    show ?thesis
      using e None m I i
      by (cases r1)
         (auto simp: ensure_container_def host_executor_def Let_def andthen_def on_fs_def modify_def ret_def
            host_containers_def split: if_splits)
  qed
  then show "host_containers hr sb'"
    and "r = Inr info \<Longrightarrow> info = \<lparr>ci_container_id = ''host-'' @ a, ci_host_path = path_join hr a\<rparr>" by auto
qed

lemma host_cwd_task:
  assumes "clean [agent, task_id]"
  shows "host_cwd hr (''host-'' @ agent) (CONTAINER_WORKDIR @ ''/'' @ task_id) = hr @ [agent, task_id]"
proof -
  have "task_id \<noteq> []" using assms by (auto simp: seg_ok_def)
  moreover have "path_join p w = p @ [w]" if "clean [w]" for p w
    using path_join_clean [of "[w]" p] that by simp
  moreover have "strip_prefix ''host-'' (''host-'' @ agent) = Some agent" by (rule strip_prefix_append)
  moreover have "strip_prefix CONTAINER_WORKDIR (CONTAINER_WORKDIR @ ''/'' @ task_id) = Some (''/'' @ task_id)"
    by (rule strip_prefix_append)
  ultimately show ?thesis using assms by (simp add: host_cwd_def)
qed

section \<open>Properties\<close>

text \<open>
  C33: The log of a task only grows: after any sequence of patches of files in the sandbox, by
  paths without dot segments and with any failures, a file named \<open>log\<close> holds what it held before
  and then one piece for each patch of it, in order: the whole text for an acknowledged one,
  followed by a line feed unless writing that failed, which the caller does not learn of; and a
  beginning of the text, possibly none, for a patch that was refused.\<close>

theorem sandbox_log_lines:
  assumes "\<forall>(flt, path, w) \<in> set ws. \<exists>p. sandbox_loc hr sb path = Some p \<and> clean p"
    and "put_all (patch_fs hr sb) ws fs = (fs', outs)"
    and "sandbox_loc hr sb path = Some p" "clean p" and "last path = ''log''" and "file_at p fs v"
  shows "\<exists>pieces. file_at p fs' (v @ concat pieces) \<and>
    list_all2 (\<lambda>(flt, k, w, ok) y.
        if ok then y = w @ (if flt [''newline''] = None then [CHR 0x0A] else []) else (\<exists>n. y = take n w))
      (filter (\<lambda>(flt, k, w, ok). sandbox_loc hr sb k = Some p) outs) pieces"
proof -
  have log: "last p = ''log''" using sandbox_loc_last [OF assms(3)] assms(5) by simp
  let ?here = "\<lambda>(flt, k, w, ok). the (sandbox_loc hr sb k) = p"
  from sandbox_files.put_all_holds [of hr sb path, OF _ _ _ assms(2)] assms obtain v' where
    ch: "chain (patch_eff p) [(flt, w, b). (flt, k, w, b) \<leftarrow> outs, the (sandbox_loc hr sb k) = p] v v'"
    and v': "file_at p fs' v'" by auto
  from ch have "chain (\<lambda>w old new. \<exists>y. log_adds w y \<and> new = old @ y) (map (\<lambda>(flt, k, w, b). (flt, w, b)) (filter ?here outs)) v v'"
    by (simp add: patch_eff_def [abs_def] log those_here)
  from chain_pieces [OF this] obtain ys where ys: "v' = v @ concat ys"
    "list_all2 log_adds (map (\<lambda>(flt, k, w, b). (flt, w, b)) (filter ?here outs)) ys" by blast
  have "\<forall>(flt, k, w, ok) \<in> set outs. sandbox_loc hr sb k \<noteq> None"
    using put_all_outs [OF assms(2)] assms(1) by fastforce
  then have "filter ?here outs = filter (\<lambda>(flt, k, w, ok). sandbox_loc hr sb k = Some p) outs"
    by (intro filter_cong) auto
  with ys v' show ?thesis
    by (intro exI [of _ ys]) (auto simp: list_all2_map1 log_adds_def elim!: list_all2_mono)
qed

definition demo_sandbox :: sandbox where
  "demo_sandbox =
     \<lparr>sb_fs = [[] \<mapsto> Dir, [''a1''] \<mapsto> Dir, [''a1'', ''t1''] \<mapsto> Dir, [''a1'', ''t1'', ''log''] \<mapsto> File ''x''],
      sb_containers = [''a1'' \<mapsto> \<lparr>ci_container_id = ''host-a1'', ci_host_path = [''a1'']\<rparr>],
      sb_task_agent = [''t1'' \<mapsto> ''a1'']\<rparr>"

theorem sandbox_log_lines_witness:
  "\<exists>fs' outs pieces. put_all (patch_fs [] demo_sandbox)
       [([[''append'', ''data''] \<mapsto> ''full'', [''append'', ''data'', ''written''] \<mapsto> ''x''], [''t1'', ''log''], ''lost''),
        (no_faults, [''t1'', ''log''], ''done'')] (sb_fs demo_sandbox) = (fs', outs) \<and>
     file_at [''a1'', ''t1'', ''log''] fs' (''x'' @ concat pieces) \<and>
     list_all2 (\<lambda>(flt, k, w, ok) y.
        if ok then y = w @ (if flt [''newline''] = None then [CHR 0x0A] else []) else (\<exists>n. y = take n w))
      (filter (\<lambda>(flt, k, w, ok). sandbox_loc [] demo_sandbox k = Some [''a1'', ''t1'', ''log'']) outs) pieces"
proof -
  let ?ws = "[([[''append'', ''data''] \<mapsto> ''full'', [''append'', ''data'', ''written''] \<mapsto> ''x''], [''t1'', ''log''], ''lost''),
        (no_faults, [''t1'', ''log''], ''done'')]"
  obtain fs' outs where run: "put_all (patch_fs [] demo_sandbox) ?ws (sb_fs demo_sandbox) = (fs', outs)"
    by fastforce
  have loc: "sandbox_loc [] demo_sandbox [''t1'', ''log''] = Some [''a1'', ''t1'', ''log'']"
    by (simp add: sandbox_loc_def demo_sandbox_def)
  have p: "clean [''a1'', ''t1'', ''log'']" by (simp add: seg_ok_def)
  have "file_at [''a1'', ''t1'', ''log''] (sb_fs demo_sandbox) ''x''"
    by (simp add: file_at_def dirs_to_def all_le_Suc demo_sandbox_def)
  from sandbox_log_lines [OF _ run loc p _ this] loc p show ?thesis
    by (intro exI [of _ fs'] exI [of _ outs]) (simp add: run del: put_all.simps)
qed

text \<open>
  C34: Writes and patches of a task's files by paths without dot segments stay in the directory
  the task has in its agent's container, whatever fails on the way: no other node of the tree changes, except that missing
  directories on the way to it are made; containers and owners of tasks never change.\<close>

theorem sandbox_confined:
  assumes "sandbox_loc hr sb (task_id # rest) = Some p" "clean p"
    and "sandbox_write flt hr (task_id # rest) x sb = (sb', r) \<or> sandbox_patch flt hr (task_id # rest) x sb = (sb', r)"
  shows "sb_containers sb' = sb_containers sb \<and> sb_task_agent sb' = sb_task_agent sb \<and>
    (\<forall>q. sb_fs sb' q \<noteq> sb_fs sb q \<longrightarrow>
       q = p \<or> (sb_fs sb q = None \<and> sb_fs sb' q = Some Dir \<and> (\<exists>n \<le> length p. q = take n p)))"
proof -
  have p: "p \<noteq> []" using sandbox_loc_last [OF assms(1)] by simp
  obtain fs1 fs' where g: "grown p (sb_fs sb) fs1" and sb': "sb' = sb\<lparr>sb_fs := fs'\<rparr>"
    and m: "fs' = fs1 \<or> log_append_at flt hr p x fs1 = (fs', r) \<or> dir_write_at flt (sandbox_dir hr) p x fs1 = (fs', r)"
    using assms(3) sandbox_write_cases [OF assms(1,2), of flt x sb' r] sandbox_patch_cases [OF assms(1,2), of flt x sb' r]
    by (auto split: if_splits)
  obtain fs2 where g2: "grown p fs1 fs2" and fs': "fs' = fs2 \<or> (\<exists>y. fs' = fs2(p \<mapsto> y))"
    using m
  proof (elim disjE)
    assume "fs' = fs1"
    then show thesis by (intro that [of fs1]) auto
  next
    assume "log_append_at flt hr p x fs1 = (fs', r)"
    with assms(2) p show thesis by (rule log_append_spec) (auto intro: that grown_butlast)
  next
    assume "dir_write_at flt (sandbox_dir hr) p x fs1 = (fs', r)"
    with assms(2) p show thesis by (rule dir_write_at_spec) (auto intro: that grown_butlast)
  qed
  from grown_trans [OF g g2] have "grown p (sb_fs sb) fs2" .
  with fs' show ?thesis by (auto simp: sb' grown_def)
qed

theorem sandbox_confined_witness:
  "sb_fs (fst (sandbox_patch no_faults [] [''t1'', ''log''] ''done'' demo_sandbox)) [''a1'', ''t2''] = None"
proof -
  obtain sb' r where run: "sandbox_patch no_faults [] [''t1'', ''log''] ''done'' demo_sandbox = (sb', r)" by fastforce
  have loc: "sandbox_loc [] demo_sandbox [''t1'', ''log''] = Some [''a1'', ''t1'', ''log'']"
    by (simp add: sandbox_loc_def demo_sandbox_def)
  have p: "clean [''a1'', ''t1'', ''log'']" by (simp add: seg_ok_def)
  have "\<forall>n \<le> length [''a1'', ''t1'', ''log'']. [''a1'', ''t2''] \<noteq> take n [''a1'', ''t1'', ''log'']"
    by (simp add: all_le_Suc)
  moreover have "sb_fs demo_sandbox [''a1'', ''t2''] = None" by (simp add: demo_sandbox_def)
  moreover note sandbox_confined [OF loc p disjI2 [OF run], THEN conjunct2, THEN conjunct2, rule_format, of "[''a1'', ''t2'']"]
  ultimately have "sb_fs sb' [''a1'', ''t2''] = None" by (metis list.inject not_Cons_self2)
  with run show ?thesis by simp
qed

text \<open>A path of one task that leaves its directory by \<open>..\<close> is the path of another.\<close>

lemma sandbox_write_dots:
  assumes "t \<noteq> ''__system__''" and "sb_task_agent sb t = Some a" "sb_containers sb a = Some info"
    and d: "clean (ci_host_path info @ [t])" "dirs_to (sb_fs sb) (ci_host_path info @ [t])"
    and rest: "clean rest" "rest \<noteq> []" "dirs_to (sb_fs sb) (ci_host_path info @ butlast rest)"
      "sb_fs sb (ci_host_path info @ rest) \<noteq> Some Dir"
  shows "sandbox_write no_faults hr (t # ''..'' # rest) x sb =
    (sb\<lparr>sb_fs := (sb_fs sb)(ci_host_path info @ rest \<mapsto> File x)\<rparr>, Inr ())"
proof -
  let ?hp = "ci_host_path info"
  have t: "path_join ?hp t = ?hp @ [t]" using d(1) path_join_clean [of "[t]" ?hp] by simp
  have mk: "create_dir_all (?hp @ [t]) (sb_fs sb) = (sb_fs sb, Inr ())" by (rule create_dir_all_there [OF d])
  have "resolve_path no_faults hr (t # ''..'' # rest) sb = (sb, Inr (?hp @ t # ''..'' # rest))"
    using assms(1-3) path_join_dots [OF rest(1), of "?hp @ [t]"]
    by (simp add: resolve_path_def t on_fs_def io_def no_faults_def mk andthen_def ret_def)
  with dir_write_dots [OF d rest(1,2,3,4)] show ?thesis
    by (simp add: sandbox_write_def andthen_def on_fs_def)
qed

text \<open>
  A command names the task's own files by URI and the shell sees their path in the
  container: one such URI in a command without other colons becomes the path below
  \<open>/workspace/{task}\<close>, and the rest of the command is left as it is.\<close>

theorem own_uri_translated:
  assumes "CHR '':'' \<notin> set a" "CHR '':'' \<notin> set b" "CHR '':'' \<notin> set task_id"
  shows "translate_command host_root task_id (a @ ''logos://sandbox/'' @ task_id @ ''/'' @ b) =
    a @ ''/workspace/'' @ task_id @ ''/'' @ b"
proof -
  let ?out = "a @ ''/workspace/'' @ task_id @ ''/'' @ b"
  have out: "CHR '':'' \<notin> set ?out" using assms by simp
  have "replace_all (''logos://sandbox/'' @ task_id @ ''/'') (''/workspace/'' @ task_id @ ''/'')
      (a @ ''logos://sandbox/'' @ task_id @ ''/'' @ b) = ?out"
    using replace_all_uri [OF assms(1), of "''//sandbox/'' @ task_id @ ''/''" "''/workspace/'' @ task_id @ ''/''" b] assms(2)
    by (simp add: replace_all_colon_free)
  moreover have "replace_all (''logos://sandbox/'' @ task_id) (''/workspace/'' @ task_id) ?out = ?out"
    using out by (intro replace_all_colon_free) simp_all
  ultimately show ?thesis
    by (simp only: translate_command_eq translate_services_none [OF out])
qed

theorem own_uri_translated_witness:
  "translate_command [''srv''] ''t1'' ''cat logos://sandbox/t1/a'' = ''cat /workspace/t1/a''"
  using own_uri_translated [of "''cat ''" "''a''" "''t1''" "[''srv'']"] by simp

text \<open>
  The second replacement has no slash at its end: in a command of task \<open>t\<close> the URI of any
  task whose id continues \<open>t\<close> becomes that task's path in the shared container, where the
  command can reach it.\<close>

theorem longer_task_translated:
  assumes "CHR '':'' \<notin> set a" "CHR '':'' \<notin> set b" "CHR '':'' \<notin> set task_id"
    and "b = [] \<or> hd b \<noteq> CHR ''/''"
  shows "translate_command host_root task_id (a @ ''logos://sandbox/'' @ task_id @ b) = a @ ''/workspace/'' @ task_id @ b"
proof -
  let ?cmd = "a @ ''logos://sandbox/'' @ task_id @ b" and ?out = "a @ ''/workspace/'' @ task_id @ b"
  have out: "CHR '':'' \<notin> set ?out" using assms by simp
  have n: "\<not> starts_with (''logos:'' @ ''//sandbox/'' @ task_id @ b) (''logos:'' @ ''//sandbox/'' @ task_id @ ''/'')"
    using assms(4) by (cases b) (auto simp: starts_with_iff)
  have "replace_all (''logos://sandbox/'' @ task_id @ ''/'') (''/workspace/'' @ task_id @ ''/'') ?cmd = ?cmd"
    using replace_all_other_uri [OF assms(1) _ n, of "''/workspace/'' @ task_id @ ''/''"] assms(2,3) by simp
  moreover have "replace_all (''logos://sandbox/'' @ task_id) (''/workspace/'' @ task_id) ?cmd = ?out"
    using replace_all_uri [OF assms(1), of "''//sandbox/'' @ task_id" "''/workspace/'' @ task_id" b] assms(2)
    by (simp add: replace_all_colon_free)
  ultimately show ?thesis
    by (simp only: translate_command_eq translate_services_none [OF out])
qed

theorem longer_task_translated_witness:
  "translate_command [''srv''] ''t1'' ''rm logos://sandbox/t10/a'' = ''rm /workspace/t10/a''"
  using longer_task_translated [of "''rm ''" "''0/a''" "''t1''" "[''srv'']"] by simp

text \<open>
  With the host executor a command that is run at all runs in the directory of its own task
  in its own agent's workspace, on the translated text; the workspaces are those of the agents'
  ids in every state the operations reach.\<close>

theorem host_exec_dir:
  assumes "host_containers hr sb" and "clean [agent, task_id]"
    and "sandbox_exec (host_executor flt sh hr) flt' hr command agent task_id sb = (sb', r)"
  shows "host_containers hr sb' \<and>
    (\<forall>out. r = Inr out \<longrightarrow> (\<exists>fs1. sh (hr @ [agent, task_id]) (translate_command hr task_id command) fs1 = (sb_fs sb', Inr out)))"
proof -
  let ?ex = "host_executor flt sh hr"
  obtain sb1 r1 where e: "ensure_container ?ex hr agent sb = (sb1, r1)" by fastforce
  note ec = ensure_container_host [OF assms(1) e]
  show ?thesis
  proof (cases r1)
    case (Inl x)
    with assms(3) e ec(1) show ?thesis by (auto simp: sandbox_exec_def andthen_def)
  next
    case (Inr info)
    note i = ec(2) [OF Inr]
    let ?mk = "on_fs (io flt' ''task dir'' (io_err (''create task dir '' @ task_id)) (create_dir_all (path_join (ci_host_path info) task_id)))"
    obtain sb2 r2 where mk: "?mk sb1 = (sb2, r2)" by fastforce
    have I2: "host_containers hr sb2"
      by (rule on_fs_host [OF ec(1) mk])
    show ?thesis
    proof (cases r2)
      case (Inl x)
      with assms(3) e Inr mk I2 show ?thesis by (auto simp: sandbox_exec_def andthen_def)
    next
      case (Inr u)
      with assms(3) e \<open>r1 = Inr info\<close> mk have x: "on_fs (ex_exec ?ex (ci_container_id info) (translate_command hr task_id command)
         (CONTAINER_WORKDIR @ ''/'' @ task_id)) sb2 = (sb', r)"
        by (simp add: sandbox_exec_def andthen_def)
      from on_fs_host [OF I2 x] have "host_containers hr sb'" .
      moreover have "\<exists>fs1. sh (hr @ [agent, task_id]) (translate_command hr task_id command) fs1 = (sb_fs sb', Inr out)"
        if "r = Inr out" for out
        using x that host_cwd_task [OF assms(2), of hr]
        by (auto simp: on_fs_eq host_executor_def host_exec_def i Let_def andthen_def split: prod.splits sum.splits)
      ultimately show ?thesis by blast
    qed
  qed
qed

definition demo_shell :: shell where
  "demo_shell cwd command fs = (fs, Inr \<lparr>er_stdout = path_display cwd, er_stderr = [], er_exit_code = 0\<rparr>)"

theorem host_exec_dir_witness:
  "host_containers [] (fst (sandbox_exec (host_executor no_faults demo_shell []) no_faults [] ''pwd'' ''a1'' ''t1'' demo_sandbox))"
proof -
  obtain sb' r where run: "sandbox_exec (host_executor no_faults demo_shell []) no_faults [] ''pwd'' ''a1'' ''t1'' demo_sandbox = (sb', r)"
    by fastforce
  have "host_containers [] demo_sandbox" "clean [''a1'', ''t1'']"
    by (simp_all add: host_containers_def demo_sandbox_def seg_ok_def path_join_def starts_with_def uri_segments_def)
  from host_exec_dir [OF this run] run show ?thesis by simp
qed

end
