(* ===== verification/Logos_Tasks.thy ===== *)
theory Logos_Tasks
  imports Logos_Sql Logos_Json
begin

text \<open>
  The task table of \<open>logos-system/src/tasks.rs\<close>: its row, its statements and the methods
  of \<open>TaskDb\<close>. The database state also holds the anchor table (next theory), which shares the
  pool, and the two full-text indexes.
\<close>

section \<open>State\<close>

record task_row =
  tk_rowid :: nat
  tk_task_id :: string
  tk_description :: string
  tk_workspace :: string
  tk_resource :: string
  tk_status :: string
  tk_chat_id :: string
  tk_trigger :: string
  tk_plan_todo :: string
  tk_plan_parent :: string
  tk_created_at :: string
  tk_updated_at :: string

record anchor_row =
  an_rowid :: nat
  an_id :: string
  an_task_id :: string
  an_summary :: string
  an_facts :: string
  an_created_at :: string

record 'f sys_db =
  sd_tasks :: "task_row list"
  sd_anchors :: "anchor_row list"
  sd_tasks_fts :: 'f
  sd_anchors_fts :: 'f

record ('f, 't) sys_lib =
  sl_codec :: codec
  sl_fts :: "'f fts"
  sl_chrono :: "'t chrono"
  sl_scan_tasks :: "task_row list \<Rightarrow> task_row list"
  sl_scan_anchors :: "anchor_row list \<Rightarrow> anchor_row list"

definition now_str :: "('f, 't) sys_lib \<Rightarrow> 't world \<Rightarrow> string" where
  "now_str L w = fmt_secs (sl_chrono L) (w_clk w [''now''])"

section \<open>Statements on the table\<close>

definition task_lookup :: "string \<Rightarrow> 'f sys_db \<Rightarrow> task_row option" where
  "task_lookup tid db = find (\<lambda>r. tk_task_id r = tid) (sd_tasks db)"

definition insert_task_row :: "task_row \<Rightarrow> ('f sys_db, string, unit) step" where
  "insert_task_row r db =
     (if task_lookup (tk_task_id r) db \<noteq> None then (db, Inl (unique_failed ''tasks.task_id''))
      else (db\<lparr>sd_tasks := sd_tasks db @ [r\<lparr>tk_rowid := next_rowid (map tk_rowid (sd_tasks db))\<rparr>]\<rparr>,
            Inr ()))"

definition update_task :: "string \<Rightarrow> (task_row \<Rightarrow> task_row) \<Rightarrow> ('f sys_db, string, unit) step" where
  "update_task tid f = modify (\<lambda>db. db\<lparr>sd_tasks :=
     map (\<lambda>r. if tk_task_id r = tid then f r else r) (sd_tasks db)\<rparr>)"

definition delete_task :: "string \<Rightarrow> ('f sys_db, string, unit) step" where
  "delete_task tid = modify (\<lambda>db. db\<lparr>sd_tasks := filter (\<lambda>r. tk_task_id r \<noteq> tid) (sd_tasks db)\<rparr>)"

text \<open>\<open>INSERT INTO tasks_fts(rowid, description) SELECT rowid, description FROM tasks WHERE task_id = ?\<close>
  and \<open>DELETE FROM tasks_fts WHERE rowid = (SELECT rowid FROM tasks WHERE task_id = ?)\<close>.\<close>

definition insert_task_fts :: "'f fts \<Rightarrow> string \<Rightarrow> ('f sys_db, string, unit) step" where
  "insert_task_fts F tid db =
     (case task_lookup tid db of
        None \<Rightarrow> (db, Inr ())
      | Some r \<Rightarrow>
          (case fts_insert F (tk_rowid r) [tk_description r] (sd_tasks_fts db) of
             Inl e \<Rightarrow> (db, Inl e)
           | Inr i \<Rightarrow> (db\<lparr>sd_tasks_fts := i\<rparr>, Inr ())))"

definition delete_task_fts :: "'f fts \<Rightarrow> string \<Rightarrow> ('f sys_db, string, unit) step" where
  "delete_task_fts F tid db =
     (case task_lookup tid db of
        None \<Rightarrow> (db, Inr ())
      | Some r \<Rightarrow>
          (case fts_delete F (tk_rowid r) [tk_description r] (sd_tasks_fts db) of
             Inl e \<Rightarrow> (db, Inl e)
           | Inr i \<Rightarrow> (db\<lparr>sd_tasks_fts := i\<rparr>, Inr ())))"

section \<open>TaskDb\<close>

text \<open>RFC 002, section 4.3.\<close>

definition VALID_TRANSITIONS :: "(string \<times> string) list" where
  "VALID_TRANSITIONS =
     [(''pending'', ''active''), (''active'', ''finished''), (''active'', ''sleep''), (''sleep'', ''active'')]"

definition task_row_to_json :: "codec \<Rightarrow> task_row \<Rightarrow> json" where
  "task_row_to_json c r = jobj
     [(''task_id'', JStr (tk_task_id r)), (''description'', JStr (tk_description r)),
      (''workspace'', JStr (tk_workspace r)), (''resource'', JStr (tk_resource r)),
      (''status'', JStr (tk_status r)), (''chat_id'', JStr (tk_chat_id r)),
      (''trigger'', JStr (tk_trigger r)),
      (''plan_todo'', unwrap_or (from_str c (tk_plan_todo r)) (JArr [])),
      (''plan_parent'', JStr (tk_plan_parent r)), (''created_at'', JStr (tk_created_at r)),
      (''updated_at'', JStr (tk_updated_at r))]"

definition opt_eq :: "string \<Rightarrow> string option \<Rightarrow> bool" where
  "opt_eq x c = (case c of None \<Rightarrow> True | Some y \<Rightarrow> x = y)"

definition task_list_rows ::
  "('f, 't) sys_lib \<Rightarrow> string option \<Rightarrow> string option \<Rightarrow> 'f sys_db \<Rightarrow> task_row list" where
  "task_list_rows L chat_id status db =
     order_desc tk_created_at (filter (\<lambda>r. tk_status r \<noteq> ''pending'' \<and>
       opt_eq (tk_chat_id r) chat_id \<and> opt_eq (tk_status r) status)
       (sl_scan_tasks L (sd_tasks db)))"

definition task_list ::
  "('f, 't) sys_lib \<Rightarrow> 't world \<Rightarrow> string option \<Rightarrow> string option \<Rightarrow> ('f sys_db, string) vfs_step" where
  "task_list L w chat_id status =
     andthen (sql w ''list tasks'' [] (query (task_list_rows L chat_id status))) (\<lambda>rows.
     ret (to_str (sl_codec L)
       (jobj [(''tasks'', JArr (map (task_row_to_json (sl_codec L)) rows))])))"

definition task_get ::
  "('f, 't) sys_lib \<Rightarrow> 't world \<Rightarrow> string \<Rightarrow> ('f sys_db, string option) vfs_step" where
  "task_get L w task_id =
     andthen (sql w ''get task'' [] (query (task_lookup task_id))) (\<lambda>row.
     ret (map_option (\<lambda>r. to_str (sl_codec L) (task_row_to_json (sl_codec L) r)) row))"

definition new_task_row :: "json \<Rightarrow> string \<Rightarrow> task_row" where
  "new_task_row val now =
     \<lparr>tk_rowid = 0, tk_task_id = str_field val ''task_id'' [],
      tk_description = str_field val ''description'' [],
      tk_workspace = str_field val ''workspace'' [], tk_resource = str_field val ''resource'' [],
      tk_status = ''pending'', tk_chat_id = str_field val ''chat_id'' [],
      tk_trigger = str_field val ''trigger'' ''user_message'', tk_plan_todo = ''[]'',
      tk_plan_parent = str_field val ''plan_parent'' [], tk_created_at = now, tk_updated_at = now\<rparr>"

definition task_create ::
  "('f, 't) sys_lib \<Rightarrow> 't world \<Rightarrow> string \<Rightarrow> ('f sys_db, unit) vfs_step" where
  "task_create L w content =
     andthen (lift_result (map_err InvalidJson (from_str (sl_codec L) content))) (\<lambda>val.
     andthen (sql w ''insert task'' ''insert task: ''
       (insert_task_row (new_task_row val (now_str L w)))) (\<lambda>_.
     if str_field val ''description'' [] \<noteq> [] then
       ignore_errors (sql w ''insert fts'' [] (insert_task_fts (sl_fts L) (str_field val ''task_id'' [])))
     else ret ()))"

definition task_delete :: "'t world \<Rightarrow> string \<Rightarrow> ('f sys_db, unit) vfs_step" where
  "task_delete w task_id = sql w ''delete task'' ''delete task: '' (delete_task task_id)"

definition update_description ::
  "('f, 't) sys_lib \<Rightarrow> 't world \<Rightarrow> string \<Rightarrow> string \<Rightarrow> ('f sys_db, unit) vfs_step" where
  "update_description L w task_id description =
     andthen (sql w ''update description'' ''update description: '' (update_task task_id
       (\<lambda>r. r\<lparr>tk_description := description, tk_updated_at := now_str L w\<rparr>))) (\<lambda>_.
     andthen (ignore_errors (sql w ''delete fts'' [] (delete_task_fts (sl_fts L) task_id))) (\<lambda>_.
     ignore_errors (sql w ''insert fts'' [] (insert_task_fts (sl_fts L) task_id))))"

definition set_plan_todo ::
  "('f, 't) sys_lib \<Rightarrow> 't world \<Rightarrow> string \<Rightarrow> string \<Rightarrow> ('f sys_db, unit) vfs_step" where
  "set_plan_todo L w task_id todo_json =
     sql w ''set plan_todo'' ''set plan_todo: '' (update_task task_id
       (\<lambda>r. r\<lparr>tk_plan_todo := todo_json, tk_updated_at := now_str L w\<rparr>))"

definition list_plan_pending ::
  "('f, 't) sys_lib \<Rightarrow> 't world \<Rightarrow> ('f sys_db, (string \<times> string) list) vfs_step" where
  "list_plan_pending L w =
     andthen (sql w ''list plan pending'' ''list plan pending: ''
       (query (\<lambda>db. filter (\<lambda>r. tk_status r = ''sleep'' \<and> tk_plan_todo r \<noteq> ''[]'')
          (sl_scan_tasks L (sd_tasks db))))) (\<lambda>rows.
     ret (map (\<lambda>r. (tk_task_id r, tk_plan_todo r)) rows))"

text \<open>\<open>serde_json::from_str::<Vec<String>>\<close>, \<open>::<Vec<Value>>\<close>, and \<open>to_string\<close> of a \<open>Vec<String>\<close>.\<close>

fun json_strings :: "json list \<Rightarrow> string list option" where
  "json_strings [] = Some []"
| "json_strings (JStr s # xs) = map_option (Cons s) (json_strings xs)"
| "json_strings _ = None"

definition parse_strings :: "codec \<Rightarrow> string \<Rightarrow> string list option" where
  "parse_strings c s =
     (case from_str c s of Inr (JArr xs) \<Rightarrow> json_strings xs | _ \<Rightarrow> None)"

definition parse_values :: "codec \<Rightarrow> string \<Rightarrow> json list option" where
  "parse_values c s = (case from_str c s of Inr (JArr xs) \<Rightarrow> Some xs | _ \<Rightarrow> None)"

definition print_strings :: "codec \<Rightarrow> string list \<Rightarrow> string" where
  "print_strings c xs = to_str c (JArr (map JStr xs))"

definition pop_plan_head ::
  "('f, 't) sys_lib \<Rightarrow> 't world \<Rightarrow> string \<Rightarrow> ('f sys_db, string option) vfs_step" where
  "pop_plan_head L w task_id =
     andthen (sql w ''get plan_todo'' ''get plan_todo: '' (query (task_lookup task_id))) (\<lambda>row.
     case row of
       None \<Rightarrow> ret None
     | Some r \<Rightarrow>
         (case opt_or (parse_strings (sl_codec L) (tk_plan_todo r)) [] of
            [] \<Rightarrow> ret None
          | head # todo \<Rightarrow>
              andthen (sql w ''pop plan head'' ''pop plan head: '' (update_task task_id
                (\<lambda>r. r\<lparr>tk_plan_todo := print_strings (sl_codec L) todo,
                       tk_updated_at := now_str L w\<rparr>))) (\<lambda>_.
              ret (Some head))))"

definition arrow :: string where
  "arrow = '' '' @ [CHR 0xE2, CHR 0x86, CHR 0x92] @ '' ''"

definition fetch_status :: "string \<Rightarrow> ('f sys_db, string, string) step" where
  "fetch_status task_id db =
     (db, ok_or (map_option tk_status (task_lookup task_id db)) row_not_found)"

definition transition_status ::
  "('f, 't) sys_lib \<Rightarrow> 't world \<Rightarrow> string \<Rightarrow> string \<Rightarrow> ('f sys_db, unit) vfs_step" where
  "transition_status L w task_id new_status =
     andthen (sql w ''get task status'' ''get task status: '' (fetch_status task_id)) (\<lambda>current.
     if (current, new_status) \<notin> set VALID_TRANSITIONS
     then fail (InvalidPath (''invalid transition: '' @ current @ arrow @ new_status))
     else sql w ''transition status'' ''transition status: '' (update_task task_id
       (\<lambda>r. r\<lparr>tk_status := new_status, tk_updated_at := now_str L w\<rparr>)))"

section \<open>Invariant and evolution of the table\<close>

definition tasks_ok :: "'f sys_db \<Rightarrow> bool" where
  "tasks_ok db \<longleftrightarrow>
     distinct (map tk_task_id (sd_tasks db)) \<and> sorted_wrt (<) (map tk_rowid (sd_tasks db)) \<and>
     (\<forall>r \<in> set (sd_tasks db). tk_status r \<in> {''pending'', ''active'', ''finished'', ''sleep''})"

definition moves :: "(string \<times> string) set" where
  "moves = (set VALID_TRANSITIONS)\<^sup>*"

text \<open>What may become of one task: its identity and origin stay, its status follows the arrows.\<close>

definition task_evolves :: "task_row \<Rightarrow> task_row \<Rightarrow> bool" where
  "task_evolves r r' \<longleftrightarrow>
     (tk_status r, tk_status r') \<in> moves \<and>
     r' = r\<lparr>tk_status := tk_status r', tk_description := tk_description r',
            tk_plan_todo := tk_plan_todo r', tk_updated_at := tk_updated_at r'\<rparr>"

definition evolves :: "string set \<Rightarrow> 'f sys_db \<Rightarrow> 'f sys_db \<Rightarrow> bool" where
  "evolves X db db' \<longleftrightarrow>
     (\<forall>r \<in> set (sd_tasks db). tk_task_id r \<notin> X \<longrightarrow> (\<exists>r' \<in> set (sd_tasks db'). task_evolves r r'))"

text \<open>The invariant of a run from \<open>s0\<close> that discards only tasks of \<open>X\<close>.\<close>

definition task_inv :: "string set \<Rightarrow> 'f sys_db \<Rightarrow> 'f sys_db \<Rightarrow> bool" where
  "task_inv X s0 s \<longleftrightarrow> tasks_ok s \<and> evolves X s0 s"

lemma task_evolves_refl [simp]: "task_evolves r r"
  by (simp add: task_evolves_def moves_def)

lemma task_evolves_trans: "task_evolves r r' \<Longrightarrow> task_evolves r' r'' \<Longrightarrow> task_evolves r r''"
  unfolding task_evolves_def moves_def by (cases r; cases r'; cases r'') (auto intro: rtrancl_trans)

lemma task_evolves_id: "task_evolves r r' \<Longrightarrow> tk_task_id r' = tk_task_id r"
  unfolding task_evolves_def by (cases r; cases r') auto

lemma task_evolves_rowid: "task_evolves r r' \<Longrightarrow> tk_rowid r' = tk_rowid r"
  unfolding task_evolves_def by (cases r; cases r') auto

lemma evolves_refl [simp]: "evolves X s s"
  unfolding evolves_def using task_evolves_refl by blast

lemma evolves_trans: "evolves X s s' \<Longrightarrow> evolves X s' s'' \<Longrightarrow> evolves X s s''"
  unfolding evolves_def by (metis task_evolves_id task_evolves_trans)

lemma evolves_mono: "evolves X s s' \<Longrightarrow> X \<subseteq> Y \<Longrightarrow> evolves Y s s'"
  by (auto simp: evolves_def)

lemma task_inv_start: "tasks_ok s \<Longrightarrow> task_inv X s s"
  by (simp add: task_inv_def)

lemma finished_stays: "(''finished'', x) \<in> moves \<Longrightarrow> x = ''finished''"
  unfolding moves_def
  by (induction rule: rtrancl_induct) (auto simp: VALID_TRANSITIONS_def)

lemma task_lookup_Some: "task_lookup tid db = Some r \<Longrightarrow> r \<in> set (sd_tasks db) \<and> tk_task_id r = tid"
  by (auto simp: task_lookup_def find_Some_iff)

lemma task_lookup_None: "task_lookup tid db = None \<longleftrightarrow> (\<forall>r \<in> set (sd_tasks db). tk_task_id r \<noteq> tid)"
  by (auto simp: task_lookup_def find_None_iff)

lemma task_lookup_iff:
  "tasks_ok db \<Longrightarrow> task_lookup tid db = Some r \<longleftrightarrow> r \<in> set (sd_tasks db) \<and> tk_task_id r = tid"
  by (metis distinct_map inj_onD option.exhaust task_lookup_None task_lookup_Some tasks_ok_def)

lemma find_map_id:
  "(\<And>r. f (g r) = f r) \<Longrightarrow> find (\<lambda>r. f r = k) (map g rs) = map_option g (find (\<lambda>r. f r = k) rs)"
  by (induction rs) auto

lemma task_lookup_update:
  "(\<And>r. tk_task_id (f r) = tk_task_id r) \<Longrightarrow>
   task_lookup t (fst (update_task tid f db)) =
     (if t = tid then map_option f (task_lookup t db) else task_lookup t db)"
proof -
  assume f: "\<And>r. tk_task_id (f r) = tk_task_id r"
  let ?g = "\<lambda>r. if tk_task_id r = tid then f r else r"
  have "task_lookup t (fst (update_task tid f db)) = map_option ?g (task_lookup t db)"
    using find_map_id [where f = tk_task_id and g = ?g] f
    by (simp add: task_lookup_def update_task_def modify_def)
  then show ?thesis by (cases "task_lookup t db") (auto dest: task_lookup_Some)
qed

lemma update_task_Inr: "snd (update_task tid f db) = Inr ()"
  by (simp add: update_task_def modify_def)

lemma keeps_insert_task_row [keeps_intros]:
  assumes "tk_status r = ''pending''"
  shows "keeps (task_inv X s0) (insert_task_row r)"
proof (rule keepsI)
  fix s assume "task_inv X s0 s"
  moreover have "evolves X s (fst (insert_task_row r s))"
    by (auto simp: evolves_def insert_task_row_def intro: task_evolves_refl)
  moreover have "tasks_ok (fst (insert_task_row r s))" if "tasks_ok s"
    using that assms
    by (auto simp: tasks_ok_def insert_task_row_def task_lookup_None sorted_wrt_append
          intro: less_next_rowid)
  ultimately show "task_inv X s0 (fst (insert_task_row r s))"
    by (auto simp: task_inv_def intro: evolves_trans)
qed

lemma task_inv_update:
  assumes "task_inv X s0 s"
    and "\<And>r. task_lookup tid s = Some r \<Longrightarrow> task_evolves r (f r) \<and>
           tk_status (f r) \<in> {''pending'', ''active'', ''finished'', ''sleep''}"
  shows "task_inv X s0 (fst (update_task tid f s))"
proof -
  have ok: "tasks_ok s" using assms(1) by (simp add: task_inv_def)
  define g where "g r = (if tk_task_id r = tid then f r else r)" for r
  have s': "sd_tasks (fst (update_task tid f s)) = map g (sd_tasks s)"
    by (simp add: update_task_def modify_def g_def)
  have g: "task_evolves r (g r)" "tk_status (g r) \<in> {''pending'', ''active'', ''finished'', ''sleep''}"
    if "r \<in> set (sd_tasks s)" for r
    using that ok assms(2) by (auto simp: task_lookup_iff tasks_ok_def g_def)
  have ids: "map tk_task_id (map g (sd_tasks s)) = map tk_task_id (sd_tasks s)"
    "map tk_rowid (map g (sd_tasks s)) = map tk_rowid (sd_tasks s)"
    using g(1) by (auto simp: task_evolves_id task_evolves_rowid)
  have "tasks_ok (fst (update_task tid f s))"
    using ok g(2) unfolding tasks_ok_def s' ids by auto
  moreover have "evolves X s (fst (update_task tid f s))"
    using g(1) unfolding evolves_def s' by auto
  ultimately show ?thesis
    using assms(1) by (auto simp: task_inv_def intro: evolves_trans)
qed

lemma keeps_update_task:
  "(\<And>r. task_evolves r (f r) \<and> tk_status (f r) = tk_status r) \<Longrightarrow> keeps (task_inv X s0) (update_task tid f)"
  by (rule keepsI, rule task_inv_update)
     (auto simp: task_inv_def tasks_ok_def dest!: task_lookup_Some)

lemma keeps_delete_task:
  assumes "tid \<in> X"
  shows "keeps (task_inv X s0) (delete_task tid)"
proof (rule keepsI)
  fix s assume "task_inv X s0 s"
  moreover have "evolves X s (fst (delete_task tid s))"
    using assms by (auto simp: evolves_def delete_task_def modify_def)
  moreover have "tasks_ok (fst (delete_task tid s))" if "tasks_ok s"
    using that
    by (simp add: tasks_ok_def delete_task_def modify_def distinct_map_filter sorted_wrt_map
        sorted_wrt_filter)
  ultimately show "task_inv X s0 (fst (delete_task tid s))"
    by (auto simp: task_inv_def intro: evolves_trans)
qed

lemma task_inv_frame [simp]:
  "task_inv X s0 (s\<lparr>sd_tasks_fts := i\<rparr>) = task_inv X s0 s"
  "task_inv X s0 (s\<lparr>sd_anchors_fts := i\<rparr>) = task_inv X s0 s"
  "task_inv X s0 (s\<lparr>sd_anchors := as\<rparr>) = task_inv X s0 s"
  by (simp_all add: task_inv_def tasks_ok_def evolves_def)

lemma keeps_task_fts [keeps_intros]:
  "keeps (task_inv X s0) (insert_task_fts F tid)" "keeps (task_inv X s0) (delete_task_fts F tid)"
  by (auto simp: keeps_def insert_task_fts_def delete_task_fts_def split: option.splits sum.splits)

lemma keeps_task_create [keeps_intros]: "keeps (task_inv X s0) (task_create L w content)"
  unfolding task_create_def by (intro keeps_intros) (simp add: new_task_row_def)

lemma keeps_task_delete [keeps_intros]: "tid \<in> X \<Longrightarrow> keeps (task_inv X s0) (task_delete w tid)"
  unfolding task_delete_def by (intro keeps_intros keeps_delete_task)

lemma keeps_update_description [keeps_intros]:
  "keeps (task_inv X s0) (update_description L w tid d)"
  unfolding update_description_def
  by (intro keeps_intros keeps_update_task) (simp add: task_evolves_def moves_def)

lemma keeps_set_plan_todo [keeps_intros]: "keeps (task_inv X s0) (set_plan_todo L w tid j)"
  unfolding set_plan_todo_def
  by (intro keeps_intros keeps_update_task) (simp add: task_evolves_def moves_def)

lemma keeps_pop_plan_head [keeps_intros]: "keeps (task_inv X s0) (pop_plan_head L w tid)"
proof -
  have "keeps (task_inv X s0) (update_task tid (\<lambda>r. r\<lparr>tk_plan_todo := t, tk_updated_at := n\<rparr>))" for t n
    by (rule keeps_update_task) (simp add: task_evolves_def moves_def)
  then show ?thesis
    unfolding pop_plan_head_def
    by (auto intro!: keeps_andthen keeps_sql split: option.splits list.splits)
qed

lemma keeps_fetch_status [keeps_intros]: "keeps I (fetch_status tid)"
  by (simp add: keeps_def fetch_status_def)

lemma transition_status_cases:
  assumes "transition_status L w tid new db = (db', r)"
  obtains (moved) t where "task_lookup tid db = Some t" "(tk_status t, new) \<in> set VALID_TRANSITIONS"
      "r = Inr ()" "db' = fst (update_task tid (\<lambda>r. r\<lparr>tk_status := new, tk_updated_at := now_str L w\<rparr>) db)"
    | (refused) e where "r = Inl e" "db' = db"
proof (cases "w_flt w [''get task status''] = None \<and> task_lookup tid db \<noteq> None")
  case False
  then have "\<exists>e. (db', r) = (db, Inl e)"
    using assms
    by (cases "w_flt w [''get task status'']")
       (auto simp: transition_status_def sql_def fetch_status_def andthen_def)
  then show thesis using refused by blast
next
  case True
  then obtain t where t: "task_lookup tid db = Some t" and f: "w_flt w [''get task status''] = None" by auto
  let ?m = "update_task tid (\<lambda>r. r\<lparr>tk_status := new, tk_updated_at := now_str L w\<rparr>)"
  have eq: "(db', r) = (if (tk_status t, new) \<notin> set VALID_TRANSITIONS
      then (db, Inl (InvalidPath (''invalid transition: '' @ tk_status t @ arrow @ new)))
      else sql w ''transition status'' ''transition status: '' ?m db)"
    using assms t f
    by (auto simp: transition_status_def sql_def fetch_status_def step_defs if_distribR split: if_splits)
  show thesis
  proof (cases "(tk_status t, new) \<in> set VALID_TRANSITIONS")
    case valid: True
    then have "(db', r) = (case w_flt w [''transition status''] of
        Some e \<Rightarrow> (db, Inl (Sqlite (''transition status: '' @ e))) | None \<Rightarrow> (fst (?m db), Inr ()))"
      using eq by (simp add: sql_def update_task_def modify_def split: option.splits)
    then show thesis using moved [OF t valid] refused by (auto split: option.splits)
  qed (use eq refused in auto)
qed

lemma keeps_transition_status [keeps_intros]:
  "keeps (task_inv X s0) (transition_status L w tid new)"
proof (rule keepsI)
  fix s assume inv: "task_inv X s0 s"
  obtain s' r where eq: "transition_status L w tid new s = (s', r)" by fastforce
  then show "task_inv X s0 (fst (transition_status L w tid new s))"
  proof (cases rule: transition_status_cases)
    case (moved t)
    then have "task_evolves t (t\<lparr>tk_status := new, tk_updated_at := now_str L w\<rparr>)"
      by (simp add: task_evolves_def moves_def r_into_rtrancl)
    moreover from moved have "new \<in> {''pending'', ''active'', ''finished'', ''sleep''}"
      by (auto simp: VALID_TRANSITIONS_def)
    ultimately show ?thesis
      using eq moved task_inv_update [OF inv, of tid] by simp
  qed (simp add: eq inv)
qed

section \<open>The plan of a task as a queue\<close>

text \<open>Pop repeatedly, once per world, collecting what comes out.\<close>

fun drain :: "('w \<Rightarrow> 's \<Rightarrow> 's \<times> ('e + 'a option)) \<Rightarrow> 'w list \<Rightarrow> 's \<Rightarrow> 's \<times> ('e + 'a option) list" where
  "drain pop [] s = (s, [])"
| "drain pop (w # ws) s = (case pop w s of (s', r) \<Rightarrow> map_prod id (Cons r) (drain pop ws s'))"

lemma drain_append:
  "drain p (xs @ ys) s = (case drain p xs s of (s', rs) \<Rightarrow> map_prod id ((@) rs) (drain p ys s'))"
  by (induction xs arbitrary: s) (auto simp: map_prod_def split: prod.splits)

locale work_queue =
  fixes ok :: "'s \<Rightarrow> bool" and items :: "'s \<Rightarrow> 'a list" and fit :: "'w \<Rightarrow> bool"
    and pop :: "'w \<Rightarrow> 's \<Rightarrow> 's \<times> ('e + 'a option)"
  assumes pop_head: "ok s \<Longrightarrow> fit w \<Longrightarrow> items s = x # xs \<Longrightarrow>
      \<exists>s'. pop w s = (s', Inr (Some x)) \<and> ok s' \<and> items s' = xs"
    and pop_none: "ok s \<Longrightarrow> fit w \<Longrightarrow> items s = [] \<Longrightarrow> pop w s = (s, Inr None)"
begin

lemma drain_none: "ok s \<Longrightarrow> items s = [] \<Longrightarrow> \<forall>w \<in> set ws. fit w \<Longrightarrow>
    drain pop ws s = (s, replicate (length ws) (Inr None))"
  by (induction ws) (auto simp: pop_none)

lemma drain_all:
  "ok s \<Longrightarrow> \<forall>w \<in> set ws. fit w \<Longrightarrow> length ws = length (items s) \<Longrightarrow>
   \<exists>s'. drain pop ws s = (s', map (\<lambda>x. Inr (Some x)) (items s)) \<and> ok s' \<and> items s' = []"
proof (induction ws arbitrary: s)
  case (Cons w ws)
  then obtain x xs where x: "items s = x # xs" by (cases "items s") auto
  with pop_head [of s w x xs] Cons.prems
  obtain s' where s': "pop w s = (s', Inr (Some x))" "ok s'" "items s' = xs" by auto
  with Cons.IH [of s'] Cons.prems x show ?case by auto
qed auto

end

definition plan_of :: "codec \<Rightarrow> string \<Rightarrow> 'f sys_db \<Rightarrow> string list" where
  "plan_of c tid db =
     (case task_lookup tid db of None \<Rightarrow> [] | Some r \<Rightarrow> opt_or (parse_strings c (tk_plan_todo r)) [])"

lemma json_strings_map [simp]: "json_strings (map JStr xs) = Some xs"
  by (induction xs) auto

lemma parse_print_strings [simp]: "codec_ok c \<Longrightarrow> parse_strings c (print_strings c xs) = Some xs"
  by (simp add: parse_strings_def print_strings_def codec_okD(1))

lemma plan_of_update:
  "codec_ok c \<Longrightarrow> task_lookup tid db \<noteq> None \<Longrightarrow>
   plan_of c tid (fst (update_task tid (\<lambda>r. r\<lparr>tk_plan_todo := print_strings c xs, tk_updated_at := n\<rparr>) db)) = xs"
  by (auto simp: plan_of_def task_lookup_update)

interpretation plan: work_queue
  "\<lambda>db. codec_ok (sl_codec L) \<and> task_lookup tid db \<noteq> None" "plan_of (sl_codec L) tid" calm
  "\<lambda>w. pop_plan_head L w tid"
  for L :: "('f, 't) sys_lib" and tid
proof
  fix db :: "'f sys_db" and w :: "'t world" and x :: string and xs
  assume a: "codec_ok (sl_codec L) \<and> task_lookup tid db \<noteq> None" "calm w"
    "plan_of (sl_codec L) tid db = x # xs"
  let ?m = "update_task tid (\<lambda>r. r\<lparr>tk_plan_todo := print_strings (sl_codec L) xs, tk_updated_at := now_str L w\<rparr>)"
  have "pop_plan_head L w tid db = (fst (?m db), Inr (Some x))"
    using a by (auto simp: pop_plan_head_def plan_of_def sql_calm step_defs update_task_def)
  moreover have "task_lookup tid (fst (?m db)) \<noteq> None"
    using a by (simp add: task_lookup_update)
  ultimately show "\<exists>s'. pop_plan_head L w tid db = (s', Inr (Some x)) \<and>
      (codec_ok (sl_codec L) \<and> task_lookup tid s' \<noteq> None) \<and> plan_of (sl_codec L) tid s' = xs"
    using a plan_of_update by blast
next
  fix db :: "'f sys_db" and w :: "'t world"
  assume "codec_ok (sl_codec L) \<and> task_lookup tid db \<noteq> None" "calm w"
    "plan_of (sl_codec L) tid db = []"
  then show "pop_plan_head L w tid db = (db, Inr None)"
    by (auto simp: pop_plan_head_def plan_of_def sql_calm step_defs)
qed

section \<open>Properties\<close>

text \<open>A library for the witnesses: an index that keeps the rows it is given and matches substrings.\<close>

definition list_fts :: "(nat \<times> string list) list fts" where
  "list_fts =
     \<lparr>fts_insert = (\<lambda>i ts idx. Inr (idx @ [(i, ts)])),
      fts_delete = (\<lambda>i ts idx. Inr (filter (\<lambda>e. fst e \<noteq> i) idx)),
      fts_match = (\<lambda>q idx. case fts_phrase (tl q) of
          Some (w, []) \<Rightarrow> Inr (map fst (filter (\<lambda>e. \<exists>t \<in> set (snd e). contains_sub t w) idx))
        | _ \<Rightarrow> Inl ''fts5: syntax error'')\<rparr>"

definition demo_chrono :: "nat chrono" where
  "demo_chrono = \<lparr>fmt_secs = nat_str, fmt_minute = (\<lambda>t. nat_str (t div 60)),
     fmt_hour = (\<lambda>t. nat_str (t div 3600)), fmt_compact = nat_str\<rparr>"

definition demo_lib :: "((nat \<times> string list) list, nat) sys_lib" where
  "demo_lib = \<lparr>sl_codec = note_codec, sl_fts = list_fts, sl_chrono = demo_chrono,
     sl_scan_tasks = (\<lambda>rs. rs), sl_scan_anchors = (\<lambda>rs. rs)\<rparr>"

lemma demo_lib_simps [simp]:
  "sl_codec demo_lib = note_codec" "sl_fts demo_lib = list_fts" "sl_chrono demo_lib = demo_chrono"
  "sl_scan_tasks demo_lib = (\<lambda>rs. rs)" "sl_scan_anchors demo_lib = (\<lambda>rs. rs)"
  by (simp_all add: demo_lib_def)

lemma to_str_note [simp]: "to_str note_codec = notate"
  by (simp add: note_codec_def)

definition demo_task :: "string \<Rightarrow> string \<Rightarrow> task_row" where
  "demo_task tid status =
     \<lparr>tk_rowid = 1, tk_task_id = tid, tk_description = ''d'', tk_workspace = [], tk_resource = [],
      tk_status = status, tk_chat_id = ''c'', tk_trigger = ''user_message'', tk_plan_todo = ''[]'',
      tk_plan_parent = [], tk_created_at = ''1'', tk_updated_at = ''1''\<rparr>"

definition demo_db :: "task_row list \<Rightarrow> (nat \<times> string list) list sys_db" where
  "demo_db ts = \<lparr>sd_tasks = ts, sd_anchors = [], sd_tasks_fts = [], sd_anchors_fts = []\<rparr>"

text \<open>
  The status machine, on every branch: an unknown task is the driver's error, a move
  that is not in the table is refused with the two statuses named, and both leave the database
  as it was; a move of the table sets the status and the time of the task and nothing else.
\<close>

theorem transition_status_spec:
  assumes "calm w"
  shows "transition_status L w tid new db =
    (case task_lookup tid db of
       None \<Rightarrow> (db, Inl (Sqlite (''get task status: '' @ row_not_found)))
     | Some t \<Rightarrow>
         if (tk_status t, new) \<in> {(''pending'', ''active''), (''active'', ''finished''),
              (''active'', ''sleep''), (''sleep'', ''active'')}
         then (db\<lparr>sd_tasks := map (\<lambda>r. if tk_task_id r = tid
                 then r\<lparr>tk_status := new, tk_updated_at := now_str L w\<rparr> else r) (sd_tasks db)\<rparr>, Inr ())
         else (db, Inl (InvalidPath (''invalid transition: '' @ tk_status t @ arrow @ new))))"
  using assms
  by (auto simp: transition_status_def sql_calm fetch_status_def step_defs update_task_def
        VALID_TRANSITIONS_def if_distribR split: option.splits)

theorem transition_status_spec_witness:
  "transition_status demo_lib (still 61) ''t'' ''sleep'' (demo_db [demo_task ''t'' ''pending'']) =
     (demo_db [demo_task ''t'' ''pending''],
      Inl (InvalidPath (''invalid transition: pending'' @ arrow @ ''sleep'')))"
  by (subst transition_status_spec) (simp_all add: demo_db_def demo_task_def task_lookup_def)

text \<open>
  C22: The plan of a task is a queue: after \<open>set_plan_todo\<close> with a list of descriptions,
  popping as often as the list is long yields exactly the list in order, and from then on pops
  yield nothing.
\<close>

theorem plan_todo_queue:
  fixes L :: "('f, 't) sys_lib" and db :: "'f sys_db"
  assumes "codec_ok (sl_codec L)" and "calm w" and "task_lookup tid db \<noteq> None"
    and "\<forall>v \<in> set ws. calm v" and "length ws = length todo" and "\<forall>v \<in> set us. calm v"
    and "set_plan_todo L w tid (print_strings (sl_codec L) todo) db = (db1, r)"
  shows "r = Inr () \<and>
    snd (drain (\<lambda>v. pop_plan_head L v tid) (ws @ us) db1)
      = map (\<lambda>d. Inr (Some d)) todo @ replicate (length us) (Inr None)"
proof -
  have db1: "db1 = fst (update_task tid (\<lambda>r. r\<lparr>tk_plan_todo := print_strings (sl_codec L) todo,
      tk_updated_at := now_str L w\<rparr>) db)" and r: "r = Inr ()"
    using assms(2,7) by (auto simp: set_plan_todo_def sql_calm update_task_def modify_def)
  have ok: "codec_ok (sl_codec L) \<and> task_lookup tid db1 \<noteq> None"
    using assms(1,3) by (simp add: db1 task_lookup_update)
  have items: "plan_of (sl_codec L) tid db1 = todo"
    using assms(1,3) unfolding db1 by (rule plan_of_update)
  obtain db2 where db2: "drain (\<lambda>v. pop_plan_head L v tid) ws db1 = (db2, map (\<lambda>x. Inr (Some x)) todo)"
      "codec_ok (sl_codec L) \<and> task_lookup tid db2 \<noteq> None" "plan_of (sl_codec L) tid db2 = []"
    using plan.drain_all [OF ok assms(4)] assms(5) items by auto
  show ?thesis
    using r db2(1) plan.drain_none [OF db2(2,3) assms(6)] by (simp add: drain_append)
qed

theorem plan_todo_queue_witness:
  "snd (drain (\<lambda>v. pop_plan_head demo_lib v ''p'') ([still 2, still 3] @ [still 4])
     (fst (set_plan_todo demo_lib (still 1) ''p'' (print_strings note_codec [''a'', ''b''])
        (demo_db [demo_task ''p'' ''active''])))) = [Inr (Some ''a''), Inr (Some ''b''), Inr None]"
  using plan_todo_queue [where L = demo_lib and w = "still 1" and tid = "''p''"
      and db = "demo_db [demo_task ''p'' ''active'']" and ws = "[still 2, still 3]" and us = "[still 4]"
      and todo = "[''a'', ''b'']", OF _ _ _ _ _ _ prod.collapse [symmetric]]
  by (simp add: note_codec_ok demo_db_def demo_task_def task_lookup_def)

text \<open>
  The task list never shows a pending task: it is the tasks that are not pending and
  match the given chat and status, each as often as the table has it, the latest created first.
\<close>

theorem task_list_spec:
  assumes "scans (sl_scan_tasks L)" and "calm w"
  shows "\<exists>rows. task_list L w chat_id status db =
      (db, Inr (to_str (sl_codec L) (jobj [(''tasks'', JArr (map (task_row_to_json (sl_codec L)) rows))]))) \<and>
    mset rows = filter_mset (\<lambda>r. tk_status r \<noteq> ''pending'' \<and>
      (\<forall>c. chat_id = Some c \<longrightarrow> tk_chat_id r = c) \<and> (\<forall>st. status = Some st \<longrightarrow> tk_status r = st))
      (mset (sd_tasks db)) \<and>
    sorted_wrt (\<ge>) (map tk_created_at rows)"
proof (intro exI conjI)
  show "task_list L w chat_id status db = (db, Inr (to_str (sl_codec L)
      (jobj [(''tasks'', JArr (map (task_row_to_json (sl_codec L)) (task_list_rows L chat_id status db)))])))"
    using assms(2) by (simp add: task_list_def sql_calm step_defs)
  show "sorted_wrt (\<ge>) (map tk_created_at (task_list_rows L chat_id status db))"
    unfolding task_list_rows_def by (rule sorted_order_desc)
  show "mset (task_list_rows L chat_id status db) = filter_mset (\<lambda>r. tk_status r \<noteq> ''pending'' \<and>
      (\<forall>c. chat_id = Some c \<longrightarrow> tk_chat_id r = c) \<and> (\<forall>st. status = Some st \<longrightarrow> tk_status r = st))
      (mset (sd_tasks db))"
    using assms(1) by (auto simp: task_list_rows_def scans_def opt_eq_def split: option.splits
        intro!: filter_mset_cong)
qed

theorem task_list_spec_witness:
  "\<exists>rows. task_list demo_lib (still 1) None None (demo_db [demo_task ''p'' ''pending'']) =
      (demo_db [demo_task ''p'' ''pending''],
       Inr (notate (jobj [(''tasks'', JArr (map (task_row_to_json note_codec) rows))]))) \<and> rows = []"
  using task_list_spec [of demo_lib "still 1" None None "demo_db [demo_task ''p'' ''pending'']"]
  by (simp add: scans_id demo_db_def demo_task_def)

end
