(* ===== verification/Logos_Anchors.thy ===== *)
theory Logos_Anchors
  imports Logos_Tasks
begin

text \<open>
  The anchor table (\<open>logos-system/src/anchors.rs\<close>) with its version chain, and the two-level
  search over anchors and tasks (\<open>logos-system/src/search.rs\<close>).
\<close>

section \<open>Statements on the table\<close>

definition anchor_lookup :: "string \<Rightarrow> string \<Rightarrow> 'f sys_db \<Rightarrow> anchor_row option" where
  "anchor_lookup tid aid db = find (\<lambda>a. (an_task_id a, an_id a) = (tid, aid)) (sd_anchors db)"

definition insert_anchor_row :: "anchor_row \<Rightarrow> ('f sys_db, string, unit) step" where
  "insert_anchor_row a db =
     (if anchor_lookup (an_task_id a) (an_id a) db \<noteq> None
      then (db, Inl (unique_failed ''anchors.task_id, anchors.id''))
      else (db\<lparr>sd_anchors := sd_anchors db @ [a\<lparr>an_rowid := next_rowid (map an_rowid (sd_anchors db))\<rparr>]\<rparr>,
            Inr ()))"

definition update_facts :: "string \<Rightarrow> string \<Rightarrow> string \<Rightarrow> ('f sys_db, string, unit) step" where
  "update_facts tid aid facts = modify (\<lambda>db. db\<lparr>sd_anchors :=
     map (\<lambda>a. if (an_task_id a, an_id a) = (tid, aid) then a\<lparr>an_facts := facts\<rparr> else a) (sd_anchors db)\<rparr>)"

definition fetch_anchor_rowid :: "string \<Rightarrow> string \<Rightarrow> ('f sys_db, string, nat) step" where
  "fetch_anchor_rowid tid aid db =
     (db, ok_or (map_option an_rowid (anchor_lookup tid aid db)) row_not_found)"

definition insert_anchor_fts :: "'f fts \<Rightarrow> nat \<Rightarrow> string list \<Rightarrow> ('f sys_db, string, unit) step" where
  "insert_anchor_fts F rowid texts db =
     (case fts_insert F rowid texts (sd_anchors_fts db) of
        Inl e \<Rightarrow> (db, Inl e)
      | Inr i \<Rightarrow> (db\<lparr>sd_anchors_fts := i\<rparr>, Inr ()))"

section \<open>AnchorDb\<close>

definition anchor_row_to_json :: "anchor_row \<Rightarrow> json" where
  "anchor_row_to_json a = jobj
     [(''id'', JStr (an_id a)), (''task_id'', JStr (an_task_id a)), (''summary'', JStr (an_summary a)),
      (''facts'', JStr (an_facts a)), (''created_at'', JStr (an_created_at a))]"

definition anchor_list ::
  "('f, 't) sys_lib \<Rightarrow> 't world \<Rightarrow> string \<Rightarrow> ('f sys_db, string) vfs_step" where
  "anchor_list L w task_id =
     andthen (sql w ''list anchors'' [] (query (\<lambda>db. order_asc an_created_at
       (filter (\<lambda>a. an_task_id a = task_id) (sl_scan_anchors L (sd_anchors db)))))) (\<lambda>rows.
     ret (to_str (sl_codec L) (JArr (map anchor_row_to_json rows))))"

definition anchor_get ::
  "('f, 't) sys_lib \<Rightarrow> 't world \<Rightarrow> string \<Rightarrow> string \<Rightarrow> ('f sys_db, string option) vfs_step" where
  "anchor_get L w task_id anchor_id =
     andthen (sql w ''get anchor'' [] (query (anchor_lookup task_id anchor_id))) (\<lambda>row.
     ret (map_option (\<lambda>a. to_str (sl_codec L) (anchor_row_to_json a)) row))"

text \<open>One fact marked: objects get the two entries, other values stay as they are.\<close>

fun supersede_fact :: "string \<Rightarrow> json \<Rightarrow> json" where
  "supersede_fact by_uri (JObj kvs) =
     JObj (obj_insert ''superseded_by'' (JStr by_uri) (obj_insert ''status'' (JStr ''superseded'') kvs))"
| "supersede_fact by_uri v = v"

definition mark_superseded ::
  "('f, 't) sys_lib \<Rightarrow> 't world \<Rightarrow> string \<Rightarrow> string \<Rightarrow> ('f sys_db, unit) vfs_step" where
  "mark_superseded L w target_uri superseded_by_uri =
     (let parts = split_on (CHR ''/'') target_uri in
      if length parts \<noteq> 6 \<or> parts ! 3 \<noteq> ''anchors''
      then fail (InvalidPath (''invalid anchor URI: '' @ target_uri))
      else
        andthen (sql w ''read anchor'' ''read anchor for supersede: ''
          (query (anchor_lookup (parts ! 4) (parts ! 5)))) (\<lambda>row.
        case row of
          None \<Rightarrow> ret ()
        | Some a \<Rightarrow>
            (let facts = opt_or (parse_values (sl_codec L) (an_facts a)) [];
                 updated = to_str (sl_codec L) (JArr (map (supersede_fact superseded_by_uri) facts))
             in sql w ''update superseded'' ''update superseded: ''
                  (update_facts (parts ! 4) (parts ! 5) updated))))"

text \<open>The anchors a list of facts names as superseded, in order.\<close>

definition fact_supersedes :: "json \<Rightarrow> string list" where
  "fact_supersedes v =
     (case v of
        JObj kvs \<Rightarrow>
          (case map_of kvs ''supersedes'' of
             None \<Rightarrow> []
           | Some u \<Rightarrow>
               (case as_array u of
                  Some xs \<Rightarrow> List.map_filter as_str xs
                | None \<Rightarrow> (case as_str u of Some x \<Rightarrow> [x] | None \<Rightarrow> [])))
      | _ \<Rightarrow> [])"

fun mark_all :: "('f, 't) sys_lib \<Rightarrow> 't world \<Rightarrow> string list \<Rightarrow> string \<Rightarrow> ('f sys_db, unit) vfs_step" where
  "mark_all L w [] by_uri = ret ()"
| "mark_all L w (uri # uris) by_uri =
     andthen (ignore_errors (mark_superseded L w uri by_uri)) (\<lambda>_.
     mark_all L (at_w ''next'' w) uris by_uri)"

definition anchor_uri :: "string \<Rightarrow> string \<Rightarrow> string" where
  "anchor_uri task_id anchor_id = ''logos://system/anchors/'' @ task_id @ ''/'' @ anchor_id"

definition anchor_create ::
  "('f, 't) sys_lib \<Rightarrow> 't world \<Rightarrow> string \<Rightarrow> string \<Rightarrow> string \<Rightarrow> ('f sys_db, string) vfs_step" where
  "anchor_create L w task_id summary facts =
     (let anchor_id = fmt_minute (sl_chrono L) (w_clk w [''id'']);
          now = fmt_secs (sl_chrono L) (w_clk w [''now'']);
          facts_arr = opt_or (parse_values (sl_codec L) facts) [] in
      andthen (mark_all L (at_w ''supersede'' w) (concat (map fact_supersedes facts_arr))
        (anchor_uri task_id anchor_id)) (\<lambda>_.
      andthen (sql w ''insert anchor'' ''insert anchor: '' (insert_anchor_row
        \<lparr>an_rowid = 0, an_id = anchor_id, an_task_id = task_id, an_summary = summary,
         an_facts = facts, an_created_at = now\<rparr>)) (\<lambda>_.
      andthen (sql w ''get anchor rowid'' ''get anchor rowid: '' (fetch_anchor_rowid task_id anchor_id)) (\<lambda>rowid.
      andthen (sql w ''sync anchors fts'' ''sync anchors fts: ''
        (insert_anchor_fts (sl_fts L) rowid [facts, summary])) (\<lambda>_.
      ret anchor_id)))))"

section \<open>Search\<close>

text \<open>\<open>FROM fts JOIN t ON t.rowid = f.rowid WHERE MATCH \<dots> ORDER BY rank LIMIT\<close>.\<close>

definition fts_join :: "'f fts \<Rightarrow> string \<Rightarrow> 'f \<Rightarrow> ('r \<Rightarrow> nat) \<Rightarrow> ('r \<Rightarrow> bool) \<Rightarrow> 'r list \<Rightarrow> int \<Rightarrow> string + 'r list" where
  "fts_join F q idx rowid P rows limit =
     (case fts_match F q idx of
        Inl e \<Rightarrow> Inl e
      | Inr ids \<Rightarrow>
          Inr (take (nat limit) (filter P (List.map_filter (\<lambda>i. find (\<lambda>r. rowid r = i) rows) ids))))"

definition l1_hit :: "anchor_row \<Rightarrow> json" where
  "l1_hit a = jobj
     [(''task_id'', JStr (an_task_id a)), (''anchor_id'', JStr (an_id a)),
      (''summary'', JStr (an_summary a)), (''facts'', JStr (an_facts a)),
      (''created_at'', JStr (an_created_at a))]"

definition l2_hit :: "task_row \<Rightarrow> json" where
  "l2_hit t = jobj
     [(''task_id'', JStr (tk_task_id t)), (''description'', JStr (tk_description t)),
      (''status'', JStr (tk_status t)), (''created_at'', JStr (tk_created_at t))]"

definition search_tasks ::
  "('f, 't) sys_lib \<Rightarrow> 't world \<Rightarrow> string \<Rightarrow> int \<Rightarrow> ('f sys_db, string) vfs_step" where
  "search_tasks L w query_text limit0 =
     (let limit = clamp 1 50 limit0; escaped = fts_escape query_text in
      andthen (sql w ''search anchors'' ''search anchors fts: '' (\<lambda>db. (db,
        fts_join (sl_fts L) escaped (sd_anchors_fts db) an_rowid (\<lambda>_. True) (sd_anchors db) limit))) (\<lambda>l1_rows.
      andthen (sql w ''search tasks'' ''search tasks fts: '' (\<lambda>db. (db,
        fts_join (sl_fts L) escaped (sd_tasks_fts db) tk_rowid (\<lambda>t. tk_status t \<noteq> ''pending'')
          (sd_tasks db) limit))) (\<lambda>l2_rows.
      ret (to_str (sl_codec L)
        (jobj [(''l1_hits'', JArr (map l1_hit l1_rows)), (''l2_hits'', JArr (map l2_hit l2_rows))])))))"

section \<open>Lemmas\<close>

lemma keeps_anchor_statements [keeps_intros]:
  "keeps (task_inv X s0) (insert_anchor_row a)" "keeps (task_inv X s0) (update_facts tid aid facts)"
  "keeps (task_inv X s0) (insert_anchor_fts F rowid texts)"
  "keeps I (fetch_anchor_rowid tid aid)"
  by (auto simp: keeps_def insert_anchor_row_def update_facts_def modify_def insert_anchor_fts_def
        fetch_anchor_rowid_def split: sum.splits)

lemma keeps_mark_superseded [keeps_intros]: "keeps (task_inv X s0) (mark_superseded L w target by_uri)"
  unfolding mark_superseded_def Let_def by (intro keeps_intros)

lemma keeps_mark_all [keeps_intros]: "keeps (task_inv X s0) (mark_all L w uris by_uri)"
  by (induction uris arbitrary: w) (auto intro!: keeps_intros)

lemma keeps_anchor_create [keeps_intros]: "keeps (task_inv X s0) (anchor_create L w tid summary facts)"
  unfolding anchor_create_def Let_def by (intro keeps_intros)

text \<open>What an operation on anchors leaves alone: the tasks, and their index.\<close>

definition same_tasks :: "'f sys_db \<Rightarrow> 'f sys_db \<Rightarrow> bool" where
  "same_tasks s0 s \<longleftrightarrow> sd_tasks s = sd_tasks s0 \<and> sd_tasks_fts s = sd_tasks_fts s0"

lemma keeps_same_tasks [keeps_intros]:
  "keeps (same_tasks s0) (insert_anchor_row a)" "keeps (same_tasks s0) (update_facts tid aid facts)"
  "keeps (same_tasks s0) (insert_anchor_fts F rowid texts)"
  by (auto simp: keeps_def same_tasks_def insert_anchor_row_def update_facts_def modify_def
        insert_anchor_fts_def split: sum.splits)

lemma keeps_same_tasks_mark_all [keeps_intros]: "keeps (same_tasks s0) (mark_all L w uris by_uri)"
  by (induction uris arbitrary: w) (auto simp: mark_superseded_def Let_def intro!: keeps_intros)

lemma keeps_same_tasks_create: "keeps (same_tasks s0) (anchor_create L w tid summary facts)"
  unfolding anchor_create_def Let_def by (intro keeps_intros)

lemma anchor_create_same_tasks: "same_tasks s (fst (anchor_create L w tid summary facts s))"
  using keeps_same_tasks_create [of s] by (rule keepsD) (simp add: same_tasks_def)

lemma fts_join_Inr:
  assumes "fts_join F q idx rowid P rows limit = Inr rs"
  shows "length rs \<le> nat limit" and "set rs \<subseteq> {r \<in> set rows. P r}"
proof -
  from assms obtain ids where rs: "rs = take (nat limit)
      (filter P (List.map_filter (\<lambda>i. find (\<lambda>r. rowid r = i) rows) ids))"
    by (auto simp: fts_join_def split: sum.splits)
  then show "length rs \<le> nat limit" by simp
  have "r \<in> set rows" if "r \<in> set (List.map_filter (\<lambda>i. find (\<lambda>r. rowid r = i) rows) ids)" for r
  proof -
    from that obtain i where "find (\<lambda>r. rowid r = i) rows = Some r"
      by (auto simp: List.map_filter_def)
    then show ?thesis by (auto simp: find_Some_iff)
  qed
  then show "set rs \<subseteq> {r \<in> set rows. P r}"
    unfolding rs by (auto dest!: in_set_takeD)
qed

section \<open>Properties\<close>

text \<open>
  Superseding an anchor touches that anchor's facts only. On a well-formed anchor URI
  whose anchor exists, every fact that is an object afterwards carries the status
  \<open>superseded\<close> and the URI of the newer anchor and keeps its other entries, and the other
  facts stay; other anchors, the tasks and the indexes are as before. An URI of another shape is
  refused, an unknown anchor is skipped, both without an effect.
\<close>

theorem mark_superseded_spec:
  assumes "calm w"
  shows "mark_superseded L w uri by_uri db =
    (case split_on (CHR ''/'') uri of
       [p0, p1, p2, p3, tid, aid] \<Rightarrow>
         if p3 \<noteq> ''anchors'' then (db, Inl (InvalidPath (''invalid anchor URI: '' @ uri)))
         else (case anchor_lookup tid aid db of
             None \<Rightarrow> (db, Inr ())
           | Some a \<Rightarrow>
               (db\<lparr>sd_anchors := map (\<lambda>b. if an_task_id b = tid \<and> an_id b = aid
                  then b\<lparr>an_facts := to_str (sl_codec L) (JArr (map (supersede_fact by_uri)
                         (opt_or (parse_values (sl_codec L) (an_facts a)) [])))\<rparr>
                  else b) (sd_anchors db)\<rparr>, Inr ()))
     | _ \<Rightarrow> (db, Inl (InvalidPath (''invalid anchor URI: '' @ uri)))) \<and>
    (\<forall>kvs k. jget (supersede_fact by_uri (JObj kvs)) k =
       (if k = ''status'' then JStr ''superseded'' else if k = ''superseded_by'' then JStr by_uri
        else jget (JObj kvs) k))"
proof -
  have "length parts = 6 \<longleftrightarrow> (\<exists>p0 p1 p2 p3 tid aid. parts = [p0, p1, p2, p3, tid, aid])" for parts :: "string list"
    by (auto simp: numeral_eq_Suc length_Suc_conv)
  then have "mark_superseded L w uri by_uri db =
    (case split_on (CHR ''/'') uri of
       [p0, p1, p2, p3, tid, aid] \<Rightarrow>
         if p3 \<noteq> ''anchors'' then (db, Inl (InvalidPath (''invalid anchor URI: '' @ uri)))
         else (case anchor_lookup tid aid db of
             None \<Rightarrow> (db, Inr ())
           | Some a \<Rightarrow>
               (db\<lparr>sd_anchors := map (\<lambda>b. if an_task_id b = tid \<and> an_id b = aid
                  then b\<lparr>an_facts := to_str (sl_codec L) (JArr (map (supersede_fact by_uri)
                         (opt_or (parse_values (sl_codec L) (an_facts a)) [])))\<rparr>
                  else b) (sd_anchors db)\<rparr>, Inr ()))
     | _ \<Rightarrow> (db, Inl (InvalidPath (''invalid anchor URI: '' @ uri))))"
    using assms
    by (auto simp: mark_superseded_def Let_def sql_calm step_defs update_facts_def
          split: list.splits option.splits)
  moreover have "jget (supersede_fact by_uri (JObj kvs)) k =
       (if k = ''status'' then JStr ''superseded'' else if k = ''superseded_by'' then JStr by_uri
        else jget (JObj kvs) k)" for kvs k
    by simp
  ultimately show ?thesis by blast
qed

definition demo_anchor :: anchor_row where
  "demo_anchor = \<lparr>an_rowid = 1, an_id = ''0'', an_task_id = ''t'', an_summary = ''s'',
     an_facts = notate (JArr [JObj [(''fact'', JStr ''x'')]]), an_created_at = ''1''\<rparr>"

theorem mark_superseded_spec_witness:
  "mark_superseded demo_lib (still 5) ''logos://system/anchors/t/0'' ''new''
     (demo_db [] \<lparr>sd_anchors := [demo_anchor]\<rparr>) =
   (demo_db [] \<lparr>sd_anchors := [demo_anchor\<lparr>an_facts := notate (JArr [JObj [(''fact'', JStr ''x''),
       (''status'', JStr ''superseded''), (''superseded_by'', JStr ''new'')]])\<rparr>]\<rparr>, Inr ())"
proof -
  let ?db = "demo_db [] \<lparr>sd_anchors := [demo_anchor]\<rparr>"
  have "parse_values note_codec (an_facts demo_anchor) = Some [JObj [(''fact'', JStr ''x'')]]"
    by code_simp
  moreover have "split_on (CHR ''/'') ''logos://system/anchors/t/0'' =
      [''logos:'', [], ''system'', ''anchors'', ''t'', ''0'']"
    by code_simp
  moreover have "anchor_lookup ''t'' ''0'' ?db = Some demo_anchor"
    by (simp add: anchor_lookup_def demo_anchor_def)
  moreover have "an_task_id demo_anchor = ''t''" "an_id demo_anchor = ''0''"
    by (simp_all add: demo_anchor_def)
  moreover have "supersede_fact ''new'' (JObj [(''fact'', JStr ''x'')]) =
      JObj [(''fact'', JStr ''x''), (''status'', JStr ''superseded''), (''superseded_by'', JStr ''new'')]"
    by code_simp
  ultimately show ?thesis
    using mark_superseded_spec [of "still 5" demo_lib "''logos://system/anchors/t/0''" "''new''" ?db]
    by (simp add: demo_db_def del: supersede_fact.simps notate.simps)
qed

text \<open>
  Search asks the indexes for exactly the query text as one phrase (quotes in it are
  data, never syntax), leaves the database alone, and answers with at most the limit, clamped
  to 1..50, of hits on each level: anchors of the table, and tasks of the table that are not
  pending.
\<close>

theorem search_tasks_spec:
  assumes "search_tasks L w q limit db = (db', Inr out)"
  shows "db' = db \<and> fts_phrase (tl (fts_escape q)) = Some (q, []) \<and>
    (\<exists>as ts. out = to_str (sl_codec L)
        (jobj [(''l1_hits'', JArr (map l1_hit as)), (''l2_hits'', JArr (map l2_hit ts))]) \<and>
       int (length as) \<le> max 1 (min 50 limit) \<and> int (length ts) \<le> max 1 (min 50 limit) \<and>
       set as \<subseteq> set (sd_anchors db) \<and> set ts \<subseteq> {t \<in> set (sd_tasks db). tk_status t \<noteq> ''pending''})"
proof -
  let ?lim = "clamp 1 50 limit"
  have lim: "int (nat ?lim) = max 1 (min 50 limit)"
    by (simp add: clamp_def)
  let ?l1 = "\<lambda>db. fts_join (sl_fts L) (fts_escape q) (sd_anchors_fts db) an_rowid (\<lambda>_. True) (sd_anchors db) ?lim"
  let ?l2 = "\<lambda>db. fts_join (sl_fts L) (fts_escape q) (sd_tasks_fts db) tk_rowid (\<lambda>t. tk_status t \<noteq> ''pending'')
       (sd_tasks db) ?lim"
  from assms obtain s1 as s2 ts where run: "(db, ?l1 db) = (s1, Inr as)" "(s1, ?l2 s1) = (s2, Inr ts)"
    "ret (to_str (sl_codec L)
        (jobj [(''l1_hits'', JArr (map l1_hit as)), (''l2_hits'', JArr (map l2_hit ts))])) s2 = (db', Inr out :: string vfs_result)"
    unfolding search_tasks_def Let_def by (elim sql_bindE) (rule that)
  have as: "?l1 db = Inr as" and ts: "?l2 db = Inr ts" and out: "db' = db" "out = to_str (sl_codec L)
        (jobj [(''l1_hits'', JArr (map l1_hit as)), (''l2_hits'', JArr (map l2_hit ts))])"
    using run by (auto simp: ret_def)
  have "int (length as) \<le> max 1 (min 50 limit)" "int (length ts) \<le> max 1 (min 50 limit)"
    using fts_join_Inr(1) [OF as] fts_join_Inr(1) [OF ts] lim by linarith+
  moreover have "set as \<subseteq> set (sd_anchors db)" "set ts \<subseteq> {t \<in> set (sd_tasks db). tk_status t \<noteq> ''pending''}"
    using fts_join_Inr(2) [OF as] fts_join_Inr(2) [OF ts] by auto
  moreover have "fts_phrase (tl (fts_escape q)) = Some (q, [])"
    by (simp add: fts_escape_def fts_escape_phrase)
  ultimately show ?thesis
    using out by (intro conjI exI [of _ as] exI [of _ ts])
qed

theorem search_tasks_spec_witness:
  "fts_phrase (tl (fts_escape ''say \"d\"'')) = Some (''say \"d\"'', []) \<and>
   (\<exists>out. search_tasks demo_lib (still 1) ''say \"d\"'' 0
      (demo_db [demo_task ''t'' ''finished''] \<lparr>sd_tasks_fts := [(1, [''I say \"d\".''])]\<rparr>) =
     (demo_db [demo_task ''t'' ''finished''] \<lparr>sd_tasks_fts := [(1, [''I say \"d\".''])]\<rparr>, Inr out))"
proof -
  let ?db = "demo_db [demo_task ''t'' ''finished''] \<lparr>sd_tasks_fts := [(1, [''I say \"d\".''])]\<rparr>"
  obtain db' r where run: "search_tasks demo_lib (still 1) ''say \"d\"'' 0 ?db = (db', r)" by fastforce
  have "fts_match list_fts (fts_escape ''say \"d\"'') [(1, [''I say \"d\".''])] = Inr [1]"
    "fts_match list_fts (fts_escape ''say \"d\"'') [] = Inr []"
    by code_simp+
  then have "\<exists>out. r = Inr out"
    using run by (auto simp: search_tasks_def sql_calm step_defs Let_def fts_join_def demo_lib_def demo_db_def)
  then obtain out where "r = Inr out" by blast
  with run search_tasks_spec [OF run [unfolded this]] show ?thesis by blast
qed

end
