(* ===== verification/Logos_System.thy ===== *)
theory Logos_System
  imports Logos_Anchors
begin

text \<open>
  The system module: the turn terminator (\<open>logos-system/src/complete.rs\<close>) and the module with
  its namespace (\<open>logos-system/src/lib.rs\<close>).
\<close>

section \<open>The turn terminator\<close>

record complete_params =
  cp_task_id :: string
  cp_summary :: string
  cp_reply :: string
  cp_anchor :: bool
  cp_anchor_facts :: string
  cp_task_log :: string
  cp_sleep_reason :: string
  cp_sleep_retry :: bool
  cp_resume_task_id :: string
  cp_plan_todo :: "string list"

record complete_result =
  cr_reply :: string
  cr_anchor_id :: string
  cr_task_log :: string
  cr_task_id :: string

definition regen_content :: "('f, 't) sys_lib \<Rightarrow> 't \<Rightarrow> string \<Rightarrow> string" where
  "regen_content L now anchor_id = to_str (sl_codec L) (jobj
     [(''task_id'', JStr (''regen-summary-'' @ fmt_compact (sl_chrono L) now)),
      (''description'', JStr (''Regenerate short summary for period '' @ fmt_hour (sl_chrono L) now
         @ '' (triggered by anchor '' @ anchor_id @ '')'')),
      (''resource'', JStr ''logos://memory/*/summary/short''), (''chat_id'', JStr []),
      (''trigger'', JStr ''anchor'')])"

definition complete_execute ::
  "('f, 't) sys_lib \<Rightarrow> 't world \<Rightarrow> complete_params \<Rightarrow> ('f sys_db, complete_result) vfs_step" where
  "complete_execute L w p =
     (let tid = cp_task_id p;
          result = (\<lambda>task anchor. \<lparr>cr_reply = cp_reply p, cr_anchor_id = anchor,
                      cr_task_log = cp_task_log p, cr_task_id = task\<rparr>) in
      andthen (if tid \<noteq> [] then ignore_errors (transition_status L (at_w ''activate'' w) tid ''active'')
               else ret ()) (\<lambda>_.
      if cp_resume_task_id p \<noteq> [] then
        andthen (if tid \<noteq> [] then task_delete (at_w ''discard'' w) tid else ret ()) (\<lambda>_.
        andthen (transition_status L (at_w ''resume'' w) (cp_resume_task_id p) ''active'') (\<lambda>_.
        ret (result (cp_resume_task_id p) [])))
      else if cp_plan_todo p \<noteq> [] \<and> tid \<noteq> [] then
        andthen (set_plan_todo L (at_w ''plan'' w) tid (print_strings (sl_codec L) (cp_plan_todo p))) (\<lambda>_.
        andthen (transition_status L (at_w ''sleep'' w) tid ''sleep'') (\<lambda>_.
        andthen (if cp_anchor p \<and> tid \<noteq> []
                 then anchor_create L (at_w ''anchor'' w) tid (cp_summary p) (cp_anchor_facts p)
                 else ret []) (\<lambda>anchor_id.
        ret (result tid anchor_id))))
      else
        (let new_status = (if cp_sleep_reason p \<noteq> [] then ''sleep'' else ''finished'') in
         andthen (if tid \<noteq> [] then transition_status L (at_w ''status'' w) tid new_status else ret ()) (\<lambda>_.
         andthen (if cp_anchor p \<and> tid \<noteq> []
                  then andthen (anchor_create L (at_w ''anchor'' w) tid (cp_summary p) (cp_anchor_facts p)) (\<lambda>anchor_id.
                       andthen (ignore_errors (task_create L (at_w ''regen'' w)
                         (regen_content L (w_clk w [''regen'']) anchor_id))) (\<lambda>_.
                       ret anchor_id))
                  else ret []) (\<lambda>anchor_id.
         ret (result tid anchor_id))))))"

section \<open>The module\<close>

definition has_active_executor :: "'t world \<Rightarrow> string \<Rightarrow> ('f sys_db, bool) vfs_step" where
  "has_active_executor w planner_id =
     andthen (sql w ''check active executor'' ''check active executor: ''
       (query (\<lambda>db. length (filter (\<lambda>t. tk_plan_parent t = planner_id \<and> tk_status t = ''active'')
          (sd_tasks db))))) (\<lambda>count. ret (count > 0))"

definition system_read ::
  "('f, 't) sys_lib \<Rightarrow> 't world \<Rightarrow> string list \<Rightarrow> ('f sys_db, string) vfs_step" where
  "system_read L w path =
     (case get_at path 0 of
        None \<Rightarrow> fail (InvalidPath ''empty system path'')
      | Some resource \<Rightarrow>
          if resource = ''tasks'' then
            (case get_at path 1 of
               Some task_id \<Rightarrow> andthen (task_get L w task_id) (\<lambda>opt. ret (opt_or opt ''null''))
             | None \<Rightarrow> task_list L w None None)
          else if resource = ''anchors'' then
            (case get_at path 1 of
               None \<Rightarrow> fail (InvalidPath ''missing task_id'')
             | Some task_id \<Rightarrow>
                 (case get_at path 2 of
                    Some anchor_id \<Rightarrow>
                      andthen (anchor_get L w task_id anchor_id) (\<lambda>opt. ret (opt_or opt ''null''))
                  | None \<Rightarrow> anchor_list L w task_id))
          else fail (InvalidPath (''unknown system resource: '' @ resource)))"

definition system_write ::
  "('f, 't) sys_lib \<Rightarrow> 't world \<Rightarrow> string list \<Rightarrow> string \<Rightarrow> ('f sys_db, unit) vfs_step" where
  "system_write L w path content =
     (case get_at path 0 of
        None \<Rightarrow> fail (InvalidPath ''empty system path'')
      | Some resource \<Rightarrow>
          if resource = ''tasks'' then
            (if length path \<ge> 3 \<and> path ! 2 = ''description''
             then update_description L w (path ! 1) content
             else task_create L w content)
          else fail (InvalidPath (''system write not supported for: '' @ resource)))"

definition system_patch ::
  "('f, 't) sys_lib \<Rightarrow> 't world \<Rightarrow> string list \<Rightarrow> string \<Rightarrow> ('f sys_db, unit) vfs_step" where
  "system_patch L w path partial =
     (if opt_or (get_at path 0) [] = ''tasks'' \<and> length path = 2 then
        andthen (system_read L (at_w ''existing'' w) path) (\<lambda>existing.
        case (from_str (sl_codec L) existing, from_str (sl_codec L) partial) of
          (Inr base, Inr patch) \<Rightarrow>
            (case as_str (jget (json_deep_merge base patch) ''description'') of
               Some desc \<Rightarrow> update_description L w (path ! 1) desc
             | None \<Rightarrow> ret ())
        | _ \<Rightarrow> system_write L w path partial)
      else system_write L w path partial)"

definition system_namespace :: "('f, 't) sys_lib \<Rightarrow> 't world \<Rightarrow> 'f sys_db namespace" where
  "system_namespace L w =
     \<lparr>ns_name = ''system'', ns_read = system_read L (at_w ''read'' w),
      ns_write = system_write L (at_w ''write'' w), ns_patch = system_patch L (at_w ''patch'' w)\<rparr>"

text \<open>Every call of the module the kernel makes, each with the world it runs in.\<close>

datatype sys_op =
    SysRead "string list"
  | SysWrite "string list" string
  | SysPatch "string list" string
  | SysCreate string
  | SysTransition string string
  | SysSearch string int
  | SysPlanPending
  | SysPop string
  | SysExecutor string
  | SysComplete complete_params

fun sys_exec :: "('f, 't) sys_lib \<Rightarrow> 'f sys_db \<Rightarrow> 't world \<times> sys_op \<Rightarrow> 'f sys_db" where
  "sys_exec L db (w, SysRead path) = fst (system_read L w path db)"
| "sys_exec L db (w, SysWrite path content) = fst (system_write L w path content db)"
| "sys_exec L db (w, SysPatch path partial) = fst (system_patch L w path partial db)"
| "sys_exec L db (w, SysCreate content) = fst (task_create L w content db)"
| "sys_exec L db (w, SysTransition tid status) = fst (transition_status L w tid status db)"
| "sys_exec L db (w, SysSearch q limit) = fst (search_tasks L w q limit db)"
| "sys_exec L db (w, SysPlanPending) = fst (list_plan_pending L w db)"
| "sys_exec L db (w, SysPop tid) = fst (pop_plan_head L w tid db)"
| "sys_exec L db (w, SysExecutor tid) = fst (has_active_executor w tid db)"
| "sys_exec L db (w, SysComplete p) = fst (complete_execute L w p db)"

text \<open>The tasks a run discards: those a turn gave up to resume another.\<close>

fun discards :: "'t world \<times> sys_op \<Rightarrow> string set" where
  "discards (w, SysComplete p) =
     (if cp_resume_task_id p \<noteq> [] \<and> cp_task_id p \<noteq> [] then {cp_task_id p} else {})"
| "discards _ = {}"

section \<open>Lemmas\<close>

lemma keeps_search [keeps_intros]: "keeps I (search_tasks L w q limit)"
  unfolding search_tasks_def Let_def
  by (intro keeps_intros) (simp_all add: keeps_def)

lemma keeps_complete:
  "cp_resume_task_id p \<noteq> [] \<and> cp_task_id p \<noteq> [] \<longrightarrow> cp_task_id p \<in> X \<Longrightarrow>
   keeps (task_inv X s0) (complete_execute L w p)"
  unfolding complete_execute_def Let_def by (intro keeps_intros) auto

lemma keeps_system_read [keeps_intros]: "keeps I (system_read L w path)"
  unfolding system_read_def task_get_def task_list_def anchor_get_def anchor_list_def
  by (intro keeps_intros)

lemma keeps_queries [keeps_intros]:
  "keeps I (list_plan_pending L w)" "keeps I (has_active_executor w tid)"
  unfolding list_plan_pending_def has_active_executor_def by (intro keeps_intros)+

lemma keeps_system_write [keeps_intros]: "keeps (task_inv X s0) (system_write L w path content)"
  unfolding system_write_def by (intro keeps_intros)

lemma keeps_system_patch [keeps_intros]: "keeps (task_inv X s0) (system_patch L w path partial)"
  unfolding system_patch_def by (auto intro!: keeps_intros split: sum.splits)

lemma task_inv_mono: "task_inv X s0 s \<Longrightarrow> X \<subseteq> Y \<Longrightarrow> task_inv Y s0 s"
  by (auto simp: task_inv_def intro: evolves_mono)

lemma sys_exec_inv:
  assumes "task_inv X s0 s"
  shows "task_inv (X \<union> discards (w, op)) s0 (sys_exec L s (w, op))"
proof -
  have inv: "task_inv (X \<union> discards (w, op)) s0 s"
    using assms by (rule task_inv_mono) simp
  note keeps = keeps_queries keeps_system_read keeps_system_write keeps_system_patch keeps_task_create
    keeps_transition_status keeps_search keeps_pop_plan_head
  show ?thesis
  proof (cases op)
    case (SysComplete p)
    have "keeps (task_inv (X \<union> discards (w, op)) s0) (complete_execute L w p)"
      by (rule keeps_complete) (simp add: SysComplete)
    from keepsD [OF this inv] show ?thesis by (simp add: SysComplete)
  qed (use inv in \<open>simp_all add: keeps [THEN keepsD]\<close>)
qed

interpretation life: logged_machine "sys_exec L" s0
    "\<lambda>es s. tasks_ok s0 \<longrightarrow> task_inv (\<Union>e \<in> set es. discards e) s0 s"
  for L :: "('f, 't) sys_lib" and s0
proof
  show "tasks_ok s0 \<longrightarrow> task_inv (\<Union>e \<in> set []. discards e) s0 s0"
    by (simp add: task_inv_start)
next
  fix es :: "('t world \<times> sys_op) list" and e :: "'t world \<times> sys_op"
  assume "tasks_ok s0 \<longrightarrow> task_inv (\<Union>e \<in> set es. discards e) s0 (foldl (sys_exec L) s0 es)"
  then show "tasks_ok s0 \<longrightarrow> task_inv (\<Union>e \<in> set (es @ [e]). discards e) s0
      (sys_exec L (foldl (sys_exec L) s0 es) e)"
    using sys_exec_inv [of _ s0 _ "fst e" "snd e" L] by (auto simp: Un_commute [of "discards e"])
qed

text \<open>What a turn leaves of the tasks it is not about.\<close>

definition shows_task :: "string \<Rightarrow> task_row \<Rightarrow> 'f sys_db \<Rightarrow> bool" where
  "shows_task u x db \<longleftrightarrow> task_lookup u db = Some x"

lemma keeps_shows_update: "u \<noteq> tid \<Longrightarrow> (\<And>r. tk_task_id (f r) = tk_task_id r) \<Longrightarrow>
    keeps (shows_task u x) (update_task tid f)"
  by (rule keepsI) (simp add: shows_task_def task_lookup_update)

lemma find_append_Some: "find P xs = Some x \<Longrightarrow> find P (xs @ ys) = Some x"
  by (induction xs) auto

lemma find_filter: "(\<And>x. P x \<Longrightarrow> Q x) \<Longrightarrow> find P (filter Q xs) = find P xs"
  by (induction xs) auto

lemma task_lookup_delete: "u \<noteq> tid \<Longrightarrow> task_lookup u (fst (delete_task tid db)) = task_lookup u db"
  by (auto simp: task_lookup_def delete_task_def modify_def intro: find_filter)

lemma task_lookup_insert: "task_lookup u db = Some x \<Longrightarrow>
    task_lookup u (fst (insert_task_row r db)) = Some x"
  by (simp add: task_lookup_def insert_task_row_def find_append_Some)

lemma keeps_shows_statements [keeps_intros]:
  "keeps (shows_task u x) (insert_task_row r)"
  "keeps (shows_task u x) (insert_task_fts F tid)"
  by (rule keepsI; simp add: shows_task_def task_lookup_insert)
     (auto simp: keeps_def shows_task_def insert_task_fts_def task_lookup_def
        split: option.splits sum.splits)

lemma keeps_shows_task_create [keeps_intros]: "keeps (shows_task u x) (task_create L w content)"
  unfolding task_create_def by (intro keeps_intros)

lemma keeps_anchors_task_create: "keeps (\<lambda>s. sd_anchors s = as) (task_create L w content)"
proof -
  have "keeps (\<lambda>s. sd_anchors s = as) (insert_task_row r)"
    "keeps (\<lambda>s. sd_anchors s = as) (insert_task_fts F tid)" for r F tid
    by (auto simp: keeps_def insert_task_row_def insert_task_fts_def split: option.splits sum.splits)
  then show ?thesis unfolding task_create_def by (intro keeps_intros)
qed

lemma keeps_shows_transition: "u \<noteq> tid \<Longrightarrow> keeps (shows_task u x) (transition_status L w tid new)"
  unfolding transition_status_def by (intro keeps_intros keeps_shows_update) simp_all

lemma keeps_shows_set_plan: "u \<noteq> tid \<Longrightarrow> keeps (shows_task u x) (set_plan_todo L w tid j)"
  unfolding set_plan_todo_def by (intro keeps_intros keeps_shows_update) simp_all

lemma keeps_shows_anchor_create [keeps_intros]:
  "keeps (shows_task u x) (anchor_create L w tid summary facts)"
  using anchor_create_same_tasks [of _ L w tid summary facts]
  by (auto simp: keeps_def shows_task_def same_tasks_def task_lookup_def)

lemma keeps_shows_complete:
  assumes "u \<noteq> cp_task_id p" and "cp_resume_task_id p = [] \<or> u \<noteq> cp_resume_task_id p"
  shows "keeps (shows_task u x) (complete_execute L w p)"
proof -
  have "keeps (shows_task u x) (task_delete w' (cp_task_id p))" for w' :: "'t world"
    unfolding task_delete_def
    by (intro keeps_intros) (simp add: keeps_def shows_task_def task_lookup_delete assms(1))
  then show ?thesis
    unfolding complete_execute_def Let_def
    by (intro keeps_intros keeps_shows_transition keeps_shows_set_plan) (use assms in auto)
qed

text \<open>The status moves of a turn, run without faults.\<close>

definition set_status :: "string \<Rightarrow> string \<Rightarrow> task_row \<Rightarrow> task_row" where
  "set_status new now r = r\<lparr>tk_status := new, tk_updated_at := now\<rparr>"

lemma set_status_simps [simp]:
  "tk_task_id (set_status new now r) = tk_task_id r" "tk_status (set_status new now r) = new"
  "set_status new now (set_status new' now' r) = set_status new now r"
  by (simp_all add: set_status_def)

lemma transition_ok:
  "calm w \<Longrightarrow> task_lookup tid db = Some t \<Longrightarrow> (tk_status t, new) \<in> set VALID_TRANSITIONS \<Longrightarrow>
   transition_status L w tid new db = (fst (update_task tid (set_status new (now_str L w)) db), Inr ())"
  by (simp add: transition_status_def sql_calm fetch_status_def step_defs update_task_def set_status_def)

lemma transition_bad:
  "calm w \<Longrightarrow> task_lookup tid db = Some t \<Longrightarrow> (tk_status t, new) \<notin> set VALID_TRANSITIONS \<Longrightarrow>
   transition_status L w tid new db =
     (db, Inl (InvalidPath (''invalid transition: '' @ tk_status t @ arrow @ new)))"
  by (simp add: transition_status_def sql_calm fetch_status_def step_defs)

lemma transition_unknown:
  "calm w \<Longrightarrow> task_lookup tid db = None \<Longrightarrow>
   transition_status L w tid new db = (db, Inl (Sqlite (''get task status: '' @ row_not_found)))"
  by (simp add: transition_status_def sql_calm fetch_status_def step_defs)

lemma transition_effect:
  assumes "calm w"
  shows "fst (transition_status L w tid new db) = db \<or>
    fst (transition_status L w tid new db) = fst (update_task tid (set_status new (now_str L w)) db)"
proof (cases "task_lookup tid db")
  case None
  with assms show ?thesis by (simp add: transition_unknown)
next
  case (Some t)
  with assms show ?thesis
    by (cases "(tk_status t, new) \<in> set VALID_TRANSITIONS") (simp_all add: transition_ok transition_bad)
qed

lemma update_task_frame [simp]:
  "sd_anchors (fst (update_task tid f db)) = sd_anchors db"
  by (simp add: update_task_def modify_def)

lemma activated:
  assumes "tasks_ok db" and "calm w" and "task_lookup tid db = Some t" and "tk_status t \<noteq> ''finished''"
  obtains db1 t1 where "fst (transition_status L w tid ''active'' db) = db1"
    "task_lookup tid db1 = Some t1" "tk_status t1 = ''active''"
    "\<And>new now. set_status new now t1 = set_status new now t"
    "sd_anchors db1 = sd_anchors db" "tk_plan_todo t1 = tk_plan_todo t"
proof -
  consider "tk_status t = ''active''" | "(tk_status t, ''active'') \<in> set VALID_TRANSITIONS"
    using assms(1,3,4) by (auto simp: task_lookup_iff tasks_ok_def VALID_TRANSITIONS_def)
  then show thesis
  proof cases
    case 1
    then have "fst (transition_status L w tid ''active'' db) = db"
      using assms(2,3) by (simp add: transition_bad VALID_TRANSITIONS_def)
    with 1 show thesis using assms(3) by (intro that) simp_all
  next
    case 2
    then have "fst (transition_status L w tid ''active'' db) =
        fst (update_task tid (set_status ''active'' (now_str L w)) db)"
      using assms(2,3) by (simp add: transition_ok)
    moreover have "task_lookup tid (fst (update_task tid (set_status ''active'' (now_str L w)) db))
        = Some (set_status ''active'' (now_str L w) t)"
      using assms(3) by (simp add: task_lookup_update)
    ultimately show thesis by (rule that) (simp_all add: set_status_def)
  qed
qed

lemma anchor_create_anchor:
  assumes "anchor_create L w tid summary facts s = (s', Inr aid)"
  shows "\<exists>a \<in> set (sd_anchors s'). an_task_id a = tid \<and> an_id a = aid \<and>
           an_summary a = summary \<and> an_facts a = facts"
proof -
  let ?a = "\<lparr>an_rowid = 0, an_id = aid, an_task_id = tid, an_summary = summary, an_facts = facts,
    an_created_at = fmt_secs (sl_chrono L) (w_clk w [''now''])\<rparr>"
  have aid: "aid = fmt_minute (sl_chrono L) (w_clk w [''id''])"
    using assms by (auto simp: anchor_create_def Let_def andthen_def ret_def
          split: prod.splits sum.splits)
  obtain s1 u s2 v s3 i s4 x where "insert_anchor_row ?a s1 = (s2, Inr v)"
    "fetch_anchor_rowid tid aid s2 = (s3, Inr i)"
    "insert_anchor_fts (sl_fts L) i [facts, summary] s3 = (s4, Inr x)"
    "ret aid s4 = (s', Inr aid :: string vfs_result)"
    using assms unfolding anchor_create_def Let_def aid
    by (auto simp: andthen_def split: prod.splits sum.splits dest!: sql_okD)
  then show ?thesis
    by (auto simp: insert_anchor_row_def fetch_anchor_rowid_def insert_anchor_fts_def ret_def
          split: if_splits sum.splits)
qed

section \<open>Properties\<close>

text \<open>
  C1: The life of a task. Through every run of the module's operations, with any faults and
  clock, a task that no turn of the run gave up for another is still in the table, once, with the
  identity, chat, trigger, workspace, resource, planner and creation time it had; its status is
  one the state machine reaches from the old one, and \<open>finished\<close> is for ever.
\<close>

theorem task_lifecycle:
  assumes "tasks_ok s0" and "t \<in> set (sd_tasks s0)"
    and "tk_task_id t \<notin> (\<Union>e \<in> set es. discards e)"
  shows "tasks_ok (foldl (sys_exec L) s0 es) \<and>
    (\<exists>t' \<in> set (sd_tasks (foldl (sys_exec L) s0 es)).
       t' = t\<lparr>tk_status := tk_status t', tk_description := tk_description t',
              tk_plan_todo := tk_plan_todo t', tk_updated_at := tk_updated_at t'\<rparr> \<and>
       (tk_status t, tk_status t') \<in> (set VALID_TRANSITIONS)\<^sup>* \<and>
       (tk_status t = ''finished'' \<longrightarrow> tk_status t' = ''finished''))"
proof -
  have inv: "task_inv (\<Union>e \<in> set es. discards e) s0 (foldl (sys_exec L) s0 es)"
    using life.run_rel assms(1) by blast
  then obtain t' where "t' \<in> set (sd_tasks (foldl (sys_exec L) s0 es))" "task_evolves t t'"
    using assms(2,3) unfolding task_inv_def evolves_def by blast
  moreover have "tk_status t = ''finished'' \<longrightarrow> tk_status t' = ''finished''"
    using \<open>task_evolves t t'\<close> finished_stays unfolding task_evolves_def by metis
  ultimately show ?thesis
    using inv unfolding task_inv_def task_evolves_def moves_def
    by (intro conjI bexI [of _ t']) simp_all
qed

definition demo_turn :: complete_params where
  "demo_turn = \<lparr>cp_task_id = ''t'', cp_summary = ''did it'', cp_reply = ''ok'', cp_anchor = True,
     cp_anchor_facts = ''n'', cp_task_log = ''log'', cp_sleep_reason = [], cp_sleep_retry = False,
     cp_resume_task_id = [], cp_plan_todo = []\<rparr>"

theorem task_lifecycle_witness:
  "\<exists>t' \<in> set (sd_tasks (foldl (sys_exec demo_lib) (demo_db [demo_task ''t'' ''finished''])
      [(still 1, SysComplete demo_turn), (still 2, SysTransition ''t'' ''active'')])).
     tk_task_id t' = ''t'' \<and> tk_status t' = ''finished''"
proof -
  let ?es = "[(still 1, SysComplete demo_turn), (still 2, SysTransition ''t'' ''active'')]"
  have "tasks_ok (demo_db [demo_task ''t'' ''finished''])"
    "demo_task ''t'' ''finished'' \<in> set (sd_tasks (demo_db [demo_task ''t'' ''finished'']))"
    "tk_task_id (demo_task ''t'' ''finished'') \<notin> (\<Union>e \<in> set ?es. discards e)"
    by (simp_all add: tasks_ok_def demo_db_def demo_task_def demo_turn_def)
  from task_lifecycle [OF this, of demo_lib] obtain t' where
    t': "t' \<in> set (sd_tasks (foldl (sys_exec demo_lib) (demo_db [demo_task ''t'' ''finished'']) ?es))"
    "t' = (demo_task ''t'' ''finished'')\<lparr>tk_status := tk_status t', tk_description := tk_description t',
              tk_plan_todo := tk_plan_todo t', tk_updated_at := tk_updated_at t'\<rparr>"
    "tk_status t' = ''finished''"
    by (auto simp: demo_task_def)
  moreover have "tk_task_id t' = ''t''"
    by (subst t'(2)) (simp add: demo_task_def)
  ultimately show ?thesis by blast
qed

text \<open>The end of a turn after the status changed: the anchor and the task that reviews it.\<close>

definition anchor_tail :: "('f, 't) sys_lib \<Rightarrow> 't world \<Rightarrow> complete_params \<Rightarrow> ('f sys_db, complete_result) vfs_step" where
  "anchor_tail L w p = andthen (if cp_anchor p
      then andthen (anchor_create L (at_w ''anchor'' w) (cp_task_id p) (cp_summary p) (cp_anchor_facts p)) (\<lambda>anchor_id.
           andthen (ignore_errors (task_create L (at_w ''regen'' w)
             (regen_content L (w_clk w [''regen'']) anchor_id))) (\<lambda>_.
           ret anchor_id))
      else ret []) (\<lambda>anchor_id. ret \<lparr>cr_reply = cp_reply p, cr_anchor_id = anchor_id,
        cr_task_log = cp_task_log p, cr_task_id = cp_task_id p\<rparr>)"

lemma anchor_tail_spec:
  assumes "anchor_tail L w p db2 = (db', r)" and "shows_task u x db2"
  shows "shows_task u x db'"
    and "\<not> cp_anchor p \<Longrightarrow> db' = db2 \<and> r = Inr \<lparr>cr_reply = cp_reply p, cr_anchor_id = [],
        cr_task_log = cp_task_log p, cr_task_id = cp_task_id p\<rparr>"
    and "cp_anchor p \<Longrightarrow> r = Inr res \<Longrightarrow> \<exists>a \<in> set (sd_anchors db'). an_task_id a = cp_task_id p \<and>
        an_id a = cr_anchor_id res \<and> an_summary a = cp_summary p \<and> an_facts a = cp_anchor_facts p"
proof -
  have "keeps (shows_task u x) (anchor_tail L w p)"
    unfolding anchor_tail_def by (intro keeps_intros keeps_shows_anchor_create keeps_shows_task_create)
  from keepsD' [OF this assms(2,1)] show "shows_task u x db'" .
  show "db' = db2 \<and> r = Inr \<lparr>cr_reply = cp_reply p, cr_anchor_id = [],
      cr_task_log = cp_task_log p, cr_task_id = cp_task_id p\<rparr>" if "\<not> cp_anchor p"
    using assms(1) that by (simp add: anchor_tail_def step_defs)
  show "\<exists>a \<in> set (sd_anchors db'). an_task_id a = cp_task_id p \<and>
      an_id a = cr_anchor_id res \<and> an_summary a = cp_summary p \<and> an_facts a = cp_anchor_facts p"
    if "cp_anchor p" "r = Inr res"
  proof -
    obtain db3 q where c: "anchor_create L (at_w ''anchor'' w) (cp_task_id p) (cp_summary p) (cp_anchor_facts p) db2 = (db3, q)"
      by fastforce
    with assms(1) that obtain aid where q: "q = Inr aid" "cr_anchor_id res = aid"
      "db' = fst (task_create L (at_w ''regen'' w) (regen_content L (w_clk w [''regen'']) aid) db3)"
      by (auto simp: anchor_tail_def andthen_def ret_def ignore_errors_eq split: sum.splits)
    have "sd_anchors db' = sd_anchors db3"
      unfolding q(3) by (rule keepsD [OF keeps_anchors_task_create]) (rule refl)
    with c q show ?thesis by (auto dest!: anchor_create_anchor)
  qed
qed

lemma complete_turn_effects:
  assumes "calm w" and "tasks_ok db" and "cp_task_id p \<noteq> []"
    and "task_lookup (cp_task_id p) db = Some t" and "tk_status t \<noteq> ''finished''"
    and "cp_resume_task_id p = []" and "cp_plan_todo p = []"
    and run: "complete_execute L w p db = (db', r)"
  shows "(\<exists>now. task_lookup (cp_task_id p) db' = Some (t\<lparr>tk_status :=
            if cp_sleep_reason p \<noteq> [] then ''sleep'' else ''finished'', tk_updated_at := now\<rparr>)) \<and>
    (\<forall>u x. u \<noteq> cp_task_id p \<and> task_lookup u db = Some x \<longrightarrow> task_lookup u db' = Some x) \<and>
    (\<not> cp_anchor p \<longrightarrow> r = Inr \<lparr>cr_reply = cp_reply p, cr_anchor_id = [],
        cr_task_log = cp_task_log p, cr_task_id = cp_task_id p\<rparr> \<and> sd_anchors db' = sd_anchors db) \<and>
    (\<forall>res. cp_anchor p \<and> r = Inr res \<longrightarrow>
       (\<exists>a \<in> set (sd_anchors db'). an_task_id a = cp_task_id p \<and> an_id a = cr_anchor_id res \<and>
          an_summary a = cp_summary p \<and> an_facts a = cp_anchor_facts p))"
proof -
  let ?tid = "cp_task_id p" and ?new = "if cp_sleep_reason p \<noteq> [] then ''sleep'' else ''finished''"
  obtain db1 t1 where act: "fst (transition_status L (at_w ''activate'' w) ?tid ''active'' db) = db1"
    "task_lookup ?tid db1 = Some t1" "tk_status t1 = ''active''"
    "\<And>new now. set_status new now t1 = set_status new now t" "sd_anchors db1 = sd_anchors db"
    using activated [OF assms(2) _ assms(4,5), of "at_w ''activate'' w" L] assms(1)
    by (metis calm_at)
  define now where "now = now_str L (at_w ''status'' w)"
  define db2 where "db2 = fst (update_task ?tid (set_status ?new now) db1)"
  have st: "transition_status L (at_w ''status'' w) ?tid ?new db1 = (db2, Inr ())"
    unfolding db2_def now_def using assms(1) act(2,3)
    by (subst transition_ok) (auto simp: VALID_TRANSITIONS_def)
  have db2: "task_lookup ?tid db2 = Some (set_status ?new now t)" "sd_anchors db2 = sd_anchors db"
    using act(2,4,5) by (simp_all add: db2_def task_lookup_update)
  have eq: "anchor_tail L w p db2 = (db', r)"
    using run assms(3,6,7)
    by (simp add: complete_execute_def Let_def act(1) anchor_tail_def
          andthen_ok [where m = "transition_status L (at_w ''status'' w) ?tid ?new", OF st])
  have others: "\<forall>u x. u \<noteq> ?tid \<and> task_lookup u db = Some x \<longrightarrow> task_lookup u db' = Some x"
    using keepsD [OF keeps_shows_complete] run assms(6) unfolding shows_task_def by (metis fst_conv)
  have "shows_task ?tid (set_status ?new now t) db2" using db2(1) by (simp add: shows_task_def)
  from anchor_tail_spec [OF eq this] others db2(2) show ?thesis
    by (auto simp: shows_task_def set_status_def)
qed

text \<open>
  C11: The end of a turn. For a task that is not finished (pending and sleeping ones are
  activated on the way), a turn that neither resumes nor plans leaves it finished, or asleep when
  a reason to sleep is given, with nothing else of it changed but the time; every other task is
  as it was. Without an anchor the turn succeeds and the anchors stay; with one, success
  means that the anchor of the reported id is stored for the task with the given facts.
\<close>

theorem complete_turn:
  assumes "calm w" and "tasks_ok db" and "cp_task_id p \<noteq> []"
    and "task_lookup (cp_task_id p) db = Some t" and "tk_status t \<noteq> ''finished''"
    and "cp_resume_task_id p = []" and "cp_plan_todo p = []"
    and "complete_execute L w p db = (db', r)"
  shows "(\<exists>now. task_lookup (cp_task_id p) db' = Some (t\<lparr>tk_status :=
            if cp_sleep_reason p \<noteq> [] then ''sleep'' else ''finished'', tk_updated_at := now\<rparr>)) \<and>
    (\<forall>u x. u \<noteq> cp_task_id p \<and> task_lookup u db = Some x \<longrightarrow> task_lookup u db' = Some x) \<and>
    (\<not> cp_anchor p \<longrightarrow> r = Inr \<lparr>cr_reply = cp_reply p, cr_anchor_id = [],
        cr_task_log = cp_task_log p, cr_task_id = cp_task_id p\<rparr> \<and> sd_anchors db' = sd_anchors db) \<and>
    (\<forall>res. cp_anchor p \<and> r = Inr res \<longrightarrow>
       (\<exists>a \<in> set (sd_anchors db'). an_task_id a = cp_task_id p \<and> an_id a = cr_anchor_id res \<and>
          an_summary a = cp_summary p \<and> an_facts a = cp_anchor_facts p))"
  using assms by (rule complete_turn_effects)

theorem complete_turn_witness:
  "\<exists>db' r now. complete_execute demo_lib (still 90) demo_turn (demo_db [demo_task ''t'' ''sleep'']) = (db', r) \<and>
     task_lookup ''t'' db' = Some ((demo_task ''t'' ''sleep'')\<lparr>tk_status := ''finished'', tk_updated_at := now\<rparr>)"
proof -
  obtain db' r where run:
    "complete_execute demo_lib (still 90) demo_turn (demo_db [demo_task ''t'' ''sleep'']) = (db', r)"
    by fastforce
  have "tasks_ok (demo_db [demo_task ''t'' ''sleep''])"
    "task_lookup (cp_task_id demo_turn) (demo_db [demo_task ''t'' ''sleep'']) = Some (demo_task ''t'' ''sleep'')"
    by (simp_all add: tasks_ok_def demo_db_def demo_task_def demo_turn_def task_lookup_def)
  from complete_turn [OF calm_still this(1) _ this(2) _ _ _ run] run show ?thesis
    by (auto simp: demo_turn_def demo_task_def)
qed

text \<open>What plan mode does after the task was made active and its plan stored.\<close>

definition plan_tail :: "('f, 't) sys_lib \<Rightarrow> 't world \<Rightarrow> complete_params \<Rightarrow> ('f sys_db, complete_result) vfs_step" where
  "plan_tail L w p = andthen (if cp_anchor p
      then anchor_create L (at_w ''anchor'' w) (cp_task_id p) (cp_summary p) (cp_anchor_facts p) else ret [])
    (\<lambda>anchor_id. ret \<lparr>cr_reply = cp_reply p, cr_anchor_id = anchor_id,
      cr_task_log = cp_task_log p, cr_task_id = cp_task_id p\<rparr>)"

definition planned :: "('f, 't) sys_lib \<Rightarrow> 't world \<Rightarrow> complete_params \<Rightarrow> task_row \<Rightarrow> task_row" where
  "planned L w p r = r\<lparr>tk_plan_todo := print_strings (sl_codec L) (cp_plan_todo p),
     tk_updated_at := now_str L (at_w ''plan'' w)\<rparr>"

lemma complete_plan_run:
  assumes "calm w" and "cp_task_id p \<noteq> []" and "cp_resume_task_id p = []" and "cp_plan_todo p \<noteq> []"
  shows "complete_execute L w p db =
    andthen (transition_status L (at_w ''sleep'' w) (cp_task_id p) ''sleep'') (\<lambda>_. plan_tail L w p)
      (fst (update_task (cp_task_id p) (planned L w p)
        (fst (transition_status L (at_w ''activate'' w) (cp_task_id p) ''active'' db))))"
proof -
  have set: "set_plan_todo L (at_w ''plan'' w) (cp_task_id p) (print_strings (sl_codec L) (cp_plan_todo p)) x =
      (fst (update_task (cp_task_id p) (planned L w p) x), Inr ())" for x
    using assms(1) by (simp add: set_plan_todo_def sql_calm update_task_def modify_def planned_def [abs_def])
  show ?thesis
    using assms(2-4) by (simp add: complete_execute_def Let_def plan_tail_def andthen_ok [OF set])
qed

lemma complete_plan_finished:
  fixes L :: "('f, 't) sys_lib"
  assumes "calm w" and "codec_ok (sl_codec L)" and "cp_task_id p \<noteq> []"
    and "task_lookup (cp_task_id p) db = Some t" and "tk_status t = ''finished''"
    and "cp_resume_task_id p = []" and "cp_plan_todo p \<noteq> []"
    and run: "complete_execute L w p db = (db', r)"
  shows "plan_of (sl_codec L) (cp_task_id p) db' = cp_plan_todo p \<and>
    r = Inl (InvalidPath (''invalid transition: finished'' @ arrow @ ''sleep''))"
proof -
  let ?tid = "cp_task_id p"
  define db2 where "db2 = fst (update_task ?tid (planned L w p) db)"
  have "fst (transition_status L (at_w ''activate'' w) ?tid ''active'' db) = db"
    using assms(1,4,5) by (simp add: transition_bad VALID_TRANSITIONS_def)
  then have eq: "(db', r) = andthen (transition_status L (at_w ''sleep'' w) ?tid ''sleep'') (\<lambda>_. plan_tail L w p) db2"
    using run complete_plan_run [OF assms(1,3,6,7), of L db] by (simp add: db2_def)
  have l2: "task_lookup ?tid db2 = Some (planned L w p t)"
    using assms(4) by (simp add: db2_def task_lookup_update planned_def)
  have "transition_status L (at_w ''sleep'' w) ?tid ''sleep'' db2 =
      (db2, Inl (InvalidPath (''invalid transition: finished'' @ arrow @ ''sleep'')))"
    using transition_bad [OF _ l2, of "at_w ''sleep'' w" "''sleep''" L] assms(1,5)
    by (simp add: VALID_TRANSITIONS_def planned_def)
  then have "db' = db2" "r = Inl (InvalidPath (''invalid transition: finished'' @ arrow @ ''sleep''))"
    using eq by (simp_all add: andthen_def)
  with l2 assms(2) show ?thesis by (simp add: plan_of_def planned_def)
qed

lemma complete_plan_live:
  fixes L :: "('f, 't) sys_lib"
  assumes "calm w" and "tasks_ok db" and "cp_task_id p \<noteq> []"
    and "task_lookup (cp_task_id p) db = Some t" and "tk_status t \<noteq> ''finished''"
    and "cp_resume_task_id p = []" and "cp_plan_todo p \<noteq> []"
    and run: "complete_execute L w p db = (db', r)"
  shows "(\<exists>now. task_lookup (cp_task_id p) db' = Some (t\<lparr>tk_status := ''sleep'', tk_updated_at := now,
        tk_plan_todo := print_strings (sl_codec L) (cp_plan_todo p)\<rparr>)) \<and>
    (\<not> cp_anchor p \<longrightarrow> r = Inr \<lparr>cr_reply = cp_reply p, cr_anchor_id = [],
      cr_task_log = cp_task_log p, cr_task_id = cp_task_id p\<rparr>)"
proof -
  let ?tid = "cp_task_id p"
  define db1 where "db1 = fst (transition_status L (at_w ''activate'' w) ?tid ''active'' db)"
  define db2 where "db2 = fst (update_task ?tid (planned L w p) db1)"
  define now where "now = now_str L (at_w ''sleep'' w)"
  define db3 where "db3 = fst (update_task ?tid (set_status ''sleep'' now) db2)"
  obtain t1 where act: "task_lookup ?tid db1 = Some t1" "tk_status t1 = ''active''"
    "\<And>new now. set_status new now t1 = set_status new now t"
    using activated [OF assms(2) calm_at [OF assms(1)] assms(4,5), of L "''activate''"]
    unfolding db1_def by metis
  have l2: "task_lookup ?tid db2 = Some (planned L w p t1)"
    using act(1) by (simp add: db2_def task_lookup_update planned_def)
  have st: "transition_status L (at_w ''sleep'' w) ?tid ''sleep'' db2 = (db3, Inr ())"
    using transition_ok [OF _ l2, of "at_w ''sleep'' w" "''sleep''" L] assms(1) act(2)
    by (simp add: VALID_TRANSITIONS_def db3_def now_def planned_def)
  let ?t3 = "set_status ''sleep'' now (planned L w p t1)"
  have t3: "?t3 = t\<lparr>tk_status := ''sleep'', tk_updated_at := now,
      tk_plan_todo := print_strings (sl_codec L) (cp_plan_todo p)\<rparr>"
    using act(3) [of "''sleep''" now] by (cases t; cases t1) (simp add: set_status_def planned_def)
  have l3: "shows_task ?tid ?t3 db3"
    using l2 by (simp add: db3_def shows_task_def task_lookup_update)
  have tail: "plan_tail L w p db3 = (db', r)"
    using run complete_plan_run [OF assms(1,3,6,7), of L db]
    by (simp add: db1_def [symmetric] db2_def [symmetric]
          andthen_ok [where m = "transition_status L (at_w ''sleep'' w) ?tid ''sleep''", OF st])
  have k: "keeps (shows_task ?tid ?t3) (plan_tail L w p)"
    unfolding plan_tail_def by (intro keeps_intros)
  have "shows_task ?tid ?t3 db'" by (rule keepsD' [OF k l3 tail])
  moreover have "\<not> cp_anchor p \<longrightarrow> r = Inr \<lparr>cr_reply = cp_reply p, cr_anchor_id = [],
      cr_task_log = cp_task_log p, cr_task_id = cp_task_id p\<rparr>"
    using tail by (cases "cp_anchor p") (simp_all add: plan_tail_def step_defs)
  ultimately show ?thesis unfolding t3 shows_task_def by blast
qed

text \<open>
  Plan mode. For a task that is not finished, a turn with subtasks stores them, so that
  the plan read back is the list given, and leaves the task asleep, its other data as before but
  the time; for a finished one the turn fails, yet the plan has been stored.
\<close>

theorem complete_plan:
  fixes L :: "('f, 't) sys_lib"
  assumes "calm w" and "tasks_ok db" and "codec_ok (sl_codec L)" and "cp_task_id p \<noteq> []"
    and "task_lookup (cp_task_id p) db = Some t"
    and "cp_resume_task_id p = []" and "cp_plan_todo p \<noteq> []"
    and run: "complete_execute L w p db = (db', r)"
  shows "plan_of (sl_codec L) (cp_task_id p) db' = cp_plan_todo p \<and>
    (tk_status t \<noteq> ''finished'' \<longrightarrow>
      (\<exists>now. task_lookup (cp_task_id p) db' = Some (t\<lparr>tk_status := ''sleep'', tk_updated_at := now,
         tk_plan_todo := print_strings (sl_codec L) (cp_plan_todo p)\<rparr>)) \<and>
      (\<not> cp_anchor p \<longrightarrow> r = Inr \<lparr>cr_reply = cp_reply p, cr_anchor_id = [],
        cr_task_log = cp_task_log p, cr_task_id = cp_task_id p\<rparr>)) \<and>
    (tk_status t = ''finished'' \<longrightarrow>
       r = Inl (InvalidPath (''invalid transition: finished'' @ arrow @ ''sleep'')))"
proof (cases "tk_status t = ''finished''")
  case True
  from complete_plan_finished [OF assms(1,3,4,5) this assms(6,7) run] True show ?thesis by simp
next
  case False
  from complete_plan_live [OF assms(1,2,4,5) this assms(6,7) run] False assms(3) show ?thesis
    by (auto simp: plan_of_def)
qed

theorem complete_plan_witness:
  "plan_of note_codec ''t'' (fst (complete_execute demo_lib (still 90)
     (demo_turn\<lparr>cp_plan_todo := [''a'', ''b'']\<rparr>) (demo_db [demo_task ''t'' ''active'']))) = [''a'', ''b'']"
proof -
  let ?p = "demo_turn\<lparr>cp_plan_todo := [''a'', ''b'']\<rparr>" and ?db = "demo_db [demo_task ''t'' ''active'']"
  have "tasks_ok ?db" "task_lookup (cp_task_id ?p) ?db = Some (demo_task ''t'' ''active'')"
    by (simp_all add: tasks_ok_def demo_db_def demo_task_def demo_turn_def task_lookup_def)
  from complete_plan [OF calm_still this(1) _ _ this(2) _ _ prod.collapse [symmetric], of demo_lib]
  show ?thesis by (simp add: note_codec_ok demo_turn_def)
qed

text \<open>
  C20: Resuming. The current task is gone in every case. The turn succeeds exactly when the
  target is another task that is pending or asleep, and then the target is active; otherwise it
  fails, and what was discarded stays discarded: the two steps are not atomic.
\<close>

theorem complete_resume:
  assumes "calm w" and "cp_task_id p \<noteq> []" and "cp_resume_task_id p \<noteq> []"
    and run: "complete_execute L w p db = (db', r)"
  shows "task_lookup (cp_task_id p) db' = None \<and>
    (if cp_resume_task_id p \<noteq> cp_task_id p \<and>
        (\<exists>t. task_lookup (cp_resume_task_id p) db = Some t \<and> tk_status t \<in> {''pending'', ''sleep''})
     then r = Inr \<lparr>cr_reply = cp_reply p, cr_anchor_id = [], cr_task_log = cp_task_log p,
            cr_task_id = cp_resume_task_id p\<rparr> \<and>
          (\<exists>t. task_lookup (cp_resume_task_id p) db' = Some t \<and> tk_status t = ''active'')
     else (\<exists>e. r = Inl e) \<and>
          (\<forall>u. u \<noteq> cp_task_id p \<longrightarrow> task_lookup u db' = task_lookup u db))"
proof -
  let ?tid = "cp_task_id p" and ?rid = "cp_resume_task_id p" and ?w = "at_w ''resume'' w"
  define db1 where "db1 = fst (transition_status L (at_w ''activate'' w) ?tid ''active'' db)"
  define db2 where "db2 = fst (delete_task ?tid db1)"
  have del: "task_delete (at_w ''discard'' w) ?tid db1 = (db2, Inr ())"
    using assms(1) by (simp add: task_delete_def sql_calm db2_def delete_task_def modify_def)
  have eq: "(db', r) = andthen (transition_status L ?w ?rid ''active'') (\<lambda>_.
      ret \<lparr>cr_reply = cp_reply p, cr_anchor_id = [], cr_task_log = cp_task_log p, cr_task_id = ?rid\<rparr>) db2"
    using run assms(2,3)
    by (simp add: complete_execute_def Let_def db1_def [symmetric] 
          andthen_ok [where m = "task_delete (at_w ''discard'' w) ?tid", OF del])
  have "db1 = db \<or> db1 = fst (update_task ?tid (set_status ''active'' (now_str L (at_w ''activate'' w))) db)"
    unfolding db1_def using assms(1) by (intro transition_effect) simp
  then have l1: "task_lookup u db1 = task_lookup u db" if "u \<noteq> ?tid" for u
    using that by (auto simp: task_lookup_update)
  have l2: "task_lookup u db2 = (if u = ?tid then None else task_lookup u db)" for u
    using l1 by (auto simp: db2_def task_lookup_delete)
      (simp add: task_lookup_None delete_task_def modify_def)
  show ?thesis
  proof (cases "task_lookup ?rid db2")
    case None
    then have "db' = db2" "\<exists>e. r = Inl e"
      using eq assms(1) by (auto simp: andthen_def transition_unknown)
    with None l2 show ?thesis by (auto split: if_splits)
  next
    case (Some t)
    show ?thesis
    proof (cases "(tk_status t, ''active'') \<in> set VALID_TRANSITIONS")
      case True
      with Some eq assms(1) l2 show ?thesis
        by (auto simp: andthen_def transition_ok task_lookup_update ret_def VALID_TRANSITIONS_def
              split: if_splits)
    next
      case False
      with Some eq assms(1) l2 show ?thesis
        by (auto simp: andthen_def transition_bad VALID_TRANSITIONS_def split: if_splits)
    qed
  qed
qed

theorem complete_resume_witness:
  "let p = demo_turn\<lparr>cp_resume_task_id := ''gone''\<rparr>;
       (db', r) = complete_execute demo_lib (still 90) p (demo_db [demo_task ''t'' ''active''])
   in task_lookup ''t'' db' = None \<and> (\<exists>e. r = Inl e)"
proof -
  let ?p = "demo_turn\<lparr>cp_resume_task_id := ''gone''\<rparr>" and ?db = "demo_db [demo_task ''t'' ''active'']"
  from complete_resume [of "still 90" ?p demo_lib ?db, OF calm_still _ _ prod.collapse [symmetric]]
  show ?thesis by (simp add: demo_turn_def demo_db_def demo_task_def task_lookup_def split_beta)
qed

end
