(* ===== verification/Logos_Web.thy ===== *)
theory Logos_Web
  imports Logos_Registry
begin

text \<open>
  The tools of \<open>logos-kernel\<close> that reach outside: \<open>web_search\<close> (\<open>builtin_tools/web_search.rs\<close>)
  and \<open>browse\<close> (\<open>builtin_tools/browse.rs\<close>). Starting programs and HTTP requests act on the
  host's state, the type parameter \<open>'s\<close>; what they answer are parameters. The scan of the result
  page is written out, with the loop as a partial function: \<open>None\<close> is a loop that never ends.
\<close>

section \<open>Text\<close>

record search_result =
  sr_source :: string
  sr_title :: string
  sr_url :: string
  sr_snippet :: string

fun boundary_below :: "string \<Rightarrow> nat \<Rightarrow> nat" where
  "boundary_below s 0 = 0"
| "boundary_below s (Suc n) = (if is_char_boundary s (Suc n) then Suc n else boundary_below s n)"

definition truncate_str :: "string \<Rightarrow> nat \<Rightarrow> string" where
  "truncate_str s max_chars =
     (if length s \<le> max_chars then s else take (boundary_below s max_chars) s @ ''...'')"

fun drop_tags :: "bool \<Rightarrow> string \<Rightarrow> string" where
  "drop_tags in_tag [] = []"
| "drop_tags in_tag (c # s) =
     (if c = CHR ''<'' then drop_tags True s
      else if c = CHR ''>'' then drop_tags False s
      else if \<not> in_tag then c # drop_tags in_tag s
      else drop_tags in_tag s)"

definition decode_entities :: "string \<Rightarrow> string" where
  "decode_entities s =
     fold (\<lambda>(entity, c). replace_all entity [c])
       [(''&amp;'', CHR ''&''), (''&lt;'', CHR ''<''), (''&gt;'', CHR ''>''), (''&quot;'', CHR 0x22),
        (''&#x27;'', CHR 0x27), (''&nbsp;'', CHR '' '')] s"

definition strip_html_tags :: "string \<Rightarrow> string" where
  "strip_html_tags s = trim (decode_entities (drop_tags False s))"

section \<open>The result page of DuckDuckGo\<close>

definition link_marker :: string where
  "link_marker = ''class='' @ [CHR 0x27] @ ''result-link'' @ [CHR 0x27]"

definition snippet_marker :: string where
  "snippet_marker = ''class='' @ [CHR 0x27] @ ''result-snippet'' @ [CHR 0x27]"

definition find_from :: "string \<Rightarrow> string \<Rightarrow> nat \<Rightarrow> nat option" where
  "find_from p s pos = map_option ((+) pos) (find_sub p (drop pos s))"

definition ddg_snippet :: "string \<Rightarrow> nat \<Rightarrow> nat \<times> string" where
  "ddg_snippet html pos =
     (case find_from snippet_marker html pos of
        None \<Rightarrow> (pos, [])
      | Some snippet_pos \<Rightarrow>
          (case Option.bind (find_from ''>'' html snippet_pos) (\<lambda>i.
             map_option (Pair (i + 1)) (find_from ''</td>'' html (i + 1))) of
             None \<Rightarrow> (pos, [])
           | Some (sc, se) \<Rightarrow> (se, truncate_str (strip_html_tags (str_slice html sc se)) 200)))"

definition href_of :: "string \<Rightarrow> string option" where
  "href_of tag_str =
     map_option (\<lambda>hi.
       let href_start = hi + 6
       in str_slice tag_str href_start (opt_or (find_from [CHR 0x22] tag_str href_start) href_start))
     (find_sub (''href='' @ [CHR 0x22]) tag_str)"

text \<open>
  One round of the loop: \<open>None\<close> is \<open>break\<close>, else the new position and the result pushed, if any.
\<close>

definition ddg_next :: "string \<Rightarrow> nat \<Rightarrow> (nat \<times> search_result option) option" where
  "ddg_next html pos =
     (case find_from link_marker html pos of
        None \<Rightarrow> None
      | Some marker_pos \<Rightarrow>
          (let skip = Some (marker_pos + length link_marker, None) in
           case rfind_sub ''<a '' (take marker_pos html) of
             None \<Rightarrow> skip
           | Some tag_start \<Rightarrow>
               (let tag_region = drop tag_start html in
                case find_sub ''>'' tag_region of
                  None \<Rightarrow> skip
                | Some tag_end_pos \<Rightarrow>
                    (case href_of (take tag_end_pos tag_region) of
                       None \<Rightarrow> skip
                     | Some url \<Rightarrow>
                         (let content_start = tag_start + tag_end_pos + 1 in
                          case find_from ''</a>'' html content_start of
                            None \<Rightarrow> Some (content_start, None)
                          | Some title_end \<Rightarrow>
                              (let title = strip_html_tags (str_slice html content_start title_end);
                                   (pos', snippet) = ddg_snippet html title_end
                               in Some (pos', if url \<noteq> [] \<and> title \<noteq> []
                                    then Some \<lparr>sr_source = ''web'', sr_title = title, sr_url = url, sr_snippet = snippet\<rparr>
                                    else None)))))))"

partial_function (option) ddg_loop ::
  "string \<Rightarrow> nat \<Rightarrow> nat \<Rightarrow> search_result list \<Rightarrow> search_result list option" where
  "ddg_loop html max_results pos results =
     (if length results < max_results then
        (case ddg_next html pos of
           None \<Rightarrow> Some results
         | Some (pos', r) \<Rightarrow> ddg_loop html max_results pos' (results @ (case r of None \<Rightarrow> [] | Some x \<Rightarrow> [x])))
      else Some results)"

definition parse_ddg_html :: "string \<Rightarrow> nat \<Rightarrow> search_result list option" where
  "parse_ddg_html html max_n = ddg_loop html max_n 0 []"

section \<open>The three sources\<close>

datatype http_error = SendError string | BodyError string

text \<open>A GET request with a query, its body decoded as JSON; a request of the browser's server.\<close>

record 's host =
  ht_spawn :: "'s spawn"
  ht_get :: "string \<Rightarrow> (string \<times> string) list \<Rightarrow> 's \<Rightarrow> 's \<times> (http_error + json)"
  ht_pinchtab :: "string \<Rightarrow> string \<Rightarrow> json option \<Rightarrow> 's \<Rightarrow> 's \<times> (http_error + string)"

definition user_agent :: string where
  "user_agent = ''Mozilla/5.0 (Macintosh; Intel Mac OS X 10_15_7) AppleWebKit/537.36 (KHTML, like Gecko) Chrome/120.0.0.0 Safari/537.36''"

definition ddg_args :: "string \<Rightarrow> string list" where
  "ddg_args q =
     [''-s'', ''-X'', ''POST'', ''https://lite.duckduckgo.com/lite/'',
      ''-H'', ''User-Agent: '' @ user_agent, ''-H'', ''Referer: https://lite.duckduckgo.com/'',
      ''-H'', ''Accept: text/html'', ''-d'', ''q='' @ replace_all '' '' ''+'' q, ''--max-time'', ''10'']"

definition search_ddg ::
  "'s host \<Rightarrow> string \<Rightarrow> nat \<Rightarrow> 's \<Rightarrow> ('s \<times> (string + search_result list)) option" where
  "search_ddg H q max_n s =
     (case ht_spawn H ''curl'' (ddg_args q) s of
        (s', Inl e) \<Rightarrow> Some (s', Inl (''ddg curl: '' @ e))
      | (s', Inr out) \<Rightarrow>
          if \<not> out_success out then Some (s', Inl (''ddg curl exit: '' @ out_stderr out))
          else map_option (\<lambda>rs. (s', Inr rs)) (parse_ddg_html (out_stdout out) max_n))"

definition http_get ::
  "'s host \<Rightarrow> string \<Rightarrow> string \<Rightarrow> (string \<times> string) list \<Rightarrow> ('s, string, json) step" where
  "http_get H what url params s =
     (case ht_get H url params s of
        (s', Inl (SendError e)) \<Rightarrow> (s', Inl (what @ '' request: '' @ e))
      | (s', Inl (BodyError e)) \<Rightarrow> (s', Inl (what @ '' json: '' @ e))
      | (s', Inr body) \<Rightarrow> (s', Inr body))"

definition wiki_result :: "json \<Rightarrow> search_result" where
  "wiki_result item =
     (let title = str_field item ''title'' [];
          snippet = strip_html_tags (str_field item ''snippet'' [])
      in \<lparr>sr_source = ''wiki'', sr_title = title,
          sr_url = ''https://en.wikipedia.org/wiki/'' @ replace_all '' '' ''_'' title,
          sr_snippet = truncate_str snippet 200\<rparr>)"

definition search_wikipedia :: "'s host \<Rightarrow> string \<Rightarrow> nat \<Rightarrow> ('s, string, search_result list) step" where
  "search_wikipedia H q max_n =
     andthen (http_get H ''wiki'' ''https://en.wikipedia.org/w/api.php''
       [(''action'', ''query''), (''list'', ''search''), (''srsearch'', q), (''format'', ''json''),
        (''srlimit'', nat_str max_n)]) (\<lambda>body.
     ret (map wiki_result (opt_or (as_array (jget (jget body ''query'') ''search'')) [])))"

definition so_result :: "json \<Rightarrow> search_result" where
  "so_result item =
     (let tags = join '', '' (List.map_filter as_str (opt_or (as_array (jget item ''tags'')) []))
      in \<lparr>sr_source = ''so'', sr_title = strip_html_tags (str_field item ''title'' []),
          sr_url = str_field item ''link'' [],
          sr_snippet = ''Score:'' @ int_str (opt_or (as_i64 (jget item ''score'')) 0)
            @ '' Answered:'' @ bool_str (opt_or (as_bool (jget item ''is_answered'')) False)
            @ '' Tags:'' @ tags\<rparr>)"

definition search_stackoverflow :: "'s host \<Rightarrow> string \<Rightarrow> nat \<Rightarrow> ('s, string, search_result list) step" where
  "search_stackoverflow H q max_n =
     andthen (http_get H ''so'' ''https://api.stackexchange.com/2.3/search''
       [(''order'', ''desc''), (''sort'', ''relevance''), (''intitle'', q), (''site'', ''stackoverflow''),
        (''pagesize'', nat_str max_n)]) (\<lambda>body.
     ret (map so_result (opt_or (as_array (jget body ''items'')) [])))"

definition search_result_json :: "search_result \<Rightarrow> json" where
  "search_result_json r = JObj
     [(''source'', JStr (sr_source r)), (''title'', JStr (sr_title r)), (''url'', JStr (sr_url r)),
      (''snippet'', JStr (sr_snippet r))]"

text \<open>The tool's call; \<open>None\<close> when it never answers.\<close>

definition web_search_call :: "codec \<Rightarrow> 's host \<Rightarrow> string \<Rightarrow> 's \<Rightarrow> ('s \<times> string vfs_result) option" where
  "web_search_call c H params s =
     (case from_str c params of
        Inl e \<Rightarrow> Some (s, Inl (InvalidJson e))
      | Inr val \<Rightarrow>
          (case as_str (jget val ''query'') of
             None \<Rightarrow> Some (s, Inl (InvalidJson (''missing '' @ [CHR 0x27] @ ''query'' @ [CHR 0x27])))
           | Some q \<Rightarrow>
               (let max_n = opt_or (as_u64 (jget val ''max_results'')) 3 in
                map_option (\<lambda>(s1, ddg).
                  (case search_wikipedia H q max_n s1 of (s2, wiki) \<Rightarrow>
                  (case search_stackoverflow H q max_n s2 of (s3, so) \<Rightarrow>
                   (let results = unwrap_or ddg [] @ unwrap_or wiki [] @ unwrap_or so [] in
                    (s3, if results = [] then Inl (Io ''all search sources failed'')
                         else Inr (to_str c (JArr (map search_result_json results))))))))
                (search_ddg H q max_n s))))"

section \<open>The browser\<close>

definition pinchtab ::
  "'s host \<Rightarrow> string \<Rightarrow> string \<Rightarrow> string \<Rightarrow> json option \<Rightarrow> ('s, string) vfs_step" where
  "pinchtab H what verb endpoint body s =
     (case ht_pinchtab H verb endpoint body s of
        (s', Inl (SendError e)) \<Rightarrow> (s', Inl (Io (''pinchtab '' @ what @ '': '' @ e)))
      | (s', Inl (BodyError e)) \<Rightarrow> (s', Inl (Io (''pinchtab '' @ what @ '' body: '' @ e)))
      | (s', Inr t) \<Rightarrow> (s', Inr t))"

definition browse_navigate :: "'s host \<Rightarrow> string \<Rightarrow> ('s, string) vfs_step" where
  "browse_navigate H url = pinchtab H ''navigate'' ''POST'' ''/navigate'' (Some (jobj [(''url'', JStr url)]))"

definition browse_snapshot :: "'s host \<Rightarrow> ('s, string) vfs_step" where
  "browse_snapshot H = pinchtab H ''snapshot'' ''GET'' ''/snapshot'' None"

definition browse_click :: "'s host \<Rightarrow> string \<Rightarrow> ('s, string) vfs_step" where
  "browse_click H element_ref =
     andthen (pinchtab H ''click'' ''POST'' ''/click'' (Some (jobj [(''ref'', JStr element_ref)]))) (\<lambda>result.
     attempt (browse_snapshot H) (\<lambda>snap.
     ret (result @ [CHR 0x0A] @ ''---'' @ [CHR 0x0A] @ unwrap_or snap [])))"

definition browse_fill :: "'s host \<Rightarrow> string \<Rightarrow> string \<Rightarrow> ('s, string) vfs_step" where
  "browse_fill H element_ref text' =
     pinchtab H ''fill'' ''POST'' ''/fill'' (Some (jobj [(''ref'', JStr element_ref), (''value'', JStr text')]))"

definition required_for :: "string \<Rightarrow> string \<Rightarrow> vfs_error" where
  "required_for field action =
     InvalidJson ([CHR 0x27] @ field @ [CHR 0x27] @ '' required for '' @ action)"

text \<open>
  The server at the boot: looked for, started in the background and asked once a second whether it
  is well, ten times at most. It counts as there however the questions end.
\<close>

record 's browser =
  br_start :: "('s, string, unit) step"
  br_health :: "('s, string, unit) step"

fun poll_ready :: "'s browser \<Rightarrow> nat \<Rightarrow> ('s, string, unit) step" where
  "poll_ready B 0 = ret ()"
| "poll_ready B (Suc n) = attempt (br_health B) (\<lambda>r. if is_ok r then ret () else poll_ready B n)"

definition spawn_pinchtab :: "'s host \<Rightarrow> 's browser \<Rightarrow> ('s, vfs_error, bool) step" where
  "spawn_pinchtab H B =
     attempt (ht_spawn H ''which'' [''pinchtab'']) (\<lambda>which.
     case which of
       Inl _ \<Rightarrow> ret False
     | Inr out \<Rightarrow>
         if \<not> out_success out then ret False
         else attempt (br_start B) (\<lambda>child.
           if is_ok child then attempt (poll_ready B 10) (\<lambda>_. ret True) else ret False))"

definition browse_call :: "codec \<Rightarrow> 's host \<Rightarrow> string \<Rightarrow> ('s, string) vfs_step" where
  "browse_call c H params =
     andthen (lift_result (map_err InvalidJson (from_str c params))) (\<lambda>val.
     (let action = str_field val ''action'' ''snap'' in
      andthen (case as_str (jget val ''url'') of
          None \<Rightarrow> ret []
        | Some url \<Rightarrow> browse_navigate H url) (\<lambda>_.
      if action = ''snap'' then browse_snapshot H
      else if action = ''click'' then
        andthen (lift_result (ok_or (as_str (jget val ''ref'')) (required_for ''ref'' ''click''))) (\<lambda>r.
        browse_click H r)
      else if action = ''type'' then
        andthen (lift_result (ok_or (as_str (jget val ''ref'')) (required_for ''ref'' ''type''))) (\<lambda>r.
        andthen (lift_result (ok_or (as_str (jget val ''text'')) (required_for ''text'' ''type''))) (\<lambda>t.
        browse_fill H r t))
      else fail (InvalidJson (''unknown action: '' @ action)))))"

section \<open>The scan\<close>

lemma find_from_Some:
  assumes "find_from p s pos = Some i"
  shows "pos \<le> i" and "p \<noteq> [] \<Longrightarrow> i < length s" and "p \<noteq> [] \<Longrightarrow> pos < length s"
proof -
  from assms obtain z where z: "find_sub p (drop pos s) = Some z" "i = pos + z" by (auto simp: find_from_def)
  note f = find_sub_less [OF z(1)]
  show "pos \<le> i" using z by simp
  show "i < length s" "pos < length s" if "p \<noteq> []"
    using f z that by (cases p; auto)+
qed

lemma boundary_below: "boundary_below s n \<le> n \<and> is_char_boundary s (boundary_below s n)"
  by (induction n) (auto simp: is_char_boundary_def)

lemma truncate_str_spec:
  "truncate_str s n = s \<and> length s \<le> n \<or>
   (\<exists>i \<le> n. is_char_boundary s i \<and> truncate_str s n = take i s @ ''...'')"
  using boundary_below [of s n] by (auto simp: truncate_str_def)

lemma length_truncate: "length (truncate_str s n) \<le> n + 3"
  using truncate_str_spec [of s n] by auto

lemma ddg_snippet_spec: "ddg_snippet html pos = (pos', sn) \<Longrightarrow> pos \<le> pos' \<and> length sn \<le> 203"
  using length_truncate [of _ 200]
  by (auto simp: ddg_snippet_def split: option.splits bind_splits dest!: find_from_Some(1))

text \<open>
  A page in which the marker of a result always stands inside the tag of the last anchor before it.
\<close>

definition well_marked :: "string \<Rightarrow> bool" where
  "well_marked html \<longleftrightarrow> (\<forall>m < length html. \<forall>t. starts_with (drop m html) link_marker \<longrightarrow>
     rfind_sub ''<a '' (take m html) = Some t \<longrightarrow> CHR ''>'' \<notin> set (str_slice html t m))"

definition good_result :: "search_result \<Rightarrow> bool" where
  "good_result r \<longleftrightarrow> sr_source r = ''web'' \<and> sr_url r \<noteq> [] \<and> sr_title r \<noteq> [] \<and> length (sr_snippet r) \<le> 203"

lemma find_from_starts: "find_from p s pos = Some i \<Longrightarrow> starts_with (drop i s) p"
proof -
  assume "find_from p s pos = Some i"
  then obtain z where z: "find_sub p (drop pos s) = Some z" "i = pos + z" by (auto simp: find_from_def)
  from find_sub_Some [OF z(1)] obtain a b where ab: "drop pos s = a @ p @ b" "length a = z" by blast
  have "drop i s = drop z (drop pos s)" using z by (simp add: add.commute)
  with ab show ?thesis by (simp add: starts_with_iff)
qed

lemma tag_end_after:
  assumes "find_sub ''>'' (drop t s) = Some e" and "CHR ''>'' \<notin> set (str_slice s t m)" and "t \<le> m"
  shows "m \<le> t + e"
proof (rule ccontr)
  assume "\<not> m \<le> t + e"
  then have lt: "e < m - t" by simp
  from find_sub_Some [OF assms(1)] obtain a b where ab: "drop t s = a @ ''>'' @ b" "length a = e" by blast
  then have "take (m - t) (drop t s) = a @ take (m - t - e) (''>'' @ b)" using lt by simp
  with lt have "CHR ''>'' \<in> set (str_slice s t m)" by (cases "m - t - e") (auto simp: str_slice_def)
  with assms(2) show False by simp
qed

lemma ddg_next_progress:
  assumes "well_marked html" and "ddg_next html pos = Some (pos', r)"
  shows "pos < pos'" and "pos < length html" and "\<forall>x. r = Some x \<longrightarrow> good_result x"
proof -
  from assms(2) obtain m where m: "find_from link_marker html pos = Some m"
    by (auto simp: ddg_next_def split: option.splits)
  have marker: "link_marker \<noteq> []" by (simp add: link_marker_def)
  note bounds = find_from_Some [OF m]
  show "pos < length html" using bounds(3) marker by blast
  have m_less: "m < length html" using bounds(2) marker by blast
  have len: "pos < m + length link_marker" using bounds(1) by (simp add: link_marker_def)
  have "pos < t + e + 1"
    if "rfind_sub ''<a '' (take m html) = Some t" "find_sub ''>'' (drop t html) = Some e" for t e
  proof -
    have "t \<le> m" using rfind_sub_Some [OF that(1)] m_less by (auto dest: arg_cong [of _ _ length])
    moreover have "CHR ''>'' \<notin> set (str_slice html t m)"
      using assms(1) m_less find_from_starts [OF m] that(1) by (simp add: well_marked_def)
    ultimately show ?thesis using tag_end_after [OF that(2)] bounds(1) by fastforce
  qed
  then have later: "\<forall>t e. rfind_sub ''<a '' (take m html) = Some t \<longrightarrow> find_sub ''>'' (drop t html) = Some e \<longrightarrow>
      pos < t + e + 1" by blast
  show "pos < pos'"
    using assms(2) m len later
    by (auto simp: ddg_next_def Let_def split: option.splits prod.splits
          dest!: find_from_Some(1) ddg_snippet_spec)
  show "\<forall>x. r = Some x \<longrightarrow> good_result x"
    using assms(2) m
    by (auto simp: ddg_next_def Let_def good_result_def split: option.splits prod.splits if_splits
          dest!: ddg_snippet_spec)
qed

lemma ddg_loop_ends:
  assumes "well_marked html"
  shows "length acc \<le> n \<Longrightarrow> \<forall>r \<in> set acc. good_result r \<Longrightarrow>
    \<exists>rs. ddg_loop html n pos acc = Some rs \<and> length rs \<le> n \<and> (\<forall>r \<in> set rs. good_result r)"
proof (induction "length html - pos" arbitrary: pos acc rule: less_induct)
  case less
  show ?case
  proof (cases "length acc < n \<and> ddg_next html pos \<noteq> None")
    case False
    then have "ddg_loop html n pos acc = Some acc"
      by (cases "ddg_next html pos") (auto simp: ddg_loop.simps [of html n pos acc])
    with less.prems show ?thesis by simp
  next
    case True
    then obtain pos' r where next': "ddg_next html pos = Some (pos', r)" by auto
    let ?acc = "acc @ (case r of None \<Rightarrow> [] | Some x \<Rightarrow> [x])"
    note p = ddg_next_progress [OF assms next']
    have "length ?acc \<le> n" "\<forall>r \<in> set ?acc. good_result r"
      using True less.prems p(3) by (auto split: option.splits)
    from less.hyps [OF _ this, of pos'] p(1,2) next' True show ?thesis
      by (simp add: ddg_loop.simps [of html n pos acc])
  qed
qed

lemma ddg_loop_stuck:
  assumes "ddg_next html p = Some (p, None)" and "length acc < n"
  shows "ddg_loop html n p acc = None"
proof -
  have "ddg_loop html' n' p' acc' = Some y \<Longrightarrow> \<not> (html' = html \<and> n' = n \<and> p' = p \<and> acc' = acc)" for html' n' p' acc' y
    by (rule ddg_loop.raw_induct [of "\<lambda>html' n' p' acc' y. \<not> (html' = html \<and> n' = n \<and> p' = p \<and> acc' = acc)"])
       (use assms in \<open>auto split: if_splits option.splits; blast\<close>)
  then show ?thesis by fastforce
qed

section \<open>Properties\<close>

text \<open>
  C23: On a page in which each result marker stands inside its anchor's tag, the scan of the
  result page ends, with at most the requested number of results, each with a title and an
  address and with a snippet of at most 203 bytes, whatever else the page holds.\<close>

theorem ddg_scan_ends:
  assumes "well_marked html"
  shows "\<exists>rs. parse_ddg_html html n = Some rs \<and> length rs \<le> n \<and> (\<forall>r \<in> set rs. good_result r)"
  unfolding parse_ddg_html_def by (rule ddg_loop_ends [OF assms]) simp_all

definition demo_page :: string where
  "demo_page = ''<a href='' @ [CHR 0x22] @ ''u'' @ [CHR 0x22] @ '' '' @ link_marker @ ''>T</a>''"

theorem ddg_scan_ends_witness:
  "\<exists>rs. parse_ddg_html demo_page 3 = Some rs \<and> length rs \<le> 3 \<and> (\<forall>r \<in> set rs. good_result r)"
proof -
  have "\<forall>m \<in> set [0 ..< length demo_page]. \<forall>t. starts_with (drop m demo_page) link_marker \<longrightarrow>
     rfind_sub ''<a '' (take m demo_page) = Some t \<longrightarrow> CHR ''>'' \<notin> set (str_slice demo_page t m)"
    by (simp add: demo_page_def link_marker_def upt_rec starts_with_def str_slice_def rfind_sub_def)
  then have "well_marked demo_page" by (simp add: well_marked_def)
  then show ?thesis by (rule ddg_scan_ends)
qed

text \<open>
  The scan never ends on some pages: when the marker comes after the end of the last anchor's
  tag and the anchor is not closed, the position goes back to the tag and the same marker is
  found again for ever, so the tool's call does not answer.\<close>

definition trap_page :: string where
  "trap_page = ''<a href='' @ [CHR 0x22] @ ''u'' @ [CHR 0x22] @ ''>'' @ link_marker"

theorem ddg_scan_hangs:
  assumes "from_str c params = Inr val" and "as_str (jget val ''query'') = Some q"
    and "as_u64 (jget val ''max_results'') = Some n" "0 < n"
    and "ht_spawn H ''curl'' (ddg_args q) s = (s', Inr out)" "out_success out" "out_stdout out = trap_page"
  shows "parse_ddg_html trap_page n = None \<and> web_search_call c H params s = None"
proof -
  have a: "ddg_next trap_page 0 = Some (12, None)" "ddg_next trap_page 12 = Some (12, None)"
    by (simp_all add: trap_page_def link_marker_def ddg_next_def find_from_def rfind_sub_def href_of_def
        starts_with_def Let_def)
  have "ddg_loop trap_page n 12 [] = None" by (rule ddg_loop_stuck [OF a(2)]) (simp add: assms(4))
  then have "parse_ddg_html trap_page n = None"
    using a(1) assms(4) by (simp add: parse_ddg_html_def ddg_loop.simps [of trap_page n 0])
  with assms show ?thesis by (simp add: web_search_call_def search_ddg_def)
qed

definition trap_host :: "unit host" where
  "trap_host =
     \<lparr>ht_spawn = (\<lambda>_ _ s. (s, Inr \<lparr>out_success = True, out_stdout = trap_page, out_stderr = []\<rparr>)),
      ht_get = (\<lambda>_ _ s. (s, Inl (SendError ''offline''))), ht_pinchtab = (\<lambda>_ _ _ s. (s, Inl (SendError ''offline'')))\<rparr>"

theorem ddg_scan_hangs_witness:
  "web_search_call note_codec trap_host
     (to_str note_codec (JObj [(''max_results'', JInt 1), (''query'', JStr ''x'')])) () = None"
proof -
  let ?val = "JObj [(''max_results'', JInt 1), (''query'', JStr ''x'')]"
  have "wf_json ?val" "float_free ?val" by (simp_all add: sorted_keys_def less_char_def)
  from codec_okD(1) [OF note_codec_ok this]
  have p: "from_str note_codec (to_str note_codec ?val) = Inr ?val" .
  have q: "as_str (jget ?val ''query'') = Some ''x''" "as_u64 (jget ?val ''max_results'') = Some 1" by simp_all
  have h: "ht_spawn trap_host ''curl'' (ddg_args ''x'') () =
      ((), Inr \<lparr>out_success = True, out_stdout = trap_page, out_stderr = []\<rparr>)" by (simp add: trap_host_def)
  from ddg_scan_hangs [OF p q _ h] show ?thesis by simp
qed

text \<open>Entities are decoded one after the other, so an escaped entity is decoded twice.\<close>

lemma entities_decoded_twice: "decode_entities ''&amp;lt;b&amp;gt;'' = ''<b>''"
  by (simp add: decode_entities_def replace_all.simps)

end
