(* ===== verification/Logos_Tools.thy ===== *)
theory Logos_Tools
  imports Logos_Memory Logos_Sandbox Logos_System Logos_Web
begin

text \<open>
  The built-in tools of \<open>logos-kernel/src/builtin_tools\<close> over the components they share: the
  calls of \<open>memory.rs\<close> and \<open>system.rs\<close>, the tool table that the boot registers them in, and the
  state they act on.
\<close>

section \<open>The shared components\<close>

text \<open>
  What the kernel keeps besides its tables in memory: the databases, the sessions (in
  \<open>memory\<close>), the sandbox with the file system, and the host. \<open>libs\<close> holds everything outside.
\<close>

record ('f, 'g, 'd, 's) core =
  co_system :: "'f sys_db"
  co_memory :: "('g, 'd) memory"
  co_sandbox :: sandbox
  co_host :: 's

record ('f, 'g, 'd, 'v, 't, 's) libs =
  lb_sys :: "('f, 't) sys_lib"
  lb_mm :: "('g, 't) mm_lib"
  lb_codec :: codec
  lb_order :: key_order
  lb_dirs :: dir_order
  lb_l2 :: "('d, 'v) lance option"
  lb_rfc3339 :: "nat \<Rightarrow> string"
  lb_exec :: executor
  lb_host :: "'s host"
  lb_sandbox_root :: fpath

definition system_part :: "(('f, 'g, 'd, 's) core, 'f sys_db) lens" where
  "system_part = \<lparr>lget = co_system, lput = (\<lambda>x s. s\<lparr>co_system := x\<rparr>)\<rparr>"

definition memory_part :: "(('f, 'g, 'd, 's) core, ('g, 'd) memory) lens" where
  "memory_part = \<lparr>lget = co_memory, lput = (\<lambda>x s. s\<lparr>co_memory := x\<rparr>)\<rparr>"

definition sandbox_part :: "(('f, 'g, 'd, 's) core, sandbox) lens" where
  "sandbox_part = \<lparr>lget = co_sandbox, lput = (\<lambda>x s. s\<lparr>co_sandbox := x\<rparr>)\<rparr>"

definition host_part :: "(('f, 'g, 'd, 's) core, 's) lens" where
  "host_part = \<lparr>lget = co_host, lput = (\<lambda>x s. s\<lparr>co_host := x\<rparr>)\<rparr>"

definition session_part :: "(('f, 'g, 'd, 's) core, 'd session_store) lens" where
  "session_part = \<lparr>lget = (\<lambda>s. mm_sessions (co_memory s)),
     lput = (\<lambda>x s. s\<lparr>co_memory := (co_memory s)\<lparr>mm_sessions := x\<rparr>\<rparr>)\<rparr>"

lemma core_lenses:
  "lens_ok system_part" "lens_ok memory_part" "lens_ok sandbox_part" "lens_ok host_part" "lens_ok session_part"
  by (simp_all add: lens_ok_def system_part_def memory_part_def sandbox_part_def host_part_def session_part_def)

lemmas core_parts = system_part_def memory_part_def sandbox_part_def host_part_def session_part_def

section \<open>Schemas\<close>

definition prop_of :: "string \<Rightarrow> (string \<times> json) list \<Rightarrow> json" where
  "prop_of ty extra = jobj ((''type'', JStr ty) # extra)"

definition described :: "string \<Rightarrow> string \<Rightarrow> json" where
  "described ty d = prop_of ty [(''description'', JStr d)]"

definition tool_schema :: "string \<Rightarrow> string \<Rightarrow> (string \<times> json) list \<Rightarrow> string list option \<Rightarrow> json" where
  "tool_schema n d props required = jobj
     [(''name'', JStr n), (''description'', JStr d),
      (''parameters'', jobj ([(''type'', JStr ''object''), (''properties'', jobj props)]
         @ (case required of None \<Rightarrow> [] | Some rs \<Rightarrow> [(''required'', JArr (map JStr rs))])))]"

section \<open>memory.rs\<close>

definition memory_tool ::
  "('f, 'g, 'd, 'v, 't, 's) libs \<Rightarrow> 't world \<Rightarrow> string \<Rightarrow> json \<Rightarrow> ('f, 'g, 'd, 's) core proc_tool" where
  "memory_tool B w n schema =
     \<lparr>pt_name = n, pt_schema = schema,
      pt_call = (\<lambda>params. zoom memory_part (handle_call (lb_mm B) w n params))\<rparr>"

definition memory_search_tool ::
  "('f, 'g, 'd, 'v, 't, 's) libs \<Rightarrow> 't world \<Rightarrow> ('f, 'g, 'd, 's) core proc_tool" where
  "memory_search_tool B w = memory_tool B w ''memory.search''
     (tool_schema ''memory.search'' ''Full-text search over chat messages.''
       [(''chat_id'', described ''string'' ''Group chat ID''), (''query'', described ''string'' ''Search query''),
        (''limit'', prop_of ''integer'' [(''default'', JInt 10)])] (Some [''chat_id'', ''query'']))"

definition memory_range_fetch_tool ::
  "('f, 'g, 'd, 'v, 't, 's) libs \<Rightarrow> 't world \<Rightarrow> ('f, 'g, 'd, 's) core proc_tool" where
  "memory_range_fetch_tool B w = memory_tool B w ''memory.range_fetch''
     (tool_schema ''memory.range_fetch'' ''Fetch messages within msg_id ranges with pagination.''
       [(''chat_id'', described ''string'' ''Group chat ID''),
        (''ranges'', prop_of ''array''
           [(''items'', prop_of ''array'' [(''items'', prop_of ''integer'' [])]),
            (''description'', JStr ''Array of [start, end] msg_id pairs'')]),
        (''limit'', prop_of ''integer'' [(''default'', JInt 50)]),
        (''offset'', prop_of ''integer'' [(''default'', JInt 0)])] (Some [''chat_id'', ''ranges'']))"

section \<open>system.rs\<close>

definition search_tasks_call ::
  "('f, 'g, 'd, 'v, 't, 's) libs \<Rightarrow> 't world \<Rightarrow> string \<Rightarrow> (('f, 'g, 'd, 's) core, string) vfs_step" where
  "search_tasks_call B w params =
     andthen (lift_result (map_err InvalidJson (from_str (lb_codec B) params))) (\<lambda>val.
     zoom system_part (search_tasks (lb_sys B) w (str_field val ''query'' [])
       (opt_or (as_i64 (jget val ''limit'')) 10)))"

definition search_tasks_tool ::
  "('f, 'g, 'd, 'v, 't, 's) libs \<Rightarrow> 't world \<Rightarrow> ('f, 'g, 'd, 's) core proc_tool" where
  "search_tasks_tool B w =
     \<lparr>pt_name = ''system.search_tasks'',
      pt_schema = tool_schema ''system.search_tasks''
        ''Search tasks and anchors for relevant experience. Returns L1 (anchor facts) and L2 (task metadata) hits.''
        [(''query'', described ''string'' ''Search query (keyword or error snippet)''),
         (''limit'', prop_of ''integer'' [(''default'', JInt 10)])] (Some [''query'']),
      pt_call = search_tasks_call B w\<rparr>"

text \<open>
  The session of the trigger message, or the active one of the chat; both the tool and
  \<open>context.rs\<close> begin with it.
\<close>

definition current_session ::
  "('f, 'g, 'd, 'v, 't, 's) libs \<Rightarrow> string \<Rightarrow> int option \<Rightarrow> (('f, 'g, 'd, 's) core, json) vfs_step" where
  "current_session B chat_id msg_id =
     andthen (case msg_id of
         Some mid \<Rightarrow> zoom session_part (get_session_for_msg (lb_l2 B) mid)
       | None \<Rightarrow> zoom session_part (query (get_active_session (lb_order B) chat_id))) (\<lambda>x.
     ret (case x of None \<Rightarrow> JNull | Some x \<Rightarrow> sess_to_json (lb_rfc3339 B) x))"

definition get_context_call ::
  "('f, 'g, 'd, 'v, 't, 's) libs \<Rightarrow> 't world \<Rightarrow> string \<Rightarrow> (('f, 'g, 'd, 's) core, string) vfs_step" where
  "get_context_call B w params =
     andthen (lift_result (map_err InvalidJson (from_str (lb_codec B) params))) (\<lambda>val.
     (let chat_id = str_field val ''chat_id'' []; sender_uid = str_field val ''sender_uid'' [];
          msg_id = as_i64 (jget val ''msg_id'') in
      andthen (current_session B chat_id msg_id) (\<lambda>session.
      attempt (zoom memory_part (memory_read (lb_mm B) w [''groups'', chat_id, ''summary'', ''short'', ''latest''])) (\<lambda>summary.
      ret (to_str (lb_codec B) (jobj
        [(''session'', session),
         (''recent_summary'', unwrap_or (from_str (lb_codec B) (unwrap_or summary ''null'')) JNull),
         (''sender_uid'', JStr sender_uid),
         (''persona_paths'', jobj
            [(''long'', JStr (''logos://users/'' @ sender_uid @ ''/persona/long.md'')),
             (''mid'', JStr (''logos://users/'' @ sender_uid @ ''/persona/mid/''))])]))))))"

definition get_context_tool ::
  "('f, 'g, 'd, 'v, 't, 's) libs \<Rightarrow> 't world \<Rightarrow> ('f, 'g, 'd, 's) core proc_tool" where
  "get_context_tool B w =
     \<lparr>pt_name = ''system.get_context'',
      pt_schema = tool_schema ''system.get_context''
        ''Assemble context for an agent turn: session + recent summary + sender persona.''
        [(''chat_id'', described ''string'' ''Group chat ID''),
         (''sender_uid'', described ''string'' (''Message sender'' @ [CHR 0x27] @ ''s user ID'')),
         (''msg_id'', described ''integer'' ''Trigger message ID (optional)'')] (Some [''chat_id'', ''sender_uid'']),
      pt_call = get_context_call B w\<rparr>"

text \<open>\<open>system.complete\<close>: the log is written below a path of one segment, and its failure is only reported.\<close>

definition complete_params_of :: "json \<Rightarrow> complete_params" where
  "complete_params_of val =
     \<lparr>cp_task_id = str_field val ''task_id'' [], cp_summary = str_field val ''summary'' [],
      cp_reply = str_field val ''reply'' [], cp_anchor = opt_or (as_bool (jget val ''anchor'')) False,
      cp_anchor_facts = str_field val ''anchor_facts'' ''[]'', cp_task_log = str_field val ''task_log'' [],
      cp_sleep_reason = str_field val ''sleep_reason'' [],
      cp_sleep_retry = opt_or (as_bool (jget val ''sleep_retry'')) False,
      cp_resume_task_id = str_field val ''resume'' [],
      cp_plan_todo = List.map_filter as_str (opt_or (as_array (jget (jget val ''plan'') ''todo'')) [])\<rparr>"

definition write_task_log ::
  "('f, 'g, 'd, 'v, 't, 's) libs \<Rightarrow> 't world \<Rightarrow> complete_result \<Rightarrow> (('f, 'g, 'd, 's) core, unit) vfs_step" where
  "write_task_log B w r =
     (if cr_task_log r \<noteq> [] \<and> cr_task_id r \<noteq> []
      then ignore_errors (zoom sandbox_part
             (sandbox_write (at ''log'' (w_flt w)) (lb_sandbox_root B) [cr_task_id r @ ''/log''] (cr_task_log r)))
      else ret ())"

definition complete_call ::
  "('f, 'g, 'd, 'v, 't, 's) libs \<Rightarrow> 't world \<Rightarrow> string \<Rightarrow> (('f, 'g, 'd, 's) core, string) vfs_step" where
  "complete_call B w params =
     andthen (lift_result (map_err InvalidJson (from_str (lb_codec B) params))) (\<lambda>val.
     andthen (zoom system_part (complete_execute (lb_sys B) w (complete_params_of val))) (\<lambda>result.
     andthen (write_task_log B w result) (\<lambda>_.
     ret (to_str (lb_codec B) (jobj
       [(''reply'', JStr (cr_reply result)), (''anchor_id'', JStr (cr_anchor_id result)),
        (''task_id'', JStr (cr_task_id result))])))))"

definition complete_tool ::
  "('f, 'g, 'd, 'v, 't, 's) libs \<Rightarrow> 't world \<Rightarrow> ('f, 'g, 'd, 's) core proc_tool" where
  "complete_tool B w =
     \<lparr>pt_name = ''system.complete'',
      pt_schema = tool_schema ''system.complete''
        ''Turn terminator. Finishes/sleeps/resumes a task. The mandatory final call of every agent turn.''
        [(''task_id'', described ''string'' ''Current task ID''),
         (''summary'', described ''string'' ''What happened this turn''),
         (''reply'', described ''string'' ''Message to deliver to the user (optional)''),
         (''anchor'', prop_of ''boolean'' [(''description'', JStr ''Create a completion anchor''), (''default'', JBool False)]),
         (''anchor_facts'', described ''string'' ''JSON array of fact objects for the anchor''),
         (''task_log'', described ''string'' ''Execution log to append to sandbox''),
         (''sleep_reason'', described ''string'' ''If set, task sleeps instead of finishing''),
         (''sleep_retry'', prop_of ''boolean'' [(''description'', JStr ''Hint: adapter should auto-retry''), (''default'', JBool False)]),
         (''resume'', described ''string'' ''Task ID to resume (abandons current task)''),
         (''plan'', prop_of ''object''
            [(''description'', JStr ''Plan mode: submit subtasks for scheduler''),
             (''properties'', jobj [(''todo'', prop_of ''array''
                [(''items'', prop_of ''string'' []),
                 (''description'', JStr ''Ordered list of subtask descriptions'')])])])]
        (Some [''task_id'', ''summary'']),
      pt_call = complete_call B w\<rparr>"

section \<open>web_search.rs and browse.rs\<close>

text \<open>Nothing is claimed of a call of \<open>web_search\<close> that does not return.\<close>

definition web_search_tool :: "('f, 'g, 'd, 'v, 't, 's) libs \<Rightarrow> ('f, 'g, 'd, 's) core proc_tool" where
  "web_search_tool B =
     \<lparr>pt_name = ''web_search'',
      pt_schema = tool_schema ''web_search''
        ''Search the web using DuckDuckGo, Wikipedia, and StackOverflow. Returns results from all three sources.''
        [(''query'', described ''string'' ''Search query''),
         (''max_results'', prop_of ''integer'' [(''default'', JInt 3), (''description'', JStr ''Max results per source (default 3)'')])]
        (Some [''query'']),
      pt_call = (\<lambda>params. zoom host_part (\<lambda>s. the (web_search_call (lb_codec B) (lb_host B) params s)))\<rparr>"

definition browse_tool :: "('f, 'g, 'd, 'v, 't, 's) libs \<Rightarrow> ('f, 'g, 'd, 's) core proc_tool" where
  "browse_tool B =
     \<lparr>pt_name = ''browse'',
      pt_schema = tool_schema ''browse''
        ''Control a browser via PinchTab. Navigate to URLs, read page content as Accessibility Tree, click elements, or type text.''
        [(''url'', described ''string'' ''URL to navigate to (triggers navigation + snapshot)''),
         (''action'', prop_of ''string''
            [(''enum'', JArr [JStr ''snap'', JStr ''click'', JStr ''type'']), (''default'', JStr ''snap''),
             (''description'', JStr ''Action: snap (default, get page tree), click, type'')]),
         (''ref'', described ''string'' (''Element ref (e.g. '' @ [CHR 0x27] @ ''e6'' @ [CHR 0x27] @ '') for click/type actions'')),
         (''text'', described ''string'' ''Text to type (for type action)'')] None,
      pt_call = (\<lambda>params. zoom host_part (browse_call (lb_codec B) (lb_host B) params))\<rparr>"

section \<open>The tool table\<close>

definition on_core :: "sandbox proc_tool \<Rightarrow> ('f, 'g, 'd, 's) core proc_tool" where
  "on_core tool =
     \<lparr>pt_name = pt_name tool, pt_schema = pt_schema tool,
      pt_call = (\<lambda>params. zoom sandbox_part (pt_call tool params))\<rparr>"

definition builtin_tools ::
  "('f, 'g, 'd, 'v, 't, 's) libs \<Rightarrow> 't world \<Rightarrow> bool \<Rightarrow> ('f, 'g, 'd, 's) core proc_tool list" where
  "builtin_tools B w browser =
     [memory_search_tool B w, memory_range_fetch_tool B w, search_tasks_tool B w, get_context_tool B w,
      complete_tool B w, web_search_tool B] @ (if browser then [browse_tool B] else [])"

text \<open>The boot registers the built-in tools and then those restored from \<open>proc-store\<close>.\<close>

definition tool_table ::
  "('f, 'g, 'd, 'v, 't, 's) libs \<Rightarrow> 't world \<Rightarrow> bool \<Rightarrow> sandbox proc_tool list \<Rightarrow> ('f, 'g, 'd, 's) core tools" where
  "tool_table B w browser external =
     fold proc_register (builtin_tools B w browser @ map on_core external) proc_new"

section \<open>Properties\<close>

lemma log_path_unregistered:
  assumes "sb_task_agent sb (t @ ''/log'') = None"
  shows "fst (sandbox_write flt root [t @ ''/log''] content sb) = sb"
proof -
  have "t @ ''/log'' \<noteq> ''__system__''"
  proof
    assume "t @ ''/log'' = ''__system__''"
    then have "last (t @ ''/log'') = last ''__system__''" by (simp only:)
    then show False by simp
  qed
  with assms show ?thesis
    by (simp add: sandbox_write_def resolve_path_def andthen_def)
qed

text \<open>
  C40: The log of a turn is never stored: the tool asks the sandbox for a path of the single segment
  \<open>{task_id}/log\<close>, which is no task, so as long as no task is registered under such a name the
  files and the sandbox stay as they were, and the answer is that of the turn all the same.\<close>

theorem task_log_lost:
  assumes "\<forall>t. sb_task_agent (co_sandbox s) (t @ ''/log'') = None"
    and "complete_call B w params s = (s', r)"
  shows "co_sandbox s' = co_sandbox s \<and>
    (\<forall>val db' res. from_str (lb_codec B) params = Inr val \<longrightarrow>
       complete_execute (lb_sys B) w (complete_params_of val) (co_system s) = (db', Inr res) \<longrightarrow>
       s' = s\<lparr>co_system := db'\<rparr> \<and> is_ok r)"
proof -
  have log: "write_task_log B w res x = (x, Inr ())" if "co_sandbox x = co_sandbox s" for res x
  proof -
    have "fst (sandbox_write flt root [t @ ''/log''] content (co_sandbox x)) = co_sandbox x" for flt root t content
      using assms(1) that by (simp add: log_path_unregistered)
    then have "fst (zoom sandbox_part (sandbox_write flt root [t @ ''/log''] content) x) = x" for flt root t content
      by (simp add: zoom_def sandbox_part_def split: prod.splits) (metis fst_conv core.surjective core.update_convs(3))
    then show ?thesis by (simp add: write_task_log_def ignore_errors_eq ret_def)
  qed
  show ?thesis
    using assms(2) log
    by (auto simp: complete_call_def andthen_def lift_result_def zoom_def system_part_def ret_def
        split: prod.splits sum.splits)
qed

definition demo_libs :: "((nat \<times> string list) list, unit, unit, nat, nat, unit) libs" where
  "demo_libs = \<lparr>lb_sys = demo_lib, lb_mm = demo_mm_lib, lb_codec = note_codec,
     lb_order = sorted_list_of_set, lb_dirs = sorted_list_of_set, lb_l2 = None, lb_rfc3339 = nat_str,
     lb_exec = host_executor no_faults (\<lambda>_ _ fs. (fs, Inl ''no shell'')) [''r''],
     lb_host = trap_host, lb_sandbox_root = [''r'']\<rparr>"

lemma demo_libs_simps [simp]:
  "lb_sys demo_libs = demo_lib" "lb_mm demo_libs = demo_mm_lib" "lb_codec demo_libs = note_codec"
  "lb_order demo_libs = sorted_list_of_set" "lb_l2 demo_libs = None" "lb_sandbox_root demo_libs = [''r'']"
  by (simp_all add: demo_libs_def)

definition demo_core :: "task_row list \<Rightarrow> ((nat \<times> string list) list, unit, unit, unit) core" where
  "demo_core ts = \<lparr>co_system = demo_db ts, co_memory = demo_memory,
     co_sandbox = \<lparr>sb_fs = [[] \<mapsto> Dir], sb_containers = Map.empty, sb_task_agent = Map.empty\<rparr>, co_host = ()\<rparr>"

theorem task_log_lost_witness:
  "co_sandbox (fst (complete_call demo_libs (still 1)
     (to_str note_codec (JObj [(''task_id'', JStr ''t''), (''task_log'', JStr ''did it'')]))
     (demo_core [demo_task ''t'' ''active'']))) = co_sandbox (demo_core [demo_task ''t'' ''active''])"
  by (rule task_log_lost [OF _ prod.collapse [symmetric], THEN conjunct1]) (simp add: demo_core_def)

end
