(* ===== verification/Logos_Token.thy ===== *)
theory Logos_Token
  imports Logos_Vfs
begin

text \<open>
  The one-time token registry of \<open>logos-kernel/src/token.rs\<close>. Instants are nanoseconds.
  The three lock acquisitions of \<open>consume\<close> (take the pending entry, draw a key, insert the
  session) are separate events of the machine \<open>token_exec\<close>, so its runs are all the
  interleavings of concurrent handshakes with the other operations.
\<close>

section \<open>State\<close>

datatype agent_role = User | Admin

definition agent_role_from_str :: "string \<Rightarrow> agent_role" where
  "agent_role_from_str s = (if s = ''admin'' then Admin else User)"

fun is_admin :: "agent_role \<Rightarrow> bool" where
  "is_admin Admin = True"
| "is_admin User = False"

record session_info =
  si_task_id :: string
  si_agent_config_id :: string
  si_role :: agent_role

record pending_entry =
  pe_task_id :: string
  pe_agent_config_id :: string
  pe_role :: agent_role

record session_entry =
  se_task_id :: string
  se_agent_config_id :: string
  se_role :: agent_role
  se_created_at :: nat

record token_registry =
  tr_pending :: "string \<rightharpoonup> pending_entry"
  tr_sessions :: "string \<rightharpoonup> session_entry"
  tr_counter :: "64 word"

definition SESSION_TTL :: nat where
  "SESSION_TTL = 24 * 3600 * 1000000000"

definition registry_new :: token_registry where
  "registry_new = \<lparr>tr_pending = Map.empty, tr_sessions = Map.empty, tr_counter = 1\<rparr>"

section \<open>Operations\<close>

definition token_register ::
  "string \<Rightarrow> string \<Rightarrow> string \<Rightarrow> agent_role \<Rightarrow> token_registry \<Rightarrow> token_registry" where
  "token_register token task_id agent_config_id role r =
     r\<lparr>tr_pending := (tr_pending r)(token \<mapsto>
        \<lparr>pe_task_id = task_id, pe_agent_config_id = agent_config_id, pe_role = role\<rparr>)\<rparr>"

definition token_revoke :: "string \<Rightarrow> token_registry \<Rightarrow> token_registry" where
  "token_revoke token r = r\<lparr>tr_pending := (tr_pending r)(token := None)\<rparr>"

definition session_key :: "64 word \<Rightarrow> string" where
  "session_key n = ''s-'' @ nat_str (unat n)"

definition session_of :: "pending_entry \<Rightarrow> nat \<Rightarrow> session_entry" where
  "session_of e now = \<lparr>se_task_id = pe_task_id e, se_agent_config_id = pe_agent_config_id e,
     se_role = pe_role e, se_created_at = now\<rparr>"

definition token_consume ::
  "string \<Rightarrow> nat \<Rightarrow> token_registry \<Rightarrow> token_registry \<times> (string \<times> string \<times> string) option" where
  "token_consume token now r =
     (case tr_pending r token of
        None \<Rightarrow> (r, None)
      | Some entry \<Rightarrow>
          (let key = session_key (tr_counter r) in
           (r\<lparr>tr_pending := (tr_pending r)(token := None),
              tr_counter := tr_counter r + 1,
              tr_sessions := (tr_sessions r)(key \<mapsto> session_of entry now)\<rparr>,
            Some (key, pe_task_id entry, pe_agent_config_id entry))))"

definition token_resolve :: "token_registry \<Rightarrow> string \<Rightarrow> string option" where
  "token_resolve r key = map_option se_task_id (tr_sessions r key)"

definition token_resolve_info :: "token_registry \<Rightarrow> string \<Rightarrow> session_info option" where
  "token_resolve_info r key = map_option (\<lambda>e. \<lparr>si_task_id = se_task_id e,
     si_agent_config_id = se_agent_config_id e, si_role = se_role e\<rparr>) (tr_sessions r key)"

text \<open>\<open>duration_since\<close> is zero for a later instant, as the subtraction of naturals is.\<close>

definition cleanup_expired :: "nat \<Rightarrow> token_registry \<Rightarrow> token_registry" where
  "cleanup_expired now r =
     r\<lparr>tr_sessions := map_retain (\<lambda>_ e. now - se_created_at e < SESSION_TTL) (tr_sessions r)\<rparr>"

section \<open>Interleaved handshakes\<close>

datatype handshake_phase = Taken pending_entry | Keyed string pending_entry

datatype token_event =
    EvRegister string string string agent_role
  | EvRevoke string
  | EvTake nat string
  | EvKey nat
  | EvBind nat nat
  | EvCleanup nat

text \<open>
  Beside the registry: how far each client's handshake is, and two ghosts, the number of
  keys drawn and the tokens taken.
\<close>

record token_sys =
  ts_reg :: token_registry
  ts_inflight :: "nat \<rightharpoonup> handshake_phase"
  ts_allocs :: nat
  ts_consumed :: "string list"

definition token_init :: token_sys where
  "token_init = \<lparr>ts_reg = registry_new, ts_inflight = Map.empty, ts_allocs = 0, ts_consumed = []\<rparr>"

fun token_exec :: "token_sys \<Rightarrow> token_event \<Rightarrow> token_sys" where
  "token_exec s (EvRegister tok task agent role) =
     s\<lparr>ts_reg := token_register tok task agent role (ts_reg s)\<rparr>"
| "token_exec s (EvRevoke tok) = s\<lparr>ts_reg := token_revoke tok (ts_reg s)\<rparr>"
| "token_exec s (EvTake c tok) =
     (case tr_pending (ts_reg s) tok of
        None \<Rightarrow> s
      | Some e \<Rightarrow>
          (if ts_inflight s c \<noteq> None then s
           else s\<lparr>ts_reg := token_revoke tok (ts_reg s),
                  ts_inflight := (ts_inflight s)(c \<mapsto> Taken e),
                  ts_consumed := ts_consumed s @ [tok]\<rparr>))"
| "token_exec s (EvKey c) =
     (case ts_inflight s c of
        Some (Taken e) \<Rightarrow>
          s\<lparr>ts_reg := (ts_reg s)\<lparr>tr_counter := tr_counter (ts_reg s) + 1\<rparr>,
            ts_inflight := (ts_inflight s)(c \<mapsto> Keyed (session_key (tr_counter (ts_reg s))) e),
            ts_allocs := Suc (ts_allocs s)\<rparr>
      | _ \<Rightarrow> s)"
| "token_exec s (EvBind c now) =
     (case ts_inflight s c of
        Some (Keyed key e) \<Rightarrow>
          s\<lparr>ts_reg := (ts_reg s)\<lparr>tr_sessions := (tr_sessions (ts_reg s))(key \<mapsto> session_of e now)\<rparr>,
            ts_inflight := (ts_inflight s)(c := None)\<rparr>
      | _ \<Rightarrow> s)"
| "token_exec s (EvCleanup now) = s\<lparr>ts_reg := cleanup_expired now (ts_reg s)\<rparr>"

lemma session_key_inj [simp]: "session_key a = session_key b \<longleftrightarrow> a = b"
  by (simp add: session_key_def word_unat_eq_iff)

text \<open>Keys that have been drawn, as long as the 64-bit counter has not wrapped.\<close>

definition drawn :: "nat \<Rightarrow> string \<Rightarrow> bool" where
  "drawn n k \<longleftrightarrow> (\<exists>w. k = session_key w \<and> unat w \<le> n)"

definition keys_fresh :: "token_sys \<Rightarrow> bool" where
  "keys_fresh s \<longleftrightarrow>
     (ts_allocs s < 2 ^ 64 - 1 \<longrightarrow>
        unat (tr_counter (ts_reg s)) = Suc (ts_allocs s) \<and>
        (\<forall>k \<in> dom (tr_sessions (ts_reg s)). drawn (ts_allocs s) k) \<and>
        (\<forall>c k e. ts_inflight s c = Some (Keyed k e) \<longrightarrow>
           drawn (ts_allocs s) k \<and> k \<notin> dom (tr_sessions (ts_reg s)) \<and>
           (\<forall>c' e'. ts_inflight s c' = Some (Keyed k e') \<longrightarrow> c' = c)))"

lemma drawn_mono: "drawn n k \<Longrightarrow> drawn (Suc n) k"
  by (auto simp: drawn_def)

lemma drawn_next: "unat w = Suc n \<Longrightarrow> drawn (Suc n) (session_key w) \<and> \<not> drawn n (session_key w)"
  by (auto simp: drawn_def)

lemma keys_fresh_init: "keys_fresh token_init"
  by (simp add: keys_fresh_def token_init_def registry_new_def)

lemma keys_fresh_key:
  assumes "keys_fresh s" and "ts_inflight s c = Some (Taken e)"
  shows "keys_fresh (token_exec s (EvKey c))"
proof (cases "Suc (ts_allocs s) < 2 ^ 64 - 1")
  case True
  let ?w = "tr_counter (ts_reg s)"
  from True assms(1) have inv: "unat ?w = Suc (ts_allocs s)"
    "\<forall>k \<in> dom (tr_sessions (ts_reg s)). drawn (ts_allocs s) k"
    "\<forall>c k e. ts_inflight s c = Some (Keyed k e) \<longrightarrow> drawn (ts_allocs s) k \<and>
       k \<notin> dom (tr_sessions (ts_reg s)) \<and> (\<forall>c' e'. ts_inflight s c' = Some (Keyed k e') \<longrightarrow> c' = c)"
    by (auto simp: keys_fresh_def)
  from inv(1) True have "unat (?w + 1) = Suc (Suc (ts_allocs s))"
    by (simp add: unat_word_ariths)
  with drawn_next [OF inv(1)] inv(2,3) assms(2) show ?thesis
    by (fastforce simp: keys_fresh_def intro: drawn_mono)
qed (use assms in \<open>simp add: keys_fresh_def\<close>)

lemma keys_fresh_step: "keys_fresh s \<Longrightarrow> keys_fresh (token_exec s e)"
proof (cases e)
  case (EvKey c)
  assume "keys_fresh s"
  with EvKey show ?thesis
    using keys_fresh_key by (cases "ts_inflight s c") (auto split: handshake_phase.splits)
qed (fastforce simp: keys_fresh_def token_register_def token_revoke_def cleanup_expired_def
       dom_map_retain split: option.splits handshake_phase.splits if_splits)+

interpretation fresh: machine token_exec keys_fresh
  by unfold_locales (rule keys_fresh_step)

lemma run_keys_fresh: "keys_fresh (foldl token_exec token_init es)"
  by (rule fresh.run_inv [OF keys_fresh_init])

lemma ts_allocs_mono: "ts_allocs s \<le> ts_allocs (foldl token_exec s es)"
proof (induction es arbitrary: s)
  case (Cons e es)
  have "ts_allocs s \<le> ts_allocs (token_exec s e)"
    by (cases e) (auto split: option.splits handshake_phase.splits)
  with Cons.IH [of "token_exec s e"] show ?case by simp
qed simp

text \<open>Where entries come from, and how often a token is taken, read off the event log.\<close>

definition registered :: "token_event list \<Rightarrow> pending_entry \<Rightarrow> bool" where
  "registered es e \<longleftrightarrow>
     (\<exists>tok. EvRegister tok (pe_task_id e) (pe_agent_config_id e) (pe_role e) \<in> set es)"

fun phase_entry :: "handshake_phase \<Rightarrow> pending_entry" where
  "phase_entry (Taken e) = e"
| "phase_entry (Keyed k e) = e"

definition session_origin :: "token_event list \<Rightarrow> session_entry \<Rightarrow> bool" where
  "session_origin es x \<longleftrightarrow>
     (\<exists>tok. EvRegister tok (se_task_id x) (se_agent_config_id x) (se_role x) \<in> set es)"

definition provenance :: "token_event list \<Rightarrow> token_sys \<Rightarrow> bool" where
  "provenance es s \<longleftrightarrow>
     (\<forall>tok e. tr_pending (ts_reg s) tok = Some e \<longrightarrow> registered es e) \<and>
     (\<forall>c ph. ts_inflight s c = Some ph \<longrightarrow> registered es (phase_entry ph)) \<and>
     (\<forall>k x. tr_sessions (ts_reg s) k = Some x \<longrightarrow> session_origin es x)"

fun registers :: "string \<Rightarrow> token_event \<Rightarrow> bool" where
  "registers tok (EvRegister tok' _ _ _) = (tok = tok')"
| "registers tok _ = False"

definition one_time :: "token_event list \<Rightarrow> token_sys \<Rightarrow> bool" where
  "one_time es s \<longleftrightarrow>
     (\<forall>tok. count_list (ts_consumed s) tok + (if tr_pending (ts_reg s) tok = None then 0 else 1)
          \<le> length (filter (registers tok) es))"

lemma registered_mono: "registered es e \<Longrightarrow> registered (es @ [x]) e"
  by (auto simp: registered_def)

lemma registered_now:
  "registered (es @ [EvRegister tok task agent role])
     \<lparr>pe_task_id = task, pe_agent_config_id = agent, pe_role = role\<rparr>"
  by (auto simp: registered_def)

lemma session_origin_of: "session_origin es (session_of e now) \<longleftrightarrow> registered es e"
  by (simp add: session_origin_def registered_def session_of_def)

lemma session_origin_mono: "session_origin es e \<Longrightarrow> session_origin (es @ [x]) e"
  by (auto simp: session_origin_def)

lemma provenance_mono: "provenance es s \<Longrightarrow> provenance (es @ [x]) s"
  unfolding provenance_def by (blast intro: registered_mono session_origin_mono)

lemma provenance_step:
  assumes "provenance es s"
  shows "provenance (es @ [e]) (token_exec s e)"
proof -
  have p: "\<And>tok e'. tr_pending (ts_reg s) tok = Some e' \<Longrightarrow> registered (es @ [e]) e'"
    "\<And>c ph. ts_inflight s c = Some ph \<Longrightarrow> registered (es @ [e]) (phase_entry ph)"
    "\<And>k x. tr_sessions (ts_reg s) k = Some x \<Longrightarrow> session_origin (es @ [e]) x"
    using provenance_mono [OF assms, of e] unfolding provenance_def by blast+
  from p(2) have t: "\<And>c e'. ts_inflight s c = Some (Taken e') \<Longrightarrow> registered (es @ [e]) e'"
    and k: "\<And>c k e'. ts_inflight s c = Some (Keyed k e') \<Longrightarrow> registered (es @ [e]) e'"
    by fastforce+
  show ?thesis
    unfolding provenance_def using p t k
    by (cases e)
       (auto simp: token_register_def token_revoke_def cleanup_expired_def session_origin_of
          registered_now split: option.splits handshake_phase.splits if_splits)
qed

lemma one_time_step:
  assumes "one_time es s"
  shows "one_time (es @ [e]) (token_exec s e)"
  unfolding one_time_def
proof
  fix tok
  have *: "count_list (ts_consumed s) tok + (if tr_pending (ts_reg s) tok = None then 0 else 1)
      \<le> length (filter (registers tok) es)"
    using assms unfolding one_time_def by blast
  then show "count_list (ts_consumed (token_exec s e)) tok
      + (if tr_pending (ts_reg (token_exec s e)) tok = None then 0 else 1)
      \<le> length (filter (registers tok) (es @ [e]))"
    by (cases e)
       (auto simp: token_register_def token_revoke_def cleanup_expired_def
             split: option.splits handshake_phase.splits if_splits)
qed

interpretation origin: logged_machine token_exec token_init provenance
proof
  show "provenance [] token_init"
    by (simp add: provenance_def token_init_def registry_new_def)
qed (rule provenance_step)

interpretation once: logged_machine token_exec token_init one_time
proof
  show "one_time [] token_init"
    by (simp add: one_time_def token_init_def registry_new_def)
qed (rule one_time_step)

lemma session_kept_step:
  assumes "keys_fresh s" and "ts_allocs s < 2 ^ 64 - 1"
    and "tr_sessions (ts_reg s) k = Some x"
    and "\<And>now. e = EvCleanup now \<Longrightarrow> now < se_created_at x + SESSION_TTL"
  shows "tr_sessions (ts_reg (token_exec s e)) k = Some x"
proof (cases e)
  case (EvBind c now)
  with assms(1-3) show ?thesis
    by (auto simp: keys_fresh_def split: option.splits handshake_phase.splits)
qed (use assms(3,4) in \<open>auto simp: token_register_def token_revoke_def cleanup_expired_def SESSION_TTL_def
       split: option.splits handshake_phase.splits\<close>)

lemma session_kept_run:
  assumes "keys_fresh s" and "ts_allocs (foldl token_exec s es) < 2 ^ 64 - 1"
    and "tr_sessions (ts_reg s) k = Some x"
    and "\<And>now. EvCleanup now \<in> set es \<Longrightarrow> now < se_created_at x + SESSION_TTL"
  shows "tr_sessions (ts_reg (foldl token_exec s es)) k = Some x"
  using assms
proof (induction es arbitrary: s)
  case (Cons e es)
  have "ts_allocs s < 2 ^ 64 - 1"
    using Cons.prems(2) ts_allocs_mono [of s "e # es"] by simp
  with Cons.prems have "tr_sessions (ts_reg (token_exec s e)) k = Some x"
    by (intro session_kept_step) auto
  with Cons.prems show ?case
    by (auto intro!: Cons.IH keys_fresh_step)
qed simp

section \<open>Properties\<close>

definition info_of :: "pending_entry \<Rightarrow> session_info" where
  "info_of e = \<lparr>si_task_id = pe_task_id e, si_agent_config_id = pe_agent_config_id e,
     si_role = pe_role e\<rparr>"

lemma resolve_session_of:
  "tr_sessions r k = Some (session_of e now) \<Longrightarrow> token_resolve_info r k = Some (info_of e)"
  by (simp add: token_resolve_info_def session_of_def info_of_def)

lemma bound_session:
  "ts_inflight s c = Some (Keyed key e) \<Longrightarrow>
   tr_sessions (ts_reg (token_exec s (EvBind c now))) key = Some (session_of e now)"
  by simp

lemma keyed_unbound:
  "keys_fresh s \<Longrightarrow> ts_allocs s < 2 ^ 64 - 1 \<Longrightarrow> ts_inflight s c = Some (Keyed key e) \<Longrightarrow>
   tr_sessions (ts_reg s) key = None"
  unfolding keys_fresh_def by (metis domIff)

text \<open>
  C9: A handshake binds a session key nobody holds, in every interleaving of concurrent
  handshakes, registrations, revocations and cleanups (fewer than 2 to the 64, minus 1, keys
  drawn): before the bind the key resolves to nothing; after it the key resolves to the agent and
  role of the token that was taken, and stays so through every further run whose cleanups come
  before the time to live is over; the first cleanup after that removes it.
\<close>

theorem session_lifetime:
  assumes "ts_inflight (foldl token_exec token_init es) c = Some (Keyed key e)"
    and "t = foldl token_exec token_init (es @ EvBind c now # fs)"
    and "ts_allocs t < 2 ^ 64 - 1"
    and "\<forall>now'. EvCleanup now' \<in> set fs \<longrightarrow> now' < now + SESSION_TTL"
  shows "token_resolve_info (ts_reg (foldl token_exec token_init es)) key = None \<and>
    token_resolve_info (ts_reg t) key = Some (info_of e) \<and>
    (\<forall>later \<ge> now + SESSION_TTL.
       token_resolve_info (ts_reg (token_exec t (EvCleanup later))) key = None)"
proof -
  let ?s = "foldl token_exec token_init es"
  let ?b = "token_exec ?s (EvBind c now)"
  have t: "t = foldl token_exec ?b fs" using assms(2) by simp
  have "ts_allocs ?s = ts_allocs ?b" by (simp add: assms(1))
  also have "\<dots> \<le> ts_allocs t" unfolding t by (rule ts_allocs_mono)
  finally have "ts_allocs ?s < 2 ^ 64 - 1" using assms(3) by simp
  then have "tr_sessions (ts_reg ?s) key = None"
    using run_keys_fresh assms(1) by (blast intro: keyed_unbound)
  moreover have "tr_sessions (ts_reg t) key = Some (session_of e now)"
    unfolding t
  proof (rule session_kept_run)
    show "keys_fresh ?b" using run_keys_fresh by (rule keys_fresh_step)
    show "ts_allocs (foldl token_exec ?b fs) < 2 ^ 64 - 1" using assms(3) t by simp
    show "tr_sessions (ts_reg ?b) key = Some (session_of e now)"
      using assms(1) by (rule bound_session)
  qed (use assms(4) in \<open>simp add: session_of_def\<close>)
  ultimately show ?thesis
    by (auto simp: resolve_session_of token_resolve_info_def cleanup_expired_def map_retain_def
          session_of_def info_of_def)
qed

text \<open>Two clients handshake concurrently; the first binds while the second still draws its key.\<close>

definition two_clients :: "token_event list" where
  "two_clients =
     [EvRegister ''a'' ''t1'' ''cfg'' User, EvRegister ''b'' ''t2'' ''cfg'' Admin,
      EvTake 0 ''a'', EvTake 1 ''b'', EvKey 0]"

lemma session_key_1: "session_key 1 = ''s-1''"
  by code_simp

lemma two_clients_run:
  "ts_inflight (foldl token_exec token_init two_clients) 0 =
     Some (Keyed ''s-1'' \<lparr>pe_task_id = ''t1'', pe_agent_config_id = ''cfg'', pe_role = User\<rparr>)"
  by (simp add: two_clients_def token_init_def registry_new_def token_register_def token_revoke_def
       session_key_1)

lemma two_clients_allocs:
  "ts_allocs (foldl token_exec token_init (two_clients @ EvBind 0 5 # [EvKey 1, EvBind 1 6, EvCleanup 7])) = 2"
  by (simp add: two_clients_def token_init_def registry_new_def token_register_def token_revoke_def)

lemma session_lifetime_witness:
  "token_resolve_info (ts_reg (foldl token_exec token_init
     (two_clients @ EvBind 0 5 # [EvKey 1, EvBind 1 6, EvCleanup 7]))) ''s-1'' =
   Some \<lparr>si_task_id = ''t1'', si_agent_config_id = ''cfg'', si_role = User\<rparr>"
  using session_lifetime [OF two_clients_run refl, of 5 "[EvKey 1, EvBind 1 6, EvCleanup 7]"]
    two_clients_allocs
  by (simp add: info_of_def SESSION_TTL_def)

text \<open>
  C19: A token is one-time: in every interleaving, it has been taken by at most as many
  handshakes as it was registered.
\<close>

theorem one_time_tokens:
  "count_list (ts_consumed (foldl token_exec token_init es)) tok
     \<le> length (filter (registers tok) es)"
  using once.run_rel [of es] unfolding one_time_def by (meson add_leD1)

text \<open>
  A session key never resolves to an agent or a role nobody registered: the session's
  task, agent configuration and role are together those of one registration in the log.
\<close>

theorem session_provenance:
  assumes "token_resolve_info (ts_reg (foldl token_exec token_init es)) key = Some i"
  shows "\<exists>tok. EvRegister tok (si_task_id i) (si_agent_config_id i) (si_role i) \<in> set es"
  using assms origin.run_rel [of es]
  by (fastforce simp: token_resolve_info_def provenance_def session_origin_def)

lemma session_provenance_witness:
  "\<exists>tok. EvRegister tok ''t1'' ''cfg'' User \<in> set (two_clients @ [EvBind 0 5])"
  using session_provenance [of "two_clients @ [EvBind 0 5]" "''s-1''"
      "\<lparr>si_task_id = ''t1'', si_agent_config_id = ''cfg'', si_role = User\<rparr>"] two_clients_run
  by (simp add: token_resolve_info_def session_of_def)

text \<open>
  The method \<open>consume\<close> run alone is its three lock acquisitions in sequence, on
  both branches: the registry it leaves is the same; it fails exactly when the token is not
  pending, and otherwise the session it hands out resolves to the task it hands out.
\<close>

theorem consume_alone:
  assumes "ts_inflight s c = None"
  shows "ts_reg (foldl token_exec s [EvTake c tok, EvKey c, EvBind c now])
           = fst (token_consume tok now (ts_reg s)) \<and>
    (case snd (token_consume tok now (ts_reg s)) of
       None \<Rightarrow> tr_pending (ts_reg s) tok = None
     | Some (key, task, agent) \<Rightarrow>
         tr_pending (ts_reg s) tok \<noteq> None \<and>
         token_resolve (fst (token_consume tok now (ts_reg s))) key = Some task)"
  using assms
  by (cases "tr_pending (ts_reg s) tok")
     (simp_all add: token_consume_def token_revoke_def token_resolve_def session_of_def Let_def)

lemma consume_alone_witness:
  "ts_reg (foldl token_exec token_init [EvTake 2 ''c'', EvKey 2, EvBind 2 9])
     = fst (token_consume ''c'' 9 (ts_reg token_init))"
  using consume_alone [of token_init 2 "''c''" 9] by (simp add: token_init_def)

end
