(* ===== verification/Logos_Access.thy ===== *)
theory Logos_Access
  imports Logos_System Logos_Token
begin

text \<open>
  Access control of the gRPC layer (\<open>logos-kernel/src/grpc.rs\<close>): what a session may
  address, and how relative paths are scoped to its sandbox. The handlers that call it are in
  \<open>Logos_Kernel\<close>.
\<close>

datatype status =
    InvalidArgument string
  | StatusNotFound string
  | Unavailable string
  | Internal string
  | PermissionDenied string
  | Unauthenticated string

type_synonym ('s, 'a) status_step = "('s, status, 'a) step"

fun vfs_to_status :: "vfs_error \<Rightarrow> status" where
  "vfs_to_status (InvalidUri m) = InvalidArgument (vfs_error_display (InvalidUri m))"
| "vfs_to_status (InvalidPath m) = InvalidArgument (vfs_error_display (InvalidPath m))"
| "vfs_to_status (InvalidJson m) = InvalidArgument (vfs_error_display (InvalidJson m))"
| "vfs_to_status (NotFound m) = StatusNotFound (vfs_error_display (NotFound m))"
| "vfs_to_status (NamespaceNotMounted m) = StatusNotFound (vfs_error_display (NamespaceNotMounted m))"
| "vfs_to_status NotReady = Unavailable (vfs_error_display NotReady)"
| "vfs_to_status (Io m) = Internal (vfs_error_display (Io m))"
| "vfs_to_status (Sqlite m) = Internal (vfs_error_display (Sqlite m))"

text \<open>The session header, where the request has one that is text.\<close>

definition extract_session_info :: "token_registry \<Rightarrow> string option \<Rightarrow> session_info option" where
  "extract_session_info tokens header =
     (case header of None \<Rightarrow> None | Some key \<Rightarrow> token_resolve_info tokens key)"

definition resolve_uri :: "string \<Rightarrow> session_info option \<Rightarrow> string" where
  "resolve_uri uri info =
     (if starts_with uri ''logos://'' then uri
      else (case info of
              Some si \<Rightarrow> ''logos://sandbox/'' @ si_task_id si @ ''/''
                 @ trim_start_matches ''/'' (trim_start_matches ''./'' uri)
            | None \<Rightarrow> uri))"

text \<open>
  The sandbox part of the check: another task's directory is never written, and read only
  when the system knows the task and it is finished (a task text that does not parse passes).
\<close>

definition check_sandbox ::
  "('f, 't) sys_lib \<Rightarrow> 't world \<Rightarrow> session_info \<Rightarrow> string \<Rightarrow> bool \<Rightarrow> ('f sys_db, unit) status_step" where
  "check_sandbox L w si rest is_write =
     (let uri_task = hd (split_on (CHR ''/'') rest) in
      if uri_task \<noteq> [] \<and> uri_task \<noteq> ''__system__'' \<and> uri_task \<noteq> si_task_id si then
        (if is_write then
           fail (PermissionDenied (''task '' @ si_task_id si @ '' cannot write to sandbox of '' @ uri_task))
         else
           attempt (task_get L w uri_task) (\<lambda>result.
           case result of
             Inr (Some task_json) \<Rightarrow>
               (case from_str (sl_codec L) task_json of
                  Inr val \<Rightarrow>
                    if as_str (jget val ''status'') \<noteq> Some ''finished''
                    then fail (PermissionDenied (''task '' @ si_task_id si
                           @ '' cannot read active sandbox of '' @ uri_task))
                    else ret ()
                | Inl _ \<Rightarrow> ret ())
           | _ \<Rightarrow> fail (PermissionDenied (''task '' @ si_task_id si
                     @ '' cannot access sandbox of unknown task '' @ uri_task))))
      else ret ())"

definition admin_only :: "string \<Rightarrow> bool" where
  "admin_only uri \<longleftrightarrow> starts_with uri ''logos://services/'' \<or> starts_with uri ''logos://system/''
     \<or> starts_with uri ''logos://devices/''"

definition check_access ::
  "('f, 't) sys_lib \<Rightarrow> 't world \<Rightarrow> session_info option \<Rightarrow> string \<Rightarrow> bool \<Rightarrow> ('f sys_db, unit) status_step" where
  "check_access L w info uri is_write =
     (case info of
        None \<Rightarrow> ret ()
      | Some si \<Rightarrow>
          andthen (case strip_prefix ''logos://sandbox/'' uri of
              Some rest \<Rightarrow> check_sandbox L w si rest is_write
            | None \<Rightarrow> ret ()) (\<lambda>_.
          if is_write \<and> \<not> is_admin (si_role si) \<and> admin_only uri
          then fail (PermissionDenied (''user agent cannot write to ''
                 @ join ''/'' (take 4 (split_on (CHR ''/'') uri))))
          else ret ()))"

section \<open>Lemmas\<close>

lemma check_sandbox_denies:
  "check_sandbox L w si rest is_write db = (db', Inl e) \<Longrightarrow> \<exists>m. e = PermissionDenied m"
  by (auto simp: check_sandbox_def Let_def attempt_def fail_def ret_def
      split: if_splits prod.splits sum.splits option.splits)

lemma check_access_denies:
  "check_access L w info uri is_write db = (db', Inl e) \<Longrightarrow> \<exists>m. e = PermissionDenied m"
  by (auto simp: check_access_def andthen_def fail_def ret_def dest: check_sandbox_denies
      split: if_splits prod.splits sum.splits option.splits)


lemma keeps_check_access [keeps_intros]: "keeps I (check_access L w info uri is_write)"
proof -
  have "keeps I (task_get L w tid)" for tid
    unfolding task_get_def by (intro keeps_intros)
  then have "keeps I (check_sandbox L w si rest is_write)" for si rest
    unfolding check_sandbox_def Let_def
    by (intro keeps_if keeps_attempt keeps_fail keeps_ret) (auto split: sum.splits option.splits)
  then show ?thesis
    unfolding check_access_def
    by (auto intro!: keeps_andthen keeps_if keeps_ret keeps_fail split: option.splits)
qed

lemma check_access_state: "fst (check_access L w info uri is_write s) = s"
  using keepsD [OF keeps_check_access [of "\<lambda>x. x = s" L w info uri is_write], of s] by simp

lemma hd_split_on: "CHR ''/'' \<notin> set t \<Longrightarrow> rest = [] \<or> hd rest = CHR ''/'' \<Longrightarrow>
    hd (split_on (CHR ''/'') (t @ rest)) = t"
  by (cases rest) (auto simp: split_on_word split_on_word_append)

lemma task_get_calm: "calm w \<Longrightarrow> task_get L w tid db =
    (db, Inr (map_option (\<lambda>r. to_str (sl_codec L) (task_row_to_json (sl_codec L) r)) (task_lookup tid db)))"
  by (simp add: task_get_def sql_calm step_defs)

lemma map_of_jobj_key: "jget (jobj kvs) k = opt_or (map_of (rev kvs) k) JNull"
  by (rule jget_jobj)

lemma task_json_status: "as_str (jget (task_row_to_json c r) ''status'') = Some (tk_status r)"
  by (simp add: task_row_to_json_def jget_jobj)

text \<open>The JSON of a task reads back when its plan holds no float.\<close>

definition plain_plan :: "codec \<Rightarrow> task_row \<Rightarrow> bool" where
  "plain_plan c r \<longleftrightarrow> (\<forall>v. from_str c (tk_plan_todo r) = Inr v \<longrightarrow> float_free v)"

lemma float_free_jobj: "(\<forall>kv \<in> set kvs. float_free (snd kv)) \<Longrightarrow> float_free (jobj kvs)"
  using set_jobj_fold [of kvs "[]"] by (auto simp: jobj_def)

lemma task_json_parses:
  assumes "codec_ok c" and "plain_plan c r"
  shows "from_str c (to_str c (task_row_to_json c r)) = Inr (task_row_to_json c r)"
proof (rule codec_okD(1) [OF assms(1)])
  have "wf_json (unwrap_or (from_str c (tk_plan_todo r)) (JArr []))"
    using codec_okD(3) [OF assms(1)] by (cases "from_str c (tk_plan_todo r)") auto
  then show "wf_json (task_row_to_json c r)"
    unfolding task_row_to_json_def by (intro wf_jobj) simp
  have "float_free (unwrap_or (from_str c (tk_plan_todo r)) (JArr []))"
    using assms(2) by (cases "from_str c (tk_plan_todo r)") (auto simp: plain_plan_def)
  then show "float_free (task_row_to_json c r)"
    unfolding task_row_to_json_def by (intro float_free_jobj) simp
qed

lemma check_sandbox_other:
  assumes "calm w" and "t \<noteq> []" "t \<noteq> ''__system__''" "t \<noteq> si_task_id si"
    and "hd (split_on (CHR ''/'') rest) = t"
    and "codec_ok (sl_codec L)" and "\<forall>r \<in> set (sd_tasks db). plain_plan (sl_codec L) r"
  shows "snd (check_sandbox L w si rest is_write db) = Inr () \<longleftrightarrow>
    \<not> is_write \<and> (\<exists>r. task_lookup t db = Some r \<and> tk_status r = ''finished'')"
proof (cases "task_lookup t db")
  case None
  with assms show ?thesis
    by (simp add: check_sandbox_def Let_def attempt_def task_get_calm fail_def if_distribR)
next
  case (Some r)
  then have "plain_plan (sl_codec L) r" using assms(7) task_lookup_Some by blast
  with assms(6) have "from_str (sl_codec L) (to_str (sl_codec L) (task_row_to_json (sl_codec L) r))
      = Inr (task_row_to_json (sl_codec L) r)"
    by (rule task_json_parses)
  with Some assms show ?thesis
    by (simp add: check_sandbox_def Let_def attempt_def task_get_calm fail_def ret_def if_distribR
          task_json_status)
qed

lemma uri_render_sandbox:
  "uri_render \<lparr>uri_namespace = ''sandbox'', uri_path = t # ws\<rparr> =
   ''logos://sandbox/'' @ t @ (if ws = [] then [] else CHR ''/'' # join ''/'' ws)"
  by (cases ws) (simp_all add: uri_render_def)

lemma admin_only_sandbox: "\<not> admin_only (''logos://sandbox/'' @ x)"
  by (simp add: admin_only_def starts_with_def)

lemma uri_segments_append: "uri_segments (a @ CHR ''/'' # b) = uri_segments a @ uri_segments b"
  by (simp add: uri_segments_def split_on_append)

lemma uri_segments_trim_slash: "uri_segments (trim_start_matches ''/'' s) = uri_segments s"
proof (induction "''/''" s rule: trim_start_matches.induct)
  case (1 s)
  then show ?case
    by (subst trim_start_matches.simps)
       (auto simp: strip_prefix_Some_iff uri_segments_def split: option.splits)
qed

lemma slash_prefix:
  assumes "CHR ''/'' \<notin> set n" and "CHR ''/'' \<notin> set k" and "r = [] \<or> hd r = CHR ''/''"
  shows "strip_prefix (k @ ''/'') (n @ r) = (if n = k \<and> r \<noteq> [] then Some (tl r) else None)"
proof (cases "strip_prefix (k @ ''/'') (n @ r)")
  case None
  moreover have "n \<noteq> k \<or> r = []"
  proof (rule ccontr)
    assume "\<not> ?thesis"
    then have "n @ r = (k @ ''/'') @ tl r" using assms(3) by (cases r) auto
    then have "strip_prefix (k @ ''/'') (n @ r) = Some (tl r)"
      using strip_prefix_Some_iff by blast
    with None show False by simp
  qed
  ultimately show ?thesis by auto
next
  case (Some x)
  then have eq: "n @ r = k @ CHR ''/'' # x" by (simp add: strip_prefix_Some_iff)
  have w: "takeWhile (\<lambda>c. c \<noteq> CHR ''/'') (v @ y) = v"
    if "CHR ''/'' \<notin> set v" "y = [] \<or> hd y = CHR ''/''" for v y
  proof -
    have "takeWhile (\<lambda>c. c \<noteq> CHR ''/'') (v @ y) = v @ takeWhile (\<lambda>c. c \<noteq> CHR ''/'') y"
      using that(1) by (intro takeWhile_append2) auto
    with that(2) show ?thesis by (cases y) auto
  qed
  have "takeWhile (\<lambda>c. c \<noteq> CHR ''/'') (n @ r) = n"
    using assms(1,3) by (rule w)
  moreover have "takeWhile (\<lambda>c. c \<noteq> CHR ''/'') (k @ CHR ''/'' # x) = k"
    using assms(2) by (intro w) auto
  ultimately have "n = k" using eq by metis
  then show ?thesis using eq Some by simp
qed

lemma strip_prefix_append_same: "strip_prefix (p @ q) (p @ s) = strip_prefix q s"
  by (induction p) auto

lemma uri_render_prefix:
  assumes "seg_ok ns" and "CHR ''/'' \<notin> set k"
  shows "strip_prefix (''logos://'' @ k @ ''/'') (uri_render \<lparr>uri_namespace = ns, uri_path = ws\<rparr>) =
    (if ns = k \<and> ws \<noteq> [] then Some (join ''/'' ws) else None)"
proof (cases ws)
  case Nil
  then show ?thesis
    using slash_prefix [of ns k "[]"] assms
    by (simp add: uri_render_def seg_ok_def strip_prefix_append_same [of "''logos://''", simplified])
next
  case (Cons w ws')
  then show ?thesis
    using slash_prefix [of ns k "CHR ''/'' # join ''/'' ws"] assms
    by (simp add: uri_render_def seg_ok_def strip_prefix_append_same [of "''logos://''", simplified])
qed

lemma admin_only_render:
  "seg_ok ns \<Longrightarrow> admin_only (uri_render \<lparr>uri_namespace = ns, uri_path = ws\<rparr>) \<longleftrightarrow>
     ns \<in> {''services'', ''system'', ''devices''} \<and> ws \<noteq> []"
  using uri_render_prefix [of ns "''services''" ws] uri_render_prefix [of ns "''system''" ws]
    uri_render_prefix [of ns "''devices''" ws]
  by (auto simp: admin_only_def starts_with_def)

lemma hd_split_join:
  "seg_ok t \<Longrightarrow> hd (split_on (CHR ''/'') (join ''/'' (t # ws))) = t"
  using hd_split_on [of t "if ws = [] then [] else CHR ''/'' # join ''/'' ws"]
  by (cases ws) (auto simp: seg_ok_def)

text \<open>What is refused in any world, by the text of the URI.\<close>

definition foreign_task :: "session_info \<Rightarrow> string \<Rightarrow> bool" where
  "foreign_task si t \<longleftrightarrow> t \<notin> {[], ''__system__'', si_task_id si}"

lemma write_denied:
  assumes "(\<exists>rest. uri = ''logos://sandbox/'' @ rest \<and> foreign_task si (hd (split_on (CHR ''/'') rest))) \<or>
    (\<exists>ns rest. uri = ''logos://'' @ ns @ ''/'' @ rest \<and> ns \<in> {''services'', ''system'', ''devices''} \<and> si_role si = User)"
  shows "\<exists>m. check_access L w (Some si) uri True db = (db, Inl (PermissionDenied m))"
  using assms
proof (elim disjE exE conjE)
  fix rest assume u: "uri = ''logos://sandbox/'' @ rest" "foreign_task si (hd (split_on (CHR ''/'') rest))"
  have "strip_prefix ''logos://sandbox/'' uri = Some rest" unfolding u(1) by (rule strip_prefix_append)
  with u(2) show ?thesis
    by (simp add: check_access_def check_sandbox_def foreign_task_def Let_def andthen_def fail_def)
next
  fix ns rest assume u: "uri = ''logos://'' @ ns @ ''/'' @ rest" "ns \<in> {''services'', ''system'', ''devices''}" "si_role si = User"
  then have "strip_prefix ''logos://sandbox/'' uri = None" "admin_only uri"
    by (auto simp: admin_only_def starts_with_def)
  with u(3) show ?thesis by (simp add: check_access_def andthen_def ret_def fail_def)
qed

lemma task_get_answers:
  "task_get L w tid db = (db, Inr (map_option (\<lambda>r. to_str (sl_codec L) (task_row_to_json (sl_codec L) r)) (task_lookup tid db)))
   \<or> (\<exists>e. task_get L w tid db = (db, Inl e))"
  by (simp add: task_get_def sql_def step_defs split: option.splits)

lemma read_denied:
  assumes "codec_ok (sl_codec L)" and "uri = ''logos://sandbox/'' @ rest"
    and t: "foreign_task si t" "t = hd (split_on (CHR ''/'') rest)"
    and nf: "\<forall>r. task_lookup t db = Some r \<longrightarrow> tk_status r \<noteq> ''finished'' \<and> plain_plan (sl_codec L) r"
  shows "\<exists>m. check_access L w (Some si) uri False db = (db, Inl (PermissionDenied m))"
proof -
  have "strip_prefix ''logos://sandbox/'' uri = Some rest" unfolding assms(2) by (rule strip_prefix_append)
  moreover have "\<exists>m. check_sandbox L w si rest False db = (db, Inl (PermissionDenied m))"
    using task_get_answers [of L w t db]
  proof
    assume g: "task_get L w t db = (db, Inr (map_option (\<lambda>r. to_str (sl_codec L) (task_row_to_json (sl_codec L) r)) (task_lookup t db)))"
    show ?thesis
    proof (cases "task_lookup t db")
      case None
      with t g show ?thesis by (simp add: check_sandbox_def foreign_task_def Let_def attempt_def fail_def)
    next
      case (Some r)
      with nf task_json_parses [OF assms(1)] t g show ?thesis
        by (simp add: check_sandbox_def foreign_task_def Let_def attempt_def fail_def task_json_status)
    qed
  next
    assume "\<exists>e. task_get L w t db = (db, Inl e)"
    with t show ?thesis by (auto simp: check_sandbox_def foreign_task_def Let_def attempt_def fail_def)
  qed
  ultimately show ?thesis by (auto simp: check_access_def andthen_def)
qed

section \<open>Properties\<close>

lemma access_normal:
  assumes "calm w" and "codec_ok (sl_codec L)" and "\<forall>r \<in> set (sd_tasks db). plain_plan (sl_codec L) r"
    and "seg_ok ns" and "\<forall>x \<in> set ws. seg_ok x"
  shows "snd (check_access L w (Some si) (uri_render \<lparr>uri_namespace = ns, uri_path = ws\<rparr>) is_write db) = Inr ()
    \<longleftrightarrow> (ns = ''sandbox'' \<and> ws \<noteq> [] \<longrightarrow>
          hd ws \<in> {''__system__'', si_task_id si} \<or>
          \<not> is_write \<and> (\<exists>r. task_lookup (hd ws) db = Some r \<and> tk_status r = ''finished'')) \<and>
        (is_write \<and> ns \<in> {''services'', ''system'', ''devices''} \<and> ws \<noteq> [] \<longrightarrow> si_role si = Admin)"
proof (cases "ns = ''sandbox'' \<and> ws \<noteq> []")
  case True
  then obtain t ws' where ws: "ws = t # ws'" by (cases ws) auto
  with assms(5) have t: "seg_ok t" by simp
  have strip: "strip_prefix ''logos://sandbox/'' (uri_render \<lparr>uri_namespace = ns, uri_path = ws\<rparr>) =
      Some (join ''/'' ws)"
    using uri_render_prefix [OF assms(4), of "''sandbox''" ws] True by simp
  have hd: "hd (split_on (CHR ''/'') (join ''/'' ws)) = t"
    unfolding ws using t by (rule hd_split_join)
  have na: "\<not> admin_only (uri_render \<lparr>uri_namespace = ns, uri_path = ws\<rparr>)"
    using admin_only_render [OF assms(4)] True by simp
  have "snd (check_access L w (Some si) (uri_render \<lparr>uri_namespace = ns, uri_path = ws\<rparr>) is_write db) = Inr ()
      \<longleftrightarrow> snd (check_sandbox L w si (join ''/'' ws) is_write db) = Inr ()"
    using strip na by (auto simp: check_access_def andthen_def ret_def split: prod.splits sum.splits)
  also have "\<dots> \<longleftrightarrow> t \<in> {''__system__'', si_task_id si} \<or>
      \<not> is_write \<and> (\<exists>r. task_lookup t db = Some r \<and> tk_status r = ''finished'')"
  proof (cases "t \<in> {''__system__'', si_task_id si}")
    case True
    then show ?thesis by (auto simp: check_sandbox_def Let_def hd ret_def)
  next
    case False
    then show ?thesis
      using check_sandbox_other [OF assms(1) _ _ _ hd assms(2,3)] t by (simp add: seg_ok_def)
  qed
  finally show ?thesis using True ws by auto
next
  case False
  then have "strip_prefix ''logos://sandbox/'' (uri_render \<lparr>uri_namespace = ns, uri_path = ws\<rparr>) = None"
    using uri_render_prefix [OF assms(4), of "''sandbox''" ws] by simp
  then show ?thesis
    using False admin_only_render [OF assms(4), of ws]
    by (cases "si_role si") (auto simp: check_access_def andthen_def ret_def fail_def)
qed

definition demo_session :: session_info where
  "demo_session = \<lparr>si_task_id = ''me'', si_agent_config_id = ''cfg'', si_role = User\<rparr>"

text \<open>
  C25: Access control on URIs in normal form, exactly. A session writes only to its own
  directory and the shared one of the sandbox, and reads another task's only when the system knows
  that task and it is finished; what lies in services, system and devices is written by admins
  only; everything else is allowed. (Plans without floats, so that the task's text reads back.)
\<close>

theorem access_of_normal_uris:
  assumes "calm w" and "codec_ok (sl_codec L)" and "\<forall>r \<in> set (sd_tasks db). plain_plan (sl_codec L) r"
    and "seg_ok ns" and "\<forall>x \<in> set ws. seg_ok x"
  shows "snd (check_access L w (Some si) (uri_render \<lparr>uri_namespace = ns, uri_path = ws\<rparr>) is_write db) = Inr ()
    \<longleftrightarrow> (ns = ''sandbox'' \<and> ws \<noteq> [] \<longrightarrow>
          hd ws \<in> {''__system__'', si_task_id si} \<or>
          \<not> is_write \<and> (\<exists>r. task_lookup (hd ws) db = Some r \<and> tk_status r = ''finished'')) \<and>
        (is_write \<and> ns \<in> {''services'', ''system'', ''devices''} \<and> ws \<noteq> [] \<longrightarrow> si_role si = Admin)"
  using assms by (rule access_normal)

theorem access_of_normal_uris_witness:
  "snd (check_access demo_lib (still 1) (Some demo_session) ''logos://sandbox/t/out.txt'' False
      (demo_db [demo_task ''t'' ''finished''])) = Inr ()"
proof -
  have "from_str note_codec ''[]'' = Inr (JArr [])"
    by code_simp
  then have "\<forall>r \<in> set (sd_tasks (demo_db [demo_task ''t'' ''finished''])). plain_plan (sl_codec demo_lib) r"
    by (simp add: demo_db_def demo_task_def plain_plan_def)
  moreover have "uri_render \<lparr>uri_namespace = ''sandbox'', uri_path = [''t'', ''out.txt'']\<rparr> =
      ''logos://sandbox/t/out.txt''"
    by code_simp
  ultimately show ?thesis
    using access_of_normal_uris [of "still 1" demo_lib "demo_db [demo_task ''t'' ''finished'']"
        "''sandbox''" "[''t'', ''out.txt'']" demo_session False]
    by (simp add: note_codec_ok seg_ok_def demo_db_def demo_task_def task_lookup_def)
qed

text \<open>
  A relative path of a session always addresses the session's own sandbox directory,
  and the check lets it through, whoever the agent is; absolute URIs are not touched.
\<close>

theorem relative_paths_are_scoped:
  assumes "seg_ok (si_task_id si)" and "\<not> starts_with uri ''logos://''"
  shows "uri_parse (resolve_uri uri (Some si)) =
      Inr \<lparr>uri_namespace = ''sandbox'',
           uri_path = si_task_id si # uri_segments (trim_start_matches ''./'' uri)\<rparr> \<and>
    check_access L w (Some si) (resolve_uri uri (Some si)) is_write db = (db, Inr ())"
proof -
  let ?rest = "trim_start_matches ''/'' (trim_start_matches ''./'' uri)"
  have r: "resolve_uri uri (Some si) = ''logos://sandbox/'' @ si_task_id si @ ''/'' @ ?rest"
    using assms(2) by (simp add: resolve_uri_def)
  have segs: "uri_segments (''sandbox/'' @ si_task_id si @ ''/'' @ ?rest) =
      ''sandbox'' # si_task_id si # uri_segments (trim_start_matches ''./'' uri)"
  proof -
    have "uri_segments (si_task_id si) = [si_task_id si]"
      using assms(1) by (simp add: uri_segments_def split_on_word seg_ok_def)
    moreover have "uri_segments ''sandbox'' = [''sandbox'']"
      by code_simp
    ultimately show ?thesis
      using uri_segments_append [of "''sandbox''" "si_task_id si @ ''/'' @ ?rest"]
        uri_segments_append [of "si_task_id si" ?rest] uri_segments_trim_slash
      by simp
  qed
  have "uri_parse (resolve_uri uri (Some si)) =
      Inr \<lparr>uri_namespace = ''sandbox'', uri_path = si_task_id si # uri_segments (trim_start_matches ''./'' uri)\<rparr>"
    using segs unfolding r
    by (simp add: uri_parse_def uri_strip_def strip_prefix_append [of "''logos://''", simplified])
  moreover have "strip_prefix ''logos://sandbox/'' (resolve_uri uri (Some si)) = Some (si_task_id si @ ''/'' @ ?rest)"
    unfolding r by (rule strip_prefix_append)
  moreover have "hd (split_on (CHR ''/'') (si_task_id si @ ''/'' @ ?rest)) = si_task_id si"
    using assms(1) by (intro hd_split_on) (auto simp: seg_ok_def)
  moreover have "\<not> admin_only (resolve_uri uri (Some si))"
    unfolding r by (rule admin_only_sandbox)
  ultimately show ?thesis
    by (simp add: check_access_def check_sandbox_def Let_def step_defs)
qed

theorem relative_paths_are_scoped_witness:
  "uri_parse (resolve_uri ''././/notes/a.txt'' (Some demo_session)) =
     Inr \<lparr>uri_namespace = ''sandbox'', uri_path = [''me'', ''notes'', ''a.txt'']\<rparr>"
proof -
  have "uri_segments (trim_start_matches ''./'' ''././/notes/a.txt'') = [''notes'', ''a.txt'']"
    "\<not> starts_with ''././/notes/a.txt'' ''logos://''"
    by code_simp+
  then show ?thesis
    using relative_paths_are_scoped [of demo_session "''././/notes/a.txt''" demo_lib "still 1" True "demo_db []"]
    by (simp add: demo_session_def seg_ok_def)
qed

text \<open>
  The check looks at the text of the URI, the routing at its segments: with one more
  slash after the scheme every URI is let through, for every session, for reading and writing,
  and is then routed to the very place the URI without that slash names.
\<close>

theorem extra_slash_unchecked:
  "check_access L w info (''logos:///'' @ rest) is_write db = (db, Inr ()) \<and>
   resolve_uri (''logos:///'' @ rest) info = ''logos:///'' @ rest \<and>
   uri_parse (''logos:///'' @ rest) = uri_parse (''logos://'' @ rest)"
proof (intro conjI)
  show "check_access L w info (''logos:///'' @ rest) is_write db = (db, Inr ())"
    by (simp add: check_access_def admin_only_def starts_with_def step_defs split: option.splits)
  show "resolve_uri (''logos:///'' @ rest) info = ''logos:///'' @ rest"
    by (simp add: resolve_uri_def starts_with_def)
  show "uri_parse (''logos:///'' @ rest) = uri_parse (''logos://'' @ rest)"
    using uri_parse_logos [of "CHR ''/'' # rest"] uri_parse_logos [of rest] by simp
qed

end
