(* ===== verification/Logos_Cron.thy ===== *)
theory Logos_Cron
  imports Logos_System
begin

text \<open>
  The scheduler of \<open>logos-kernel/src/cron.rs\<close>, with its plan tick, and the jobs the
  consolidator registers (\<open>consolidator.rs\<close>). When a cron expression is due next and what the
  clock says are parameters.
\<close>

section \<open>Jobs\<close>

record cron_job =
  cj_name :: string
  cj_cron_expr :: string
  cj_task_template :: json
  cj_enabled :: bool

type_synonym jobs = "string \<rightharpoonup> cron_job"

text \<open>
  The first instant after a given one at which an expression is due (\<open>None\<close> when it does not
  parse or never is), and the whole seconds from one instant to another.
\<close>

record 't schedule =
  sc_upcoming :: "string \<Rightarrow> 't \<Rightarrow> 't option"
  sc_seconds :: "'t \<Rightarrow> 't \<Rightarrow> int"

definition cron_new :: jobs where
  "cron_new = Map.empty"

definition cron_register :: "cron_job \<Rightarrow> jobs \<Rightarrow> jobs" where
  "cron_register job js = js(cj_name job \<mapsto> job)"

definition cron_remove :: "string \<Rightarrow> jobs \<Rightarrow> jobs" where
  "cron_remove name js = js(name := None)"

definition cron_list :: "(string set \<Rightarrow> string list) \<Rightarrow> jobs \<Rightarrow> cron_job list" where
  "cron_list ord js = map_values ord js"

section \<open>Firing\<close>

definition timestamp :: "('f, 't) sys_lib \<Rightarrow> 't world \<Rightarrow> string" where
  "timestamp L w = fmt_compact (sl_chrono L) (w_clk w [''timestamp''])"

text \<open>The task a job creates: its template, with the trigger, and an id where it has none.\<close>

definition cron_task :: "string \<Rightarrow> cron_job \<Rightarrow> json" where
  "cron_task ts job =
     (case cj_task_template job of
        JObj kvs \<Rightarrow>
          (let kvs1 = obj_insert ''trigger'' (JStr ''cron'') kvs in
           JObj (if opt_or (Option.bind (map_of kvs1 ''task_id'') as_str) [] = []
                 then obj_insert ''task_id'' (JStr (''cron-'' @ cj_name job @ ''-'' @ ts)) kvs1
                 else kvs1))
      | v \<Rightarrow> v)"

definition cron_fire :: "('f, 't) sys_lib \<Rightarrow> 't world \<Rightarrow> jobs \<Rightarrow> string \<Rightarrow> ('f sys_db, unit) vfs_step" where
  "cron_fire L w js job_name =
     (case js job_name of
        None \<Rightarrow> fail (NotFound (''cron job not found: '' @ job_name))
      | Some job \<Rightarrow>
          if \<not> cj_enabled job then ret ()
          else task_create L w (to_str (sl_codec L) (cron_task (timestamp L w) job)))"

section \<open>Plans\<close>

definition executor_task :: "codec \<Rightarrow> string \<Rightarrow> string \<Rightarrow> string \<Rightarrow> string" where
  "executor_task c ts planner_id description = to_str c (jobj
     [(''task_id'', JStr (''plan-exec-'' @ planner_id @ ''-'' @ ts)), (''description'', JStr description),
      (''chat_id'', JStr []), (''trigger'', JStr ''plan''), (''plan_parent'', JStr planner_id)])"

text \<open>One planner: nothing while an executor is active, else the head of its plan becomes a task.\<close>

definition tick_plan :: "('f, 't) sys_lib \<Rightarrow> 't world \<Rightarrow> string \<Rightarrow> ('f sys_db, unit) vfs_step" where
  "tick_plan L w planner_id =
     attempt (has_active_executor (at_w ''check'' w) planner_id) (\<lambda>active.
     if unwrap_or active False then ret ()
     else
       andthen (pop_plan_head L (at_w ''pop'' w) planner_id) (\<lambda>head.
       case head of
         None \<Rightarrow> ret ()
       | Some description \<Rightarrow>
           task_create L (at_w ''create'' w) (executor_task (sl_codec L) (timestamp L w) planner_id description)))"

fun tick_each :: "('f, 't) sys_lib \<Rightarrow> 't world \<Rightarrow> (string \<times> string) list \<Rightarrow> ('f sys_db, unit) vfs_step" where
  "tick_each L w [] = ret ()"
| "tick_each L w ((planner_id, _) # rest) =
     andthen (tick_plan L (at_w planner_id w) planner_id) (\<lambda>_. tick_each L w rest)"

definition tick_plans :: "('f, 't) sys_lib \<Rightarrow> 't world \<Rightarrow> ('f sys_db, unit) vfs_step" where
  "tick_plans L w = andthen (list_plan_pending L (at_w ''list'' w)) (\<lambda>pending. tick_each L w pending)"

section \<open>The tick\<close>

definition due :: "'t schedule \<Rightarrow> 't world \<Rightarrow> cron_job \<Rightarrow> bool" where
  "due S w job \<longleftrightarrow> cj_enabled job \<and>
     (case sc_upcoming S (cj_cron_expr job) (w_clk w [''upcoming'', cj_name job]) of
        None \<Rightarrow> False
      | Some next_due \<Rightarrow> \<bar>sc_seconds S (w_clk w [''now'']) next_due\<bar> < 60)"

fun fire_each :: "('f, 't) sys_lib \<Rightarrow> 't world \<Rightarrow> jobs \<Rightarrow> string list \<Rightarrow> ('f sys_db, unit) vfs_step" where
  "fire_each L w js [] = ret ()"
| "fire_each L w js (name # names) =
     andthen (ignore_errors (cron_fire L (at_w name w) js name)) (\<lambda>_. fire_each L w js names)"

definition cron_tick ::
  "('f, 't) sys_lib \<Rightarrow> 't schedule \<Rightarrow> (string set \<Rightarrow> string list) \<Rightarrow> 't world \<Rightarrow> jobs \<Rightarrow> ('f sys_db, unit) vfs_step" where
  "cron_tick L S ord w js =
     andthen (fire_each L (at_w ''fire'' w) js (map cj_name (filter (due S w) (map_values ord js)))) (\<lambda>_.
     ignore_errors (tick_plans L (at_w ''plans'' w)))"

section \<open>The consolidator\<close>

definition nl :: string where
  "nl = [CHR 0x0A]"

definition quoted :: "string \<Rightarrow> string" where
  "quoted s = [CHR 0x22] @ s @ [CHR 0x22]"

definition consolidator_job :: "string \<Rightarrow> string \<Rightarrow> string list \<Rightarrow> string \<Rightarrow> cron_job" where
  "consolidator_job name cron_expr description resource =
     \<lparr>cj_name = name, cj_cron_expr = cron_expr,
      cj_task_template = jobj [(''description'', JStr (join nl description)), (''resource'', JStr resource)],
      cj_enabled = True\<rparr>"

definition consolidator_jobs :: "cron_job list" where
  "consolidator_jobs =
     [consolidator_job ''consolidate-short-summary'' ''0 0 * * * *''
        [''Consolidator: generate hourly short summary.'',
         ''1. Read messages from the past hour using memory.range_fetch or memory.search'',
         ''2. Compress into a concise summary'',
         ''3. Write to logos://memory/groups/{chat_id}/summary/short/{period}'',
         ''   where {period} = current YYYY-MM-DDTHH'',
         ''   JSON: {'' @ quoted ''layer'' @ '':'' @ quoted ''short'' @ '','' @ quoted ''period_start'' @ '':''
           @ quoted ''...'' @ '','' @ quoted ''period_end'' @ '':'' @ quoted ''...'' @ '',''
           @ quoted ''source_refs'' @ '':[[msg_start,msg_end]],'' @ quoted ''content'' @ '':''
           @ quoted ''summary text'' @ ''}'']
        ''logos://memory/*/summary/short'',
      consolidator_job ''consolidate-short-persona'' ''0 5 * * * *''
        [''Consolidator: extract hourly persona observations.'',
         ''1. Read messages from the past hour'',
         ''2. For each active speaker, extract minimal new observations'',
         ''3. Append to logos://users/{uid}/persona/short/{period}'',
         ''   (append-only JSON array, one entry per observation)'']
        ''logos://users/*/persona/short'',
      consolidator_job ''consolidate-mid-summary'' ''0 0 3 * * *''
        [''Consolidator: generate daily mid summary.'',
         ''1. Read all short summaries from the past 24 hours'',
         ''2. Compress into a daily mid summary'',
         ''3. Write to logos://memory/groups/{chat_id}/summary/mid/{date}'',
         ''   where {date} = yesterday'' @ [CHR 0x27] @ ''s YYYY-MM-DD'',
         ''4. If month boundary crossed, also update summary/long/{month}'']
        ''logos://memory/*/summary/mid'',
      consolidator_job ''consolidate-mid-persona'' ''0 30 3 * * *''
        [''Consolidator: rewrite daily mid persona.'',
         ''1. Read today'' @ [CHR 0x27] @ ''s persona/short entries for each active user'',
         ''2. Read existing persona/mid content'',
         ''3. Deduplicate, synthesize, and rewrite persona/mid/'',
         ''4. If significant changes, also update persona/long.md'']
        ''logos://users/*/persona/mid'',
      consolidator_job ''consolidate-graph'' ''0 10 * * * *''
        [''Consolidator: extract knowledge triples for graph.'',
         ''1. Read messages from the past hour'',
         ''2. Extract (subject, predicate, object) triples'',
         ''3. Write to logos://memory/groups/{chat_id}/graph/{subject}'',
         ''   JSON: [{'' @ quoted ''predicate'' @ '':'' @ quoted ''...'' @ '','' @ quoted ''object'' @ '':''
           @ quoted ''...'' @ ''}]'']
        ''logos://memory/*/graph'']"

definition register_consolidator_jobs :: "jobs \<Rightarrow> jobs" where
  "register_consolidator_jobs js = fold cron_register consolidator_jobs js"

section \<open>What becomes of a new task\<close>

text \<open>A task stands in the table as it was made, up to its number, its plan and its last change.\<close>

definition stands :: "task_row \<Rightarrow> 'f sys_db \<Rightarrow> bool" where
  "stands r0 db \<longleftrightarrow> (\<exists>r. task_lookup (tk_task_id r0) db = Some r \<and>
     r = r0\<lparr>tk_rowid := tk_rowid r, tk_plan_todo := tk_plan_todo r, tk_updated_at := tk_updated_at r\<rparr>)"

lemma stands_fields:
  assumes "stands r0 db"
  shows "\<exists>r. task_lookup (tk_task_id r0) db = Some r \<and> tk_status r = tk_status r0 \<and>
    tk_description r = tk_description r0 \<and> tk_resource r = tk_resource r0 \<and>
    tk_plan_parent r = tk_plan_parent r0 \<and> tk_trigger r = tk_trigger r0"
proof -
  obtain r where "task_lookup (tk_task_id r0) db = Some r"
    "r = r0\<lparr>tk_rowid := tk_rowid r, tk_plan_todo := tk_plan_todo r, tk_updated_at := tk_updated_at r\<rparr>"
    using assms by (auto simp: stands_def)
  then show ?thesis by (cases r0; cases r) auto
qed

lemma stands_same: "task_lookup (tk_task_id r0) db' = task_lookup (tk_task_id r0) db \<Longrightarrow> stands r0 db \<Longrightarrow> stands r0 db'"
  by (simp add: stands_def)

lemma task_lookup_fts: "task_lookup u (fst (insert_task_fts F tid db)) = task_lookup u db"
  by (auto simp: insert_task_fts_def task_lookup_def split: option.splits sum.splits)

lemma task_lookup_insert_new:
  "task_lookup (tk_task_id r) db = None \<Longrightarrow>
   insert_task_row r db = (fst (insert_task_row r db), Inr ()) \<and>
   task_lookup u (fst (insert_task_row r db)) =
     (if u = tk_task_id r then Some (r\<lparr>tk_rowid := next_rowid (map tk_rowid (sd_tasks db))\<rparr>)
      else task_lookup u db)"
  by (auto simp: insert_task_row_def task_lookup_def find_append split: option.splits)

lemma keeps_stands [keeps_intros]:
  "keeps (stands r0) (insert_task_row r)"
  "keeps (stands r0) (insert_task_fts F tid)"
  by (auto simp: keeps_def stands_def task_lookup_fts dest: task_lookup_insert)

lemma keeps_stands_pop [keeps_intros]: "keeps (stands r0) (pop_plan_head (L :: ('f, 't) sys_lib) w tid)"
proof -
  have "keeps (stands r0 :: 'f sys_db \<Rightarrow> bool)
      (update_task tid (\<lambda>r. r\<lparr>tk_plan_todo := todo, tk_updated_at := now\<rparr>))" for todo now
  proof (rule keepsI)
    fix db :: "'f sys_db" assume "stands r0 db"
    then obtain r where r: "task_lookup (tk_task_id r0) db = Some r"
      "r = r0\<lparr>tk_rowid := tk_rowid r, tk_plan_todo := tk_plan_todo r, tk_updated_at := tk_updated_at r\<rparr>"
      by (auto simp: stands_def)
    let ?db = "fst (update_task tid (\<lambda>r. r\<lparr>tk_plan_todo := todo, tk_updated_at := now\<rparr>) db)"
    from r(1) obtain r' where r': "task_lookup (tk_task_id r0) ?db = Some r'"
      "r' = r \<or> r' = r\<lparr>tk_plan_todo := todo, tk_updated_at := now\<rparr>"
      by (cases "tk_task_id r0 = tid") (auto simp: task_lookup_update)
    from r(2) r'(2) have "r' = r0\<lparr>tk_rowid := tk_rowid r', tk_plan_todo := tk_plan_todo r', tk_updated_at := tk_updated_at r'\<rparr>"
      by (cases r0; cases r; cases r') auto
    with r'(1) show "stands r0 ?db" unfolding stands_def by blast
  qed
  then show ?thesis
    unfolding pop_plan_head_def by (intro keeps_intros) (auto split: list.splits intro!: keeps_intros)
qed

lemma keeps_stands_create [keeps_intros]: "keeps (stands r0) (task_create L w content)"
  unfolding task_create_def by (intro keeps_intros)

lemma keeps_stands_tick_plan [keeps_intros]: "keeps (stands r0) (tick_plan L w planner)"
  unfolding tick_plan_def by (intro keeps_intros)

lemma keeps_stands_tick_plans [keeps_intros]: "keeps (stands r0) (tick_plans L w)"
proof -
  have "keeps (stands r0) (tick_each L w ps)" for ps
    by (induction L w ps rule: tick_each.induct) (auto intro!: keeps_intros)
  then show ?thesis unfolding tick_plans_def by (intro keeps_intros)
qed

lemma keeps_stands_fire [keeps_intros]: "keeps (stands r0) (cron_fire L w js name)"
  unfolding cron_fire_def by (intro keeps_intros)

text \<open>A task created without faults, under an id that is free.\<close>

lemma task_create_fresh:
  assumes "calm w" and "from_str (sl_codec L) content = Inr val"
    and "task_lookup (str_field val ''task_id'' []) db = None"
    and run: "task_create L w content db = (db', r)"
  shows "r = Inr ()" and "stands (new_task_row val (now_str L w)) db'"
    and "u \<noteq> str_field val ''task_id'' [] \<Longrightarrow> task_lookup u db' = task_lookup u db"
proof -
  let ?row = "new_task_row val (now_str L w)" and ?tid = "str_field val ''task_id'' []"
  have id: "tk_task_id ?row = ?tid" by (simp add: new_task_row_def)
  define db1 where "db1 = fst (insert_task_row ?row db)"
  have ins: "insert_task_row ?row db = (db1, Inr ())"
    and look: "task_lookup v db1 = (if v = ?tid
      then Some (?row\<lparr>tk_rowid := next_rowid (map tk_rowid (sd_tasks db))\<rparr>) else task_lookup v db)" for v
    using task_lookup_insert_new [of ?row db] assms(3) unfolding db1_def id by auto
  have "(db', r) = (if str_field val ''description'' [] \<noteq> []
      then (fst (sql w ''insert fts'' [] (insert_task_fts (sl_fts L) ?tid) db1), Inr ()) else (db1, Inr ()))"
    using run assms(1,2)
    by (simp add: task_create_def andthen_lift_Inr sql_calm andthen_def ins ignore_errors_eq ret_def split: if_splits)
  then have r: "r = Inr ()" and same: "task_lookup v db' = task_lookup v db1" for v
    using assms(1) by (auto simp: fst_sql_calm task_lookup_fts split: if_splits)
  show "r = Inr ()" by (rule r)
  show "stands ?row db'"
    unfolding stands_def id same look by (simp add: new_task_row_def)
  show "task_lookup u db' = task_lookup u db" if "u \<noteq> ?tid"
    using that by (simp add: same look)
qed

lemma task_create_taken:
  assumes "from_str (sl_codec L) content = Inr val" and "task_lookup (str_field val ''task_id'' []) db \<noteq> None"
  shows "fst (task_create L w content db) = db \<and> \<not> is_ok (snd (task_create L w content db))"
  using assms
  by (simp add: task_create_def andthen_lift_Inr sql_def andthen_def insert_task_row_def new_task_row_def
      split: option.splits)

section \<open>Plan steps\<close>

definition executor_id :: "('f, 't) sys_lib \<Rightarrow> 't world \<Rightarrow> string \<Rightarrow> string" where
  "executor_id L w planner = ''plan-exec-'' @ planner @ ''-'' @ timestamp L w"

definition idle :: "string \<Rightarrow> 'f sys_db \<Rightarrow> bool" where
  "idle planner db \<longleftrightarrow> (\<forall>t \<in> set (sd_tasks db). tk_plan_parent t = planner \<longrightarrow> tk_status t \<noteq> ''active'')"

text \<open>The task a plan step becomes.\<close>

definition executes :: "string \<Rightarrow> string \<Rightarrow> string \<Rightarrow> 'f sys_db \<Rightarrow> bool" where
  "executes planner xid d db \<longleftrightarrow> (\<exists>r. task_lookup xid db = Some r \<and> tk_status r = ''pending'' \<and>
     tk_description r = d \<and> tk_plan_parent r = planner \<and> tk_trigger r = ''plan'')"

lemma idle_iff: "calm w \<Longrightarrow> idle planner db \<Longrightarrow> has_active_executor w planner db = (db, Inr False)"
  by (auto simp: has_active_executor_def sql_calm step_defs idle_def filter_empty_conv)

lemma executor_json:
  "str_field (jobj [(''task_id'', JStr i), (''description'', JStr d), (''chat_id'', JStr []),
     (''trigger'', JStr ''plan''), (''plan_parent'', JStr p)]) k x =
   (if k = ''task_id'' then i else if k = ''description'' then d else if k = ''chat_id'' then []
    else if k = ''trigger'' then ''plan'' else if k = ''plan_parent'' then p else x)"
  by (simp add: str_field_def jget_jobj)

lemma executor_task_parses: "codec_ok c \<Longrightarrow> from_str c (executor_task c ts p d) =
    Inr (jobj [(''task_id'', JStr (''plan-exec-'' @ p @ ''-'' @ ts)), (''description'', JStr d),
      (''chat_id'', JStr []), (''trigger'', JStr ''plan''), (''plan_parent'', JStr p)])"
  unfolding executor_task_def
  by (rule codec_okD(1)) (simp_all add: jobj_def less_char_def sorted_keys_def)

lemma pop_plan_calm:
  assumes "calm w" and "codec_ok (sl_codec L)" and "plan_of (sl_codec L) planner db = d # ds"
  shows "pop_plan_head L w planner db =
    (fst (update_task planner (\<lambda>r. r\<lparr>tk_plan_todo := print_strings (sl_codec L) ds, tk_updated_at := now_str L w\<rparr>) db),
     Inr (Some d))"
  using assms by (auto simp: pop_plan_head_def plan_of_def sql_calm step_defs update_task_def split: option.splits)

lemma plan_known: "plan_of c tid db = d # ds \<Longrightarrow> task_lookup tid db \<noteq> None"
  by (auto simp: plan_of_def split: option.splits)

lemma tick_plan_step:
  assumes "calm w" and "codec_ok (sl_codec L)" and "idle planner db"
    and "plan_of (sl_codec L) planner db = d # ds" and "task_lookup (executor_id L w planner) db = None"
    and run: "tick_plan L w planner db = (db', r)"
  shows "r = Inr ()" and "plan_of (sl_codec L) planner db' = ds"
    and "executes planner (executor_id L w planner) d db'"
    and "u \<noteq> planner \<Longrightarrow> u \<noteq> executor_id L w planner \<Longrightarrow> task_lookup u db' = task_lookup u db"
    and "idle planner db'"
proof -
  let ?c = "sl_codec L" and ?xid = "executor_id L w planner"
  let ?f = "\<lambda>r. r\<lparr>tk_plan_todo := print_strings ?c ds, tk_updated_at := now_str L (at_w ''pop'' w)\<rparr>"
  let ?v = "jobj [(''task_id'', JStr ?xid), (''description'', JStr d), (''chat_id'', JStr []),
      (''trigger'', JStr ''plan''), (''plan_parent'', JStr planner)]"
  define db1 where "db1 = fst (update_task planner ?f db)"
  have look1: "task_lookup u db1 = (if u = planner then map_option ?f (task_lookup u db) else task_lookup u db)" for u
    by (simp add: db1_def task_lookup_update)
  have known: "task_lookup planner db \<noteq> None" using assms(4) by (rule plan_known)
  then have ne: "?xid \<noteq> planner" using assms(5) by auto
  have make: "task_create L (at_w ''create'' w) (executor_task ?c (timestamp L w) planner d) db1 = (db', r)"
    using run assms(1,3)
    by (simp add: tick_plan_def attempt_def idle_iff andthen_def db1_def
        pop_plan_calm [OF calm_at [OF assms(1)] assms(2,4)])
  have p: "from_str ?c (executor_task ?c (timestamp L w) planner d) = Inr ?v"
    using executor_task_parses [OF assms(2)] by (simp add: executor_id_def)
  have free: "task_lookup (str_field ?v ''task_id'' []) db1 = None"
    using assms(5) ne by (simp add: look1 executor_json)
  note t = task_create_fresh [OF calm_at [OF assms(1)] p free make]
  show "r = Inr ()" by (rule t(1))
  show "executes planner ?xid d db'"
    using stands_fields [OF t(2)] by (auto simp: executes_def new_task_row_def executor_json)
  have other: "task_lookup u db' = task_lookup u db1" if "u \<noteq> ?xid" for u
    using t(3) that by (simp add: executor_json)
  from other [OF ne [symmetric]] show "plan_of ?c planner db' = ds"
    using plan_of_update [OF assms(2) known] by (simp add: plan_of_def db1_def)
  show "task_lookup u db' = task_lookup u db" if "u \<noteq> planner" "u \<noteq> ?xid"
    using other [OF that(2)] that(1) by (simp add: look1)
  have idle: "idle planner db1" using assms(3) by (auto simp: idle_def db1_def update_task_def modify_def)
  have "keeps (idle planner) (task_create L w' content)" for w' content
  proof -
    have "keeps (idle planner) (insert_task_row (new_task_row val now))" for val now
      by (auto simp: keeps_def idle_def insert_task_row_def new_task_row_def)
    moreover have "keeps (idle planner) (insert_task_fts F tid)" for F tid
      by (auto simp: keeps_def idle_def insert_task_fts_def split: option.splits sum.splits)
    ultimately show ?thesis unfolding task_create_def by (intro keeps_intros)
  qed
  then show "idle planner db'" using idle make by (rule keepsD')
qed

section \<open>The consolidator's jobs\<close>

definition job_id :: "('f, 't) sys_lib \<Rightarrow> 't world \<Rightarrow> cron_job \<Rightarrow> string" where
  "job_id L w job = ''cron-'' @ cj_name job @ ''-'' @ timestamp L w"

lemma consolidator_names: "map cj_name consolidator_jobs =
    [''consolidate-short-summary'', ''consolidate-short-persona'', ''consolidate-mid-summary'',
     ''consolidate-mid-persona'', ''consolidate-graph'']"
  by (simp add: consolidator_jobs_def consolidator_job_def)

lemma cron_register_all: "distinct (map cj_name ks) \<Longrightarrow>
    fold cron_register ks js n = Some j \<longleftrightarrow>
    j \<in> set ks \<and> cj_name j = n \<or> n \<notin> cj_name ` set ks \<and> js n = Some j"
  by (induction ks arbitrary: js) (auto simp: cron_register_def image_iff)

lemma consolidator_table:
  "register_consolidator_jobs cron_new n = Some j \<longleftrightarrow> j \<in> set consolidator_jobs \<and> cj_name j = n"
proof -
  have "distinct (map cj_name consolidator_jobs)" unfolding consolidator_names by simp
  from cron_register_all [OF this] show ?thesis
    by (simp add: register_consolidator_jobs_def cron_new_def)
qed

lemma consolidator_ids:
  assumes "j \<in> set consolidator_jobs" "k \<in> set consolidator_jobs" and "cj_name j \<noteq> cj_name k"
  shows "job_id L v j \<noteq> job_id L w k"
proof -
  have "cj_name j \<in> set (map cj_name consolidator_jobs)" "cj_name k \<in> set (map cj_name consolidator_jobs)"
    using assms(1,2) by simp_all
  with assms(3) show ?thesis unfolding consolidator_names job_id_def by auto
qed

lemma consolidator_template:
  assumes "j \<in> set consolidator_jobs"
  obtains d r where "cj_task_template j = JObj [(''description'', JStr d), (''resource'', JStr r)]" "cj_enabled j"
  using assms that by (auto simp: consolidator_jobs_def consolidator_job_def jobj_def less_char_def)

lemma consolidator_task:
  assumes "j \<in> set consolidator_jobs" and "codec_ok (sl_codec L)"
  obtains v where "cron_fire L w (register_consolidator_jobs cron_new) (cj_name j) =
      task_create L w (to_str (sl_codec L) v)"
    and "from_str (sl_codec L) (to_str (sl_codec L) v) = Inr v" and "str_field v ''task_id'' [] = job_id L w j"
    and "\<And>x. str_field v ''trigger'' x = ''cron''"
    and "\<And>k x. k = ''description'' \<or> k = ''resource'' \<Longrightarrow> str_field v k x = str_field (cj_task_template j) k x"
proof -
  obtain d r where t: "cj_task_template j = JObj [(''description'', JStr d), (''resource'', JStr r)]" "cj_enabled j"
    using consolidator_template [OF assms(1)] .
  let ?v = "JObj [(''description'', JStr d), (''resource'', JStr r), (''task_id'', JStr (job_id L w j)), (''trigger'', JStr ''cron'')]"
  have c: "cron_task (timestamp L w) j = ?v"
    by (simp add: cron_task_def t job_id_def less_char_def)
  have "wf_json ?v" "float_free ?v" by (simp_all add: sorted_keys_def less_char_def)
  from codec_okD(1) [OF assms(2) this] have p: "from_str (sl_codec L) (to_str (sl_codec L) ?v) = Inr ?v" .
  have "register_consolidator_jobs cron_new (cj_name j) = Some j"
    using assms(1) consolidator_table by blast
  then have "cron_fire L w (register_consolidator_jobs cron_new) (cj_name j) = task_create L w (to_str (sl_codec L) ?v)"
    by (simp add: cron_fire_def t c)
  moreover have "str_field ?v ''task_id'' [] = job_id L w j" "str_field ?v ''trigger'' x = ''cron''" for x
    by (simp_all add: str_field_def)
  moreover have "str_field ?v k x = str_field (cj_task_template j) k x" if "k = ''description'' \<or> k = ''resource''" for k x
    using that by (auto simp: str_field_def t)
  ultimately show thesis using that p by blast
qed

lemma keeps_stands_fire_each [keeps_intros]: "keeps (stands r0) (fire_each L w js names)"
  by (induction names) (auto simp del: andthen_ignore intro!: keeps_intros)

text \<open>The task a due job leaves.\<close>

definition job_task :: "string \<Rightarrow> cron_job \<Rightarrow> task_row \<Rightarrow> bool" where
  "job_task xid j r \<longleftrightarrow> tk_task_id r = xid \<and> tk_status r = ''pending'' \<and> tk_trigger r = ''cron'' \<and>
     tk_description r = str_field (cj_task_template j) ''description'' [] \<and>
     tk_resource r = str_field (cj_task_template j) ''resource'' []"

lemma fire_each_creates:
  fixes L :: "('f, 't) sys_lib"
  assumes "calm w" and "codec_ok (sl_codec L)" and "j \<in> set consolidator_jobs"
    and "xid = job_id L (at_w (cj_name j) w) j"
  shows "set names \<subseteq> cj_name ` set consolidator_jobs \<Longrightarrow> cj_name j \<in> set names \<Longrightarrow> task_lookup xid db = None \<Longrightarrow>
    \<exists>r0. job_task xid j r0 \<and> stands r0 (fst (fire_each L w (register_consolidator_jobs cron_new) names db))"
proof (induction names arbitrary: db)
  case (Cons n ns)
  let ?js = "register_consolidator_jobs cron_new"
  obtain k where k: "k \<in> set consolidator_jobs" "n = cj_name k" using Cons.prems(1) by auto
  let ?w = "at_w n w"
  obtain v where v: "cron_fire L ?w ?js (cj_name k) = task_create L ?w (to_str (sl_codec L) v)"
    "from_str (sl_codec L) (to_str (sl_codec L) v) = Inr v" "str_field v ''task_id'' [] = job_id L ?w k"
    "\<And>x. str_field v ''trigger'' x = ''cron''"
    "\<And>f x. f = ''description'' \<or> f = ''resource'' \<Longrightarrow> str_field v f x = str_field (cj_task_template k) f x"
    using consolidator_task [OF k(1) assms(2), of ?w] by blast
  obtain db1 q where run: "task_create L ?w (to_str (sl_codec L) v) db = (db1, q)" by fastforce
  have step: "fst (fire_each L w ?js (n # ns) db) = fst (fire_each L w ?js ns db1)"
    using run v(1) k(2) by simp
  show ?case
  proof (cases "n = cj_name j")
    case True
    then have "k = j" using k assms(3) consolidator_table by (metis option.inject)
    with True have id: "job_id L ?w k = xid" using assms(4) by simp
    have free: "task_lookup (str_field v ''task_id'' []) db = None" using Cons.prems(3) v(3) id by simp
    let ?r0 = "new_task_row v (now_str L ?w)"
    note st = task_create_fresh(2) [OF calm_at [OF assms(1)] v(2) free run]
    have "job_task xid j ?r0" using v(3-5) id \<open>k = j\<close> by (simp add: job_task_def new_task_row_def)
    moreover have "stands ?r0 (fst (fire_each L w ?js (n # ns) db))"
      unfolding step by (rule keepsD [OF keeps_stands_fire_each st])
    ultimately show ?thesis by blast
  next
    case False
    then have ne: "xid \<noteq> str_field v ''task_id'' []"
      using consolidator_ids [OF assms(3) k(1)] k(2) by (simp add: v(3) assms(4))
    have "task_lookup xid db1 = task_lookup xid db"
    proof (cases "task_lookup (str_field v ''task_id'' []) db")
      case None
      from task_create_fresh(3) [OF calm_at [OF assms(1)] v(2) this run ne] show ?thesis .
    next
      case (Some x)
      with task_create_taken [OF v(2), of db ?w] run show ?thesis by simp
    qed
    with Cons.IH [of db1] Cons.prems False show ?thesis unfolding step by auto
  qed
qed simp

section \<open>Properties\<close>

text \<open>
  C37: A planner's tick takes the head off its plan and makes it a pending task of the planner, and
  since only an active executor holds the next tick back, the next tick does it again: both steps
  stand pending at once and may run side by side, whatever their order in the plan was for.\<close>

theorem second_executor:
  assumes "calm w1" "calm w2" and "codec_ok (sl_codec L)" and "idle planner db"
    and "plan_of (sl_codec L) planner db = d1 # d2 # ds"
    and "executor_id L w1 planner \<noteq> executor_id L w2 planner"
    and "task_lookup (executor_id L w1 planner) db = None" "task_lookup (executor_id L w2 planner) db = None"
    and "tick_plan L w1 planner db = (db1, r1)" and "tick_plan L w2 planner db1 = (db2, r2)"
  shows "r1 = Inr () \<and> r2 = Inr () \<and> executes planner (executor_id L w1 planner) d1 db2 \<and>
    executes planner (executor_id L w2 planner) d2 db2 \<and> plan_of (sl_codec L) planner db2 = ds"
proof -
  note t1 = tick_plan_step [OF assms(1,3,4,5,7,9)]
  have "task_lookup planner db \<noteq> None" using assms(5) by (rule plan_known)
  then have ne: "executor_id L w1 planner \<noteq> planner" "executor_id L w2 planner \<noteq> planner"
    using assms(7,8) by auto
  have free: "task_lookup (executor_id L w2 planner) db1 = None"
    using t1(4) [OF ne(2) assms(6) [symmetric]] assms(8) by simp
  note t2 = tick_plan_step [OF assms(2,3) t1(5,2) free assms(10)]
  have "executes planner (executor_id L w1 planner) d1 db2"
    using t1(3) t2(4) [OF ne(1) assms(6)] by (simp add: executes_def)
  with t1(1) t2 show ?thesis by blast
qed

definition demo_planner :: task_row where
  "demo_planner = (demo_task ''p'' ''sleep'')\<lparr>tk_plan_todo := print_strings note_codec [''a'', ''b'']\<rparr>"

theorem second_executor_witness:
  "let db1 = fst (tick_plan demo_lib (still 60) ''p'' (demo_db [demo_planner]));
       db2 = fst (tick_plan demo_lib (still 120) ''p'' db1)
   in executes ''p'' ''plan-exec-p-60'' ''a'' db2 \<and> executes ''p'' ''plan-exec-p-120'' ''b'' db2"
proof -
  have ids: "executor_id demo_lib (still 60) ''p'' = ''plan-exec-p-60''"
    "executor_id demo_lib (still 120) ''p'' = ''plan-exec-p-120''"
    by (simp_all add: executor_id_def timestamp_def demo_chrono_def still_def nat_str.simps digit_char_def char_of_def bit_0)
  have "plan_of (sl_codec demo_lib) ''p'' (demo_db [demo_planner]) = ''a'' # ''b'' # []"
    by (simp add: plan_of_def demo_db_def demo_planner_def demo_task_def task_lookup_def note_codec_ok)
  moreover have "idle ''p'' (demo_db [demo_planner])" "task_lookup ''plan-exec-p-60'' (demo_db [demo_planner]) = None"
    "task_lookup ''plan-exec-p-120'' (demo_db [demo_planner]) = None"
    by (simp_all add: idle_def demo_db_def demo_planner_def demo_task_def task_lookup_def)
  ultimately show ?thesis
    using second_executor [where L = demo_lib and planner = "''p''" and db = "demo_db [demo_planner]",
        OF calm_still [of 60] calm_still [of 120] _ _ _ _ _ _ prod.collapse [symmetric] prod.collapse [symmetric]]
    by (simp add: ids note_codec_ok Let_def)
qed

text \<open>
  A plan step whose task cannot be created is lost: the tick ends with the error, the step has
  been taken off the plan, and no task was added.\<close>

theorem plan_step_lost:
  assumes "codec_ok (sl_codec L)" and "plan_of (sl_codec L) planner db = d # ds" and "idle planner db"
    and "w_flt w [''pop'', ''get plan_todo''] = None" "w_flt w [''pop'', ''pop plan head''] = None"
    and "task_lookup (executor_id L w planner) db \<noteq> None" and "executor_id L w planner \<noteq> planner"
    and "tick_plan L w planner db = (db', r)"
  shows "\<not> is_ok r \<and> plan_of (sl_codec L) planner db' = ds \<and>
    map tk_task_id (sd_tasks db') = map tk_task_id (sd_tasks db)"
proof -
  let ?c = "sl_codec L" and ?xid = "executor_id L w planner"
  let ?f = "\<lambda>r. r\<lparr>tk_plan_todo := print_strings ?c ds, tk_updated_at := now_str L (at_w ''pop'' w)\<rparr>"
  define db1 where "db1 = fst (update_task planner ?f db)"
  have pop: "pop_plan_head L (at_w ''pop'' w) planner db = (db1, Inr (Some d))"
    using assms(2,4,5)
    by (auto simp: pop_plan_head_def plan_of_def sql_def at_w_def at_def step_defs update_task_def db1_def
        split: option.splits)
  have check: "\<exists>q. has_active_executor (at_w ''check'' w) planner db = (db, q) \<and> \<not> unwrap_or q False"
    using assms(3)
    by (auto simp: has_active_executor_def sql_def step_defs idle_def filter_empty_conv split: option.splits)
  have taken: "task_lookup ?xid db1 \<noteq> None"
    using assms(6,7) by (simp add: db1_def task_lookup_update)
  have make: "task_create L (at_w ''create'' w) (executor_task ?c (timestamp L w) planner d) db1 = (db', r)"
    using assms(8) check pop by (auto simp: tick_plan_def attempt_def andthen_def)
  let ?v = "jobj [(''task_id'', JStr ?xid), (''description'', JStr d), (''chat_id'', JStr []),
      (''trigger'', JStr ''plan''), (''plan_parent'', JStr planner)]"
  have p: "from_str ?c (executor_task ?c (timestamp L w) planner d) = Inr ?v"
    using executor_task_parses [OF assms(1)] by (simp add: executor_id_def)
  have "db' = db1" "\<not> is_ok r"
    using task_create_taken [OF p, of db1 "at_w ''create'' w"] taken make by (simp_all add: executor_json)
  moreover have "task_lookup planner db \<noteq> None" using assms(2) by (rule plan_known)
  ultimately show ?thesis
    using plan_of_update [OF assms(1), where tid = planner and db = db and xs = ds]
    by (simp add: db1_def) (simp add: update_task_def modify_def)
qed

theorem plan_step_lost_witness:
  "let db = demo_db [demo_planner, demo_task ''plan-exec-p-60'' ''pending''];
       (db', r) = tick_plan demo_lib (still 60) ''p'' db
   in \<not> is_ok r \<and> plan_of note_codec ''p'' db' = [''b'']"
proof -
  let ?db = "demo_db [demo_planner, demo_task ''plan-exec-p-60'' ''pending'']"
  have id: "executor_id demo_lib (still 60) ''p'' = ''plan-exec-p-60''"
    by (simp add: executor_id_def timestamp_def demo_chrono_def still_def nat_str.simps digit_char_def char_of_def bit_0)
  have "plan_of (sl_codec demo_lib) ''p'' ?db = ''a'' # [''b'']"
    by (simp add: plan_of_def demo_db_def demo_planner_def demo_task_def task_lookup_def note_codec_ok)
  moreover have "idle ''p'' ?db" "task_lookup ''plan-exec-p-60'' ?db \<noteq> None"
    by (simp_all add: idle_def demo_db_def demo_planner_def demo_task_def task_lookup_def)
  moreover have "w_flt (still t) l = None" for t :: nat and l by (simp add: still_def no_faults_def)
  ultimately show ?thesis
    using plan_step_lost [where L = demo_lib and planner = "''p''" and db = ?db and w = "still 60",
        OF _ _ _ _ _ _ _ prod.collapse [symmetric]]
    by (simp add: id note_codec_ok Let_def split_beta)
qed

text \<open>
  C14: Consolidation happens: at every tick each job of the consolidator that is due gets its
  pending task, with the job's instructions and resource and the trigger \<open>cron\<close>, whatever the
  other jobs and the plan tick of the same round do, provided the id it is given is free.\<close>

theorem consolidator_tick:
  fixes L :: "('f, 't) sys_lib"
  assumes "calm w" and "codec_ok (sl_codec L)" and "enumerates ord"
    and "j \<in> set consolidator_jobs" and "due S w j"
    and "task_lookup (job_id L (at_w (cj_name j) (at_w ''fire'' w)) j) db = None"
    and run: "cron_tick L S ord w (register_consolidator_jobs cron_new) db = (db', r)"
  shows "r = Inr () \<and> (\<exists>t. task_lookup (job_id L (at_w (cj_name j) (at_w ''fire'' w)) j) db' = Some t \<and>
    job_task (job_id L (at_w (cj_name j) (at_w ''fire'' w)) j) j t)"
proof -
  let ?js = "register_consolidator_jobs cron_new" and ?w = "at_w ''fire'' w"
  let ?xid = "job_id L (at_w (cj_name j) ?w) j"
  let ?names = "map cj_name (filter (due S w) (map_values ord ?js))"
  have "dom ?js \<subseteq> cj_name ` set consolidator_jobs" by (auto simp: consolidator_table)
  then have "finite (dom ?js)" by (rule finite_subset) simp
  then have vals: "set (map_values ord ?js) = ran ?js" by (rule set_map_values [OF assms(3)])
  then have names: "set ?names \<subseteq> cj_name ` set consolidator_jobs" "cj_name j \<in> set ?names"
    using assms(4,5) by (auto simp: ran_def consolidator_table)
  obtain r0 where r0: "job_task ?xid j r0" "stands r0 (fst (fire_each L ?w ?js ?names db))"
    using fire_each_creates [OF calm_at [OF assms(1)] assms(2,4) refl names assms(6)] by blast
  obtain db1 q where f: "fire_each L ?w ?js ?names db = (db1, q)" by fastforce
  have "fire_each L v js ns x = (fst (fire_each L v js ns x), Inr ())" for v js ns and x :: "'f sys_db"
    by (induction ns arbitrary: x) (simp_all add: ret_def)
  then have "q = Inr ()" using f by (metis snd_conv)
  with run f have out: "r = Inr ()" "db' = fst (tick_plans L (at_w ''plans'' w) db1)"
    by (simp_all add: cron_tick_def andthen_def ignore_errors_eq)
  have "stands r0 db'" unfolding out(2) by (rule keepsD [OF keeps_stands_tick_plans]) (use r0(2) f in simp)
  then obtain t where t: "task_lookup (tk_task_id r0) db' = Some t"
      "tk_status t = tk_status r0" "tk_description t = tk_description r0" "tk_resource t = tk_resource r0"
      "tk_trigger t = tk_trigger r0"
    using stands_fields by blast
  have "tk_task_id t = tk_task_id r0" using task_lookup_Some [OF t(1)] by simp
  with t r0(1) out(1) show ?thesis by (auto simp: job_task_def)
qed

definition demo_schedule :: "nat schedule" where
  "demo_schedule = \<lparr>sc_upcoming = (\<lambda>e t. Some (t + 30)), sc_seconds = (\<lambda>s t. int t - int s)\<rparr>"

theorem consolidator_tick_witness:
  "\<exists>t. task_lookup ''cron-consolidate-graph-7'' (fst (cron_tick demo_lib demo_schedule sorted_list_of_set (still 7)
      (register_consolidator_jobs cron_new) (demo_db []))) = Some t \<and> tk_resource t = ''logos://memory/*/graph''"
proof -
  let ?j = "consolidator_jobs ! 4"
  have j: "?j \<in> set consolidator_jobs" "cj_name ?j = ''consolidate-graph''"
    "str_field (cj_task_template ?j) ''resource'' [] = ''logos://memory/*/graph''"
    by (simp_all add: consolidator_jobs_def consolidator_job_def str_field_def jget_jobj)
  have "due demo_schedule (still 7) ?j"
    by (simp add: due_def demo_schedule_def still_def consolidator_jobs_def consolidator_job_def)
  moreover have id: "job_id demo_lib (at_w (cj_name ?j) (at_w ''fire'' (still 7))) ?j = ''cron-consolidate-graph-7''"
    by (simp add: job_id_def j(2) timestamp_def demo_chrono_def still_def at_w_def nat_str.simps digit_char_def
        char_of_def bit_0)
  moreover have "task_lookup x (demo_db []) = None" for x by (simp add: demo_db_def task_lookup_def)
  ultimately show ?thesis
    using consolidator_tick [OF calm_still [of 7] _ enumerates_sorted_list j(1), where L = demo_lib
        and S = demo_schedule and db = "demo_db []", OF _ _ _ prod.collapse [symmetric]]
    by (auto simp: note_codec_ok job_task_def j(3))
qed

end
