(* ===== verification/Logos_Kernel.thy ===== *)
theory Logos_Kernel
  imports Logos_Tools Logos_Access Logos_Cron
begin

text \<open>
  The kernel: the state it keeps, the routing table the boot mounts (\<open>logos-kernel/src/main.rs\<close>),
  the assembly of an agent's context (\<open>context.rs\<close>) and the handlers of the gRPC service
  (\<open>grpc.rs\<close>). All components share one state; a namespace sees its part of it through a lens.
\<close>

section \<open>State\<close>

record ('f, 'g, 'd, 's) kernel =
  kn_proc :: "('f, 'g, 'd, 's) core proc_state"
  kn_tokens :: token_registry
  kn_tmp :: tmp_store
  kn_services :: registry
  kn_jobs :: jobs

text \<open>What the boot fixes, and what a request brings: faults and clocks.\<close>

record ('f, 'g, 'd, 'v, 't, 's) config =
  cf_libs :: "('f, 'g, 'd, 'v, 't, 's) libs"
  cf_users_root :: fpath
  cf_proc_store_root :: fpath
  cf_svc_store_root :: fpath
  cf_external :: "sandbox proc_tool list"
  cf_browser :: bool

record 't request_env =
  rq_world :: "'t world"
  rq_tick :: nat
  rq_instants :: instants
  rq_now :: nat

definition compose_lens :: "('s, 'c) lens \<Rightarrow> ('c, 'b) lens \<Rightarrow> ('s, 'b) lens" where
  "compose_lens A B = \<lparr>lget = (\<lambda>s. lget B (lget A s)), lput = (\<lambda>x s. lput A (lput B x (lget A s)) s)\<rparr>"

lemma compose_lens_ok: "lens_ok A \<Longrightarrow> lens_ok B \<Longrightarrow> lens_ok (compose_lens A B)"
  by (simp add: lens_ok_def compose_lens_def)

definition proc_lens :: "(('f, 'g, 'd, 's) kernel, ('f, 'g, 'd, 's) core proc_state) lens" where
  "proc_lens = \<lparr>lget = kn_proc, lput = (\<lambda>x k. k\<lparr>kn_proc := x\<rparr>)\<rparr>"

definition rest_lens :: "('t proc_state, 't) lens" where
  "rest_lens = \<lparr>lget = ps_rest, lput = (\<lambda>x s. s\<lparr>ps_rest := x\<rparr>)\<rparr>"

definition fs_lens :: "(sandbox, tree) lens" where
  "fs_lens = \<lparr>lget = sb_fs, lput = (\<lambda>x s. s\<lparr>sb_fs := x\<rparr>)\<rparr>"

definition tmp_lens :: "(('f, 'g, 'd, 's) kernel, tmp_store) lens" where
  "tmp_lens = \<lparr>lget = kn_tmp, lput = (\<lambda>x k. k\<lparr>kn_tmp := x\<rparr>)\<rparr>"

definition services_lens :: "(('f, 'g, 'd, 's) kernel, registry) lens" where
  "services_lens = \<lparr>lget = kn_services, lput = (\<lambda>x k. k\<lparr>kn_services := x\<rparr>)\<rparr>"

definition core_lens :: "(('f, 'g, 'd, 's) kernel, ('f, 'g, 'd, 's) core) lens" where
  "core_lens = compose_lens proc_lens rest_lens"

definition system_lens :: "(('f, 'g, 'd, 's) kernel, 'f sys_db) lens" where
  "system_lens = compose_lens core_lens system_part"

definition memory_lens :: "(('f, 'g, 'd, 's) kernel, ('g, 'd) memory) lens" where
  "memory_lens = compose_lens core_lens memory_part"

definition sandbox_lens :: "(('f, 'g, 'd, 's) kernel, sandbox) lens" where
  "sandbox_lens = compose_lens core_lens sandbox_part"

definition host_lens :: "(('f, 'g, 'd, 's) kernel, 's) lens" where
  "host_lens = compose_lens core_lens host_part"

definition tree_lens :: "(('f, 'g, 'd, 's) kernel, tree) lens" where
  "tree_lens = compose_lens sandbox_lens fs_lens"

lemma kernel_lenses:
  "lens_ok proc_lens" "lens_ok tmp_lens" "lens_ok services_lens" "lens_ok core_lens" "lens_ok system_lens"
  "lens_ok memory_lens" "lens_ok sandbox_lens" "lens_ok host_lens" "lens_ok tree_lens"
proof -
  show l: "lens_ok proc_lens" "lens_ok tmp_lens" "lens_ok services_lens"
    by (simp_all add: lens_ok_def proc_lens_def tmp_lens_def services_lens_def)
  have "lens_ok rest_lens" by (simp add: lens_ok_def rest_lens_def)
  with l(1) show c: "lens_ok core_lens" unfolding core_lens_def by (rule compose_lens_ok)
  show "lens_ok system_lens" "lens_ok memory_lens" "lens_ok host_lens" and s: "lens_ok sandbox_lens"
    unfolding system_lens_def memory_lens_def sandbox_lens_def host_lens_def
    by (intro compose_lens_ok c core_lenses)+
  have "lens_ok fs_lens" by (simp add: lens_ok_def fs_lens_def)
  with s show "lens_ok tree_lens" unfolding tree_lens_def by (rule compose_lens_ok)
qed

section \<open>The routing table\<close>

definition on_part :: "('s, 'c) lens \<Rightarrow> 'c namespace \<Rightarrow> 's namespace" where
  "on_part L ns =
     \<lparr>ns_name = ns_name ns, ns_read = (\<lambda>p. zoom L (ns_read ns p)),
      ns_write = (\<lambda>p content. zoom L (ns_write ns p content)),
      ns_patch = (\<lambda>p partial. zoom L (ns_patch ns p partial))\<rparr>"

definition kernel_tools ::
  "('f, 'g, 'd, 'v, 't, 's) config \<Rightarrow> 't request_env \<Rightarrow> ('f, 'g, 'd, 's) core tools" where
  "kernel_tools K q = tool_table (cf_libs K) (at_w ''tool'' (rq_world q)) (cf_browser K) (cf_external K)"

text \<open>The namespaces in the order the boot mounts them; \<open>sandbox\<close> is the last.\<close>

definition boot_namespaces ::
  "('f, 'g, 'd, 'v, 't, 's) config \<Rightarrow> 't request_env \<Rightarrow> ('f, 'g, 'd, 's) kernel namespace list" where
  "boot_namespaces K q =
     (let B = cf_libs K; w = rq_world q; flt = w_flt w; c = lb_codec B in
      [on_part tree_lens (users_namespace c (lb_dirs B) (at ''users'' flt) (cf_users_root K)),
       on_part memory_lens (memory_namespace (lb_mm B) (lb_order B) (lb_l2 B) (rq_tick q) (at_w ''memory'' w)),
       on_part system_lens (system_namespace (lb_sys B) (at_w ''system'' w)),
       on_part tmp_lens (tmp_namespace c (lb_order B)),
       on_part tree_lens (store_namespace c (lb_dirs B) (at ''proc-store'' flt) (proc_store_dir (cf_proc_store_root K))),
       on_part proc_lens (proc_namespace c (lb_order B) (kernel_tools K q) (rq_instants q)),
       on_part services_lens (services_namespace c (lb_order B)),
       on_part tree_lens (store_namespace c (lb_dirs B) (at ''svc-store'' flt) (svc_store_dir (cf_svc_store_root K))),
       on_part host_lens (devices_namespace c (lb_order B)
         (devices_register (mac_driver c (ht_spawn (lb_host B))) devices_new)),
       on_part sandbox_lens (sandbox_namespace c (lb_dirs B) (at ''sandbox'' flt) (lb_sandbox_root B))])"

definition kernel_table ::
  "('f, 'g, 'd, 'v, 't, 's) config \<Rightarrow> 't request_env \<Rightarrow> ('f, 'g, 'd, 's) kernel routing_table" where
  "kernel_table K q =
     table_open (fold table_mount (boot_namespaces K q)
       (add_middleware (json_validator (lb_codec (cf_libs K))) table_new))"

section \<open>Context\<close>

text \<open>\<open>assemble_context\<close>: the session, the latest short summary and the sender's persona, each left out where it cannot be read.\<close>

definition read_or ::
  "('f, 'g, 'd, 's) kernel routing_table \<Rightarrow> string \<Rightarrow> string \<Rightarrow> (('f, 'g, 'd, 's) kernel, string) vfs_step" where
  "read_or t uri fallback = attempt (table_read t uri) (\<lambda>r. ret (unwrap_or r fallback))"

definition assemble_context ::
  "('f, 'g, 'd, 'v, 't, 's) libs \<Rightarrow> ('f, 'g, 'd, 's) kernel routing_table \<Rightarrow> string \<Rightarrow> string \<Rightarrow> int option \<Rightarrow>
   (('f, 'g, 'd, 's) kernel, string) vfs_step" where
  "assemble_context B t chat_id sender_uid trigger_msg_id =
     andthen (zoom core_lens (current_session B chat_id trigger_msg_id)) (\<lambda>session.
     andthen (read_or t (''logos://memory/groups/'' @ chat_id @ ''/summary/short/latest'') ''null'') (\<lambda>recent_summary.
     andthen (read_or t (''logos://users/'' @ sender_uid @ ''/persona/long.md'') []) (\<lambda>persona_long.
     andthen (read_or t (''logos://users/'' @ sender_uid @ ''/persona/mid/'') []) (\<lambda>persona_mid.
     ret (to_str (lb_codec B) (jobj
       [(''session'', session),
        (''recent_summary'', unwrap_or (from_str (lb_codec B) recent_summary) JNull),
        (''sender_persona'', jobj [(''long'', JStr persona_long), (''mid'', JStr persona_mid)])]))))))"

section \<open>The gRPC handlers\<close>

definition to_status :: "('s, 'a) vfs_step \<Rightarrow> ('s, 'a) status_step" where
  "to_status m s = (case m s of (s', r) \<Rightarrow> (s', map_err vfs_to_status r))"

type_synonym ('f, 'g, 'd, 's, 'a) handler = "(('f, 'g, 'd, 's) kernel, 'a) status_step"

text \<open>A handler begins with the session the request's header names.\<close>

definition with_info ::
  "string option \<Rightarrow> (session_info option \<Rightarrow> ('f, 'g, 'd, 's, 'a) handler) \<Rightarrow> ('f, 'g, 'd, 's, 'a) handler" where
  "with_info header f k = f (extract_session_info (kn_tokens k) header) k"

definition guarded ::
  "('f, 'g, 'd, 'v, 't, 's) config \<Rightarrow> 't request_env \<Rightarrow> session_info option \<Rightarrow> string \<Rightarrow> bool \<Rightarrow>
   (('f, 'g, 'd, 's) kernel, 'a) vfs_step \<Rightarrow> ('f, 'g, 'd, 's, 'a) handler" where
  "guarded K q info uri is_write m =
     andthen (zoom system_lens (check_access (lb_sys (cf_libs K)) (at_w ''access'' (rq_world q)) info uri is_write))
       (\<lambda>_. to_status m)"

definition grpc_read ::
  "('f, 'g, 'd, 'v, 't, 's) config \<Rightarrow> 't request_env \<Rightarrow> string option \<Rightarrow> string \<Rightarrow> ('f, 'g, 'd, 's, string) handler" where
  "grpc_read K q header uri0 = with_info header (\<lambda>info.
     (let uri = resolve_uri uri0 info in guarded K q info uri False (table_read (kernel_table K q) uri)))"

definition grpc_write ::
  "('f, 'g, 'd, 'v, 't, 's) config \<Rightarrow> 't request_env \<Rightarrow> string option \<Rightarrow> string \<Rightarrow> string \<Rightarrow> ('f, 'g, 'd, 's, unit) handler" where
  "grpc_write K q header uri0 content = with_info header (\<lambda>info.
     (let uri = resolve_uri uri0 info in guarded K q info uri True (table_write (kernel_table K q) uri content)))"

definition grpc_patch ::
  "('f, 'g, 'd, 'v, 't, 's) config \<Rightarrow> 't request_env \<Rightarrow> string option \<Rightarrow> string \<Rightarrow> string \<Rightarrow> ('f, 'g, 'd, 's, unit) handler" where
  "grpc_patch K q header uri0 partial = with_info header (\<lambda>info.
     (let uri = resolve_uri uri0 info in guarded K q info uri True (table_patch (kernel_table K q) uri partial)))"

definition grpc_exec ::
  "('f, 'g, 'd, 'v, 't, 's) config \<Rightarrow> 't request_env \<Rightarrow> string option \<Rightarrow> string \<Rightarrow> ('f, 'g, 'd, 's, exec_result) handler" where
  "grpc_exec K q header command = with_info header (\<lambda>info.
     case info of
       None \<Rightarrow> fail (Unauthenticated ''exec requires a valid session'')
     | Some si \<Rightarrow> to_status (zoom sandbox_lens (sandbox_exec (lb_exec (cf_libs K)) (at ''exec'' (w_flt (rq_world q)))
           (lb_sandbox_root (cf_libs K)) command (si_agent_config_id si) (si_task_id si))))"

definition grpc_call ::
  "('f, 'g, 'd, 'v, 't, 's) config \<Rightarrow> 't request_env \<Rightarrow> string option \<Rightarrow> string \<Rightarrow> string \<Rightarrow> ('f, 'g, 'd, 's, string) handler" where
  "grpc_call K q header tool params = with_info header (\<lambda>info.
     case info of
       None \<Rightarrow> fail (Unauthenticated ''call requires a valid session'')
     | Some _ \<Rightarrow> to_status (zoom proc_lens (proc_call (kernel_tools K q) tool params)))"

text \<open>\<open>Inr key\<close> is the accepted handshake with the session key in the header, \<open>Inl\<close> the refusal.\<close>

definition grpc_handshake ::
  "('f, 'g, 'd, 'v, 't, 's) config \<Rightarrow> 't request_env \<Rightarrow> string \<Rightarrow> ('f, 'g, 'd, 's, string + string) handler" where
  "grpc_handshake K q token k =
     (case token_consume token (rq_now q) (kn_tokens k) of
        (tokens, None) \<Rightarrow> (k\<lparr>kn_tokens := tokens\<rparr>, Inr (Inl ''invalid or already consumed token''))
      | (tokens, Some (key, task_id, agent_config_id)) \<Rightarrow>
          andthen (if agent_config_id \<noteq> []
              then ignore_errors (zoom sandbox_lens (ensure_container_for (lb_exec (cf_libs K))
                     (lb_sandbox_root (cf_libs K)) agent_config_id task_id))
              else ret ()) (\<lambda>_. ret (Inr key)) (k\<lparr>kn_tokens := tokens\<rparr>))"

definition grpc_register_token :: "string \<Rightarrow> string \<Rightarrow> string \<Rightarrow> string \<Rightarrow> ('f, 'g, 'd, 's, unit) handler" where
  "grpc_register_token token task_id agent_config_id role =
     (if token = [] \<or> task_id = [] then fail (InvalidArgument ''token and task_id required'')
      else modify (\<lambda>k. k\<lparr>kn_tokens :=
        token_register token task_id agent_config_id (agent_role_from_str role) (kn_tokens k)\<rparr>))"

definition grpc_revoke_token :: "string \<Rightarrow> ('f, 'g, 'd, 's, unit) handler" where
  "grpc_revoke_token token = modify (\<lambda>k. k\<lparr>kn_tokens := token_revoke token (kn_tokens k)\<rparr>)"

text \<open>Everything that happens to a running kernel: requests, ticks of the scheduler, cleanups.\<close>

datatype kernel_event =
    OnRead "string option" string
  | OnWrite "string option" string string
  | OnPatch "string option" string string
  | OnExec "string option" string
  | OnCall "string option" string string
  | OnHandshake string
  | OnRegisterToken string string string string
  | OnRevokeToken string
  | OnTick
  | OnCleanup
  | OnContext string string "int option"

fun kernel_exec ::
  "('f, 'g, 'd, 'v, 't, 's) config \<Rightarrow> 't schedule \<Rightarrow> ('f, 'g, 'd, 's) kernel \<Rightarrow> 't request_env \<times> kernel_event \<Rightarrow>
   ('f, 'g, 'd, 's) kernel" where
  "kernel_exec K S k (q, OnRead header uri) = fst (grpc_read K q header uri k)"
| "kernel_exec K S k (q, OnWrite header uri content) = fst (grpc_write K q header uri content k)"
| "kernel_exec K S k (q, OnPatch header uri partial) = fst (grpc_patch K q header uri partial k)"
| "kernel_exec K S k (q, OnExec header command) = fst (grpc_exec K q header command k)"
| "kernel_exec K S k (q, OnCall header tool params) = fst (grpc_call K q header tool params k)"
| "kernel_exec K S k (q, OnHandshake token) = fst (grpc_handshake K q token k)"
| "kernel_exec K S k (q, OnRegisterToken token task agent role) = fst (grpc_register_token token task agent role k)"
| "kernel_exec K S k (q, OnRevokeToken token) = fst (grpc_revoke_token token k)"
| "kernel_exec K S k (q, OnTick) =
     fst (zoom system_lens (cron_tick (lb_sys (cf_libs K)) S (lb_order (cf_libs K)) (rq_world q) (kn_jobs k)) k)"
| "kernel_exec K S k (q, OnCleanup) = k\<lparr>kn_tokens := cleanup_expired (rq_now q) (kn_tokens k)\<rparr>"
| "kernel_exec K S k (q, OnContext chat_id sender msg_id) =
     fst (assemble_context (cf_libs K) (kernel_table K q) chat_id sender msg_id k)"

section \<open>The start\<close>

definition kernel_new :: "('f, 'g, 'd, 's) core \<Rightarrow> ('f, 'g, 'd, 's) kernel" where
  "kernel_new c = \<lparr>kn_proc = \<lparr>ps_slots = Map.empty, ps_rest = c\<rparr>, kn_tokens = registry_new,
     kn_tmp = tmp_new, kn_services = Map.empty, kn_jobs = cron_new\<rparr>"

section \<open>The files of the message databases\<close>

text \<open>
  A group's messages are in \<open>{memory root}/{group}.db\<close> (\<open>MessageDb::pool\<close>), beside which SQLite keeps the
  journal or log of a database. These files are in the same tree as the others. \<open>kernel_step\<close> is
  what happens to a running kernel with that: when a step has changed one of a group's files other
  than through SQLite, the group holds what SQLite then reads from them, the parameter \<open>X\<close>
  (\<open>None\<close> where there is nothing to read). SQLite's own writes do not show in the tree.
\<close>

definition node_at :: "fpath \<Rightarrow> tree \<Rightarrow> node option" where
  "node_at p fs = (case walk fs [] p of Inl _ \<Rightarrow> None | Inr q \<Rightarrow> fs q)"

definition db_files :: "fpath \<Rightarrow> string \<Rightarrow> fpath list" where
  "db_files mroot chat_id =
     map (\<lambda>x. path_join mroot (chat_id @ ''.db'' @ x)) [[], ''-wal'', ''-shm'', ''-journal'']"

definition kernel_step ::
  "(string \<Rightarrow> tree \<Rightarrow> 'g group_db option) \<Rightarrow> fpath \<Rightarrow> ('f, 'g, 'd, 'v, 't, 's) config \<Rightarrow> 't schedule \<Rightarrow>
   ('f, 'g, 'd, 's) kernel \<Rightarrow> 't request_env \<times> kernel_event \<Rightarrow> ('f, 'g, 'd, 's) kernel" where
  "kernel_step X mroot K S k e =
     (let k' = kernel_exec K S k e; m = lget memory_lens k'; fs = lget tree_lens k; fs' = lget tree_lens k' in
      lput memory_lens (m\<lparr>mm_groups := (\<lambda>chat_id.
        if list_ex (\<lambda>p. node_at p fs' \<noteq> node_at p fs) (db_files mroot chat_id)
        then X chat_id fs' else mm_groups m chat_id)\<rparr>) k')"

section \<open>Facts about the table\<close>

lemma fold_mount:
  "distinct (map ns_name nss) \<Longrightarrow>
   rt_namespaces (fold table_mount nss t) = rt_namespaces t ++ map_of (map (\<lambda>ns. (ns_name ns, ns)) nss)"
proof (induction nss arbitrary: t)
  case (Cons ns nss)
  then have "map_of (map (\<lambda>ns. (ns_name ns, ns)) nss) (ns_name ns) = None"
    by (auto simp: map_of_eq_None_iff)
  with Cons show ?case
    by (auto simp: table_mount_def fun_eq_iff map_add_def split: option.splits)
qed simp

lemma fold_mount_frame [simp]:
  "rt_middlewares (fold table_mount nss t) = rt_middlewares t" "rt_open (fold table_mount nss t) = rt_open t"
  by (induction nss arbitrary: t) (simp_all add: table_mount_def)

lemma boot_names: "map ns_name (boot_namespaces K q) =
    [''users'', ''memory'', ''system'', ''tmp'', ''proc-store'', ''proc'', ''services'', ''svc-store'', ''devices'', ''sandbox'']"
  by (simp add: boot_namespaces_def Let_def on_part_def users_namespace_def memory_namespace_def
      system_namespace_def tmp_namespace_def store_namespace_def proc_store_dir_def proc_namespace_def
      services_namespace_def svc_store_dir_def devices_namespace_def sandbox_namespace_def)

lemma kernel_table_namespaces:
  "rt_namespaces (kernel_table K q) = map_of (map (\<lambda>ns. (ns_name ns, ns)) (boot_namespaces K q))"
proof -
  have "distinct (map ns_name (boot_namespaces K q))" unfolding boot_names by simp
  from fold_mount [OF this] show ?thesis
    by (simp add: kernel_table_def table_open_def add_middleware_def table_new_def)
qed

lemma kernel_table_in: "rt_namespaces (kernel_table K q) n = Some ns \<Longrightarrow> ns \<in> set (boot_namespaces K q)"
  unfolding kernel_table_namespaces by (auto dest!: map_of_SomeD)

lemma kernel_table_frame [simp]:
  "rt_middlewares (kernel_table K q) = [json_validator (lb_codec (cf_libs K))]" "rt_open (kernel_table K q)"
  by (simp_all add: kernel_table_def table_open_def add_middleware_def table_new_def)

section \<open>What a part keeps of the others\<close>

lemma keeps_zoom_other:
  assumes "\<And>x k. lget M (lput L x k) = lget M k"
  shows "keeps (\<lambda>k. J (lget M k)) (zoom L m)"
  using assms by (auto simp: keeps_def zoom_def split: prod.splits)

lemma keeps_zoom_same:
  assumes "lens_ok L" and "keeps J m"
  shows "keeps (\<lambda>k. J (lget L k)) (zoom L m)"
  using assms by (auto simp: keeps_def zoom_def lens_ok_def split: prod.splits)

lemmas kernel_parts = compose_lens_def proc_lens_def rest_lens_def fs_lens_def tmp_lens_def services_lens_def
  core_lens_def system_lens_def memory_lens_def sandbox_lens_def host_lens_def tree_lens_def core_parts

text \<open>The namespaces keep what their parts keep; \<open>proc\<close> keeps what the tools do.\<close>

lemma keeps_call_tool: "keeps J (pt_call tool params) \<Longrightarrow> keeps (\<lambda>st. J (ps_rest st)) (call_tool tool params)"
  by (auto simp: keeps_def call_tool_def split: prod.splits)

lemma keeps_proc_call:
  assumes "\<And>tool. ts n = Some tool \<Longrightarrow> keeps J (pt_call tool params)"
  shows "keeps (\<lambda>st. J (ps_rest st)) (proc_call ts n params)"
  using assms by (auto simp: proc_call_def intro: keeps_call_tool split: option.splits)

lemma keeps_proc_write:
  fixes ts :: "'t tools"
  assumes "\<And>n tool params. ts n = Some tool \<Longrightarrow> keeps J (pt_call tool params)"
  shows "keeps (\<lambda>st. J (ps_rest st)) (proc_write ts now path content)"
proof -
  have "keeps (\<lambda>st. J (ps_rest st)) (execute_call ts now n cid content)" for n cid
  proof (cases "ts n")
    case (Some tool)
    note k = keepsD [OF keeps_call_tool [OF assms [OF Some]]]
    show ?thesis
    proof (rule keepsI)
      fix st :: "'t proc_state" assume "J (ps_rest st)"
      from k [OF this] show "J (ps_rest (fst (execute_call ts now n cid content st)))"
        by (simp add: execute_call_def Some Let_def split: prod.splits) (metis fst_conv)
    qed
  qed (simp add: execute_call_def)
  then show ?thesis unfolding proc_write_def by (intro keeps_intros)
qed

lemma keeps_proc_read: "keeps (\<lambda>st. J (ps_rest st)) (proc_read c ord (ts :: 't tools) path)"
proof (rule keepsI)
  fix st :: "'t proc_state" assume J: "J (ps_rest st)"
  have "ps_rest (fst (read_output key st)) = ps_rest st" for key
    by (simp add: read_output_def with_slot_def split: option.splits)
  moreover have "ps_rest (fst (with_slot key (\<lambda>s. ret (g s)) st)) = ps_rest st" for key g
    by (simp add: with_slot_def ret_def split: option.splits)
  moreover have "ps_rest (fst (read_schema c ts n st)) = ps_rest st" for n
    by (simp add: read_schema_def step_defs split: option.splits)
  ultimately have "ps_rest (fst (proc_read c ord ts path st)) = ps_rest st"
    by (auto simp: proc_read_def Let_def step_defs split: list.splits)
  with J show "J (ps_rest (fst (proc_read c ord ts path st)))" by simp
qed

section \<open>The archive inside the kernel\<close>

definition archived :: "('g, 'd) memory \<Rightarrow> ('f, 'g, 'd, 's) kernel \<Rightarrow> bool" where
  "archived m0 k \<longleftrightarrow> mem_inv m0 (lget memory_lens k)"

definition core_archived :: "('g, 'd) memory \<Rightarrow> ('f, 'g, 'd, 's) core \<Rightarrow> bool" where
  "core_archived m0 c \<longleftrightarrow> mem_inv m0 (lget memory_part c)"

lemma keeps_memory_part: "keeps (mem_inv m0) m \<Longrightarrow> keeps (core_archived m0) (zoom memory_part m)"
  unfolding core_archived_def [abs_def] by (rule keeps_zoom_same [OF core_lenses(2)])

lemma keeps_other_part:
  "keeps (core_archived m0) (zoom system_part m1)" "keeps (core_archived m0) (zoom sandbox_part m2)"
  "keeps (core_archived m0) (zoom host_part m3)"
  unfolding core_archived_def [abs_def] by (rule keeps_zoom_other; simp add: core_parts)+

lemma keeps_session_part: "keeps (core_archived m0) (zoom session_part m)"
  by (auto simp: keeps_def zoom_def core_archived_def core_parts mem_inv_def rows_in_def split: prod.splits)

lemma keeps_current_session: "keeps (core_archived m0) (current_session B chat_id msg_id)"
  unfolding current_session_def by (intro keeps_intros keeps_session_part)

lemma keeps_builtin_tools:
  "tool \<in> set (builtin_tools B w browser) \<Longrightarrow> keeps (core_archived m0) (pt_call tool params)"
proof -
  have "keeps (core_archived m0) (search_tasks_call B w params)"
    unfolding search_tasks_call_def by (intro keeps_intros keeps_other_part)
  moreover have "keeps (core_archived m0) (get_context_call B w params)"
    unfolding get_context_call_def Let_def
    by (intro keeps_intros keeps_current_session keeps_memory_part keeps_memory_read)
  moreover have "keeps (core_archived m0) (complete_call B w params)"
    unfolding complete_call_def write_task_log_def by (intro keeps_intros keeps_other_part)
  moreover have "keeps (core_archived m0) (zoom memory_part (handle_call (lb_mm B) w n params))" for n
    by (intro keeps_memory_part keeps_handle_call)
  ultimately show "tool \<in> set (builtin_tools B w browser) \<Longrightarrow> ?thesis"
    by (auto simp: builtin_tools_def memory_search_tool_def memory_range_fetch_tool_def memory_tool_def
        search_tasks_tool_def get_context_tool_def complete_tool_def web_search_tool_def browse_tool_def
        intro: keeps_other_part split: if_splits)
qed

lemma fold_register: "fold proc_register tools ts n = Some tool \<Longrightarrow> tool \<in> set tools \<or> ts n = Some tool"
proof (induction tools arbitrary: ts)
  case (Cons a tools)
  then have "tool \<in> set tools \<or> proc_register a ts n = Some tool" by simp
  then show ?case by (auto simp: proc_register_def split: if_splits)
qed simp

lemma tool_table_in:
  "tool_table B w browser ext n = Some tool \<Longrightarrow> tool \<in> set (builtin_tools B w browser @ map on_core ext)"
  unfolding tool_table_def by (drule fold_register) (auto simp: proc_new_def)

lemma keeps_kernel_tools:
  "kernel_tools K q n = Some tool \<Longrightarrow> keeps (core_archived m0) (pt_call tool params)"
  unfolding kernel_tools_def
  by (drule tool_table_in) (auto simp: on_core_def intro: keeps_builtin_tools keeps_other_part)

text \<open>Lenses that do not touch the memory module.\<close>

lemma archived_core: "archived m0 k \<longleftrightarrow> core_archived m0 (ps_rest (kn_proc k))"
  by (simp add: archived_def core_archived_def kernel_parts)

lemma keeps_archived_other:
  "keeps (archived m0) (zoom tree_lens m1)" "keeps (archived m0) (zoom system_lens m2)"
  "keeps (archived m0) (zoom tmp_lens m3)" "keeps (archived m0) (zoom services_lens m4)"
  "keeps (archived m0) (zoom host_lens m5)" "keeps (archived m0) (zoom sandbox_lens m6)"
  unfolding archived_def [abs_def] by (rule keeps_zoom_other; simp add: kernel_parts)+

lemma keeps_archived_memory: "keeps (mem_inv m0) m \<Longrightarrow> keeps (archived m0) (zoom memory_lens m)"
  unfolding archived_def [abs_def] by (rule keeps_zoom_same [OF kernel_lenses(6)])

lemma keeps_archived_proc:
  assumes "keeps (\<lambda>st. core_archived m0 (ps_rest st)) m"
  shows "keeps (archived m0) (zoom proc_lens m)"
  using assms by (auto simp: keeps_def archived_core zoom_def proc_lens_def split: prod.splits)

lemma archived_namespaces:
  assumes "ns \<in> set (boot_namespaces K q)"
  shows "keeps (archived m0) (ns_read ns p) \<and> keeps (archived m0) (ns_write ns p content) \<and>
    keeps (archived m0) (ns_patch ns p content)"
proof -
  have tools: "keeps (core_archived m0) (pt_call tool params)" if "kernel_tools K q n = Some tool" for n tool params
    using that by (rule keeps_kernel_tools)
  have "keeps (archived m0) (zoom proc_lens (proc_read c ord (kernel_tools K q) p))"
    "keeps (archived m0) (zoom proc_lens (proc_write (kernel_tools K q) now p content))"
    "keeps (archived m0) (zoom proc_lens (proc_patch p content))" for c ord now
    unfolding proc_patch_def
    by (intro keeps_archived_proc keeps_proc_read keeps_proc_write keeps_fail; rule tools; assumption)+
  with assms show ?thesis
    by (auto simp: boot_namespaces_def Let_def on_part_def memory_namespace_def proc_namespace_def
        intro: keeps_archived_other keeps_archived_memory [OF keeps_memory_read]
          keeps_archived_memory [OF keeps_memory_write] keeps_archived_memory [OF keeps_memory_patch])
qed

interpretation served: routed "kernel_table K q" "archived m0" for K q m0
proof
  fix n ns p content
  assume "rt_namespaces (kernel_table K q) n = Some ns"
  note k = archived_namespaces [OF kernel_table_in [OF this]]
  show "keeps (archived m0) (ns_read ns p)" "keeps (archived m0) (ns_write ns p content)"
    "keeps (archived m0) (ns_patch ns p content)"
    using k by blast+
qed (auto simp: json_validator_def vfs_middleware_def)

lemma keeps_to_status [keeps_intros]: "keeps I m \<Longrightarrow> keeps I (to_status m)"
  by (auto simp: keeps_def to_status_def split: prod.splits)

lemma keeps_with_info [keeps_intros]: "(\<And>info. keeps I (f info)) \<Longrightarrow> keeps I (with_info header f)"
  by (simp add: keeps_def with_info_def)

lemma keeps_guarded: "keeps (archived m0) m \<Longrightarrow> keeps (archived m0) (guarded K q info uri is_write m)"
  unfolding guarded_def by (intro keeps_intros keeps_archived_other)

lemma keeps_table:
  "keeps (archived m0) (table_read (kernel_table K q) uri)"
  "keeps (archived m0) (table_write (kernel_table K q) uri content)"
  "keeps (archived m0) (table_patch (kernel_table K q) uri content)"
  unfolding table_read_def table_write_def table_patch_def
  by (rule served.keeps_dispatch;
      auto intro: served.before_read_keeps served.before_write_keeps served.before_patch_keeps
        served.ns_read_keeps served.ns_write_keeps served.ns_patch_keeps)+

lemma archived_tokens [simp]: "archived m0 (k\<lparr>kn_tokens := t\<rparr>) \<longleftrightarrow> archived m0 k"
  by (simp add: archived_core)

lemma keeps_grpc:
  "keeps (archived m0) (grpc_read K q header uri)"
  "keeps (archived m0) (grpc_write K q header uri content)"
  "keeps (archived m0) (grpc_patch K q header uri content)"
  "keeps (archived m0) (grpc_exec K q header command)"
  "keeps (archived m0) (grpc_call K q header tool params)"
proof -
  show "keeps (archived m0) (grpc_read K q header uri)"
    unfolding grpc_read_def Let_def by (intro keeps_intros keeps_guarded keeps_table)
  show "keeps (archived m0) (grpc_write K q header uri content)"
    unfolding grpc_write_def Let_def by (intro keeps_intros keeps_guarded keeps_table)
  show "keeps (archived m0) (grpc_patch K q header uri content)"
    unfolding grpc_patch_def Let_def by (intro keeps_intros keeps_guarded keeps_table)
  show "keeps (archived m0) (grpc_exec K q header command)"
    unfolding grpc_exec_def by (intro keeps_intros keeps_archived_other)
  show "keeps (archived m0) (grpc_call K q header tool params)"
    unfolding grpc_call_def
    by (intro keeps_intros keeps_archived_proc keeps_proc_call) (rule keeps_kernel_tools)
qed

lemma keeps_handshake:
  fixes K :: "('f, 'g, 'd, 'v, 't, 's) config"
  shows "keeps (archived m0) (grpc_handshake K q token)"
proof (rule keepsI)
  fix k :: "('f, 'g, 'd, 's) kernel" assume k: "archived m0 k"
  have "keeps (archived m0) (andthen (ignore_errors (zoom sandbox_lens m)) (\<lambda>_. ret x) :: ('f, 'g, 'd, 's, string + string) handler)"
    "keeps (archived m0) (andthen (ret ()) (\<lambda>_. ret x) :: ('f, 'g, 'd, 's, string + string) handler)"
    for x and m :: "(sandbox, unit) vfs_step"
    by (intro keeps_intros keeps_archived_other)+
  note this [THEN keepsD]
  with k show "archived m0 (fst (grpc_handshake K q token k))"
    by (simp add: grpc_handshake_def split: prod.splits option.splits del: andthen_ignore)
qed

lemma keeps_context: "keeps (archived m0) (assemble_context B (kernel_table K q) chat_id sender msg_id)"
proof -
  have "keeps (archived m0) (zoom core_lens (current_session B chat_id msg_id))"
    using keepsD' [OF keeps_current_session]
    by (auto simp: keeps_def archived_core zoom_def kernel_parts split: prod.splits)
  then show ?thesis
    unfolding assemble_context_def read_or_def by (intro keeps_intros keeps_table)
qed

interpretation kernel: machine "kernel_exec K S" "archived m0" for K S m0
proof
  fix k :: "('a, 'b, 'c, 'f) kernel" and e :: "'e request_env \<times> kernel_event"
  assume k: "archived m0 k"
  obtain q ev where e: "e = (q, ev)" by (cases e)
  have "archived m0 (kernel_exec K S k (q, ev))"
  proof (cases ev)
    case OnTick
    with keepsD [OF keeps_archived_other(2) k] show ?thesis by simp
  qed (use k in \<open>simp_all add: keepsD [OF keeps_grpc(1)] keepsD [OF keeps_grpc(2)] keepsD [OF keeps_grpc(3)]
      keepsD [OF keeps_grpc(4)] keepsD [OF keeps_grpc(5)] keepsD [OF keeps_handshake] keepsD [OF keeps_context]
      grpc_register_token_def grpc_revoke_token_def fail_def modify_def\<close>)
  then show "archived m0 (kernel_exec K S k e)" by (simp add: e)
qed

lemma node_at_clean: "clean p \<Longrightarrow> dirs_to fs (butlast p) \<Longrightarrow> node_at p fs = fs p"
  using walk_clean [of p fs p] by (simp add: node_at_def)

text \<open>One step with the files in view keeps a group none of whose files it changed.\<close>

lemma kernel_step_groups:
  "mm_groups (lget memory_lens (kernel_step X mroot K S k e)) chat =
     (if \<forall>p \<in> set (db_files mroot chat). node_at p (lget tree_lens (kernel_exec K S k e)) = node_at p (lget tree_lens k)
      then mm_groups (lget memory_lens (kernel_exec K S k e)) chat
      else X chat (lget tree_lens (kernel_exec K S k e)))"
  by (simp add: kernel_step_def Let_def kernel_lenses lens_okD(1) [OF kernel_lenses(6)] list_ex_iff)

lemma kernel_step_tree: "lget tree_lens (kernel_step X mroot K S k e) = lget tree_lens (kernel_exec K S k e)"
  by (simp add: kernel_step_def Let_def kernel_parts)

lemma kernel_step_archived:
  assumes X: "\<forall>chat fs g. X chat fs = Some g \<longrightarrow> msgs_ok g"
    and k: "\<forall>chat g. mm_groups (lget memory_lens k) chat = Some g \<longrightarrow> msgs_ok g"
  shows "\<forall>chat g. mm_groups (lget memory_lens (kernel_step X mroot K S k e)) chat = Some g \<longrightarrow> msgs_ok g"
    and "\<forall>p \<in> set (db_files mroot chat). node_at p (lget tree_lens (kernel_step X mroot K S k e)) = node_at p (lget tree_lens k) \<Longrightarrow>
      rows_in (lget memory_lens k) chat \<subseteq> rows_in (lget memory_lens (kernel_step X mroot K S k e)) chat"
proof -
  have "archived (lget memory_lens k) k" using k by (simp add: archived_def mem_inv_def)
  from kernel.run_inv [OF this, of K S "[e]"]
  have I: "mem_inv (lget memory_lens k) (lget memory_lens (kernel_exec K S k e))" by (simp add: archived_def)
  with X show "\<forall>chat g. mm_groups (lget memory_lens (kernel_step X mroot K S k e)) chat = Some g \<longrightarrow> msgs_ok g"
    by (simp add: kernel_step_groups mem_inv_def)
  show "rows_in (lget memory_lens k) chat \<subseteq> rows_in (lget memory_lens (kernel_step X mroot K S k e)) chat"
    if "\<forall>p \<in> set (db_files mroot chat). node_at p (lget tree_lens (kernel_step X mroot K S k e)) = node_at p (lget tree_lens k)"
    using I that by (simp add: mem_inv_def rows_in_def kernel_step_groups kernel_step_tree)
qed

section \<open>Access and calls\<close>

lemma zoom_id: "fst (m (lget L k)) = lget L k \<Longrightarrow> lens_ok L \<Longrightarrow> zoom L m k = (k, snd (m (lget L k)))"
  by (simp add: zoom_def lens_ok_def split: prod.splits) (metis fst_conv)

lemma guarded_denied:
  assumes "check_access (lb_sys (cf_libs K)) (at_w ''access'' (rq_world q)) info uri is_write (lget system_lens k) = (db, Inl e)"
  shows "guarded K q info uri is_write m k = (k, Inl e)"
  using assms check_access_state [of "lb_sys (cf_libs K)" "at_w ''access'' (rq_world q)" info uri is_write "lget system_lens k"]
  by (simp add: guarded_def andthen_def zoom_id [OF _ kernel_lenses(5)])

lemma check_refused:
  assumes "snd (check_access L w info uri b db) \<noteq> Inr ()"
  shows "\<exists>m. check_access L w info uri b db = (db, Inl (PermissionDenied m))"
proof -
  obtain db' e where c: "check_access L w info uri b db = (db', Inl e)"
    using assms by (cases "check_access L w info uri b db"; cases "snd (check_access L w info uri b db)") auto
  with check_access_state [of L w info uri b db] check_access_denies [OF c] show ?thesis by auto
qed

lemma resolve_uri_logos: "resolve_uri (uri_render u) info = uri_render u"
  by (simp add: resolve_uri_def uri_render_def starts_with_def)

text \<open>A request that the check and the validator let through is the namespace's operation.\<close>

lemma table_reaches:
  assumes "rt_namespaces (kernel_table K q) n = Some ns" and "uri_parse uri = Inr \<lparr>uri_namespace = n, uri_path = ws\<rparr>"
  shows "table_read (kernel_table K q) uri = ns_read ns ws"
    and "\<not> needs_json_validation uri \<Longrightarrow> table_write (kernel_table K q) uri x = ns_write ns ws x"
    and "\<not> needs_json_validation uri \<Longrightarrow> table_patch (kernel_table K q) uri x = ns_patch ns ws x"
  using assms
  by (simp_all add: fun_eq_iff table_read_def table_write_def table_patch_def dispatch_def json_validator_def
      vfs_middleware_def validate_json_def table_resolve_def after_all_def attempt_def step_defs split: prod.splits)

lemma guarded_allowed:
  assumes "snd (check_access (lb_sys (cf_libs K)) (at_w ''access'' (rq_world q)) info uri b (lget system_lens k)) = Inr ()"
  shows "guarded K q info uri b m k = to_status m k"
  using assms by (simp add: guarded_def andthen_def zoom_id [OF _ kernel_lenses(5)] check_access_state)

lemma grpc_reaches:
  assumes "rt_namespaces (kernel_table K q) n = Some ns" and "uri_parse uri = Inr \<lparr>uri_namespace = n, uri_path = ws\<rparr>"
    and "starts_with uri ''logos://''" and "\<not> needs_json_validation uri"
    and "snd (check_access (lb_sys (cf_libs K)) (at_w ''access'' (rq_world q)) (extract_session_info (kn_tokens k) h)
      uri True (lget system_lens k)) = Inr ()"
  shows "grpc_write K q h uri x k = to_status (ns_write ns ws x) k"
    and "grpc_patch K q h uri x k = to_status (ns_patch ns ws x) k"
  using assms(3-5) table_reaches(2,3) [OF assms(1,2,4)]
  by (simp_all add: grpc_write_def grpc_patch_def with_info_def resolve_uri_def Let_def guarded_allowed)

lemma kernel_table_users:
  "rt_namespaces (kernel_table K q) ''users'' = Some (on_part tree_lens (users_namespace (lb_codec (cf_libs K))
     (lb_dirs (cf_libs K)) (at ''users'' (w_flt (rq_world q))) (cf_users_root K)))"
  by (simp add: kernel_table_namespaces boot_namespaces_def Let_def on_part_def users_namespace_def)

lemma kernel_table_sandbox:
  "rt_namespaces (kernel_table K q) ''sandbox'' = Some (on_part sandbox_lens (sandbox_namespace (lb_codec (cf_libs K))
     (lb_dirs (cf_libs K)) (at ''sandbox'' (w_flt (rq_world q))) (lb_sandbox_root (cf_libs K))))"
  by (simp add: kernel_table_namespaces boot_namespaces_def Let_def on_part_def users_namespace_def memory_namespace_def
      system_namespace_def tmp_namespace_def store_namespace_def proc_store_dir_def proc_namespace_def
      services_namespace_def svc_store_dir_def devices_namespace_def sandbox_namespace_def)

lemma users_uri:
  assumes "\<forall>x \<in> set ws. seg_ok x"
  shows "uri_parse (uri_render \<lparr>uri_namespace = ''users'', uri_path = ws\<rparr>) = Inr \<lparr>uri_namespace = ''users'', uri_path = ws\<rparr>"
    and "starts_with (uri_render \<lparr>uri_namespace = ''users'', uri_path = ws\<rparr>) ''logos://''"
    and "\<not> needs_json_validation (uri_render \<lparr>uri_namespace = ''users'', uri_path = ws\<rparr>)"
    and "snd (check_access L w info (uri_render \<lparr>uri_namespace = ''users'', uri_path = ws\<rparr>) b db) = Inr ()"
proof -
  have ns: "seg_ok ''users''" by (simp add: seg_ok_def)
  note pre = uri_render_prefix [OF ns, where ws = ws]
  show "uri_parse (uri_render \<lparr>uri_namespace = ''users'', uri_path = ws\<rparr>) = Inr \<lparr>uri_namespace = ''users'', uri_path = ws\<rparr>"
    by (rule uri_parse_render) (use assms ns in simp_all)
  show "starts_with (uri_render \<lparr>uri_namespace = ''users'', uri_path = ws\<rparr>) ''logos://''"
    by (simp add: uri_render_def starts_with_def)
  show "\<not> needs_json_validation (uri_render \<lparr>uri_namespace = ''users'', uri_path = ws\<rparr>)"
    using pre [of "''system''"] pre [of "''memory''"] by (simp add: needs_json_validation_def starts_with_def)
  show "snd (check_access L w info (uri_render \<lparr>uri_namespace = ''users'', uri_path = ws\<rparr>) b db) = Inr ()"
    using pre [of "''sandbox''"] admin_only_render [OF ns, of ws]
    by (simp add: check_access_def andthen_def ret_def split: option.split)
qed

lemma sandbox_uri:
  assumes "\<forall>x \<in> set (t # ws). seg_ok x"
  shows "uri_parse (uri_render \<lparr>uri_namespace = ''sandbox'', uri_path = t # ws\<rparr>) = Inr \<lparr>uri_namespace = ''sandbox'', uri_path = t # ws\<rparr>"
    and "starts_with (uri_render \<lparr>uri_namespace = ''sandbox'', uri_path = t # ws\<rparr>) ''logos://''"
    and "\<not> needs_json_validation (uri_render \<lparr>uri_namespace = ''sandbox'', uri_path = t # ws\<rparr>)"
    and "si_task_id si = t \<Longrightarrow> snd (check_access L w (Some si) (uri_render \<lparr>uri_namespace = ''sandbox'', uri_path = t # ws\<rparr>) b db) = Inr ()"
proof -
  have ns: "seg_ok ''sandbox''" by (simp add: seg_ok_def)
  note pre = uri_render_prefix [OF ns, where ws = "t # ws"]
  show "uri_parse (uri_render \<lparr>uri_namespace = ''sandbox'', uri_path = t # ws\<rparr>) = Inr \<lparr>uri_namespace = ''sandbox'', uri_path = t # ws\<rparr>"
    by (rule uri_parse_render) (use assms ns in simp_all)
  show "starts_with (uri_render \<lparr>uri_namespace = ''sandbox'', uri_path = t # ws\<rparr>) ''logos://''"
    by (simp add: uri_render_def starts_with_def)
  show "\<not> needs_json_validation (uri_render \<lparr>uri_namespace = ''sandbox'', uri_path = t # ws\<rparr>)"
    using pre [of "''system''"] pre [of "''memory''"] by (simp add: needs_json_validation_def starts_with_def)
  show "snd (check_access L w (Some si) (uri_render \<lparr>uri_namespace = ''sandbox'', uri_path = t # ws\<rparr>) b db) = Inr ()"
    if "si_task_id si = t"
    using pre [of "''sandbox''"] admin_only_render [OF ns, of "t # ws"] hd_split_join [of t ws] assms that
    by (simp add: check_access_def check_sandbox_def Let_def andthen_def ret_def)
qed

lemma fold_register_other:
  "\<forall>t \<in> set tools. pt_name t \<noteq> n \<Longrightarrow> fold proc_register tools ts n = ts n"
  by (induction tools arbitrary: ts) (auto simp: proc_register_def)

lemma fold_register_last:
  assumes "tools = xs @ t # ys" and "\<forall>y \<in> set ys. pt_name y \<noteq> pt_name t"
  shows "fold proc_register tools ts (pt_name t) = Some t"
  using assms by (simp add: fold_register_other) (simp add: proc_register_def)

lemma builtin_names [simp]:
  "pt_name (complete_tool B w) = ''system.complete''" "pt_name (web_search_tool B) = ''web_search''"
  "pt_name (browse_tool B) = ''browse''"
  by (simp_all only: complete_tool_def web_search_tool_def browse_tool_def proc_tool.select_convs)

lemma complete_registered:
  assumes "\<forall>t \<in> set (cf_external K). pt_name t \<noteq> ''system.complete''"
  shows "kernel_tools K q ''system.complete'' = Some (complete_tool (cf_libs K) (at_w ''tool'' (rq_world q)))"
proof -
  let ?B = "cf_libs K" and ?w = "at_w ''tool'' (rq_world q)"
  let ?ys = "web_search_tool ?B # (if cf_browser K then [browse_tool ?B] else []) @ map on_core (cf_external K)"
  have split: "builtin_tools ?B ?w (cf_browser K) @ map on_core (cf_external K) =
      [memory_search_tool ?B ?w, memory_range_fetch_tool ?B ?w, search_tasks_tool ?B ?w, get_context_tool ?B ?w] @
      complete_tool ?B ?w # ?ys"
    by (simp add: builtin_tools_def)
  have "\<forall>y \<in> set ?ys. pt_name y \<noteq> pt_name (complete_tool ?B ?w)"
    using assms by (auto simp: on_core_def)
  from fold_register_last [OF split this] show ?thesis
    by (simp add: kernel_tools_def tool_table_def)
qed

text \<open>The call of \<open>system.complete\<close> with a summary alone finishes the task it names.\<close>

lemma complete_call_finishes:
  fixes B :: "('f, 'g, 'd, 'v, 't, 's) libs"
  assumes "calm w" and "tasks_ok (co_system c)" and "codec_ok (lb_codec B)" and "tid \<noteq> []"
    and "task_lookup tid (co_system c) = Some t" and "tk_status t \<noteq> ''finished''"
    and "complete_call B w (to_str (lb_codec B) (JObj [(''summary'', JStr m), (''task_id'', JStr tid)])) c = (c', r)"
  shows "is_ok r \<and> (\<exists>now. task_lookup tid (co_system c') = Some (t\<lparr>tk_status := ''finished'', tk_updated_at := now\<rparr>))"
proof -
  let ?val = "JObj [(''summary'', JStr m), (''task_id'', JStr tid)]"
  let ?p = "complete_params_of ?val"
  have "wf_json ?val" "float_free ?val" by (simp_all add: sorted_keys_def less_char_def)
  from codec_okD(1) [OF assms(3) this] have parse: "from_str (lb_codec B) (to_str (lb_codec B) ?val) = Inr ?val" .
  have p: "cp_task_id ?p = tid" "cp_resume_task_id ?p = []" "cp_plan_todo ?p = []" "\<not> cp_anchor ?p"
    "cp_sleep_reason ?p = []" "cp_task_log ?p = []"
    by (simp_all add: complete_params_of_def str_field_def)
  obtain db' q where run: "complete_execute (lb_sys B) w ?p (co_system c) = (db', q)" by fastforce
  note fx = complete_turn_effects [OF assms(1,2) _ _ assms(6) p(2,3) run, unfolded p(1), OF assms(4,5)]
  have q: "q = Inr \<lparr>cr_reply = cp_reply ?p, cr_anchor_id = [], cr_task_log = cp_task_log ?p, cr_task_id = tid\<rparr>"
    using fx p(4) by blast
  have "c' = c\<lparr>co_system := db'\<rparr>" "is_ok r"
    using assms(7) run q p(6)
    by (auto simp: complete_call_def parse andthen_def lift_result_def zoom_def system_part_def write_task_log_def ret_def)
  then show ?thesis using fx p(5) by auto
qed

section \<open>Properties\<close>

text \<open>
  C3: Messages survive everything the kernel does as long as the files of their database are left
  alone: through every sequence of requests, tool calls, commands, handshakes, scheduler ticks and
  context assemblies, of any client and with any failures, in which no step changes a node of the
  tree that is one of the group's database files, a stored message stays in its group as it was
  written and is found under its id. (A replaced file of another group is assumed to read as a
  table keyed by message id, if at all.)\<close>

theorem kernel_keeps_messages:
  assumes "\<forall>chat fs g. X chat fs = Some g \<longrightarrow> msgs_ok g"
    and "\<forall>chat g. mm_groups (lget memory_lens k0) chat = Some g \<longrightarrow> msgs_ok g"
    and "mm_groups (lget memory_lens k0) chat = Some g0" "r \<in> set (gd_messages g0)"
    and "\<forall>n < length es. \<forall>p \<in> set (db_files mroot chat).
      node_at p (lget tree_lens (foldl (kernel_step X mroot K S) k0 (take (Suc n) es))) =
      node_at p (lget tree_lens (foldl (kernel_step X mroot K S) k0 (take n es)))"
  shows "\<exists>g. mm_groups (lget memory_lens (foldl (kernel_step X mroot K S) k0 es)) chat = Some g \<and>
    msg_lookup (ms_msg_id r) g = Some r"
proof -
  let ?run = "\<lambda>n. foldl (kernel_step X mroot K S) k0 (take n es)"
  have I: "n \<le> length es \<Longrightarrow> (\<forall>chat g. mm_groups (lget memory_lens (?run n)) chat = Some g \<longrightarrow> msgs_ok g) \<and>
    r \<in> rows_in (lget memory_lens (?run n)) chat" for n
  proof (induction n)
    case 0
    with assms(2-4) show ?case by (simp add: rows_in_def)
  next
    case (Suc n)
    then have step: "?run (Suc n) = kernel_step X mroot K S (?run n) (es ! n)" by (simp add: take_Suc_conv_app_nth)
    from Suc have ok: "\<forall>chat g. mm_groups (lget memory_lens (?run n)) chat = Some g \<longrightarrow> msgs_ok g"
      "r \<in> rows_in (lget memory_lens (?run n)) chat" by auto
    from kernel_step_archived [OF assms(1) ok(1), where mroot = mroot and K = K and S = S and e = "es ! n"] assms(5) Suc.prems ok(2) show ?case
      unfolding step [symmetric] by (simp add: subset_iff)
  qed
  from I [of "length es"] obtain g where g: "mm_groups (lget memory_lens (?run (length es))) chat = Some g"
    "r \<in> set (gd_messages g)" "msgs_ok g" by (auto simp: rows_in_def split: option.splits)
  with msg_lookup_row show ?thesis by auto
qed

definition demo_config :: "((nat \<times> string list) list, unit, unit, nat, nat, unit) config" where
  "demo_config = \<lparr>cf_libs = demo_libs, cf_users_root = [''u''], cf_proc_store_root = [''p''],
     cf_svc_store_root = [''v''], cf_external = [], cf_browser = False\<rparr>"

definition demo_env :: "nat \<Rightarrow> nat request_env" where
  "demo_env t = \<lparr>rq_world = still t, rq_tick = t, rq_instants = \<lparr>t_created = int t, t_cleanup = int t\<rparr>, rq_now = t\<rparr>"

lemma demo_config_simps [simp]:
  "cf_libs demo_config = demo_libs" "cf_external demo_config = []" "cf_users_root demo_config = [''u'']"
  "cf_proc_store_root demo_config = [''p'']" "cf_svc_store_root demo_config = [''v'']" "rq_world (demo_env t) = still t"
  by (simp_all add: demo_config_def demo_env_def)

theorem kernel_keeps_messages_witness:
  "\<exists>g. mm_groups (lget memory_lens (foldl (kernel_step (\<lambda>_ _. None) [''m''] demo_config demo_schedule) (kernel_new (demo_core []))
      [(demo_env 60, OnRevokeToken ''token'')])) ''c'' = Some g \<and> msg_lookup (ms_msg_id demo_row) g = Some demo_row"
proof -
  have m: "lget memory_lens (kernel_new (demo_core [])) = demo_memory"
    by (simp add: kernel_parts kernel_new_def demo_core_def)
  have t: "lget tree_lens (kernel_step (\<lambda>_ _. None) [''m''] demo_config demo_schedule k (demo_env 60, OnRevokeToken ''token'')) =
      lget tree_lens k" for k
    by (simp add: kernel_step_tree grpc_revoke_token_def modify_def) (simp add: kernel_parts)
  show ?thesis
    by (rule kernel_keeps_messages [of _ _ _ demo_group])
       (auto simp: m demo_memory_def demo_group_def msgs_ok_def t)
qed

text \<open>
  C4: The databases are not out of reach of the other namespaces: where the memory root lies beside
  the users' root, as the boot places it, any request, with or without a session, replaces the
  file of a group's messages by writing \<open>logos://users/../{memory}/{group}.db\<close>, and is
  acknowledged; the group then holds what SQLite makes of the text that was written.\<close>

theorem message_db_overwritten:
  assumes "w_flt (rq_world q) = no_faults"
    and "cf_users_root K = base @ [d]" and "mroot = base @ [m]" and "clean (base @ [d])" and "clean [m, chat @ ''.db'']"
    and "dirs_to (lget tree_lens k) (base @ [d])" and "dirs_to (lget tree_lens k) (base @ [m])"
    and "lget tree_lens k (base @ [m, chat @ ''.db'']) = Some (File old)" and "content \<noteq> old"
    and "uri = uri_render \<lparr>uri_namespace = ''users'', uri_path = [''..'', m, chat @ ''.db'']\<rparr>"
  shows "snd (grpc_write K q h uri content k) = Inr () \<and>
    mm_groups (lget memory_lens (kernel_step X mroot K S k (q, OnWrite h uri content))) chat =
      X chat ((lget tree_lens k)(base @ [m, chat @ ''.db''] \<mapsto> File content))"
proof -
  let ?fs = "lget tree_lens k" and ?p = "base @ [m, chat @ ''.db'']"
  have segs: "\<forall>x \<in> set [''..'', m, chat @ ''.db'']. seg_ok x" "seg_ok ''users''"
    using assms(5) by (simp_all add: seg_ok_def)
  have "chat @ ''.db'' \<noteq> ''short''" by (auto dest: arg_cong [of _ _ rev])
  then have np: "\<not> persona_short [''..'', m, chat @ ''.db'']" by (simp add: persona_short_def)
  have "users_write (lb_codec (cf_libs K)) no_faults (base @ [d]) [''..'', m, chat @ ''.db''] content ?fs =
      (?fs(?p \<mapsto> File content), Inr ())"
    using dir_write_dots [OF assms(4,6), of "[m, chat @ ''.db'']"] path_join_dots [of "[m, chat @ ''.db'']"] assms(5,7,8) np
    by (auto simp: users_write_def users_write_file_def persona_short_def)
  then have w: "grpc_write K q h uri content k = (lput tree_lens (?fs(?p \<mapsto> File content)) k, Inr ())"
    using grpc_reaches(1) [OF kernel_table_users users_uri(1) [OF segs(1)] users_uri(2,3) [OF segs(1)] users_uri(4) [OF segs(1)],
        where q = q and K = K and k = k and h = h and x = content]
      assms(1,2) by (simp add: assms(10) on_part_def users_namespace_def to_status_def zoom_def)
  then have t: "lget tree_lens (kernel_exec K S k (q, OnWrite h uri content)) = ?fs(?p \<mapsto> File content)"
    using lens_okD(1) [OF kernel_lenses(9)] by simp
  have p: "clean ?p" "path_join mroot (chat @ ''.db'') = ?p" "\<forall>n \<le> length (butlast ?p). take n (butlast ?p) \<noteq> ?p"
    using assms(3,4,5) path_join_clean [of "[chat @ ''.db'']" mroot] butlast_ne [of ?p] by auto
  have d: "dirs_to ?fs (butlast ?p)" using assms(7) by (simp add: butlast_append)
  then have "dirs_to (?fs(?p \<mapsto> File content)) (butlast ?p)" using p(3) by (simp add: dirs_to_def)
  with d node_at_clean [OF p(1)] have "node_at ?p ?fs = Some (File old)" "node_at ?p (?fs(?p \<mapsto> File content)) = Some (File content)"
    using assms(8) by simp_all
  with p(2) assms(9) have "\<exists>p \<in> set (db_files mroot chat). node_at p (?fs(?p \<mapsto> File content)) \<noteq> node_at p ?fs"
    by (simp add: db_files_def)
  with t w show ?thesis by (auto simp: kernel_step_groups)
qed

definition demo_files :: "((nat \<times> string list) list, unit, unit, unit) kernel" where
  "demo_files = kernel_new ((demo_core [])\<lparr>co_sandbox :=
     \<lparr>sb_fs = [[] \<mapsto> Dir, [''u''] \<mapsto> Dir, [''m''] \<mapsto> Dir, [''m'', ''c.db''] \<mapsto> File ''SQLite format 3''],
      sb_containers = Map.empty, sb_task_agent = Map.empty\<rparr>\<rparr>)"

theorem message_db_overwritten_witness:
  "snd (grpc_write demo_config (demo_env 1) None ''logos://users/../m/c.db'' [] demo_files) = Inr () \<and>
   mm_groups (lget memory_lens demo_files) ''c'' = Some demo_group \<and>
   mm_groups (lget memory_lens (kernel_step (\<lambda>_ _. None) [''m''] demo_config demo_schedule demo_files
     (demo_env 1, OnWrite None ''logos://users/../m/c.db'' []))) ''c'' = None"
proof -
  have u: "''logos://users/../m/c.db'' = uri_render \<lparr>uri_namespace = ''users'', uri_path = [''..'', ''m'', ''c'' @ ''.db'']\<rparr>"
    by code_simp
  have t: "lget tree_lens demo_files = [[] \<mapsto> Dir, [''u''] \<mapsto> Dir, [''m''] \<mapsto> Dir, [''m'', ''c.db''] \<mapsto> File ''SQLite format 3'']"
    by (simp add: kernel_parts demo_files_def kernel_new_def)
  have "mm_groups (lget memory_lens demo_files) ''c'' = Some demo_group"
    by (simp add: kernel_parts demo_files_def kernel_new_def demo_core_def demo_memory_def)
  moreover have "w_flt (rq_world (demo_env 1)) = no_faults" by (simp add: still_def)
  ultimately show ?thesis
    using message_db_overwritten [of "demo_env 1" demo_config "[]" "''u''" "[''m'']" "''m''" "''c''" demo_files
        "''SQLite format 3''" "[]" _ None "\<lambda>_ _. None" demo_schedule, OF _ _ _ _ _ _ _ _ _ u]
    by (simp add: t dirs_to_def all_le_Suc seg_ok_def)
qed

text \<open>
  C6: What a session has no right to is refused without any effect, in any world: a write or patch
  of a URI that begins with \<open>logos://sandbox/\<close> and another task's id, or, for a user's session, with
  one of the namespaces of the administrators; a read of a URI that begins with the sandbox of a
  task that is unknown or not finished; commands and calls without a valid session key. The
  URI is meant as it is spelt: with one more slash after the scheme none of this holds. (The text of
  the task's row must parse, which a plan with floats need not.)\<close>

theorem denied_requests_do_nothing:
  fixes K :: "('f, 'g, 'd, 'v, 't, 's) config"
  assumes "codec_ok (sl_codec (lb_sys (cf_libs K)))" and "extract_session_info (kn_tokens k) h = Some si"
    and "uri = ''logos://'' @ ns @ ''/'' @ rest" and "task = hd (split_on (CHR ''/'') rest)"
    and "ns = ''sandbox'' \<and> task \<notin> {[], ''__system__'', si_task_id si} \<or>
      ns \<in> {''services'', ''system'', ''devices''} \<and> si_role si = User"
  shows "(\<exists>m. grpc_write K q h uri content k = (k, Inl (PermissionDenied m))) \<and>
      (\<exists>m. grpc_patch K q h uri content k = (k, Inl (PermissionDenied m))) \<and>
      (ns = ''sandbox'' \<and> (\<forall>r. task_lookup task (lget system_lens k) = Some r \<longrightarrow>
          tk_status r \<noteq> ''finished'' \<and> plain_plan (sl_codec (lb_sys (cf_libs K))) r)
        \<longrightarrow> (\<exists>m. grpc_read K q h uri k = (k, Inl (PermissionDenied m)))) \<and>
      (\<forall>h'. extract_session_info (kn_tokens k) h' = None \<longrightarrow>
        grpc_exec K q h' cmd k = (k, Inl (Unauthenticated ''exec requires a valid session'')) \<and>
        grpc_call K q h' tool cmd k = (k, Inl (Unauthenticated ''call requires a valid session'')))"
proof -
  let ?w = "at_w ''access'' (rq_world q)" and ?L = "lb_sys (cf_libs K)" and ?db = "lget system_lens k"
  have uri: "resolve_uri uri (Some si) = uri" by (simp add: assms(3) resolve_uri_def starts_with_def)
  have "\<exists>m. check_access ?L ?w (Some si) uri True ?db = (?db, Inl (PermissionDenied m))"
    by (rule write_denied) (use assms(3-5) in \<open>auto simp: foreign_task_def\<close>)
  then obtain m where m: "check_access ?L ?w (Some si) uri True ?db = (?db, Inl (PermissionDenied m))" by blast
  have "grpc_write K q h uri content k = (k, Inl (PermissionDenied m))"
    "grpc_patch K q h uri content k = (k, Inl (PermissionDenied m))"
    using guarded_denied [OF m]
    by (simp_all add: grpc_write_def grpc_patch_def with_info_def assms(2) uri Let_def)
  moreover have "\<exists>m. grpc_read K q h uri k = (k, Inl (PermissionDenied m))"
    if sb: "ns = ''sandbox''" and nf: "\<forall>r. task_lookup task ?db = Some r \<longrightarrow>
      tk_status r \<noteq> ''finished'' \<and> plain_plan (sl_codec ?L) r"
  proof -
    have "uri = ''logos://sandbox/'' @ rest" "foreign_task si task" using assms(3,5) sb by (auto simp: foreign_task_def)
    from read_denied [OF assms(1) this assms(4) nf]
    obtain m where "check_access ?L ?w (Some si) uri False ?db = (?db, Inl (PermissionDenied m))" by blast
    from guarded_denied [OF this] have "grpc_read K q h uri k = (k, Inl (PermissionDenied m))"
      by (simp add: grpc_read_def with_info_def assms(2) uri Let_def)
    then show ?thesis by blast
  qed
  moreover have "grpc_exec K q h' cmd k = (k, Inl (Unauthenticated ''exec requires a valid session''))"
    "grpc_call K q h' tool cmd k = (k, Inl (Unauthenticated ''call requires a valid session''))"
    if "extract_session_info (kn_tokens k) h' = None" for h'
    using that by (simp_all add: grpc_exec_def grpc_call_def with_info_def fail_def)
  ultimately show ?thesis by blast
qed

definition demo_kernel :: "((nat \<times> string list) list, unit, unit, unit) kernel" where
  "demo_kernel = (kernel_new (demo_core [demo_task ''t'' ''active'']))
     \<lparr>kn_tokens := registry_new\<lparr>tr_sessions := [''key'' \<mapsto>
        \<lparr>se_task_id = ''me'', se_agent_config_id = ''cfg'', se_role = User, se_created_at = 0\<rparr>]\<rparr>\<rparr>"

lemma demo_kernel_parts:
  "lget system_lens demo_kernel = demo_db [demo_task ''t'' ''active'']"
  "extract_session_info (kn_tokens demo_kernel) (Some ''key'') = Some demo_session"
  "extract_session_info (kn_tokens demo_kernel) None = None"
  by (simp_all add: kernel_parts demo_kernel_def kernel_new_def demo_core_def extract_session_info_def
      token_resolve_info_def demo_session_def registry_new_def)

theorem denied_requests_do_nothing_witness:
  "(\<exists>m. grpc_write demo_config (demo_env 1) (Some ''key'') ''logos://sandbox/t/../me/out.txt'' ''x'' demo_kernel =
     (demo_kernel, Inl (PermissionDenied m))) \<and>
   (\<exists>m. grpc_read demo_config (demo_env 1) (Some ''key'') ''logos://sandbox/t/../me/out.txt'' demo_kernel =
     (demo_kernel, Inl (PermissionDenied m)))"
proof -
  have "from_str note_codec ''[]'' = Inr (JArr [])"
    by code_simp
  then have "\<forall>r. task_lookup ''t'' (demo_db [demo_task ''t'' ''active'']) = Some r \<longrightarrow>
      tk_status r \<noteq> ''finished'' \<and> plain_plan (sl_codec demo_lib) r"
    by (simp add: task_lookup_def demo_db_def demo_task_def plain_plan_def)
  moreover have "''t'' = hd (split_on (CHR ''/'') ''t/../me/out.txt'')" by code_simp
  ultimately show ?thesis
    using denied_requests_do_nothing [of demo_config demo_kernel "Some ''key''" demo_session
        "''logos://sandbox/t/../me/out.txt''" "''sandbox''" "''t/../me/out.txt''" "''t''" "demo_env 1" "''x''" "''x''" "''x''"]
    by (auto simp: demo_kernel_parts note_codec_ok demo_session_def)
qed

text \<open>
  C7: The access check reads the text of a URI and the routing its segments: with one more slash
  after the scheme a URI passes every check, for every session and without one, and no JSON is
  validated, and the request is what the namespace it names without that slash does. So a user's
  session writes to \<open>services\<close>, \<open>system\<close> and \<open>devices\<close>, and to any task's sandbox, where the normal
  spelling is refused.\<close>

theorem extra_slash_unguarded:
  assumes "rt_namespaces (kernel_table K q) n = Some ns" and "seg_ok n" and "\<forall>w \<in> set ws. seg_ok w"
    and "uri = ''logos:///'' @ join ''/'' (n # ws)"
  shows "grpc_read K q h uri k = to_status (ns_read ns ws) k \<and>
    grpc_write K q h uri x k = to_status (ns_write ns ws x) k \<and>
    grpc_patch K q h uri x k = to_status (ns_patch ns ws x) k \<and>
    (\<forall>si. extract_session_info (kn_tokens k) h = Some si \<and> si_role si = User \<and> ws \<noteq> [] \<and>
        n \<in> {''services'', ''system'', ''devices''} \<longrightarrow>
      (\<exists>m. grpc_write K q h (uri_render \<lparr>uri_namespace = n, uri_path = ws\<rparr>) x k = (k, Inl (PermissionDenied m))))"
proof -
  have "uri_segments (CHR ''/'' # join ''/'' (n # ws)) = n # ws"
    using uri_segments_append [of "[]" "join ''/'' (n # ws)"] uri_segments_join [of "n # ws"] assms(2,3)
    by (simp add: uri_segments_def)
  with uri_parse_logos [of "CHR ''/'' # join ''/'' (n # ws)"]
  have p: "uri_parse uri = Inr \<lparr>uri_namespace = n, uri_path = ws\<rparr>" by (simp add: assms(4))
  have v: "\<not> needs_json_validation uri" "starts_with uri ''logos://''" "resolve_uri uri info = uri" for info
    by (simp_all add: assms(4) needs_json_validation_def starts_with_def resolve_uri_def)
  have "strip_prefix ''logos://sandbox/'' uri = None" "\<not> admin_only uri"
    by (simp_all add: assms(4) admin_only_def starts_with_def)
  then have "snd (check_access (lb_sys (cf_libs K)) (at_w ''access'' (rq_world q)) info uri b (lget system_lens k)) = Inr ()"
    for info b by (simp add: check_access_def andthen_def ret_def split: option.split)
  note c = this
  have "grpc_read K q h uri k = to_status (ns_read ns ws) k"
    using table_reaches(1) [OF assms(1) p] by (simp add: grpc_read_def with_info_def v Let_def guarded_allowed [OF c])
  moreover have "\<exists>m. grpc_write K q h (uri_render \<lparr>uri_namespace = n, uri_path = ws\<rparr>) x k = (k, Inl (PermissionDenied m))"
    if si: "extract_session_info (kn_tokens k) h = Some si" "si_role si = User" "ws \<noteq> []"
      and ns: "n \<in> {''services'', ''system'', ''devices''}" for si
  proof -
    have u: "uri_render \<lparr>uri_namespace = n, uri_path = ws\<rparr> = ''logos://'' @ n @ ''/'' @ join ''/'' ws"
      using si(3) by (cases ws) (simp_all add: uri_render_def)
    have "\<exists>m. check_access (lb_sys (cf_libs K)) (at_w ''access'' (rq_world q)) (Some si)
        (uri_render \<lparr>uri_namespace = n, uri_path = ws\<rparr>) True (lget system_lens k) = (lget system_lens k, Inl (PermissionDenied m))"
      by (rule write_denied) (use u ns si(2) in blast)
    then show ?thesis
      using si(1) by (auto simp: grpc_write_def with_info_def resolve_uri_logos Let_def guarded_denied)
  qed
  ultimately show ?thesis using grpc_reaches [OF assms(1) p v(2,1) c] by blast
qed

theorem extra_slash_unguarded_witness:
  "grpc_write demo_config (demo_env 1) (Some ''key'') ''logos:///sandbox/t/x'' ''y'' demo_kernel =
   to_status (ns_write (on_part sandbox_lens (sandbox_namespace note_codec sorted_list_of_set no_faults [''r''])) [''t'', ''x''] ''y'') demo_kernel"
proof -
  have u: "''logos:///sandbox/t/x'' = ''logos:///'' @ join ''/'' (''sandbox'' # [''t'', ''x''])" by simp
  have "lb_dirs demo_libs = sorted_list_of_set" by (simp add: demo_libs_def)
  then show ?thesis
    using extra_slash_unguarded [OF kernel_table_sandbox [of demo_config "demo_env 1"] _ _ u,
        where k = demo_kernel and h = "Some ''key''" and x = "''y''"]
    by (simp add: seg_ok_def still_def)
qed

text \<open>
  Nor are dot segments refused: a session writes any file of another task that is in the same
  container, by a path that leaves its own directory, although the check refuses that file under
  its plain URI.\<close>

theorem sandbox_dots_write:
  assumes "w_flt (rq_world q) = no_faults" and "extract_session_info (kn_tokens k) h = Some si"
    and "t = si_task_id si" "t \<noteq> ''__system__''" "t2 \<notin> {''__system__'', t}"
    and "sb_task_agent (lget sandbox_lens k) t = Some a" "sb_containers (lget sandbox_lens k) a = Some info"
    and "hp = ci_host_path info" "clean (hp @ [t])" "clean (t2 # p)"
    and "dirs_to (lget tree_lens k) (hp @ [t])" "dirs_to (lget tree_lens k) (hp @ butlast (t2 # p))"
    and "lget tree_lens k (hp @ t2 # p) \<noteq> Some Dir"
  shows "(\<exists>k'. grpc_write K q h (uri_render \<lparr>uri_namespace = ''sandbox'', uri_path = t # ''..'' # t2 # p\<rparr>) x k = (k', Inr ()) \<and>
      lget tree_lens k' = (lget tree_lens k)(hp @ t2 # p \<mapsto> File x)) \<and>
    (\<exists>m. grpc_write K q h (uri_render \<lparr>uri_namespace = ''sandbox'', uri_path = t2 # p\<rparr>) x k = (k, Inl (PermissionDenied m)))"
proof -
  let ?sb = "lget sandbox_lens k" and ?ws = "t # ''..'' # t2 # p"
  let ?u = "uri_render \<lparr>uri_namespace = ''sandbox'', uri_path = ?ws\<rparr>"
  have seg: "\<forall>w \<in> set ?ws. seg_ok w" "\<forall>w \<in> set (t2 # p). seg_ok w" "seg_ok ''sandbox''"
    using assms(9,10) by (auto simp: clean_def seg_ok_def)
  have "sandbox_write no_faults (lb_sandbox_root (cf_libs K)) ?ws x ?sb =
      (?sb\<lparr>sb_fs := (sb_fs ?sb)(hp @ t2 # p \<mapsto> File x)\<rparr>, Inr ())"
    using sandbox_write_dots [of t ?sb a info "t2 # p"] assms(4,6-13) by (simp add: kernel_parts)
  moreover have "grpc_write K q h ?u x k = to_status (zoom sandbox_lens (sandbox_write no_faults (lb_sandbox_root (cf_libs K)) ?ws x)) k"
    using grpc_reaches(1) [OF kernel_table_sandbox sandbox_uri(1-3) [OF seg(1)], where q = q and K = K and k = k and h = h and x = x]
      sandbox_uri(4) [OF seg(1) assms(3) [symmetric], of "lb_sys (cf_libs K)" "at_w ''access'' (rq_world q)" True "lget system_lens k"]
    by (simp add: on_part_def sandbox_namespace_def assms(1,2))
  ultimately have "grpc_write K q h ?u x k = (lput sandbox_lens (?sb\<lparr>sb_fs := (sb_fs ?sb)(hp @ t2 # p \<mapsto> File x)\<rparr>) k, Inr ())"
    by (simp add: to_status_def zoom_def)
  moreover have "lget tree_lens (lput sandbox_lens (?sb\<lparr>sb_fs := (sb_fs ?sb)(hp @ t2 # p \<mapsto> File x)\<rparr>) k) =
      (lget tree_lens k)(hp @ t2 # p \<mapsto> File x)"
    by (simp add: kernel_parts)
  moreover have "\<exists>m. grpc_write K q h (uri_render \<lparr>uri_namespace = ''sandbox'', uri_path = t2 # p\<rparr>) x k = (k, Inl (PermissionDenied m))"
  proof -
    have u: "uri_render \<lparr>uri_namespace = ''sandbox'', uri_path = t2 # p\<rparr> = ''logos://sandbox/'' @ join ''/'' (t2 # p)"
      by (simp add: uri_render_def)
    have "foreign_task si (hd (split_on (CHR ''/'') (join ''/'' (t2 # p))))"
      using hd_split_join [of t2 p] seg(2) assms(3,5) by (auto simp: foreign_task_def seg_ok_def)
    with u write_denied obtain m where "check_access (lb_sys (cf_libs K)) (at_w ''access'' (rq_world q)) (Some si)
        (uri_render \<lparr>uri_namespace = ''sandbox'', uri_path = t2 # p\<rparr>) True (lget system_lens k) = (lget system_lens k, Inl (PermissionDenied m))"
      by blast
    then show ?thesis
      using assms(2) by (auto simp: grpc_write_def with_info_def resolve_uri_logos Let_def guarded_denied)
  qed
  ultimately show ?thesis by blast
qed

definition demo_tasks_kernel :: "((nat \<times> string list) list, unit, unit, unit) kernel" where
  "demo_tasks_kernel = demo_kernel\<lparr>kn_proc := (kn_proc demo_kernel)\<lparr>ps_rest := (ps_rest (kn_proc demo_kernel))
     \<lparr>co_sandbox := \<lparr>sb_fs = [[] \<mapsto> Dir, [''a''] \<mapsto> Dir, [''a'', ''me''] \<mapsto> Dir, [''a'', ''t''] \<mapsto> Dir],
        sb_containers = [''a'' \<mapsto> \<lparr>ci_container_id = ''host-a'', ci_host_path = [''a'']\<rparr>],
        sb_task_agent = [''me'' \<mapsto> ''a'', ''t'' \<mapsto> ''a'']\<rparr>\<rparr>\<rparr>\<rparr>"

theorem sandbox_dots_write_witness:
  "\<exists>k'. grpc_write demo_config (demo_env 1) (Some ''key'') ''logos://sandbox/me/../t/x'' ''y'' demo_tasks_kernel = (k', Inr ()) \<and>
     lget tree_lens k' [''a'', ''t'', ''x''] = Some (File ''y'')"
proof -
  let ?k = demo_tasks_kernel
  have u: "uri_render \<lparr>uri_namespace = ''sandbox'', uri_path = [''me'', ''..'', ''t'', ''x'']\<rparr> = ''logos://sandbox/me/../t/x''"
    by code_simp
  have k: "lget tree_lens ?k = [[] \<mapsto> Dir, [''a''] \<mapsto> Dir, [''a'', ''me''] \<mapsto> Dir, [''a'', ''t''] \<mapsto> Dir]"
    "sb_task_agent (lget sandbox_lens ?k) ''me'' = Some ''a''"
    "sb_containers (lget sandbox_lens ?k) ''a'' = Some \<lparr>ci_container_id = ''host-a'', ci_host_path = [''a'']\<rparr>"
    "extract_session_info (kn_tokens ?k) (Some ''key'') = Some demo_session"
    using demo_kernel_parts(2) by (simp_all add: kernel_parts demo_tasks_kernel_def)
  have "w_flt (rq_world (demo_env 1)) = no_faults" by (simp add: still_def)
  from sandbox_dots_write [OF this k(4) _ _ _ k(2,3) refl, of "''t''" "[''x'']" demo_config "''y''"] u show ?thesis
    by (auto simp: k(1) demo_session_def seg_ok_def dirs_to_def all_le_Suc)
qed

text \<open>
  C39: Calls are not checked against the task of the session: any session, a user's too, finishes any
  task that is not finished by calling \<open>system.complete\<close> with its id, although it may not write to
  \<open>logos://system/\<close>, where tasks are kept.\<close>

theorem calls_reach_any_task:
  fixes K :: "('f, 'g, 'd, 'v, 't, 's) config"
  assumes "calm (rq_world q)" and "codec_ok (lb_codec (cf_libs K))" and "tasks_ok (lget system_lens k)"
    and "\<forall>t \<in> set (cf_external K). pt_name t \<noteq> ''system.complete''"
    and "extract_session_info (kn_tokens k) h = Some si" and "si_role si = User"
    and "tid \<noteq> []" and "task_lookup tid (lget system_lens k) = Some t" and "tk_status t \<noteq> ''finished''"
    and "grpc_call K q h ''system.complete''
       (to_str (lb_codec (cf_libs K)) (JObj [(''summary'', JStr m), (''task_id'', JStr tid)])) k = (k', r)"
  shows "is_ok r \<and>
    (\<exists>now. task_lookup tid (lget system_lens k') = Some (t\<lparr>tk_status := ''finished'', tk_updated_at := now\<rparr>)) \<and>
    (\<forall>rest content. \<exists>e. grpc_write K q h (''logos://system/'' @ rest) content k = (k, Inl (PermissionDenied e)))"
proof -
  let ?B = "cf_libs K" and ?w = "at_w ''tool'' (rq_world q)"
  let ?params = "to_str (lb_codec ?B) (JObj [(''summary'', JStr m), (''task_id'', JStr tid)])"
  let ?c = "ps_rest (kn_proc k)"
  have sys: "lget system_lens x = co_system (ps_rest (kn_proc x))" for x :: "('f, 'g, 'd, 's) kernel"
    by (simp add: kernel_parts)
  obtain c' q' where run: "complete_call ?B ?w ?params ?c = (c', q')" by fastforce
  from complete_call_finishes [OF calm_at [OF assms(1)] _ assms(2,7) _ assms(9) run] assms(3,8)
  have fin: "is_ok q'"
    "\<exists>now. task_lookup tid (co_system c') = Some (t\<lparr>tk_status := ''finished'', tk_updated_at := now\<rparr>)"
    by (simp_all add: sys)
  have "k' = k\<lparr>kn_proc := (kn_proc k)\<lparr>ps_rest := c'\<rparr>\<rparr>" "r = map_err vfs_to_status q'"
    using assms(10) complete_registered [OF assms(4), of q] run
    by (auto simp: grpc_call_def with_info_def assms(5) to_status_def zoom_def proc_lens_def proc_call_def
        call_tool_def complete_tool_def)
  with fin have "is_ok r"
    "\<exists>now. task_lookup tid (lget system_lens k') = Some (t\<lparr>tk_status := ''finished'', tk_updated_at := now\<rparr>)"
    by (cases q'; simp add: sys)+
  moreover have "\<exists>e. grpc_write K q h (''logos://system/'' @ rest) content k = (k, Inl (PermissionDenied e))" for rest content
  proof -
    have "strip_prefix ''logos://sandbox/'' (''logos://system/'' @ rest) = None" by simp
    then have "\<exists>e. check_access (lb_sys ?B) (at_w ''access'' (rq_world q)) (Some si) (''logos://system/'' @ rest) True
        (lget system_lens k) = (lget system_lens k, Inl (PermissionDenied e))"
      using assms(6) by (simp add: check_access_def admin_only_def andthen_def ret_def fail_def starts_with_def)
    then show ?thesis
      by (auto simp: grpc_write_def with_info_def assms(5) resolve_uri_def starts_with_def Let_def guarded_denied)
  qed
  ultimately show ?thesis by blast
qed

theorem calls_reach_any_task_witness:
  "\<exists>now. task_lookup ''t'' (lget system_lens (fst (grpc_call demo_config (demo_env 1) (Some ''key'') ''system.complete''
     (to_str note_codec (JObj [(''summary'', JStr ''m''), (''task_id'', JStr ''t'')])) demo_kernel))) =
   Some ((demo_task ''t'' ''active'')\<lparr>tk_status := ''finished'', tk_updated_at := now\<rparr>)"
proof -
  have "tasks_ok (demo_db [demo_task ''t'' ''active''])"
    "task_lookup ''t'' (demo_db [demo_task ''t'' ''active'']) = Some (demo_task ''t'' ''active'')"
    "tk_status (demo_task ''t'' ''active'') \<noteq> ''finished''" "si_role demo_session = User"
    by (simp_all add: tasks_ok_def demo_db_def demo_task_def task_lookup_def demo_session_def)
  then show ?thesis
    using calls_reach_any_task [of "demo_env 1" demo_config demo_kernel "Some ''key''" demo_session "''t''"
        "demo_task ''t'' ''active''" "''m''", OF _ _ _ _ _ _ _ _ _ prod.collapse [symmetric]]
    by (simp add: demo_kernel_parts note_codec_ok)
qed

end
