(* ===== verification/Logos_Mcp.thy ===== *)
theory Logos_Mcp
  imports Logos_Kernel
begin

text \<open>
  The bridge of \<open>logos-mcp/src/main.rs\<close>: JSON-RPC requests on lines of standard input,
  answered on standard output through a client of the kernel's service. The client's transport and the
  environment are parameters; \<open>kernel_client\<close> is the client of the kernel of \<open>Logos_Kernel\<close>.
\<close>

section \<open>Messages\<close>

record rpc_request =
  rq_jsonrpc :: string
  rq_id :: json
  rq_method :: string
  rq_params :: json

record rpc_error =
  re_code :: int
  re_message :: string

record rpc_response =
  rs_jsonrpc :: string
  rs_id :: json
  rs_result :: "json option"
  rs_error :: "rpc_error option"

text \<open>
  Reading into the structure takes an object, or an array of the fields in their order; only
  \<open>params\<close> may be left out, and no field may come twice.
\<close>

definition request_fields :: "string list" where
  "request_fields = [''jsonrpc'', ''id'', ''method'', ''params'']"

definition request_of :: "json option \<Rightarrow> json option \<Rightarrow> json option \<Rightarrow> json option \<Rightarrow> rpc_request option" where
  "request_of version i meth params =
     (case (Option.bind version as_str, i, Option.bind meth as_str) of
        (Some v, Some i, Some m) \<Rightarrow>
          Some \<lparr>rq_jsonrpc = v, rq_id = i, rq_method = m, rq_params = opt_or params JNull\<rparr>
      | _ \<Rightarrow> None)"

fun decode_request :: "json \<Rightarrow> rpc_request option" where
  "decode_request (JObj kvs) =
     request_of (map_of kvs ''jsonrpc'') (map_of kvs ''id'') (map_of kvs ''method'') (map_of kvs ''params'')"
| "decode_request (JArr [v, i, m]) = request_of (Some v) (Some i) (Some m) None"
| "decode_request (JArr [v, i, m, p]) = request_of (Some v) (Some i) (Some m) (Some p)"
| "decode_request _ = None"

definition parse_request :: "codec \<Rightarrow> string \<Rightarrow> string + rpc_request" where
  "parse_request c line =
     (case from_str c line of
        Inl e \<Rightarrow> Inl e
      | Inr v \<Rightarrow>
          (case repeated c request_fields line of
             Some e \<Rightarrow> Inl e
           | None \<Rightarrow> ok_or (decode_request v) (mismatch c ''JsonRpcRequest'' v)))"

definition response_json :: "rpc_response \<Rightarrow> json" where
  "response_json r = JObj
     ([(''jsonrpc'', JStr (rs_jsonrpc r)), (''id'', rs_id r)]
      @ (case rs_result r of None \<Rightarrow> [] | Some v \<Rightarrow> [(''result'', v)])
      @ (case rs_error r of None \<Rightarrow> []
         | Some e \<Rightarrow> [(''error'', JObj [(''code'', JInt (re_code e)), (''message'', JStr (re_message e))])]))"

definition rpc_ok :: "json \<Rightarrow> json \<Rightarrow> rpc_response" where
  "rpc_ok i result = \<lparr>rs_jsonrpc = ''2.0'', rs_id = i, rs_result = Some result, rs_error = None\<rparr>"

definition rpc_fail :: "json \<Rightarrow> int \<Rightarrow> string \<Rightarrow> rpc_response" where
  "rpc_fail i code message =
     \<lparr>rs_jsonrpc = ''2.0'', rs_id = i, rs_result = None, rs_error = Some \<lparr>re_code = code, re_message = message\<rparr>\<rparr>"

section \<open>Tool definitions\<close>

record proc_tool_def =
  pd_name :: string
  pd_description :: string
  pd_input_schema :: json

definition mcp_tool :: "string \<Rightarrow> string \<Rightarrow> json \<Rightarrow> json" where
  "mcp_tool name description schema =
     jobj [(''name'', JStr name), (''description'', JStr description), (''inputSchema'', schema)]"

definition mcp_schema :: "(string \<times> string \<times> string) list \<Rightarrow> json" where
  "mcp_schema props = jobj
     [(''type'', JStr ''object''),
      (''properties'', jobj (map (\<lambda>(n, ty, d). (n, described ty d)) props)),
      (''required'', JArr (map (\<lambda>(n, _). JStr n) props))]"

definition base_tool_definitions :: "json list" where
  "base_tool_definitions =
     [mcp_tool ''logos_read'' ''Read data from a Logos URI'' (mcp_schema
        [(''uri'', ''string'', ''Logos URI (e.g. logos://memory/groups/chat-1/messages/1)'')]),
      mcp_tool ''logos_write'' ''Write data to a Logos URI'' (mcp_schema
        [(''uri'', ''string'', ''Logos URI''), (''content'', ''string'', ''Content to write'')]),
      mcp_tool ''logos_patch'' ''Partially update data at a Logos URI (JSON deep merge)'' (mcp_schema
        [(''uri'', ''string'', ''Logos URI''), (''partial'', ''string'', ''Partial content to merge'')]),
      mcp_tool ''logos_exec'' ''Execute a shell command in the sandbox container'' (mcp_schema
        [(''command'', ''string'', ''Shell command (logos:// URIs are auto-translated)'')]),
      mcp_tool ''logos_call'' ''Call a proc tool by name'' (mcp_schema
        [(''tool'', ''string'', ''Tool name (e.g. memory.search)''), (''params'', ''object'', ''Tool parameters'')])]"

definition tool_definitions :: "proc_tool_def list \<Rightarrow> json" where
  "tool_definitions proc_tools = jobj [(''tools'', JArr (base_tool_definitions @
     map (\<lambda>t. mcp_tool (pd_name t) (pd_description t) (pd_input_schema t)) proc_tools))]"

section \<open>The client\<close>

text \<open>
  The calls of the generated client; the error is the message of the status. A request carries
  the session header, where it has one that the transport takes (\<open>mc_header_ok\<close>).
\<close>

datatype handshake_reply = HandshakeReply bool string "string option"

record 's client =
  cl_read :: "string option \<Rightarrow> string \<Rightarrow> ('s, string, string) step"
  cl_write :: "string option \<Rightarrow> string \<Rightarrow> string \<Rightarrow> ('s, string, unit) step"
  cl_patch :: "string option \<Rightarrow> string \<Rightarrow> string \<Rightarrow> ('s, string, unit) step"
  cl_exec :: "string option \<Rightarrow> string \<Rightarrow> ('s, string, exec_result) step"
  cl_call :: "string option \<Rightarrow> string \<Rightarrow> string \<Rightarrow> ('s, string, string) step"
  cl_handshake :: "string \<Rightarrow> ('s, string, handshake_reply) step"

record 's mcp =
  mc_client :: "'s client"
  mc_codec :: codec
  mc_header_ok :: "string \<Rightarrow> bool"

definition with_session :: "'s mcp \<Rightarrow> string option \<Rightarrow> string option" where
  "with_session M skey =
     (case skey of None \<Rightarrow> None | Some key \<Rightarrow> if mc_header_ok M key then Some key else None)"

section \<open>Discovery\<close>

fun as_strings :: "json list \<Rightarrow> string list option" where
  "as_strings [] = Some []"
| "as_strings (v # vs) =
     (case (as_str v, as_strings vs) of (Some s, Some ss) \<Rightarrow> Some (s # ss) | _ \<Rightarrow> None)"

definition string_list_from_str :: "codec \<Rightarrow> string \<Rightarrow> string + string list" where
  "string_list_from_str c s =
     (case from_str c s of
        Inl e \<Rightarrow> Inl e
      | Inr v \<Rightarrow> ok_or (Option.bind (as_array v) as_strings) (mismatch c ''Vec<String>'' v))"

fun fetch_schemas :: "'s mcp \<Rightarrow> string option \<Rightarrow> string list \<Rightarrow> ('s, string, proc_tool_def list) step" where
  "fetch_schemas M key [] = ret []"
| "fetch_schemas M key (name # names) =
     (if name = [] then fetch_schemas M key names
      else attempt (cl_read (mc_client M) (with_session M key) (''logos://proc/'' @ name @ ''/.schema''))
        (\<lambda>schema_str.
          case schema_str of
            Inl _ \<Rightarrow> fetch_schemas M key names
          | Inr s \<Rightarrow>
              (case from_str (mc_codec M) s of
                 Inl _ \<Rightarrow> fetch_schemas M key names
               | Inr schema \<Rightarrow>
                   andthen (fetch_schemas M key names) (\<lambda>tools.
                   ret (\<lparr>pd_name = name, pd_description = str_field schema ''description'' [],
                         pd_input_schema = jget schema ''parameters''\<rparr> # tools)))))"

definition fetch_proc_tools :: "'s mcp \<Rightarrow> string option \<Rightarrow> ('s, string, proc_tool_def list) step" where
  "fetch_proc_tools M key =
     andthen (cl_read (mc_client M) (with_session M key) ''logos://proc/'') (\<lambda>list_json.
     andthen (lift_result (map_err (\<lambda>e. ''parse proc list: '' @ e) (string_list_from_str (mc_codec M) list_json)))
       (fetch_schemas M key))"

section \<open>Requests\<close>

definition mcp_call ::
  "'s mcp \<Rightarrow> string option \<Rightarrow> string \<Rightarrow> json \<Rightarrow> ('s, string, string) step" where
  "mcp_call M key tool params =
     cl_call (mc_client M) (with_session M key) tool (to_str (mc_codec M) params)"

definition call_tool_mcp ::
  "'s mcp \<Rightarrow> string option \<Rightarrow> proc_tool_def list \<Rightarrow> string \<Rightarrow> json \<Rightarrow> ('s, string, string) step" where
  "call_tool_mcp M key proc_tools tool_name args =
     (let C = mc_client M; h = with_session M key in
      if tool_name = ''logos_read'' then cl_read C h (str_field args ''uri'' [])
      else if tool_name = ''logos_write'' then
        andthen (cl_write C h (str_field args ''uri'' []) (str_field args ''content'' [])) (\<lambda>_. ret ''ok'')
      else if tool_name = ''logos_patch'' then
        andthen (cl_patch C h (str_field args ''uri'' []) (str_field args ''partial'' [])) (\<lambda>_. ret ''ok'')
      else if tool_name = ''logos_exec'' then
        andthen (cl_exec C h (str_field args ''command'' [])) (\<lambda>r.
        ret (to_str (mc_codec M) (jobj [(''stdout'', JStr (er_stdout r)), (''stderr'', JStr (er_stderr r)),
          (''exit_code'', JInt (er_exit_code r))])))
      else if tool_name = ''logos_call'' then mcp_call M key (str_field args ''tool'' []) (jget args ''params'')
      else if list_ex (\<lambda>t. pd_name t = tool_name) proc_tools then mcp_call M key tool_name args
      else fail (''unknown tool: '' @ tool_name))"

text \<open>A request is always answered; what the client fails with becomes the error of the answer.\<close>

definition handle_request ::
  "'s mcp \<Rightarrow> string option \<Rightarrow> proc_tool_def list \<Rightarrow> rpc_request \<Rightarrow> 's \<Rightarrow> 's \<times> rpc_response" where
  "handle_request M key proc_tools req s =
     (let i = rq_id req; m = rq_method req in
      if m = ''tools/list'' then (s, rpc_ok i (tool_definitions proc_tools))
      else if m = ''tools/call'' then
        (case call_tool_mcp M key proc_tools (str_field (rq_params req) ''name'' [])
            (jget (rq_params req) ''arguments'') s of
           (s', Inr result) \<Rightarrow> (s', rpc_ok i (jobj [(''content'',
               JArr [jobj [(''type'', JStr ''text''), (''text'', JStr result)]])]))
         | (s', Inl e) \<Rightarrow> (s', rpc_fail i (- 32000) e))
      else if m = ''initialize'' then
        (s, rpc_ok i (jobj [(''protocolVersion'', JStr ''2024-11-05''),
           (''capabilities'', jobj [(''tools'', jobj [])]),
           (''serverInfo'', jobj [(''name'', JStr ''logos-mcp''), (''version'', JStr ''0.1.0'')])]))
      else if m = ''notifications/initialized'' then (s, rpc_ok i (jobj []))
      else (s, rpc_fail i (- 32601) (''method not found: '' @ m)))"

text \<open>One line that is not blank.\<close>

definition answer_line ::
  "'s mcp \<Rightarrow> string option \<Rightarrow> proc_tool_def list \<Rightarrow> string \<Rightarrow> 's \<Rightarrow> 's \<times> rpc_response" where
  "answer_line M key proc_tools line s =
     (case parse_request (mc_codec M) line of
        Inl e \<Rightarrow> (s, rpc_fail JNull (- 32700) (''parse error: '' @ e))
      | Inr req \<Rightarrow> handle_request M key proc_tools req s)"

section \<open>The loop\<close>

text \<open>
  Standard input is the list of what reading a line gives, a line or an error, up to the end of
  the file; \<open>flt\<close> is asked for an error at each write of an answer. The result is what was written
  and how the loop ended.
\<close>

fun mcp_loop ::
  "'s mcp \<Rightarrow> faults \<Rightarrow> string option \<Rightarrow> proc_tool_def list \<Rightarrow> (string + string) list \<Rightarrow> 's \<Rightarrow>
   's \<times> string list \<times> (string + unit)" where
  "mcp_loop M flt key proc_tools [] s = (s, [], Inr ())"
| "mcp_loop M flt key proc_tools (Inl e # input) s = (s, [], Inl e)"
| "mcp_loop M flt key proc_tools (Inr raw # input) s =
     (if trim raw = [] then mcp_loop M (at ''next'' flt) key proc_tools input s
      else
        (case answer_line M key proc_tools (trim raw) s of
           (s', r) \<Rightarrow>
             (case flt [''write''] of
                Some e \<Rightarrow> (s', [], Inl e)
              | None \<Rightarrow>
                  (case mcp_loop M (at ''next'' flt) key proc_tools input s' of
                     (s'', outs, fin) \<Rightarrow>
                       (s'', (to_str (mc_codec M) (response_json r) @ [CHR 0x0A]) # outs, fin)))))"

text \<open>The session: none without a token; a refused handshake ends the process.\<close>

definition mcp_session :: "'s mcp \<Rightarrow> string \<Rightarrow> ('s, string, string option) step" where
  "mcp_session M token =
     (if token \<noteq> [] then
        andthen (cl_handshake (mc_client M) token) (\<lambda>reply.
        case reply of HandshakeReply ok e key \<Rightarrow>
          if \<not> ok then fail (''handshake failed: '' @ e) else ret key)
      else ret None)"

definition mcp_main ::
  "'s mcp \<Rightarrow> faults \<Rightarrow> string \<Rightarrow> (string + string) list \<Rightarrow> 's \<Rightarrow> 's \<times> string list \<times> (string + unit)" where
  "mcp_main M flt token input s =
     (case mcp_session M token s of
        (s1, Inl e) \<Rightarrow> (s1, [], Inl e)
      | (s1, Inr key) \<Rightarrow>
          (case fetch_proc_tools M key s1 of
             (s2, tools) \<Rightarrow> mcp_loop M flt key (unwrap_or tools []) input s2))"

section \<open>Answers\<close>

text \<open>The lines that get an answer, and what an answer to a line is.\<close>

definition line_texts :: "(string + string) list \<Rightarrow> string list" where
  "line_texts input = filter (\<lambda>l. l \<noteq> []) (map (\<lambda>x. case x of Inl _ \<Rightarrow> [] | Inr raw \<Rightarrow> trim raw) (takeWhile is_ok input))"

definition answers :: "codec \<Rightarrow> string \<Rightarrow> rpc_response \<Rightarrow> bool" where
  "answers c line r \<longleftrightarrow>
     rs_jsonrpc r = ''2.0'' \<and> (rs_result r = None \<longleftrightarrow> rs_error r \<noteq> None) \<and>
     (case parse_request c line of
        Inl _ \<Rightarrow> rs_id r = JNull \<and> map_option re_code (rs_error r) = Some (- 32700)
      | Inr req \<Rightarrow> rs_id r = rq_id req \<and>
          map_option re_code (rs_error r) \<in>
            (if rq_method req = ''tools/call'' then {None, Some (- 32000)}
             else if rq_method req \<in> {''tools/list'', ''initialize'', ''notifications/initialized''} then {None}
             else {Some (- 32601)}))"

lemma line_texts_simps [simp]:
  "line_texts [] = []" "line_texts (Inl e # input) = []"
  "line_texts (Inr raw # input) = (if trim raw = [] then [] else [trim raw]) @ line_texts input"
  by (simp_all add: line_texts_def)

lemma rpc_simps [simp]:
  "rs_jsonrpc (rpc_ok i v) = ''2.0''" "rs_id (rpc_ok i v) = i" "rs_result (rpc_ok i v) = Some v" "rs_error (rpc_ok i v) = None"
  "rs_jsonrpc (rpc_fail i c m) = ''2.0''" "rs_id (rpc_fail i c m) = i" "rs_result (rpc_fail i c m) = None"
  "rs_error (rpc_fail i c m) = Some \<lparr>re_code = c, re_message = m\<rparr>"
  by (simp_all add: rpc_ok_def rpc_fail_def)

lemma handle_request_answers:
  assumes "handle_request M key tools req s = (s', r)" and "parse_request c line = Inr req"
  shows "answers c line r"
  using assms by (auto simp: handle_request_def answers_def Let_def split: if_splits prod.splits sum.splits)

lemma answer_line_answers:
  assumes "answer_line M key tools line s = (s', r)"
  shows "answers (mc_codec M) line r"
proof (cases "parse_request (mc_codec M) line")
  case (Inl e)
  with assms show ?thesis by (auto simp: answer_line_def answers_def)
next
  case (Inr req)
  with assms show ?thesis by (auto simp: answer_line_def intro: handle_request_answers)
qed

lemma repeats_request:
  "parse_request c line = Inr req \<Longrightarrow> from_str c line = Inr (JObj kvs) \<Longrightarrow> map_of kvs ''id'' \<noteq> None"
  by (auto simp: parse_request_def request_of_def split: option.splits)

text \<open>
  A notification, which is a request without an id, is no request here: it is answered by a parse
  error, also \<open>notifications/initialized\<close>, and the branch for that method is only reached by a
  request that has an id.\<close>

lemma notification_refused:
  assumes "from_str (mc_codec M) line = Inr (JObj kvs)" and "map_of kvs ''id'' = None"
  shows "\<exists>m. answer_line M key tools line s = (s, rpc_fail JNull (- 32700) m)"
proof -
  have "parse_request (mc_codec M) line \<noteq> Inr req" for req
    using repeats_request [OF _ assms(1)] assms(2) by blast
  then obtain e where "parse_request (mc_codec M) line = Inl e"
    by (cases "parse_request (mc_codec M) line") auto
  then show ?thesis by (auto simp: answer_line_def)
qed

section \<open>The client of the kernel\<close>

fun status_message :: "status \<Rightarrow> string" where
  "status_message (InvalidArgument m) = m"
| "status_message (StatusNotFound m) = m"
| "status_message (Unavailable m) = m"
| "status_message (Internal m) = m"
| "status_message (PermissionDenied m) = m"
| "status_message (Unauthenticated m) = m"

text \<open>Each request finds the next environment of a sequence.\<close>

definition served_by ::
  "(nat \<Rightarrow> 't request_env) \<Rightarrow> ('t request_env \<Rightarrow> ('f, 'g, 'd, 's, 'a) handler) \<Rightarrow>
   (('f, 'g, 'd, 's) kernel \<times> nat, string, 'a) step" where
  "served_by Q h kn =
     (case h (Q (snd kn)) (fst kn) of (k', r) \<Rightarrow> ((k', Suc (snd kn)), map_err status_message r))"

definition handshake_reply :: "string + string \<Rightarrow> handshake_reply" where
  "handshake_reply r = (case r of Inl e \<Rightarrow> HandshakeReply False e None | Inr key \<Rightarrow> HandshakeReply True [] (Some key))"

definition kernel_client ::
  "('f, 'g, 'd, 'v, 't, 's) config \<Rightarrow> (nat \<Rightarrow> 't request_env) \<Rightarrow> (('f, 'g, 'd, 's) kernel \<times> nat) client" where
  "kernel_client K Q =
     \<lparr>cl_read = (\<lambda>h uri. served_by Q (\<lambda>q. grpc_read K q h uri)),
      cl_write = (\<lambda>h uri content. served_by Q (\<lambda>q. grpc_write K q h uri content)),
      cl_patch = (\<lambda>h uri partial. served_by Q (\<lambda>q. grpc_patch K q h uri partial)),
      cl_exec = (\<lambda>h command. served_by Q (\<lambda>q. grpc_exec K q h command)),
      cl_call = (\<lambda>h tool params. served_by Q (\<lambda>q. grpc_call K q h tool params)),
      cl_handshake = (\<lambda>token. andthen (served_by Q (\<lambda>q. grpc_handshake K q token)) (\<lambda>r. ret (handshake_reply r)))\<rparr>"

text \<open>A step acts on the kernel as a sequence of events of a kind.\<close>

definition acts ::
  "('f, 'g, 'd, 'v, 't, 's) config \<Rightarrow> 't schedule \<Rightarrow> (nat \<Rightarrow> 't request_env) \<Rightarrow> (kernel_event \<Rightarrow> bool) \<Rightarrow>
   (('f, 'g, 'd, 's) kernel \<times> nat \<Rightarrow> (('f, 'g, 'd, 's) kernel \<times> nat) \<times> 'b) \<Rightarrow> bool" where
  "acts K S Q P m \<longleftrightarrow> (\<forall>k n. \<exists>es. list_all P es \<and>
     fst (m (k, n)) = (foldl (kernel_exec K S) k (zip (map Q [n ..< n + length es]) es), n + length es))"

lemma actsI:
  assumes "\<And>k n. \<exists>es. list_all P es \<and>
    fst (m (k, n)) = (foldl (kernel_exec K S) k (zip (map Q [n ..< n + length es]) es), n + length es)"
  shows "acts K S Q P m"
  using assms by (simp add: acts_def)

lemma acts_none: "(\<And>s. fst (m s) = s) \<Longrightarrow> acts K S Q P m"
  by (auto simp: acts_def intro!: exI [of _ "[]"])

lemma acts_one: "P e \<Longrightarrow> (\<And>k n. fst (m (k, n)) = (kernel_exec K S k (Q n, e), Suc n)) \<Longrightarrow> acts K S Q P m"
  by (auto simp: acts_def intro!: exI [of _ "[e]"])

lemma events_append:
  "foldl (kernel_exec K S) (foldl (kernel_exec K S) k (zip (map Q [n ..< n + length es]) es))
     (zip (map Q [n + length es ..< n + length es + length fs]) fs) =
   foldl (kernel_exec K S) k (zip (map Q [n ..< n + length (es @ fs)]) (es @ fs))"
proof -
  have eq: "n + length (es @ fs) = n + length es + length fs" by simp
  have split: "[n ..< n + length es + length fs] = [n ..< n + length es] @ [n + length es ..< n + length es + length fs]"
    by (rule upt_add_eq_append) simp
  have "zip (map Q [n ..< n + length (es @ fs)]) (es @ fs) =
      zip (map Q [n ..< n + length es]) es @ zip (map Q [n + length es ..< n + length es + length fs]) fs"
    unfolding eq split map_append by (rule zip_append) simp
  then show ?thesis by (simp only: foldl_append)
qed

text \<open>Sequences: what follows may depend on the result.\<close>

lemma acts_then:
  assumes "acts K S Q P m" and "\<And>b. acts K S Q P (f b)"
  shows "acts K S Q P (\<lambda>s. case m s of (s', b) \<Rightarrow> f b s')"
proof (rule actsI)
  fix k n
  obtain es where es: "list_all P es"
    "fst (m (k, n)) = (foldl (kernel_exec K S) k (zip (map Q [n ..< n + length es]) es), n + length es)"
    using assms(1) by (auto simp: acts_def)
  obtain s' b where m: "m (k, n) = (s', b)" by fastforce
  let ?k = "foldl (kernel_exec K S) k (zip (map Q [n ..< n + length es]) es)"
  obtain fs where fs: "list_all P fs"
    "fst (f b (?k, n + length es)) =
       (foldl (kernel_exec K S) ?k (zip (map Q [n + length es ..< n + length es + length fs]) fs), n + length es + length fs)"
    using assms(2) unfolding acts_def by blast
  from fs(2) have "fst (case m (k, n) of (s', b) \<Rightarrow> f b s') =
      (foldl (kernel_exec K S) k (zip (map Q [n ..< n + length (es @ fs)]) (es @ fs)), n + length (es @ fs))"
    using es(2) m unfolding events_append by simp
  with es(1) fs(1) show "\<exists>es. list_all P es \<and> fst (case m (k, n) of (s', b) \<Rightarrow> f b s') =
      (foldl (kernel_exec K S) k (zip (map Q [n ..< n + length es]) es), n + length es)"
    by (intro exI [of _ "es @ fs"]) simp
qed

lemma acts_andthen:
  assumes "acts K S Q P m" and "\<And>a. acts K S Q P (f a)"
  shows "acts K S Q P (andthen m f)"
proof -
  let ?f = "\<lambda>b. case b of Inl e \<Rightarrow> fail e | Inr a \<Rightarrow> f a"
  have eq: "andthen m f = (\<lambda>s. case m s of (s', b) \<Rightarrow> ?f b s')"
    by (simp add: fun_eq_iff andthen_def fail_def split: prod.split sum.split)
  have "acts K S Q P (?f b)" for b
    using assms(2) by (cases b) (simp_all add: acts_none fail_def)
  then show ?thesis unfolding eq by (rule acts_then [where f = ?f, OF assms(1)])
qed

lemma acts_attempt: "acts K S Q P m \<Longrightarrow> (\<And>r. acts K S Q P (f r)) \<Longrightarrow> acts K S Q P (attempt m f)"
  unfolding attempt_def [abs_def] by (rule acts_then)

lemma acts_pure: "acts K S Q P (ret a)" "acts K S Q P (fail e)" "acts K S Q P (lift_result r)"
  by (rule acts_none, simp add: ret_def fail_def lift_result_def)+

text \<open>The events of the bridge: requests with its header.\<close>

fun bridge_event :: "string option \<Rightarrow> kernel_event \<Rightarrow> bool" where
  "bridge_event h (OnRead h' _) \<longleftrightarrow> h' = h"
| "bridge_event h (OnWrite h' _ _) \<longleftrightarrow> h' = h"
| "bridge_event h (OnPatch h' _ _) \<longleftrightarrow> h' = h"
| "bridge_event h (OnExec h' _) \<longleftrightarrow> h' = h"
| "bridge_event h (OnCall h' _ _) \<longleftrightarrow> h' = h"
| "bridge_event h _ \<longleftrightarrow> False"

lemma acts_served:
  assumes "P e" and "\<And>q k. fst (h q k) = kernel_exec K S k (q, e)"
  shows "acts K S Q P (served_by Q h)"
proof (rule acts_one [where P = P and e = e, OF assms(1)])
  fix k n
  show "fst (served_by Q h (k, n)) = (kernel_exec K S k (Q n, e), Suc n)"
    by (simp add: served_by_def assms(2) [symmetric] split: prod.splits)
qed

lemma acts_client:
  "acts K S Q (bridge_event h) (cl_read (kernel_client K Q) h uri)"
  "acts K S Q (bridge_event h) (cl_write (kernel_client K Q) h uri content)"
  "acts K S Q (bridge_event h) (cl_patch (kernel_client K Q) h uri partial)"
  "acts K S Q (bridge_event h) (cl_exec (kernel_client K Q) h command)"
  "acts K S Q (bridge_event h) (cl_call (kernel_client K Q) h tool params)"
  unfolding kernel_client_def client.select_convs
      apply (rule acts_served [where e = "OnRead h uri"]; simp)
     apply (rule acts_served [where e = "OnWrite h uri content"]; simp)
    apply (rule acts_served [where e = "OnPatch h uri partial"]; simp)
   apply (rule acts_served [where e = "OnExec h command"]; simp)
  apply (rule acts_served [where e = "OnCall h tool params"]; simp)
  done

lemmas acts_intros = acts_pure acts_andthen acts_attempt acts_client

definition kernel_mcp ::
  "('f, 'g, 'd, 'v, 't, 's) config \<Rightarrow> (nat \<Rightarrow> 't request_env) \<Rightarrow> codec \<Rightarrow> (string \<Rightarrow> bool) \<Rightarrow>
   (('f, 'g, 'd, 's) kernel \<times> nat) mcp" where
  "kernel_mcp K Q c ok = \<lparr>mc_client = kernel_client K Q, mc_codec = c, mc_header_ok = ok\<rparr>"

lemma kernel_mcp_client [simp]: "mc_client (kernel_mcp K Q c ok) = kernel_client K Q"
  by (simp add: kernel_mcp_def)

text \<open>The bridge to the kernel \<open>K\<close>, as the steps of its loop act on it.\<close>

lemma acts_fetch:
  assumes "mc_client M = kernel_client K Q"
  shows "acts K S Q (bridge_event (with_session M key)) (fetch_proc_tools M key)"
proof -
  have "acts K S Q (bridge_event (with_session M key)) (fetch_schemas M key names)" for names
    by (induction names) (auto simp: assms intro!: acts_intros split: sum.split)
  then show ?thesis
    unfolding fetch_proc_tools_def assms by (intro acts_intros)
qed

lemma acts_call_tool:
  assumes "mc_client M = kernel_client K Q"
  shows "acts K S Q (bridge_event (with_session M key)) (call_tool_mcp M key tools name args)"
  unfolding call_tool_mcp_def mcp_call_def Let_def assms by (auto intro!: acts_intros)

lemma acts_answer_line:
  assumes "mc_client M = kernel_client K Q"
  shows "acts K S Q (bridge_event (with_session M key)) (answer_line M key tools line)"
proof (cases "parse_request (mc_codec M) line")
  case (Inl e)
  then show ?thesis by (intro acts_none) (simp add: answer_line_def)
next
  case (Inr req)
  show ?thesis
  proof (cases "rq_method req = ''tools/call''")
    case True
    have "acts K S Q (bridge_event (with_session M key))
        (\<lambda>s. case call_tool_mcp M key tools (str_field (rq_params req) ''name'' []) (jget (rq_params req) ''arguments'') s of
           (s', r) \<Rightarrow> (\<lambda>s. (s, case r of Inr result \<Rightarrow> rpc_ok (rq_id req) (jobj [(''content'',
               JArr [jobj [(''type'', JStr ''text''), (''text'', JStr result)]])])
             | Inl e \<Rightarrow> rpc_fail (rq_id req) (- 32000) e)) s')"
      by (intro acts_then acts_call_tool [OF assms] acts_none) simp
    with Inr True show ?thesis
      by (simp add: acts_def answer_line_def handle_request_def Let_def split: prod.splits sum.splits) blast
  next
    case False
    with Inr show ?thesis
      by (intro acts_none) (simp add: answer_line_def handle_request_def Let_def)
  qed
qed

lemma acts_cong: "acts K S Q P m \<Longrightarrow> (\<And>s. fst (m' s) = fst (m s)) \<Longrightarrow> acts K S Q P m'"
  by (simp add: acts_def)

lemma acts_loop:
  assumes "mc_client M = kernel_client K Q"
  shows "acts K S Q (bridge_event (with_session M key)) (mcp_loop M flt key tools input)"
proof (induction input arbitrary: flt)
  case Nil
  show ?case by (rule acts_none) simp
next
  case (Cons x input)
  show ?case
  proof (cases x)
    case (Inl e)
    then show ?thesis by (intro acts_none) simp
  next
    case (Inr raw)
    let ?rest = "\<lambda>r s. case flt [''write''] of Some e \<Rightarrow> (s, [], Inl e)
      | None \<Rightarrow> mcp_loop M (at ''next'' flt) key tools input s"
    have "acts K S Q (bridge_event (with_session M key)) (?rest r)" for r
      using Cons.IH by (cases "flt [''write'']") (simp_all add: acts_none)
    note seq = acts_then [OF acts_answer_line [OF assms, where key = key and tools = tools and line = "trim raw"], where f = ?rest, OF this]
    show ?thesis
    proof (cases "trim raw = []")
      case True
      with Inr Cons.IH show ?thesis by (auto intro: acts_cong)
    next
      case False
      show ?thesis
        by (rule acts_cong [OF seq]) (simp add: Inr False split: prod.split option.split)
    qed
  qed
qed

lemma loop_answers:
  "\<exists>n rs. fst (snd (mcp_loop M flt key tools input s)) =
       map (\<lambda>r. to_str (mc_codec M) (response_json r) @ [CHR 0x0A]) rs \<and>
     list_all2 (answers (mc_codec M)) (take n (line_texts input)) rs \<and>
     (flt = no_faults \<longrightarrow> n = length (line_texts input) \<and>
        (snd (snd (mcp_loop M flt key tools input s)) = Inr () \<longleftrightarrow> list_all is_ok input))"
  (is "\<exists>n rs. ?P flt input s n rs")
proof (induction input arbitrary: flt s)
  case Nil
  then show ?case by (intro exI [of _ 0] exI [of _ "[]"]) simp
next
  case (Cons x input)
  show ?case
  proof (cases x)
    case (Inl e)
    then show ?thesis by (intro exI [of _ 0] exI [of _ "[]"]) simp
  next
    case (Inr raw)
    show ?thesis
    proof (cases "trim raw = []")
      case True
      from Cons.IH [of "at ''next'' flt" s] obtain n rs where "?P (at ''next'' flt) input s n rs" by blast
      with True Inr show ?thesis by (intro exI [of _ n] exI [of _ rs]) auto
    next
      case False
      obtain s' r where r: "answer_line M key tools (trim raw) s = (s', r)" by fastforce
      show ?thesis
      proof (cases "flt [''write'']")
        case None
        from Cons.IH [of "at ''next'' flt" s'] obtain n rs where "?P (at ''next'' flt) input s' n rs" by blast
        with False Inr None r answer_line_answers [OF r] show ?thesis
          by (intro exI [of _ "Suc n"] exI [of _ "r # rs"]) (auto split: prod.splits)
      next
        case (Some e)
        then have "flt \<noteq> no_faults" by (auto simp: no_faults_def)
        with Some False Inr r show ?thesis by (intro exI [of _ 0] exI [of _ "[]"]) simp
      qed
    qed
  qed
qed

lemma serve_acts:
  assumes "mc_client M = kernel_client K Q"
    and "(case fetch_proc_tools M key (k, n) of (s', tools) \<Rightarrow> mcp_loop M flt key (unwrap_or tools []) input s') = ((k', n'), outs, r)"
  shows "\<exists>es. list_all (bridge_event (with_session M key)) es \<and>
    k' = foldl (kernel_exec K S) k (zip (map Q [n ..< n']) es) \<and> n' = n + length es"
proof -
  have "acts K S Q (bridge_event (with_session M key))
      (\<lambda>s. case fetch_proc_tools M key s of (s', tools) \<Rightarrow> mcp_loop M flt key (unwrap_or tools []) input s')"
    by (intro acts_then acts_fetch acts_loop assms(1))
  from this [unfolded acts_def, rule_format, of k n] assms(2) show ?thesis by auto
qed

section \<open>Properties\<close>

text \<open>
  C13: The bridge answers every line that is not blank, once and in the order of the lines, with
  the id of its request and with either a result or an error, also when the line is no request, the
  method is unknown or the kernel fails; an answer is missing only after a write to standard
  output has failed, and the bridge ends well exactly when standard input can be read to its end.\<close>

theorem every_line_answered:
  "\<exists>n rs. fst (snd (mcp_loop M flt key tools input s)) =
       map (\<lambda>r. to_str (mc_codec M) (response_json r) @ [CHR 0x0A]) rs \<and>
     list_all2 (answers (mc_codec M)) (take n (line_texts input)) rs \<and>
     (flt = no_faults \<longrightarrow> n = length (line_texts input) \<and>
        (snd (snd (mcp_loop M flt key tools input s)) = Inr () \<longleftrightarrow> list_all is_ok input))"
  by (rule loop_answers)

text \<open>A bridge to the kernel of the demonstrations, with a blank line and one that is no request.\<close>

definition demo_mcp :: "(((nat \<times> string list) list, unit, unit, unit) kernel \<times> nat) mcp" where
  "demo_mcp = kernel_mcp demo_config demo_env note_codec (\<lambda>_. True)"

definition demo_input :: "(string + string) list" where
  "demo_input = [Inr '' '', Inr ''h'']"

lemma demo_line_texts: "line_texts demo_input = [''h'']"
proof -
  have "trim ''h'' = ''h''" "trim '' '' = []"
    by (simp_all add: trim_def trim_white.simps [of _ "_ # _"] trim_white.simps [of _ "[]"] white_def upt_rec)
  then show ?thesis by (simp add: demo_input_def)
qed

theorem every_line_answered_witness:
  "length (fst (snd (mcp_loop demo_mcp no_faults None [] demo_input (demo_kernel, 0)))) = 1 \<and>
   snd (snd (mcp_loop demo_mcp no_faults None [] demo_input (demo_kernel, 0))) = Inr ()"
proof -
  have "list_all is_ok demo_input" by (simp add: demo_input_def)
  then show ?thesis
    using every_line_answered [of demo_mcp no_faults None "[]" demo_input "(demo_kernel, 0)"]
    by (auto simp: demo_line_texts dest!: list_all2_lengthD)
qed

lemma kernel_run_Cons:
  "foldl (kernel_exec K S) (kernel_exec K S k (Q n, e)) (zip (map Q [Suc n ..< Suc n + length es]) es) =
   foldl (kernel_exec K S) k (zip (map Q [n ..< Suc n + length es]) (e # es))"
proof -
  have "[n ..< Suc n + length es] = n # [Suc n ..< Suc n + length es]" by (simp add: upt_rec)
  then show ?thesis by (simp only: list.map zip_Cons_Cons foldl_Cons)
qed

text \<open>
  C8: All the bridge ever does to the kernel is a sequence of requests: with a token first the
  handshake, and then only reads, writes, patches, commands and calls that all carry the key this
  handshake gave (where the transport takes that key as a header), whatever arrives on standard
  input and whatever fails. After a refused handshake it does and writes nothing more; without a
  token it makes no handshake and its requests carry no key.\<close>

theorem bridge_is_requests:
  fixes K :: "('f, 'g, 'd, 'v, 't, 's) config"
  assumes "mcp_main (kernel_mcp K Q c ok) flt token input (k, n) = ((k', n'), outs, r)"
  shows "\<exists>es. n' = n + length es \<and> k' = foldl (kernel_exec K S) k (zip (map Q [n ..< n']) es) \<and>
    (token = [] \<longrightarrow> list_all (bridge_event None) es) \<and>
    (token \<noteq> [] \<longrightarrow> es \<noteq> [] \<and> hd es = OnHandshake token \<and>
      (case snd (grpc_handshake K (Q n) token k) of
         Inr (Inr key) \<Rightarrow> list_all (bridge_event (if ok key then Some key else None)) (tl es)
       | _ \<Rightarrow> tl es = [] \<and> outs = [] \<and> \<not> is_ok r))"
proof (cases "token = []")
  case True
  with assms have "(case fetch_proc_tools (kernel_mcp K Q c ok) None (k, n) of (s', tools) \<Rightarrow>
      mcp_loop (kernel_mcp K Q c ok) flt None (unwrap_or tools []) input s') = ((k', n'), outs, r)"
    by (simp add: mcp_main_def mcp_session_def ret_def)
  from serve_acts [OF kernel_mcp_client this, of S] True show ?thesis by (auto simp: with_session_def)
next
  case False
  obtain k1 q where hs: "grpc_handshake K (Q n) token k = (k1, q)" by fastforce
  have k1: "k1 = kernel_exec K S k (Q n, OnHandshake token)" using hs by simp
  note main = assms [unfolded mcp_main_def mcp_session_def]
  show ?thesis
  proof (cases "\<exists>key. q = Inr (Inr key)")
    case True
    then obtain key where q: "q = Inr (Inr key)" by blast
    have h: "with_session (kernel_mcp K Q c ok) (Some key) = (if ok key then Some key else None)"
      by (simp add: with_session_def kernel_mcp_def)
    have "(case fetch_proc_tools (kernel_mcp K Q c ok) (Some key) (k1, Suc n) of (s', tools) \<Rightarrow>
        mcp_loop (kernel_mcp K Q c ok) flt (Some key) (unwrap_or tools []) input s') = ((k', n'), outs, r)"
      using main False by (simp add: andthen_def ret_def kernel_client_def served_by_def hs q handshake_reply_def)
    from serve_acts [OF kernel_mcp_client this, of S] obtain es where
      es: "list_all (bridge_event (if ok key then Some key else None)) es"
        "k' = foldl (kernel_exec K S) k1 (zip (map Q [Suc n ..< n']) es)" "n' = Suc n + length es"
      unfolding h by blast
    have "k' = foldl (kernel_exec K S) k (zip (map Q [n ..< n']) (OnHandshake token # es))"
      unfolding es(2,3) k1 by (rule kernel_run_Cons)
    with es(1,3) False q hs show ?thesis by (intro exI [of _ "OnHandshake token # es"]) simp
  next
    case refused: False
    then have "k' = k1 \<and> n' = Suc n \<and> outs = [] \<and> \<not> is_ok r"
      using main False
      by (auto simp: andthen_def ret_def fail_def kernel_client_def served_by_def hs handshake_reply_def
          split: sum.splits)
    with False hs refused k1 show ?thesis
      by (intro exI [of _ "[OnHandshake token]"]) (auto split: sum.splits)
  qed
qed

definition demo_token_kernel :: "((nat \<times> string list) list, unit, unit, unit) kernel" where
  "demo_token_kernel = demo_kernel\<lparr>kn_tokens := token_register ''token'' ''me'' [] User registry_new\<rparr>"

theorem bridge_is_requests_witness:
  "\<exists>es. fst (fst (mcp_main demo_mcp no_faults ''token'' demo_input (demo_token_kernel, 0))) =
      foldl (kernel_exec demo_config demo_schedule) demo_token_kernel (zip (map demo_env [0 ..< length es]) es) \<and>
    hd es = OnHandshake ''token'' \<and> list_all (bridge_event (Some (session_key 1))) (tl es)"
proof -
  obtain k' n' outs r where run: "mcp_main demo_mcp no_faults ''token'' demo_input (demo_token_kernel, 0) = ((k', n'), outs, r)"
    using prod.exhaust by metis
  have "snd (grpc_handshake demo_config (demo_env 0) ''token'' demo_token_kernel) = Inr (Inr (session_key 1))"
    by (simp add: grpc_handshake_def token_consume_def token_register_def demo_token_kernel_def registry_new_def
        andthen_def ret_def Let_def)
  then show ?thesis
    using bridge_is_requests [OF run [unfolded demo_mcp_def], of demo_schedule] run
    by (auto simp: demo_mcp_def)
qed

end
