(* ===== verification/Logos_Discovery.thy ===== *)
theory Logos_Discovery
  imports Logos_Mcp
begin

text \<open>
  What the bridge finds when it asks the kernel for its tools (\<open>fetch_proc_tools\<close> of
  \<open>logos-mcp/src/main.rs\<close> against \<open>proc.rs\<close> behind \<open>grpc.rs\<close> and the routing table): the tools that
  are registered, as they are.
\<close>

section \<open>Tables of tools\<close>

definition plain :: "json \<Rightarrow> bool" where
  "plain v \<longleftrightarrow> wf_json v \<and> float_free v"

lemma plain_jobj: "(\<And>kv. kv \<in> set kvs \<Longrightarrow> plain (snd kv)) \<Longrightarrow> plain (jobj kvs)"
  by (simp add: plain_def float_free_jobj)

lemma plain_simps [simp]:
  "plain (JStr s)" "plain (JBool b)" "plain JNull" "plain (JArr vs) \<longleftrightarrow> (\<forall>v \<in> set vs. plain v)"
  "plain (JInt i) \<longleftrightarrow> - (2 ^ 63) \<le> i \<and> i < 2 ^ 64"
  by (auto simp: plain_def)

lemma plain_prop: "(\<And>kv. kv \<in> set extra \<Longrightarrow> plain (snd kv)) \<Longrightarrow> plain (prop_of ty extra)"
  unfolding prop_of_def by (rule plain_jobj) auto

lemma plain_described [simp]: "plain (described ty d)"
  unfolding described_def by (rule plain_prop) auto

lemma plain_schema:
  assumes "\<And>kv. kv \<in> set props \<Longrightarrow> plain (snd kv)"
  shows "plain (tool_schema n d props required)"
proof -
  have "plain v" if "(k, v) \<in> set props" for k v
    using assms [OF that] by simp
  then show ?thesis
    unfolding tool_schema_def by (intro plain_jobj) (auto intro!: plain_jobj split: option.splits)
qed

lemma builtin_schemas:
  "plain (pt_schema (memory_search_tool B w))" "plain (pt_schema (memory_range_fetch_tool B w))"
  "plain (pt_schema (search_tasks_tool B w))" "plain (pt_schema (get_context_tool B w))"
  "plain (pt_schema (complete_tool B w))" "plain (pt_schema (web_search_tool B))" "plain (pt_schema (browse_tool B))"
  unfolding memory_search_tool_def memory_range_fetch_tool_def memory_tool_def search_tasks_tool_def
    get_context_tool_def complete_tool_def web_search_tool_def browse_tool_def proc_tool.select_convs
  by (rule plain_schema; auto intro!: plain_prop plain_jobj)+

lemma builtin_schema_world:
  "pt_schema (memory_search_tool B w) = pt_schema (memory_search_tool B w')"
  "pt_schema (memory_range_fetch_tool B w) = pt_schema (memory_range_fetch_tool B w')"
  "pt_schema (search_tasks_tool B w) = pt_schema (search_tasks_tool B w')"
  "pt_schema (get_context_tool B w) = pt_schema (get_context_tool B w')"
  "pt_schema (complete_tool B w) = pt_schema (complete_tool B w')"
  by (simp_all only: memory_search_tool_def memory_range_fetch_tool_def memory_tool_def search_tasks_tool_def
      get_context_tool_def complete_tool_def proc_tool.select_convs)

lemma builtin_names_more:
  "pt_name (memory_search_tool B w) = ''memory.search''" "pt_name (memory_range_fetch_tool B w) = ''memory.range_fetch''"
  "pt_name (search_tasks_tool B w) = ''system.search_tasks''" "pt_name (get_context_tool B w) = ''system.get_context''"
  by (simp_all only: memory_search_tool_def memory_range_fetch_tool_def memory_tool_def search_tasks_tool_def
      get_context_tool_def proc_tool.select_convs)

lemma fold_register_cases:
  "fold proc_register tools ts n = Some t \<Longrightarrow> t \<in> set tools \<and> pt_name t = n \<or> ts n = Some t"
  by (induction tools arbitrary: ts) (fastforce simp: proc_register_def split: if_splits)+

lemma dom_fold_register: "dom (fold proc_register tools ts) = pt_name ` set tools \<union> dom ts"
  by (induction tools arbitrary: ts) (auto simp: proc_register_def)

lemma fold_register_schemas:
  assumes "list_all2 (\<lambda>a b. pt_name a = pt_name b \<and> pt_schema a = pt_schema b) as bs"
    and "\<And>n. map_option pt_schema (ts n) = map_option pt_schema (us n)"
  shows "map_option pt_schema (fold proc_register as ts n) = map_option pt_schema (fold proc_register bs us n)"
  using assms by (induction arbitrary: ts us rule: list_all2_induct) (simp_all add: proc_register_def)

lemma kernel_tools_schema:
  "map_option pt_schema (kernel_tools K q n) = map_option pt_schema (kernel_tools K q' n)"
  unfolding kernel_tools_def tool_table_def
proof (rule fold_register_schemas)
  show "list_all2 (\<lambda>a b. pt_name a = pt_name b \<and> pt_schema a = pt_schema b)
      (builtin_tools (cf_libs K) (at_w ''tool'' (rq_world q)) (cf_browser K) @ map on_core (cf_external K))
      (builtin_tools (cf_libs K) (at_w ''tool'' (rq_world q')) (cf_browser K) @ map on_core (cf_external K))"
    by (intro list_all2_appendI)
      (simp_all add: builtin_tools_def builtin_names_more list_all2_same
        builtin_schema_world [of "cf_libs K" "at_w ''tool'' (rq_world q)" "at_w ''tool'' (rq_world q')"])
qed simp

definition readable :: "'t proc_tool \<Rightarrow> bool" where
  "readable t \<longleftrightarrow> seg_ok (pt_name t) \<and> plain (pt_schema t)"

lemma kernel_tools_readable:
  assumes "\<forall>t \<in> set (cf_external K). readable t" and "kernel_tools K q n = Some t"
  shows "readable t \<and> pt_name t = n"
proof -
  let ?tools = "builtin_tools (cf_libs K) (at_w ''tool'' (rq_world q)) (cf_browser K) @ map on_core (cf_external K)"
  have "\<forall>t \<in> set ?tools. readable t"
    using assms(1)
    by (auto simp: builtin_tools_def readable_def builtin_names_more builtin_schemas on_core_def seg_ok_def)
  moreover have "t \<in> set ?tools \<and> pt_name t = n"
    using fold_register_cases [of ?tools proc_new n t] assms(2)
    by (simp add: kernel_tools_def tool_table_def proc_new_def)
  ultimately show ?thesis by blast
qed

lemma finite_kernel_tools: "finite (dom (kernel_tools K q))"
  by (simp add: kernel_tools_def tool_table_def dom_fold_register proc_new_def)

section \<open>Reading \<open>proc\<close>\<close>

lemma check_access_read:
  "strip_prefix ''logos://sandbox/'' uri = None \<Longrightarrow> check_access L w info uri False db = (db, Inr ())"
  by (simp add: check_access_def andthen_def ret_def split: option.splits)

lemma kernel_table_proc:
  "rt_namespaces (kernel_table K q) ''proc'' =
     Some (on_part proc_lens (proc_namespace (lb_codec (cf_libs K)) (lb_order (cf_libs K)) (kernel_tools K q) (rq_instants q)))"
  unfolding kernel_table_namespaces boot_namespaces_def Let_def
  by (simp add: on_part_def users_namespace_def memory_namespace_def system_namespace_def tmp_namespace_def
      store_namespace_def proc_store_dir_def proc_namespace_def)

lemma table_read_kernel:
  assumes "uri_parse uri = Inr u" and "rt_namespaces (kernel_table K q) (uri_namespace u) = Some ns"
  shows "table_read (kernel_table K q) uri k = ns_read ns (uri_path u) k"
  using assms
  by (simp add: table_read_def dispatch_def json_validator_def vfs_middleware_def after_all_def table_resolve_def
      andthen_def attempt_def ret_def lift_result_def split: prod.splits)

text \<open>A read below \<open>proc\<close> is let through for every session and reaches the tool table.\<close>

lemma grpc_read_proc:
  assumes "\<forall>x \<in> set ws. seg_ok x"
    and "proc_read (lb_codec (cf_libs K)) (lb_order (cf_libs K)) (kernel_tools K q) ws (kn_proc k) = (kn_proc k, Inr s)"
    and "uri = uri_render \<lparr>uri_namespace = ''proc'', uri_path = ws\<rparr> \<or> uri = ''logos://proc/'' \<and> ws = []"
  shows "grpc_read K q h uri k = (k, Inr s)"
proof -
  have proc: "seg_ok ''proc''" by (simp add: seg_ok_def)
  have parse: "uri_parse uri = Inr \<lparr>uri_namespace = ''proc'', uri_path = ws\<rparr>"
  proof (cases "uri = uri_render \<lparr>uri_namespace = ''proc'', uri_path = ws\<rparr>")
    case True
    with assms(1) proc uri_parse_render show ?thesis by simp
  next
    case False
    with assms(3) have "uri = ''logos://'' @ ''proc/''" "ws = []" by auto
    then show ?thesis
      using uri_parse_logos [of "''proc/''"] by (simp add: uri_segments_def)
  qed
  have logos: "\<exists>r. uri = ''logos://proc'' @ r"
    using assms(3) by (cases ws) (auto simp: uri_render_def)
  then have "resolve_uri uri info = uri" "strip_prefix ''logos://sandbox/'' uri = None" for info
    by (auto simp: resolve_uri_def starts_with_def)
  note facts = this check_access_read [OF this(2)]
  have "zoom proc_lens (proc_read (lb_codec (cf_libs K)) (lb_order (cf_libs K)) (kernel_tools K q) ws) k = (k, Inr s)"
    by (intro zoom_still kernel_lenses(1)) (simp add: proc_lens_def assms(2))
  then have "table_read (kernel_table K q) uri k = (k, Inr s)"
    using table_read_kernel [OF parse, of K q] kernel_table_proc [of K q]
    by (simp add: on_part_def proc_namespace_def)
  moreover have "zoom system_lens (check_access (lb_sys (cf_libs K)) (at_w ''access'' (rq_world q)) info uri False) k = (k, Inr ())" for info
    by (rule zoom_still [OF kernel_lenses(5)]) (rule facts)
  ultimately show ?thesis
    by (simp add: grpc_read_def with_info_def guarded_def andthen_def to_status_def facts(1))
qed

lemma served_read:
  assumes "grpc_read K (Q n) h uri k = (k, Inr s)"
  shows "cl_read (kernel_client K Q) h uri (k, n) = ((k, Suc n), Inr s)"
  using assms by (simp add: kernel_client_def served_by_def)

text \<open>What the bridge knows of a tool is what its schema says.\<close>

definition found_as :: "json option \<Rightarrow> proc_tool_def \<Rightarrow> bool" where
  "found_as schema d \<longleftrightarrow> (\<exists>v. schema = Some v \<and> pd_description d = str_field v ''description'' [] \<and>
     pd_input_schema d = jget v ''parameters'')"

lemma read_tool_schema:
  assumes "codec_ok (lb_codec (cf_libs K))" and "\<forall>t \<in> set (cf_external K). readable t"
    and "kernel_tools K q name = Some tool"
  shows "grpc_read K q h (''logos://proc/'' @ name @ ''/.schema'') k = (k, Inr (to_str (lb_codec (cf_libs K)) (pt_schema tool)))"
    and "from_str (lb_codec (cf_libs K)) (to_str (lb_codec (cf_libs K)) (pt_schema tool)) = Inr (pt_schema tool)"
    and "name \<noteq> []"
proof -
  have r: "readable tool" "pt_name tool = name" using kernel_tools_readable [OF assms(2,3)] by simp_all
  show "name \<noteq> []" using r by (auto simp: readable_def seg_ok_def)
  show "from_str (lb_codec (cf_libs K)) (to_str (lb_codec (cf_libs K)) (pt_schema tool)) = Inr (pt_schema tool)"
    using r codec_okD(1) [OF assms(1)] by (simp add: readable_def plain_def)
  show "grpc_read K q h (''logos://proc/'' @ name @ ''/.schema'') k = (k, Inr (to_str (lb_codec (cf_libs K)) (pt_schema tool)))"
  proof (rule grpc_read_proc [where ws = "[name, ''.schema'']"])
    show "\<forall>x \<in> set [name, ''.schema'']. seg_ok x" using r by (auto simp: readable_def seg_ok_def)
    show "proc_read (lb_codec (cf_libs K)) (lb_order (cf_libs K)) (kernel_tools K q) [name, ''.schema''] (kn_proc k) =
        (kn_proc k, Inr (to_str (lb_codec (cf_libs K)) (pt_schema tool)))"
      by (simp add: proc_read_def read_schema_def assms(3) ret_def)
    show "''logos://proc/'' @ name @ ''/.schema'' = uri_render \<lparr>uri_namespace = ''proc'', uri_path = [name, ''.schema'']\<rparr> \<or>
        ''logos://proc/'' @ name @ ''/.schema'' = ''logos://proc/'' \<and> [name, ''.schema''] = []"
      by (simp add: uri_render_def)
  qed
qed

lemma fetch_schemas_found:
  fixes K :: "('f, 'g, 'd, 'v, 't, 's) config"
  assumes "codec_ok (lb_codec (cf_libs K))" and "\<forall>t \<in> set (cf_external K). readable t"
    and "\<forall>x \<in> set names. kernel_tools K q x \<noteq> None"
  shows "\<exists>n' tools. fetch_schemas (kernel_mcp K Q (lb_codec (cf_libs K)) ok) key names (k, n) = ((k, n'), Inr tools) \<and>
    map pd_name tools = names \<and> (\<forall>d \<in> set tools. found_as (map_option pt_schema (kernel_tools K q (pd_name d))) d)"
  using assms(3)
proof (induction names arbitrary: n)
  case Nil
  then show ?case by (simp add: ret_def)
next
  case (Cons name names)
  let ?M = "kernel_mcp K Q (lb_codec (cf_libs K)) ok"
  from Cons.prems kernel_tools_schema [of K q name "Q n"] obtain tool where
    tool: "kernel_tools K (Q n) name = Some tool" "map_option pt_schema (kernel_tools K q name) = Some (pt_schema tool)"
    by (cases "kernel_tools K (Q n) name") auto
  note schema = read_tool_schema [OF assms(1,2) tool(1)]
  from Cons obtain n' tools where
    rest: "fetch_schemas ?M key names (k, Suc n) = ((k, n'), Inr tools)" "map pd_name tools = names"
      "\<forall>d \<in> set tools. found_as (map_option pt_schema (kernel_tools K q (pd_name d))) d" by fastforce
  let ?d = "\<lparr>pd_name = name, pd_description = str_field (pt_schema tool) ''description'' [],
    pd_input_schema = jget (pt_schema tool) ''parameters''\<rparr>"
  have "fetch_schemas ?M key (name # names) (k, n) = ((k, n'), Inr (?d # tools))"
    using served_read [where K = K and Q = Q and n = n and h = "with_session ?M key" and k = k, OF schema(1)] schema(2,3) rest(1)
    by (simp add: attempt_def andthen_def ret_def kernel_mcp_def)
  moreover have "found_as (map_option pt_schema (kernel_tools K q name)) ?d"
    by (simp add: found_as_def tool(2))
  ultimately show ?case using rest(2,3) by (intro exI [of _ n'] exI [of _ "?d # tools"]) simp
qed

lemma as_strings_map [simp]: "as_strings (map JStr names) = Some names"
  by (induction names) simp_all

section \<open>Properties\<close>

text \<open>
  C15: Discovery finds exactly the tools that are registered: with any session or none, whatever
  the state of the kernel, the bridge gets every tool of the table once, under its name and with the
  description and the parameters of its schema, and the kernel is as it was. (The schemas of the external
  tools must read back as they were printed: no floats in them.)\<close>

theorem bridge_discovers_tools:
  fixes K :: "('f, 'g, 'd, 'v, 't, 's) config"
  assumes "codec_ok (lb_codec (cf_libs K))" and "enumerates (lb_order (cf_libs K))"
    and "\<forall>t \<in> set (cf_external K). readable t"
  shows "\<exists>n' tools. fetch_proc_tools (kernel_mcp K Q (lb_codec (cf_libs K)) ok) key (k, n) = ((k, n'), Inr tools) \<and>
    distinct (map pd_name tools) \<and> set (map pd_name tools) = dom (kernel_tools K (Q n)) \<and>
    (\<forall>d \<in> set tools. found_as (map_option pt_schema (kernel_tools K (Q n) (pd_name d))) d)"
proof -
  let ?c = "lb_codec (cf_libs K)" and ?names = "map_keys (lb_order (cf_libs K)) (kernel_tools K (Q n))"
  let ?M = "kernel_mcp K Q ?c ok"
  have names: "set ?names = dom (kernel_tools K (Q n))" "distinct ?names"
    using set_map_keys [OF assms(2) finite_kernel_tools] distinct_map_keys [OF assms(2) finite_kernel_tools] by blast+
  have "grpc_read K (Q n) (with_session ?M key) ''logos://proc/'' k = (k, Inr (json_names ?c ?names))"
    by (rule grpc_read_proc [where ws = "[]"]) (simp_all add: proc_read_def ret_def)
  note list = served_read [where K = K and Q = Q and n = n, OF this]
  have "from_str ?c (json_names ?c ?names) = Inr (JArr (map JStr ?names))"
    unfolding json_names_def by (rule codec_okD(1) [OF assms(1)]) auto
  then have parse: "string_list_from_str ?c (json_names ?c ?names) = Inr ?names"
    by (simp add: string_list_from_str_def)
  have "\<forall>x \<in> set ?names. kernel_tools K (Q n) x \<noteq> None" unfolding names(1) by auto
  from fetch_schemas_found [OF assms(1,3) this, of Q ok key k "Suc n"] obtain n' tools where
    "fetch_schemas ?M key ?names (k, Suc n) = ((k, n'), Inr tools)" "map pd_name tools = ?names"
    "\<forall>d \<in> set tools. found_as (map_option pt_schema (kernel_tools K (Q n) (pd_name d))) d" by blast
  with list parse names show ?thesis
    by (intro exI [of _ n'] exI [of _ tools]) (simp add: fetch_proc_tools_def andthen_def lift_result_def kernel_mcp_def)
qed

theorem bridge_discovers_tools_witness:
  "\<exists>n' tools. fetch_proc_tools demo_mcp None (demo_kernel, 0) = ((demo_kernel, n'), Inr tools) \<and>
     ''system.complete'' \<in> set (map pd_name tools)"
proof -
  have "kernel_tools demo_config (demo_env 0) ''system.complete'' \<noteq> None"
    using complete_registered [of demo_config] by simp
  then show ?thesis
    using bridge_discovers_tools [of demo_config demo_env "\<lambda>_. True" None demo_kernel 0]
    by (auto simp: demo_mcp_def note_codec_ok enumerates_sorted_list)
qed

end
