(* ===== verification/Logos_Store.thy ===== *)
theory Logos_Store
  imports Logos_Session Logos_Web
begin

text \<open>
  How the session store on disk comes up (\<open>logos-session/src/lib.rs\<close>): \<open>L2Store::new\<close> with the two
  tables and their schemas, the embedding of a text by Ollama, and \<open>SessionStore::with_lancedb\<close>. The
  database driver is a parameter, and so are the answers of the embedding server.
\<close>

section \<open>Schemas\<close>

datatype data_type = Utf8 | Float32 | FixedSizeList field int
  and field = Field string data_type bool

fun field_name :: "field \<Rightarrow> string" where
  "field_name (Field n t nullable) = n"

definition sessions_schema :: "int \<Rightarrow> field list" where
  "sessions_schema embed_dim =
     [Field ''session_id'' Utf8 False, Field ''chat_id'' Utf8 False, Field ''data'' Utf8 False,
      Field ''last_active'' Utf8 False, Field ''text_for_embed'' Utf8 False,
      Field ''vector'' (FixedSizeList (Field ''item'' Float32 True) embed_dim) True]"

definition msg_index_schema :: "field list" where
  "msg_index_schema = [Field ''msg_id'' Utf8 False, Field ''session_id'' Utf8 False]"

text \<open>
  What the driver answers when a directory is opened as a database, and how its tables are made.
\<close>

record 'd lance_dir =
  ld_connect :: "string \<Rightarrow> 'd \<Rightarrow> string + unit"
  ld_table_names :: "'d \<Rightarrow> string + string list"
  ld_create_empty :: "string \<Rightarrow> field list \<Rightarrow> 'd \<Rightarrow> string + 'd"

definition create_table :: "'d lance_dir \<Rightarrow> string list \<Rightarrow> string \<Rightarrow> field list \<Rightarrow> ('d, unit) vfs_step" where
  "create_table L table_names name schema d =
     (if name \<in> set table_names then (d, Inr ())
      else case ld_create_empty L name schema d of
        Inl e \<Rightarrow> (d, Inl (Io (''create '' @ name @ '' table: '' @ e)))
      | Inr d' \<Rightarrow> (d', Inr ()))"

definition ensure_tables :: "'d lance_dir \<Rightarrow> int \<Rightarrow> ('d, unit) vfs_step" where
  "ensure_tables L embed_dim d =
     (case ld_table_names L d of
        Inl e \<Rightarrow> (d, Inl (Io (''list tables: '' @ e)))
      | Inr table_names \<Rightarrow>
          andthen (create_table L table_names ''sessions'' (sessions_schema embed_dim)) (\<lambda>_.
          create_table L table_names ''msg_index'' msg_index_schema) d)"

section \<open>Embeddings\<close>

text \<open>
  The server's answer to a request, and \<open>as_f64\<close> with the cast to \<open>f32\<close>.
\<close>

record 'v ollama =
  ol_url :: string
  ol_model :: string
  ol_post :: "string \<Rightarrow> json \<Rightarrow> http_error + json"
  ol_f32 :: "json \<Rightarrow> 'v option"
  ol_zero :: 'v

definition l2_embed :: "'v ollama \<Rightarrow> string \<Rightarrow> 'v list vfs_result" where
  "l2_embed M text =
     (case ol_post M (ol_url M @ ''/api/embed'') (jobj [(''model'', JStr (ol_model M)), (''input'', JStr text)]) of
        Inl (SendError e) \<Rightarrow> Inl (Io (''ollama request: '' @ e))
      | Inl (BodyError e) \<Rightarrow> Inl (Io (''ollama response: '' @ e))
      | Inr body \<Rightarrow>
          (case Option.bind (Option.bind (as_array (jget body ''embeddings'')) (\<lambda>xs. get_at xs 0)) as_array of
             None \<Rightarrow> Inl (Io ''ollama: no embeddings in response'')
           | Some vs \<Rightarrow> Inr (map (\<lambda>v. opt_or (ol_f32 M v) (ol_zero M)) vs)))"

section \<open>Opening the store\<close>

text \<open>The dimension is an \<open>i32\<close>, compared as a \<open>usize\<close>.\<close>

definition l2_new ::
  "'d lance_dir \<Rightarrow> ('d, 'v) lance \<Rightarrow> string \<Rightarrow> 'v ollama \<Rightarrow> int \<Rightarrow> ('d, ('d, 'v) lance) vfs_step" where
  "l2_new L D db_path M embed_dim =
     andthen (\<lambda>d. (d, map_err (\<lambda>e. Io (''lancedb connect: '' @ e)) (ld_connect L db_path d))) (\<lambda>_.
     andthen (ensure_tables L embed_dim) (\<lambda>_.
     ret (D\<lparr>lc_embed := l2_embed M, lc_dim := nat (embed_dim mod 2 ^ 64)\<rparr>)))"

text \<open>On a state with the files and the database as its parts.\<close>

definition with_lancedb ::
  "('s, tree) lens \<Rightarrow> ('s, 'd) lens \<Rightarrow> faults \<Rightarrow> 'd lance_dir \<Rightarrow> ('d, 'v) lance \<Rightarrow> fpath \<Rightarrow> 'v ollama \<Rightarrow> int \<Rightarrow>
   ('s, ('d, 'v) lance) vfs_step" where
  "with_lancedb T S flt L D db_path M embed_dim =
     andthen (case path_parent db_path of
         Some parent \<Rightarrow> zoom T (io flt ''create dir'' (io_err ''create dir'') (create_dir_all parent))
       | None \<Rightarrow> ret ()) (\<lambda>_.
     zoom S (l2_new L D (path_display db_path) M embed_dim))"

section \<open>Properties\<close>

text \<open>The documented behaviour of the driver, on the schemas of the tables a database has.\<close>

definition dir_obeys :: "'d lance_dir \<Rightarrow> ('d \<Rightarrow> string \<rightharpoonup> field list) \<Rightarrow> bool" where
  "dir_obeys L cat \<longleftrightarrow>
     (\<forall>d names. ld_table_names L d = Inr names \<longrightarrow> set names = dom (cat d)) \<and>
     (\<forall>n sch d d'. ld_create_empty L n sch d = Inr d' \<longrightarrow> cat d' = (cat d)(n \<mapsto> sch))"

lemma map_under:
  "m n \<noteq> None \<Longrightarrow> [n \<mapsto> x] ++ m = m" "m n = None \<Longrightarrow> [n \<mapsto> x] ++ m = m(n \<mapsto> x)"
  by (auto simp: map_add_def fun_eq_iff split: option.splits)

lemma create_table_ok:
  assumes "dir_obeys L cat" and "create_table L names n sch d = (d', Inr ())"
    and "n \<in> set names \<longleftrightarrow> cat d n \<noteq> None"
  shows "cat d' = [n \<mapsto> sch] ++ cat d"
proof (cases "cat d n = None")
  case True
  with assms(2,3) have "ld_create_empty L n sch d = Inr d'" by (simp add: create_table_def split: sum.splits)
  with assms(1) have "cat d' = (cat d)(n \<mapsto> sch)" unfolding dir_obeys_def by blast
  with True show ?thesis by (simp add: map_under(2))
next
  case False
  with assms(2,3) have "d' = d" by (simp add: create_table_def)
  with False show ?thesis by (simp add: map_under(1))
qed

lemma create_two_tables:
  assumes L: "dir_obeys L cat" and names: "ld_table_names L d = Inr names" and "x \<noteq> y"
    and run: "andthen (create_table L names x X) (\<lambda>_. create_table L names y Y) d = (d', Inr ())"
  shows "cat d' = [x \<mapsto> X, y \<mapsto> Y] ++ cat d"
proof -
  have there: "n \<in> set names \<longleftrightarrow> cat d n \<noteq> None" for n
    using L names unfolding dir_obeys_def by (metis domIff)
  obtain d1 r1 where "create_table L names x X d = (d1, r1)" by fastforce
  with run have d1: "create_table L names x X d = (d1, Inr ())" and d': "create_table L names y Y d1 = (d', Inr ())"
    by (cases r1; simp add: andthen_def)+
  have c: "cat d1 = [x \<mapsto> X] ++ cat d" by (rule create_table_ok [OF L d1 there])
  have "y \<in> set names \<longleftrightarrow> cat d1 y \<noteq> None" using \<open>x \<noteq> y\<close> by (simp add: c there map_add_def split: option.splits)
  from create_table_ok [OF L d' this] have "cat d' = ([y \<mapsto> Y] ++ [x \<mapsto> X]) ++ cat d" by (simp only: c map_add_assoc)
  also have "[y \<mapsto> Y] ++ [x \<mapsto> X] = [x \<mapsto> X, y \<mapsto> Y]" using \<open>x \<noteq> y\<close> by (simp add: fun_upd_twist)
  finally show ?thesis .
qed

lemma ensure_tables_ok:
  assumes "dir_obeys L cat" and "ensure_tables L k d = (d', Inr ())"
  shows "cat d' = [''sessions'' \<mapsto> sessions_schema k, ''msg_index'' \<mapsto> msg_index_schema] ++ cat d"
proof (cases "ld_table_names L d")
  case (Inr names)
  with assms(2) show ?thesis by (intro create_two_tables [OF assms(1) Inr]) (simp_all add: ensure_tables_def)
qed (use assms(2) in \<open>simp add: ensure_tables_def\<close>)

lemma l2_new_ok:
  assumes "l2_new L D p M k d = (d', Inr E)"
  shows "ensure_tables L k d = (d', Inr ())" "E = D\<lparr>lc_embed := l2_embed M, lc_dim := nat (k mod 2 ^ 64)\<rparr>"
  using assms by (auto simp: l2_new_def andthen_def ret_def map_err_def split: sum.splits prod.splits)

text \<open>
  Opening the store makes the tables that are missing and keeps those that are there with the
  schema they have. So a store opened again with another dimension expects vectors of that
  dimension, over a table of vectors of the first.
\<close>

theorem store_keeps_first_schema:
  assumes "dir_obeys L cat" and "l2_new L D p M k d = (d1, Inr E1)" and "l2_new L D p M' k' d1 = (d2, Inr E2)"
  shows "cat d1 = [''sessions'' \<mapsto> sessions_schema k, ''msg_index'' \<mapsto> msg_index_schema] ++ cat d \<and>
    cat d2 = cat d1 \<and> (0 \<le> k' \<and> k' < 2 ^ 31 \<longrightarrow> lc_dim E2 = nat k')"
proof -
  note a = ensure_tables_ok [OF assms(1) l2_new_ok(1) [OF assms(2)]]
  note b = ensure_tables_ok [OF assms(1) l2_new_ok(1) [OF assms(3)]]
  have "cat d2 = cat d1" unfolding b unfolding a by (auto simp: map_add_def fun_eq_iff split: option.splits)
  with a l2_new_ok(2) [OF assms(3)] show ?thesis by simp
qed

text \<open>A database that is the list of its tables, and a server that embeds every text as one zero.\<close>

type_synonym demo_db_dir = "(string \<times> field list) list"

definition demo_dir :: "demo_db_dir lance_dir" where
  "demo_dir = \<lparr>ld_connect = (\<lambda>_ _. Inr ()), ld_table_names = (\<lambda>d. Inr (map fst d)),
     ld_create_empty = (\<lambda>n sch d. Inr ((n, sch) # d))\<rparr>"

definition demo_lance :: "(demo_db_dir, nat) lance" where
  "demo_lance = \<lparr>lc_open = (\<lambda>_ _. Inr ()), lc_delete = (\<lambda>_ _ d. Inr d), lc_select = (\<lambda>_ _ _. Inr (Inr [])),
     lc_nearest = (\<lambda>_ _ _ _. Inr (Inr (Inr []))), lc_batch = (\<lambda>_ _. Inr ()), lc_add = (\<lambda>_ _ d. Inr d),
     lc_embed = (\<lambda>_. Inr []), lc_ser = (\<lambda>_. Inr ''{}''), lc_deser = (\<lambda>_. Inl ''no''), lc_rfc3339 = (\<lambda>_. ''now''),
     lc_dim = 0\<rparr>"

definition demo_ollama :: "nat ollama" where
  "demo_ollama = \<lparr>ol_url = ''http://localhost:11434'', ol_model = ''m'',
     ol_post = (\<lambda>_ _. Inr (JObj [(''embeddings'', JArr [JArr [JInt 0]])])), ol_f32 = (\<lambda>_. None), ol_zero = 0\<rparr>"

lemma demo_dir_obeys: "dir_obeys demo_dir map_of"
  by (auto simp: dir_obeys_def demo_dir_def dom_map_of_conv_image_fst)

lemma demo_l2_new: "\<exists>d' E. l2_new demo_dir demo_lance p demo_ollama k d = (d', Inr E)"
  by (simp add: l2_new_def ensure_tables_def create_table_def demo_dir_def andthen_def ret_def)

theorem store_keeps_first_schema_witness:
  "\<exists>d1 d2 E1 E2. l2_new demo_dir demo_lance [] demo_ollama 1024 [] = (d1, Inr E1) \<and>
     l2_new demo_dir demo_lance [] demo_ollama 768 d1 = (d2, Inr E2) \<and>
     map_of d2 ''sessions'' = Some (sessions_schema 1024) \<and> lc_dim E2 = 768"
proof -
  obtain d1 E1 where a: "l2_new demo_dir demo_lance [] demo_ollama 1024 [] = (d1, Inr E1)" using demo_l2_new by blast
  obtain d2 E2 where b: "l2_new demo_dir demo_lance [] demo_ollama 768 d1 = (d2, Inr E2)" using demo_l2_new by blast
  from store_keeps_first_schema [OF demo_dir_obeys a b] a b show ?thesis by simp
qed

end
