(* ===== verification/Logos_Containerd.thy ===== *)
theory Logos_Containerd
  imports Logos_Sandbox
begin

text \<open>
  The default executor of \<open>logos-kernel/src/sandbox.rs\<close>, \<open>ContainerdExecutor\<close>: the requests it
  makes of containerd to bring up an agent's container and to run a command in it, and the pipes
  through which it reads what the command writes. The calls of containerd are a parameter, a record
  of steps on a state that holds the files too.
\<close>

section \<open>Requests\<close>

record ctrd_mount =
  mn_type :: string
  mn_source :: string
  mn_options :: "string list"

record snapshot_info =
  sn_name :: string
  sn_kind :: int
  sn_created_at :: "(int \<times> int) option"

record ctrd_container =
  cc_id :: string
  cc_image :: string
  cc_runtime :: string
  cc_spec :: "string \<times> string"
  cc_snapshotter :: string
  cc_snapshot_key :: string

record stdio_paths =
  sp_stdin :: fpath
  sp_stdout :: fpath
  sp_stderr :: fpath

text \<open>
  What reading a pipe gives: it cannot be opened, nobody opens the other end in time, or a
  sequence of chunks, with errors, with gaps of half a second and with the end of the five seconds
  the reader has after the command; the end of the list is the end of the file.
\<close>

datatype fifo_event = Chunk string | ReadError | Quiet | Deadline
datatype fifo = Unopened | Blocked | Readable "fifo_event list"

text \<open>
  The client of containerd, with the file system, the clock, \<open>mkfifo\<close> and the pipes beside it.
\<close>

record 's ctrd =
  cd_tree :: "('s, tree) lens"
  cd_connect :: "string \<Rightarrow> ('s, string, unit) step"
  cd_version :: "string \<Rightarrow> ('s, string, unit) step"
  cd_get_container :: "string \<Rightarrow> ('s, string, unit) step"
  cd_delete_container :: "string \<Rightarrow> ('s, string, unit) step"
  cd_create_container :: "ctrd_container \<Rightarrow> ('s, string, unit) step"
  cd_get_task :: "string \<Rightarrow> ('s, string, unit) step"
  cd_create_task :: "string \<Rightarrow> ctrd_mount list \<Rightarrow> stdio_paths \<Rightarrow> ('s, string, unit) step"
  cd_start :: "string \<Rightarrow> string \<Rightarrow> ('s, string, unit) step"
  cd_exec :: "string \<Rightarrow> string \<Rightarrow> stdio_paths \<Rightarrow> string \<times> string \<Rightarrow> ('s, string, unit) step"
  cd_wait :: "string \<Rightarrow> string \<Rightarrow> ('s, string, 32 word) step"
  cd_kill :: "string \<Rightarrow> nat \<Rightarrow> ('s, string, unit) step"
  cd_delete_task :: "string \<Rightarrow> ('s, string, unit) step"
  cd_get_image :: "string \<Rightarrow> ('s, string, unit) step"
  cd_transfer :: "string \<Rightarrow> string \<Rightarrow> ('s, string, unit) step"
  cd_list_snapshots :: "('s, string, (string + snapshot_info list) list) step"
  cd_mounts :: "string \<Rightarrow> ('s, string, ctrd_mount list) step"
  cd_remove_snapshot :: "string \<Rightarrow> ('s, string, unit) step"
  cd_prepare :: "string \<Rightarrow> string \<Rightarrow> ('s, string, ctrd_mount list) step"
  cd_mkfifo :: "fpath \<Rightarrow> ('s, string, unit) step"
  cd_fifo :: "fpath \<Rightarrow> 's \<Rightarrow> fifo"
  cd_nanos :: "'s \<Rightarrow> int"
  cd_lossy :: "string \<Rightarrow> string"

text \<open>The executor, with the process it runs in: its image, architecture and directories.\<close>

record ctrd_exec =
  ce_image :: string
  ce_arch :: string
  ce_tmp :: fpath
  ce_cwd :: fpath

definition ctrd_call :: "string \<Rightarrow> ('s, string, 'a) step \<Rightarrow> ('s, 'a) vfs_step" where
  "ctrd_call what m s = (case m s of (s', r) \<Rightarrow> (s', map_err (\<lambda>e. Io (what @ '': '' @ e)) r))"

definition on_tree :: "'s ctrd \<Rightarrow> (tree, 'a) vfs_step \<Rightarrow> ('s, 'a) vfs_step" where
  "on_tree D = zoom (cd_tree D)"

section \<open>Connecting\<close>

text \<open>The first socket that is there, connects and answers; the last error goes into the failure.\<close>

fun try_sockets :: "'s ctrd \<Rightarrow> fpath \<Rightarrow> string list \<Rightarrow> string \<Rightarrow> ('s, string, string) step" where
  "try_sockets D cwd [] last_err = fail (''no containerd socket found: '' @ last_err)"
| "try_sockets D cwd (path # paths) last_err =
     (\<lambda>s. if path = [] \<or> \<not> path_exists (path_join cwd path) (lget (cd_tree D) s) then try_sockets D cwd paths last_err s
      else attempt (cd_connect D path) (\<lambda>r.
        case r of
          Inl e \<Rightarrow> try_sockets D cwd paths (''connect '' @ path @ '': '' @ e)
        | Inr _ \<Rightarrow> attempt (cd_version D path) (\<lambda>v.
            case v of
              Inl e \<Rightarrow> try_sockets D cwd paths (''version check failed on '' @ path @ '': '' @ e)
            | Inr _ \<Rightarrow> ret path)) s)"

definition socket_paths :: "string option \<Rightarrow> string option \<Rightarrow> string list" where
  "socket_paths containerd_socket home =
     [opt_or containerd_socket [], opt_or home ''/root'' @ ''/.colima/default/containerd.sock'',
      ''/run/containerd/containerd.sock'']"

definition containerd_try_init ::
  "'s ctrd \<Rightarrow> string option \<Rightarrow> string option \<Rightarrow> ctrd_exec \<Rightarrow> string option \<Rightarrow> ('s, ctrd_exec) vfs_step" where
  "containerd_try_init D containerd_socket home X img s =
     (case try_sockets D (ce_cwd X) (socket_paths containerd_socket home) [] s of
        (s', Inl e) \<Rightarrow> (s', Inl (Io e))
      | (s', Inr _) \<Rightarrow> (s', Inr (X\<lparr>ce_image := opt_or img ''docker.io/library/debian:stable-slim''\<rparr>)))"

section \<open>The runtime specification\<close>

text \<open>Texts with quotation marks, written with backquotes.\<close>

definition qt :: "string \<Rightarrow> string" where
  "qt = map (\<lambda>c. if c = CHR ''`'' then CHR 0x22 else c)"

definition canonical :: "tree \<Rightarrow> fpath \<Rightarrow> fpath" where
  "canonical fs p = (case walk fs [] p of Inl _ \<Rightarrow> p | Inr q \<Rightarrow> if fs q = None then p else q)"

definition spec_mounts :: "string option \<Rightarrow> string list" where
  "spec_mounts sock =
     [qt ''{`destination`:`/proc`,`type`:`proc`,`source`:`proc`}'',
      qt ''{`destination`:`/dev`,`type`:`tmpfs`,`source`:`tmpfs`,`options`:[`nosuid`,`strictatime`,`mode=755`,`size=65536k`]}'']
     @ (case sock of
          None \<Rightarrow> []
        | Some sock_str \<Rightarrow> [qt ''{`destination`:`/logos.sock`,`type`:`bind`,`source`:`'' @ sock_str
            @ qt ''`,`options`:[`rbind`,`rw`]}''])"

definition indented :: "nat \<Rightarrow> string \<Rightarrow> string" where
  "indented n line = replicate n (CHR '' '') @ qt line"

definition make_spec :: "string option \<Rightarrow> string" where
  "make_spec sock = join [CHR 0x0A]
     [''{'',
      indented 12 ''`ociVersion`: `1.0.2`,'',
      indented 12 ''`process`: {'',
      indented 16 ''`terminal`: false,'',
      indented 16 ''`user`: {`uid`: 0, `gid`: 0},'',
      indented 16 ''`args`: [`sleep`, `infinity`],'',
      indented 16 ''`env`: [`PATH=/usr/local/sbin:/usr/local/bin:/usr/sbin:/usr/bin:/sbin:/bin`],'',
      indented 16 ''`cwd`: `/workspace`'',
      indented 12 ''},'',
      indented 12 ''`root`: {`path`: `rootfs`, `readonly`: false},'',
      indented 12 ''`mounts`: ['' @ join '','' (spec_mounts sock) @ ''],'',
      indented 12 ''`linux`: {'',
      indented 16 ''`namespaces`: ['',
      indented 20 ''{`type`: `pid`},'',
      indented 20 ''{`type`: `ipc`},'',
      indented 20 ''{`type`: `uts`},'',
      indented 20 ''{`type`: `mount`}'',
      indented 16 '']'',
      indented 12 ''}'',
      indented 8 ''}'']"

section \<open>Images and snapshots\<close>

text \<open>The image layer made last: committed snapshots named by a digest, compared by their times.\<close>

fun is_newer :: "(string \<times> (int \<times> int) option) option \<Rightarrow> (int \<times> int) option \<Rightarrow> bool" where
  "is_newer None _ = True"
| "is_newer (Some (_, Some (ps, pn))) (Some (s, n)) = (s > ps \<or> s = ps \<and> n > pn)"
| "is_newer (Some (_, None)) (Some _) = True"
| "is_newer (Some _) None = False"

definition is_layer :: "snapshot_info \<Rightarrow> bool" where
  "is_layer i \<longleftrightarrow> sn_kind i = 3 \<and> starts_with (sn_name i) ''sha256:''"

definition best_snapshot :: "snapshot_info list \<Rightarrow> (string \<times> (int \<times> int) option) option" where
  "best_snapshot infos = foldl (\<lambda>best i.
     if is_layer i \<and> is_newer best (sn_created_at i) then Some (sn_name i, sn_created_at i) else best) None infos"

text \<open>What the stream of answers gives up to its end or its first error.\<close>

definition listed :: "(string + snapshot_info list) list \<Rightarrow> snapshot_info list" where
  "listed stream = concat (map (\<lambda>r. unwrap_or r []) (takeWhile is_ok stream))"

definition find_image_snapshot_parent :: "'s ctrd \<Rightarrow> ctrd_exec \<Rightarrow> ('s, string) vfs_step" where
  "find_image_snapshot_parent D X =
     andthen (ctrd_call ''list snapshots'' (cd_list_snapshots D)) (\<lambda>stream.
     lift_result (ok_or
       (map_option fst (best_snapshot (listed stream)))
       (Io (''no committed snapshot found for image '' @ ce_image X @ ''. Is the image unpacked?''))))"

definition ensure_image :: "'s ctrd \<Rightarrow> ctrd_exec \<Rightarrow> ('s, unit) vfs_step" where
  "ensure_image D X =
     (let pull = ctrd_call (''pull image '' @ ce_image X)
            (cd_transfer D (ce_image X)
              (replace_all ''x86_64'' ''amd64'' (replace_all ''aarch64'' ''arm64'' (ce_arch X))))
      in attempt (cd_get_image D (ce_image X)) (\<lambda>r.
         if is_ok r
         then attempt (find_image_snapshot_parent D X) (\<lambda>p. if is_ok p then ret () else pull)
         else pull))"

definition upperdirs :: "ctrd_mount list \<Rightarrow> string list" where
  "upperdirs mounts = List.map_filter (strip_prefix ''upperdir='') (concat (map mn_options mounts))"

definition workspace_of :: "ctrd_exec \<Rightarrow> string \<Rightarrow> fpath" where
  "workspace_of X upper = path_join (path_join (ce_cwd X) upper) ''workspace''"

definition get_upperdir :: "'s ctrd \<Rightarrow> ctrd_exec \<Rightarrow> string \<Rightarrow> ('s, fpath) vfs_step" where
  "get_upperdir D X snapshot_key =
     andthen (ctrd_call ''get snapshot mounts'' (cd_mounts D snapshot_key)) (\<lambda>mounts.
     lift_result (case upperdirs mounts of
         [] \<Rightarrow> Inl (Io ''no upperdir found in snapshot'')
       | upper # _ \<Rightarrow> Inr (workspace_of X upper)))"

section \<open>Files and pipes\<close>

definition fs_remove_file :: "fpath \<Rightarrow> tree \<Rightarrow> tree" where
  "fs_remove_file p fs =
     (case walk fs [] p of
        Inl _ \<Rightarrow> fs
      | Inr q \<Rightarrow> (case fs q of Some (File _) \<Rightarrow> fs(q := None) | _ \<Rightarrow> fs))"

definition fs_remove_dir_all :: "fpath \<Rightarrow> tree \<Rightarrow> tree" where
  "fs_remove_dir_all p fs =
     (case walk fs [] p of
        Inl _ \<Rightarrow> fs
      | Inr q \<Rightarrow> if fs q = Some Dir then (\<lambda>x. if take (length q) x = q then None else fs x) else fs)"

definition create_fifo :: "'s ctrd \<Rightarrow> faults \<Rightarrow> fpath \<Rightarrow> ('s, unit) vfs_step" where
  "create_fifo D flt path =
     andthen (on_tree D (\<lambda>fs. (if flt [''remove''] = None then fs_remove_file path fs else fs, Inr ()))) (\<lambda>_.
     if CHR 0x00 \<in> set (path_display path)
     then fail (Io (''invalid fifo path: nul byte found in provided data at position: ''
            @ nat_str (length (takeWhile (\<lambda>c. c \<noteq> CHR 0x00) (path_display path)))))
     else ctrd_call (''mkfifo '' @ path_display path) (cd_mkfifo D path))"

text \<open>
  Everything up to the end of the file, an error or the first gap; a reader still busy at the
  deadline has nothing.
\<close>

fun read_chunks :: "fifo_event list \<Rightarrow> string option" where
  "read_chunks [] = Some []"
| "read_chunks (Chunk c # es) = (if c = [] then Some [] else map_option (append c) (read_chunks es))"
| "read_chunks (Deadline # es) = None"
| "read_chunks (_ # es) = Some []"

definition read_fifo_incremental :: "'s ctrd \<Rightarrow> fpath \<Rightarrow> 's \<Rightarrow> string option" where
  "read_fifo_incremental D path s =
     (case cd_fifo D path s of
        Unopened \<Rightarrow> Some []
      | Blocked \<Rightarrow> None
      | Readable es \<Rightarrow> map_option (cd_lossy D) (read_chunks es))"

text \<open>A fresh directory with the three pipes; what was there before is removed.\<close>

definition make_stdio :: "'s ctrd \<Rightarrow> faults \<Rightarrow> string \<Rightarrow> fpath \<Rightarrow> ('s, stdio_paths) vfs_step" where
  "make_stdio D flt what tmp_dir =
     (let stdin_path = path_join tmp_dir ''stdin''; stdout_path = path_join tmp_dir ''stdout'';
          stderr_path = path_join tmp_dir ''stderr'' in
      andthen (on_tree D (\<lambda>fs. (if flt [''remove tmp''] = None then fs_remove_dir_all tmp_dir fs else fs, Inr ()))) (\<lambda>_.
      andthen (on_tree D (io flt ''tmp'' (io_err what) (create_dir_all tmp_dir))) (\<lambda>_.
      andthen (create_fifo D (at ''stdin'' flt) stdin_path) (\<lambda>_.
      andthen (create_fifo D (at ''stdout'' flt) stdout_path) (\<lambda>_.
      andthen (create_fifo D (at ''stderr'' flt) stderr_path) (\<lambda>_.
      ret \<lparr>sp_stdin = stdin_path, sp_stdout = stdout_path, sp_stderr = stderr_path\<rparr>))))))"

section \<open>The container of an agent\<close>

definition ctrd_id :: "string \<Rightarrow> string" where
  "ctrd_id agent_config_id = ''logos-sandbox-'' @ agent_config_id"

definition ctrd_key :: "string \<Rightarrow> string" where
  "ctrd_key agent_config_id = ''logos-snap-'' @ agent_config_id"

text \<open>A container whose task is there is taken as it is, with \<open>/tmp\<close> where its directory is not found.\<close>

definition reuse_container :: "'s ctrd \<Rightarrow> ctrd_exec \<Rightarrow> string \<Rightarrow> ('s, container_info) vfs_step" where
  "reuse_container D X agent_config_id =
     attempt (get_upperdir D X (ctrd_key agent_config_id)) (\<lambda>r.
     ret \<lparr>ci_container_id = ctrd_id agent_config_id, ci_host_path = unwrap_or r [''tmp'']\<rparr>)"

definition new_container :: "ctrd_exec \<Rightarrow> string \<Rightarrow> string option \<Rightarrow> ctrd_container" where
  "new_container X agent_config_id sock =
     \<lparr>cc_id = ctrd_id agent_config_id, cc_image = ce_image X, cc_runtime = ''io.containerd.runc.v2'',
      cc_spec = (''types.containerd.io/opencontainers/runtime-spec/1/Spec'', make_spec sock),
      cc_snapshotter = ''overlayfs'', cc_snapshot_key = ctrd_key agent_config_id\<rparr>"

text \<open>The last \<open>upperdir\<close> of the mounts; without one the path is relative to the kernel's directory.\<close>

definition last_upperdir :: "ctrd_mount list \<Rightarrow> string" where
  "last_upperdir mounts = (if upperdirs mounts = [] then [] else last (upperdirs mounts))"

definition create_container ::
  "'s ctrd \<Rightarrow> faults \<Rightarrow> ctrd_exec \<Rightarrow> string \<Rightarrow> fpath option \<Rightarrow> ('s, container_info) vfs_step" where
  "create_container D flt X agent_config_id sock_path =
     (let key = ctrd_key agent_config_id; cid = ctrd_id agent_config_id in
      andthen (ensure_image D X) (\<lambda>_.
      andthen (find_image_snapshot_parent D X) (\<lambda>parent_key.
      attempt (cd_remove_snapshot D key) (\<lambda>_.
      andthen (ctrd_call ''prepare snapshot'' (cd_prepare D key parent_key)) (\<lambda>mounts.
      (let workspace_dir = workspace_of X (last_upperdir mounts) in
       andthen (on_tree D (io flt ''workspace'' (io_err ''create workspace in upperdir'') (create_dir_all workspace_dir))) (\<lambda>_.
       andthen (\<lambda>s. ctrd_call ''create container'' (cd_create_container D (new_container X agent_config_id
           (map_option (\<lambda>p. path_display (canonical (lget (cd_tree D) s) p)) sock_path))) s) (\<lambda>_.
       andthen (make_stdio D flt ''create tmp dir'' (path_join (ce_tmp X) (''logos-'' @ agent_config_id))) (\<lambda>stdio.
       andthen (ctrd_call ''create task'' (cd_create_task D cid mounts stdio)) (\<lambda>_.
       andthen (ctrd_call ''start task'' (cd_start D cid [])) (\<lambda>_.
       ret \<lparr>ci_container_id = cid, ci_host_path = workspace_dir\<rparr>)))))))))))"

definition containerd_ensure ::
  "'s ctrd \<Rightarrow> faults \<Rightarrow> ctrd_exec \<Rightarrow> string \<Rightarrow> fpath option \<Rightarrow> ('s, container_info) vfs_step" where
  "containerd_ensure D flt X agent_config_id sock_path =
     (let cid = ctrd_id agent_config_id; create = create_container D flt X agent_config_id sock_path in
      attempt (cd_get_container D cid) (\<lambda>c.
      if is_ok c
      then attempt (cd_get_task D cid) (\<lambda>t.
             if is_ok t then reuse_container D X agent_config_id
             else attempt (cd_delete_container D cid) (\<lambda>_. create))
      else create))"

section \<open>A command in the container\<close>

definition process_spec :: "codec \<Rightarrow> string \<Rightarrow> string \<Rightarrow> string" where
  "process_spec c cwd command = to_str c (jobj
     [(''terminal'', JBool False), (''user'', jobj [(''uid'', JInt 0), (''gid'', JInt 0)]),
      (''args'', JArr [JStr ''sh'', JStr ''-c'', JStr (''mkdir -p '' @ cwd @ '' && cd '' @ cwd @ '' && '' @ command)]),
      (''env'', JArr [JStr ''PATH=/usr/local/sbin:/usr/local/bin:/usr/sbin:/usr/bin:/sbin:/bin'']),
      (''cwd'', JStr ''/'')])"

definition containerd_run ::
  "'s ctrd \<Rightarrow> faults \<Rightarrow> codec \<Rightarrow> string \<Rightarrow> string \<Rightarrow> stdio_paths \<Rightarrow> string \<Rightarrow> string \<Rightarrow> ('s, exec_result) vfs_step" where
  "containerd_run D flt c container_id exec_id stdio command cwd =
     andthen (ctrd_call ''exec'' (cd_exec D container_id exec_id stdio
       (''types.containerd.io/opencontainers/runtime-spec/1/Process'', process_spec c cwd command))) (\<lambda>_.
     andthen (ctrd_call ''start exec'' (cd_start D container_id exec_id)) (\<lambda>_.
     andthen (ctrd_call ''wait exec'' (cd_wait D container_id exec_id)) (\<lambda>status.
     andthen (query (\<lambda>s. (read_fifo_incremental D (sp_stdout stdio) s, read_fifo_incremental D (sp_stderr stdio) s))) (\<lambda>(out, err).
     ret \<lparr>er_stdout = opt_or out [], er_stderr = opt_or err [], er_exit_code = sint status\<rparr>))))"

definition containerd_exec ::
  "'s ctrd \<Rightarrow> faults \<Rightarrow> codec \<Rightarrow> ctrd_exec \<Rightarrow> string \<Rightarrow> string \<Rightarrow> string \<Rightarrow> ('s, exec_result) vfs_step" where
  "containerd_exec D flt c X container_id command cwd s =
     (let exec_id = ''exec-'' @ int_str (cd_nanos D s);
          tmp_dir = path_join (ce_tmp X) (''logos-exec-'' @ exec_id) in
      andthen (make_stdio D flt ''create exec tmp'' tmp_dir) (\<lambda>stdio.
      andthen (containerd_run D flt c container_id exec_id stdio command cwd) (\<lambda>result.
      andthen (on_tree D (\<lambda>fs. (if flt [''cleanup''] = None then fs_remove_dir_all tmp_dir fs else fs, Inr ()))) (\<lambda>_.
      ret result))) s)"

text \<open>Removal asks for everything and cares for no answer.\<close>

definition containerd_remove :: "'s ctrd \<Rightarrow> string \<Rightarrow> ('s, unit) vfs_step" where
  "containerd_remove D container_id =
     attempt (cd_kill D container_id 9) (\<lambda>_.
     attempt (cd_wait D container_id []) (\<lambda>_.
     attempt (cd_delete_task D container_id) (\<lambda>_.
     attempt (cd_delete_container D container_id) (\<lambda>_. ret ()))))"

section \<open>The choice of the executor\<close>

text \<open>Where the daemon and the pipes keep all they know in files, this is an executor of the sandbox.\<close>

definition containerd_executor :: "tree ctrd \<Rightarrow> faults \<Rightarrow> codec \<Rightarrow> ctrd_exec \<Rightarrow> fpath \<Rightarrow> executor" where
  "containerd_executor D flt c X host_root =
     \<lparr>ex_ensure = (\<lambda>agent_config_id sock.
        containerd_ensure D flt X agent_config_id (if sock then Some (path_join host_root ''logos.sock'') else None)),
      ex_exec = containerd_exec D flt c X, ex_remove = containerd_remove D\<rparr>"

definition lower_ascii :: "string \<Rightarrow> string" where
  "lower_ascii = map (\<lambda>c. if CHR ''A'' \<le> c \<and> c \<le> CHR ''Z'' then char_of (of_char c + (32 :: nat)) else c)"

text \<open>\<open>SandboxNs::init\<close>: the directory, then the executor the environment asks for.\<close>

record sandbox_setup =
  su_shell :: shell
  su_ctrd :: "tree ctrd"
  su_exec :: ctrd_exec

definition sandbox_setup_init ::
  "sandbox_setup \<Rightarrow> (string \<Rightarrow> string option) \<Rightarrow> codec \<Rightarrow> faults \<Rightarrow> fpath \<Rightarrow> string option \<Rightarrow> (tree, executor) vfs_step" where
  "sandbox_setup_init U vars c flt host_root img =
     andthen (dir_init flt ''sandbox'' host_root) (\<lambda>_.
     if lower_ascii (opt_or (vars ''SANDBOX_MODE'') []) = ''host''
     then ret (host_executor (at ''host'' flt) (su_shell U) host_root)
     else
       andthen (containerd_try_init (su_ctrd U) (vars ''CONTAINERD_SOCKET'') (vars ''HOME'') (su_exec U) img) (\<lambda>X.
       ret (containerd_executor (su_ctrd U) (at ''containerd'' flt) c X host_root)))"

section \<open>What containerd promises\<close>

text \<open>
  What the executor can see of the daemon: which containers and tasks it has and which tasks run.
\<close>

record daemon =
  dm_containers :: "string set"
  dm_tasks :: "string set"
  dm_running :: "string set"

definition quiet :: "('s \<Rightarrow> daemon) \<Rightarrow> ('s, 'e, 'a) step \<Rightarrow> bool" where
  "quiet V m \<longleftrightarrow> (\<forall>s. V (fst (m s)) = V s)"

definition does :: "('s \<Rightarrow> daemon) \<Rightarrow> ('s, 'e, 'a) step \<Rightarrow> (daemon \<Rightarrow> daemon) \<Rightarrow> bool" where
  "does V m f \<longleftrightarrow> (\<forall>s. V (fst (m s)) = (if is_ok (snd (m s)) then f (V s) else V s))"

definition with_container :: "string \<Rightarrow> daemon \<Rightarrow> daemon" where
  "with_container x v = v\<lparr>dm_containers := insert x (dm_containers v)\<rparr>"

definition without_container :: "string \<Rightarrow> daemon \<Rightarrow> daemon" where
  "without_container x v = v\<lparr>dm_containers := dm_containers v - {x}\<rparr>"

definition with_task :: "string \<Rightarrow> daemon \<Rightarrow> daemon" where
  "with_task x v = v\<lparr>dm_tasks := insert x (dm_tasks v)\<rparr>"

definition with_running :: "string \<Rightarrow> daemon \<Rightarrow> daemon" where
  "with_running x v = v\<lparr>dm_running := insert x (dm_running v)\<rparr>"

definition stopped :: "string \<Rightarrow> daemon \<Rightarrow> daemon" where
  "stopped x v = v\<lparr>dm_running := dm_running v - {x}\<rparr>"

definition without_task :: "string \<Rightarrow> daemon \<Rightarrow> daemon" where
  "without_task x v = v\<lparr>dm_tasks := dm_tasks v - {x}, dm_running := dm_running v - {x}\<rparr>"

definition but_for :: "string \<Rightarrow> daemon \<Rightarrow> daemon" where
  "but_for x v = \<lparr>dm_containers = dm_containers v - {x}, dm_tasks = dm_tasks v - {x}, dm_running = dm_running v - {x}\<rparr>"

lemma but_for_changes [simp]:
  "but_for x (with_container x v) = but_for x v" "but_for x (without_container x v) = but_for x v"
  "but_for x (with_task x v) = but_for x v" "but_for x (with_running x v) = but_for x v"
  by (auto simp: but_for_def with_container_def without_container_def with_task_def with_running_def)

text \<open>
  The documented behaviour of the calls: any of them may fail; a query that succeeds answers for what is
  there, a request that is acknowledged has its effect and one that is refused has none; images,
  snapshots, files and pipes are none of it, and nothing but the calls changes what the daemon has.
  A query about a container that is there may fail too (the daemon busy, restarting, out of time).
\<close>

definition ctrd_obeys :: "'s ctrd \<Rightarrow> ('s \<Rightarrow> daemon) \<Rightarrow> bool" where
  "ctrd_obeys D V \<longleftrightarrow>
     (\<forall>x. quiet V (cd_get_container D x)) \<and> (\<forall>x. quiet V (cd_get_task D x)) \<and>
     (\<forall>x s. is_ok (snd (cd_get_container D x s)) \<longrightarrow> x \<in> dm_containers (V s)) \<and>
     (\<forall>x s. is_ok (snd (cd_get_task D x s)) \<longrightarrow> x \<in> dm_tasks (V s)) \<and>
     (\<forall>x. does V (cd_delete_container D x) (without_container x)) \<and>
     (\<forall>c. does V (cd_create_container D c) (with_container (cc_id c))) \<and>
     (\<forall>x ms io. does V (cd_create_task D x ms io) (with_task x)) \<and>
     (\<forall>x. does V (cd_start D x []) (with_running x)) \<and>
     (\<forall>x sig. does V (cd_kill D x sig) (stopped x)) \<and> (\<forall>x. does V (cd_delete_task D x) (without_task x)) \<and>
     (\<forall>x e. e \<noteq> [] \<longrightarrow> quiet V (cd_start D x e)) \<and> (\<forall>x e io p. quiet V (cd_exec D x e io p)) \<and>
     (\<forall>x e. quiet V (cd_wait D x e)) \<and>
     (\<forall>i. quiet V (cd_get_image D i)) \<and> (\<forall>i a. quiet V (cd_transfer D i a)) \<and>
     quiet V (cd_list_snapshots D) \<and> (\<forall>k. quiet V (cd_mounts D k)) \<and>
     (\<forall>k. quiet V (cd_remove_snapshot D k)) \<and> (\<forall>k p. quiet V (cd_prepare D k p)) \<and>
     (\<forall>p. quiet V (cd_mkfifo D p)) \<and> (\<forall>t s. V (lput (cd_tree D) t s) = V s)"

lemma ctrd_obeysD:
  assumes "ctrd_obeys D V"
  shows "quiet V (cd_get_container D x)" "quiet V (cd_get_task D x)"
    "is_ok (snd (cd_get_container D x s)) \<Longrightarrow> x \<in> dm_containers (V s)"
    "is_ok (snd (cd_get_task D x s)) \<Longrightarrow> x \<in> dm_tasks (V s)"
    "does V (cd_delete_container D x) (without_container x)"
    "does V (cd_create_container D c) (with_container (cc_id c))"
    "does V (cd_create_task D x ms stdio) (with_task x)" "does V (cd_start D x []) (with_running x)"
    "quiet V (cd_get_image D i)" "quiet V (cd_transfer D i a)" "quiet V (cd_list_snapshots D)"
    "quiet V (cd_mounts D k)" "quiet V (cd_remove_snapshot D k)" "quiet V (cd_prepare D k p)"
    "quiet V (cd_mkfifo D q)" "V (lput (cd_tree D) t s) = V s"
    "does V (cd_kill D x sig) (stopped x)" "does V (cd_delete_task D x) (without_task x)"
    "e \<noteq> [] \<Longrightarrow> quiet V (cd_start D x e)" "quiet V (cd_exec D x e stdio spec)" "quiet V (cd_wait D x e)"
  using assms by (cases spec; auto simp: ctrd_obeys_def)+

text \<open>The stronger promise, of one container: the queries about it fail only where it has nothing to tell.\<close>

definition ctrd_answers :: "'s ctrd \<Rightarrow> ('s \<Rightarrow> daemon) \<Rightarrow> string \<Rightarrow> bool" where
  "ctrd_answers D V x \<longleftrightarrow>
     (\<forall>s. (x \<in> dm_containers (V s) \<longrightarrow> is_ok (snd (cd_get_container D x s))) \<and>
          (x \<in> dm_tasks (V s) \<longrightarrow> is_ok (snd (cd_get_task D x s))))"

lemma quiet_keeps: "quiet V m \<Longrightarrow> keeps (\<lambda>s. V s = v) m"
  by (simp add: quiet_def keeps_def)

lemma quiet_fst: "quiet V m \<Longrightarrow> V (fst (m s)) = V s"
  by (simp add: quiet_def)

lemma quietI: "(\<And>v. keeps (\<lambda>s. V s = v) m) \<Longrightarrow> quiet V m"
  by (simp add: quiet_def keeps_def)

lemma quietD: "quiet V m \<Longrightarrow> m s = (s', r) \<Longrightarrow> V s' = V s"
  by (metis quiet_def fst_conv)

lemma doesD: "does V m f \<Longrightarrow> m s = (s', Inr a) \<Longrightarrow> V s' = f (V s)"
  by (metis does_def fst_conv snd_conv is_ok_simps(2))

lemma does_keeps: "does V m f \<Longrightarrow> (\<And>v. P v \<Longrightarrow> P (f v)) \<Longrightarrow> keeps (\<lambda>s. P (V s)) m"
  by (simp add: does_def keeps_def)

lemma keeps_ctrd_call [keeps_intros]: "keeps I m \<Longrightarrow> keeps I (ctrd_call what m)"
  by (auto simp: keeps_def ctrd_call_def split: prod.splits)

lemma ctrd_call_Inr: "ctrd_call what m s = (s', Inr a) \<longleftrightarrow> m s = (s', Inr a)"
  by (auto simp: ctrd_call_def split: prod.splits)

lemma quiet_on_tree: "ctrd_obeys D V \<Longrightarrow> quiet V (on_tree D m)"
  by (simp add: quiet_def on_tree_def zoom_def ctrd_obeysD(16) split: prod.splits)

text \<open>The parts of \<open>ensure_container\<close> that leave the daemon's containers and tasks as they are.\<close>

lemmas keeps_ctrd = keeps_intros quiet_on_tree [THEN quiet_keeps]
  ctrd_obeysD(1,2,9-15) [THEN quiet_keeps]

lemma quiet_find_parent: "ctrd_obeys D V \<Longrightarrow> quiet V (find_image_snapshot_parent D X)"
  unfolding find_image_snapshot_parent_def by (intro quietI keeps_ctrd)

lemma quiet_ensure_image: "ctrd_obeys D V \<Longrightarrow> quiet V (ensure_image D X)"
  unfolding ensure_image_def Let_def by (intro quietI keeps_ctrd quiet_find_parent [THEN quiet_keeps])

lemma quiet_get_upperdir: "ctrd_obeys D V \<Longrightarrow> quiet V (get_upperdir D X k)"
  unfolding get_upperdir_def by (intro quietI keeps_ctrd)

lemma quiet_create_fifo: "ctrd_obeys D V \<Longrightarrow> quiet V (create_fifo D flt p)"
  unfolding create_fifo_def by (intro quietI keeps_ctrd)

lemma quiet_make_stdio: "ctrd_obeys D V \<Longrightarrow> quiet V (make_stdio D flt what d)"
  unfolding make_stdio_def Let_def by (intro quietI keeps_ctrd quiet_create_fifo [THEN quiet_keeps])

text \<open>The parts that do touch them touch the agent's own.\<close>

lemma quiet_keeps_of: "quiet V m \<Longrightarrow> keeps (\<lambda>s. but_for x (V s) = v) m"
  by (simp add: quiet_def keeps_def)

lemma does_keeps_of: "does V m f \<Longrightarrow> (\<And>v. but_for x (f v) = but_for x v) \<Longrightarrow> keeps (\<lambda>s. but_for x (V s) = v) m"
  by (simp add: does_def keeps_def)

lemma keeps_create:
  "(\<And>x. keeps I (cd_create_container D (new_container X a x))) \<Longrightarrow>
   keeps I (\<lambda>s. ctrd_call what (cd_create_container D (new_container X a (f s))) s)"
  using keeps_ctrd_call [of I "cd_create_container D _" what] by (simp add: keeps_def)

lemma create_keeps_own:
  assumes "ctrd_obeys D V"
  shows "keeps (\<lambda>s. but_for (ctrd_id a) (V s) = v)
    (\<lambda>s. ctrd_call what (cd_create_container D (new_container X a (f s))) s)"
proof -
  have "keeps (\<lambda>s. but_for (ctrd_id a) (V s) = v) (cd_create_container D (new_container X a x))" for x
    using ctrd_obeysD(6) [OF assms, of "new_container X a x"]
    by (rule does_keeps_of) (simp add: new_container_def)
  then show ?thesis by (rule keeps_create)
qed

lemma create_container_frame:
  assumes "ctrd_obeys D V"
  shows "keeps (\<lambda>s. but_for (ctrd_id a) (V s) = v) (create_container D flt X a sock)"
  unfolding create_container_def Let_def
  by (intro keeps_intros
      quiet_ensure_image [THEN quiet_keeps_of] quiet_find_parent [THEN quiet_keeps_of]
      quiet_make_stdio [THEN quiet_keeps_of] quiet_on_tree [THEN quiet_keeps_of]
      ctrd_obeysD(13,14) [THEN quiet_keeps_of] ctrd_obeysD(7,8) [THEN does_keeps_of]
      create_keeps_own assms) simp_all

lemma containerd_ensure_frame:
  assumes "ctrd_obeys D V"
  shows "keeps (\<lambda>s. but_for (ctrd_id a) (V s) = v) (containerd_ensure D flt X a sock)"
  unfolding containerd_ensure_def reuse_container_def Let_def
  by (intro keeps_intros create_container_frame quiet_get_upperdir [THEN quiet_keeps_of]
      ctrd_obeysD(1,2) [THEN quiet_keeps_of] ctrd_obeysD(5) [THEN does_keeps_of] assms) simp

lemma does_refused:
  assumes "does V m f" and "ctrd_call what m s = (s', Inl e)"
  shows "V s' = V s"
proof -
  from assms(2) obtain x where "m s = (s', Inl x)"
    by (auto simp: ctrd_call_def map_err_def split: prod.splits sum.splits)
  with assms(1) show ?thesis by (metis does_def fst_conv snd_conv is_ok_simps(1))
qed

text \<open>What the steps of a creation leave of the daemon, one by one.\<close>

lemmas step_views = quietD [OF quiet_ensure_image] quietD [OF quiet_find_parent] quietD [OF quiet_make_stdio]
  quietD [OF quiet_on_tree] quietD [OF ctrd_obeysD(13)] quietD [OF ctrd_obeysD(14)]
  doesD [OF ctrd_obeysD(6)] doesD [OF ctrd_obeysD(7)] doesD [OF ctrd_obeysD(8)]
  does_refused [OF ctrd_obeysD(8)]

lemma create_container_ok:
  assumes "ctrd_obeys D V" and "create_container D flt X a sock s = (s', Inr info)"
  shows "V s' = with_running (ctrd_id a) (with_task (ctrd_id a) (with_container (ctrd_id a) (V s)))"
    and "ci_container_id info = ctrd_id a"
  using assms(2) unfolding create_container_def Let_def
  by (auto elim!: andthen_InrE attempt_E simp: ctrd_call_Inr ret_def new_container_def
      dest!: step_views [OF assms(1)])

lemma reuse_container_ok:
  assumes "ctrd_obeys D V"
  shows "\<exists>s' info. reuse_container D X a s = (s', Inr info) \<and> V s' = V s \<and> ci_container_id info = ctrd_id a"
proof -
  obtain s' r where "get_upperdir D X (ctrd_key a) s = (s', r)" by fastforce
  with quietD [OF quiet_get_upperdir [OF assms]] show ?thesis
    by (auto simp: reuse_container_def attempt_def ret_def)
qed

text \<open>Whether a container is taken as it is depends on the answers to the two queries.\<close>

definition seen :: "'s ctrd \<Rightarrow> string \<Rightarrow> 's \<Rightarrow> bool" where
  "seen D x s \<longleftrightarrow> is_ok (snd (cd_get_container D x s)) \<and> is_ok (snd (cd_get_task D x (fst (cd_get_container D x s))))"

lemma seen_there: "ctrd_obeys D V \<Longrightarrow> seen D x s \<Longrightarrow> x \<in> dm_containers (V s) \<and> x \<in> dm_tasks (V s)"
  using ctrd_obeysD(3,4) [of D V x] quiet_fst [OF ctrd_obeysD(1) [of D V x]] by (metis seen_def)

lemma there_seen:
  "ctrd_obeys D V \<Longrightarrow> ctrd_answers D V x \<Longrightarrow> x \<in> dm_containers (V s) \<Longrightarrow> x \<in> dm_tasks (V s) \<Longrightarrow> seen D x s"
  using quiet_fst [OF ctrd_obeysD(1) [of D V x]] by (simp add: seen_def ctrd_answers_def)

lemma containerd_ensure_cases:
  assumes D: "ctrd_obeys D V" and run: "containerd_ensure D flt X a sock s = (s', r)"
  obtains s1 where "seen D (ctrd_id a) s" "V s1 = V s" "reuse_container D X a s1 = (s', r)"
    | s1 where "\<not> seen D (ctrd_id a) s" "V s1 = V s \<or> V s1 = without_container (ctrd_id a) (V s)"
      "create_container D flt X a sock s1 = (s', r)"
proof -
  obtain s1 r1 where get: "cd_get_container D (ctrd_id a) s = (s1, r1)" by fastforce
  obtain s2 r2 where "cd_get_task D (ctrd_id a) s1 = (s2, r2)" by fastforce
  note got = get this
  note views = quietD [OF ctrd_obeysD(1) [OF D] got(1)] quietD [OF ctrd_obeysD(2) [OF D] got(2)]
  have here: "seen D (ctrd_id a) s \<longleftrightarrow> is_ok r1 \<and> is_ok r2" by (simp add: seen_def got)
  show thesis
  proof (cases "is_ok r1 \<and> is_ok r2")
    case True
    with run got have "reuse_container D X a s2 = (s', r)"
      by (simp add: containerd_ensure_def attempt_def Let_def)
    with True here views show thesis by (intro that(1)) simp_all
  next
    case False
    obtain s3 r3 where del: "cd_delete_container D (ctrd_id a) s2 = (s3, r3)" by fastforce
    with ctrd_obeysD(5) [OF D, of "ctrd_id a"]
    have "V s3 = V s2 \<or> V s3 = without_container (ctrd_id a) (V s2)"
      by (metis does_def fst_conv)
    moreover have "create_container D flt X a sock (if is_ok r1 then s3 else s1) = (s', r)"
      using run got del False by (auto simp: containerd_ensure_def attempt_def Let_def split: if_splits)
    ultimately show thesis using that(2) False here views by (metis (full_types))
  qed
qed

lemma containerd_reuses:
  assumes "ctrd_obeys D V" and "seen D (ctrd_id a) s"
  shows "\<exists>s' info. containerd_ensure D flt X a sock s = (s', Inr info) \<and> V s' = V s"
proof -
  obtain s' r where run: "containerd_ensure D flt X a sock s = (s', r)" by fastforce
  from containerd_ensure_cases [OF assms(1) run] obtain s1 where
    "V s1 = V s" "reuse_container D X a s1 = (s', r)" using assms by metis
  with reuse_container_ok [OF assms(1), of X a s1] run show ?thesis by auto
qed

text \<open>Where a failure comes from, told by how its text starts.\<close>

definition never_says :: "string \<Rightarrow> ('s, 'a) vfs_step \<Rightarrow> bool" where
  "never_says p m \<longleftrightarrow> (\<forall>s s' e. m s = (s', Inl (Io e)) \<longrightarrow> \<not> starts_with e p)"

definition unlike :: "string \<Rightarrow> string \<Rightarrow> bool" where
  "unlike p q \<longleftrightarrow> (\<forall>x. \<not> starts_with (q @ x) p)"

lemma never_saysD: "never_says p m \<Longrightarrow> m s = (s', Inl (Io e)) \<Longrightarrow> \<not> starts_with e p"
  by (simp add: never_says_def)

lemma never_says_not: "never_says p m \<Longrightarrow> starts_with e p \<Longrightarrow> m s \<noteq> (s', Inl (Io e))"
  by (auto simp: never_says_def)

lemma unlike_eval [simp]: "unlike (x # p) (y # q) \<longleftrightarrow> x \<noteq> y \<or> unlike p q"
  by (simp add: unlike_def starts_with_def)

lemma never_says_call: "unlike p what \<Longrightarrow> never_says p (\<lambda>s. ctrd_call what (m s) s)"
  by (auto simp: never_says_def unlike_def ctrd_call_def map_err_def split: prod.splits sum.splits)

lemma never_says_tree: "unlike p what \<Longrightarrow> never_says p (on_tree D (io flt l (io_err what) m))"
  by (auto simp: never_says_def unlike_def on_tree_def zoom_def io_def io_err_def map_err_def
      split: prod.splits option.splits sum.splits)

lemma never_says_Inr: "never_says p (on_tree D (\<lambda>fs. (f fs, Inr ())))"
  by (simp add: never_says_def on_tree_def zoom_def)

lemma never_says_andthen: "never_says p m \<Longrightarrow> (\<And>a. never_says p (k a)) \<Longrightarrow> never_says p (andthen m k)"
  by (force simp: never_says_def andthen_def split: prod.splits sum.splits)

lemma never_says_attempt: "(\<And>r. never_says p (k r)) \<Longrightarrow> never_says p (attempt m k)"
  by (simp add: never_says_def attempt_def split: prod.splits)

lemma never_says_ret: "never_says p (ret a)"
  by (simp add: never_says_def ret_def)

lemma never_says_if: "never_says p m \<Longrightarrow> never_says p n \<Longrightarrow> never_says p (if b then m else n)"
  by simp

lemma never_says_fail: "unlike p what \<Longrightarrow> never_says p (fail (Io (what @ x)))"
  by (auto simp: never_says_def fail_def unlike_def)

lemma never_says_lift: "unlike p what \<Longrightarrow> never_says p (lift_result (ok_or r (Io (what @ x))))"
  by (cases r) (auto simp: never_says_def lift_result_def unlike_def)

lemmas never_says_intros = never_says_call never_says_tree never_says_Inr never_says_andthen
  never_says_attempt never_says_ret never_says_if never_says_fail never_says_lift

lemma call_not:
  "unlike p what \<Longrightarrow> starts_with msg p \<Longrightarrow> ctrd_call what m s \<noteq> (s', Inl (Io msg))"
  using never_saysD [OF never_says_call [where m = "\<lambda>_. m"]] by metis

lemma tree_not:
  "unlike p what \<Longrightarrow> starts_with msg p \<Longrightarrow> on_tree D (io flt l (io_err what) m) s \<noteq> (s', Inl (Io msg))"
  using never_saysD [OF never_says_tree] by metis

lemma create_container_start_failed:
  assumes D: "ctrd_obeys D V" and msg: "starts_with msg ''start task''"
    and run: "create_container D flt X a sock s = (s', Inl (Io msg))"
  shows "V s' = with_task (ctrd_id a) (with_container (ctrd_id a) (V s))"
proof -
  have parent: "never_says ''start task'' (find_image_snapshot_parent D X)"
    unfolding find_image_snapshot_parent_def by (intro never_says_intros) simp_all
  have img: "never_says ''start task'' (ensure_image D X)"
    unfolding ensure_image_def Let_def by (intro never_says_intros parent) simp_all
  have stdio: "never_says ''start task'' (make_stdio D flt ''create tmp dir'' d)" for d
    unfolding make_stdio_def create_fifo_def Let_def by (intro never_says_intros) simp_all
  note refused = never_says_not [OF parent msg] never_says_not [OF img msg] never_says_not [OF stdio msg]
  from run show ?thesis
    unfolding create_container_def Let_def
    by (elim andthen_InlE attempt_E; simp add: refused call_not [OF _ msg] tree_not [OF _ msg] ctrd_call_Inr ret_def;
        auto simp: new_container_def dest!: step_views [OF D])
qed

section \<open>Properties\<close>

text \<open>
  C16: Bringing up an agent's container touches nothing of another agent's, whatever calls of the daemon
  fail. Where the daemon answers for the container and for its task, the container is taken as it is;
  otherwise, where the call succeeds, the agent's container is there under its name and its task has been
  started.
\<close>

theorem ensured_container_runs:
  assumes "ctrd_obeys D V" and "containerd_ensure D flt X a sock s = (s', r)"
  shows "but_for (ctrd_id a) (V s') = but_for (ctrd_id a) (V s) \<and>
    (seen D (ctrd_id a) s \<longrightarrow> is_ok r \<and> V s' = V s) \<and>
    (\<forall>info. r = Inr info \<longrightarrow> ci_container_id info = ctrd_id a \<and>
       ctrd_id a \<in> dm_containers (V s') \<and> ctrd_id a \<in> dm_tasks (V s') \<and>
       (ctrd_id a \<in> dm_running (V s') \<or> seen D (ctrd_id a) s))"
proof (rule conjI)
  show "but_for (ctrd_id a) (V s') = but_for (ctrd_id a) (V s)"
    using keepsD' [OF containerd_ensure_frame [OF assms(1)] refl assms(2)] .
  from assms show "(seen D (ctrd_id a) s \<longrightarrow> is_ok r \<and> V s' = V s) \<and>
    (\<forall>info. r = Inr info \<longrightarrow> ci_container_id info = ctrd_id a \<and>
       ctrd_id a \<in> dm_containers (V s') \<and> ctrd_id a \<in> dm_tasks (V s') \<and>
       (ctrd_id a \<in> dm_running (V s') \<or> seen D (ctrd_id a) s))"
  proof (cases rule: containerd_ensure_cases)
    case (1 s1)
    with reuse_container_ok [OF assms(1), of X a s1] seen_there [OF assms(1) 1(1)] show ?thesis by auto
  next
    case (2 s1)
    with create_container_ok [OF assms(1), of flt X a sock s1 s'] show ?thesis
      by (auto simp: with_running_def with_task_def with_container_def)
  qed
qed

lemma failed_start_left:
  assumes D: "ctrd_obeys D V" and "ctrd_id a \<notin> dm_running (V s)"
    and "containerd_ensure D flt X a sock s = (s1, Inl (Io msg))" and "starts_with msg ''start task''"
  shows "ctrd_id a \<in> dm_containers (V s1) \<and> ctrd_id a \<in> dm_tasks (V s1) \<and> ctrd_id a \<notin> dm_running (V s1)"
  using D assms(3)
proof (cases rule: containerd_ensure_cases)
  case (1 s0)
  with reuse_container_ok [OF D, of X a s0] show ?thesis by auto
next
  case (2 s0)
  from create_container_start_failed [OF D assms(4) 2(3)] 2(2) assms(2) show ?thesis
    by (auto simp: with_task_def with_container_def without_container_def)
qed

text \<open>
  C18: One query that fails costs an agent its running container: when the daemon answers for the
  container but not for its task, for whatever reason, the kernel asks for the container's deletion, and
  where the daemon agrees it then goes on to make a new one - for which it removes the snapshot the
  running one's files are in. Where the new one cannot be made, the agent's container is gone.
\<close>

theorem query_error_deletes_container:
  assumes D: "ctrd_obeys D V" and "is_ok (snd (cd_get_container D (ctrd_id a) s))"
    and "cd_get_task D (ctrd_id a) (fst (cd_get_container D (ctrd_id a) s)) = (s2, Inl e)"
    and "cd_delete_container D (ctrd_id a) s2 = (s3, Inr u)"
  shows "V s3 = without_container (ctrd_id a) (V s) \<and>
    containerd_ensure D flt X a sock s = create_container D flt X a sock s3 \<and>
    (\<forall>e' s4. ensure_image D X s3 = (s4, Inl e') \<longrightarrow>
       containerd_ensure D flt X a sock s = (s4, Inl e') \<and> V s4 = without_container (ctrd_id a) (V s))"
proof -
  obtain s1 r1 where get: "cd_get_container D (ctrd_id a) s = (s1, r1)" by fastforce
  have "V s2 = V s"
    using quietD [OF ctrd_obeysD(1) [OF D] get] quietD [OF ctrd_obeysD(2) [OF D]] assms(3) get by force
  then have v: "V s3 = without_container (ctrd_id a) (V s)"
    using doesD [OF ctrd_obeysD(5) [OF D] assms(4)] by simp
  have run: "containerd_ensure D flt X a sock s = create_container D flt X a sock s3"
    using assms(2,3,4) get by (simp add: containerd_ensure_def attempt_def Let_def)
  have "create_container D flt X a sock s3 = (s4, Inl e') \<and> V s4 = V s3" if "ensure_image D X s3 = (s4, Inl e')" for s4 e'
    using that quietD [OF quiet_ensure_image [OF D] that] by (simp add: create_container_def Let_def andthen_def)
  with run v show ?thesis by simp
qed

text \<open>A daemon that keeps its word; starting the task of a container may fail.\<close>

record demo_daemon =
  dd_tree :: tree
  dd_daemon :: daemon

definition demo_query :: "(demo_daemon \<Rightarrow> bool) \<Rightarrow> (demo_daemon, string, unit) step" where
  "demo_query P s = (s, if P s then Inr () else Inl ''not found'')"

definition demo_change :: "(daemon \<Rightarrow> daemon) \<Rightarrow> (demo_daemon, string, unit) step" where
  "demo_change f s = (s\<lparr>dd_daemon := f (dd_daemon s)\<rparr>, Inr ())"

definition demo_mounts :: "ctrd_mount list" where
  "demo_mounts = [\<lparr>mn_type = ''overlay'', mn_source = ''overlay'', mn_options = [''upperdir=/up'']\<rparr>]"

definition demo_ctrd :: "string option \<Rightarrow> demo_daemon ctrd" where
  "demo_ctrd start_fails =
     \<lparr>cd_tree = \<lparr>lget = dd_tree, lput = (\<lambda>t s. s\<lparr>dd_tree := t\<rparr>)\<rparr>,
      cd_connect = (\<lambda>_. ret ()), cd_version = (\<lambda>_. ret ()),
      cd_get_container = (\<lambda>x. demo_query (\<lambda>s. x \<in> dm_containers (dd_daemon s))),
      cd_delete_container = (\<lambda>x. demo_change (without_container x)),
      cd_create_container = (\<lambda>c. demo_change (with_container (cc_id c))),
      cd_get_task = (\<lambda>x. demo_query (\<lambda>s. x \<in> dm_tasks (dd_daemon s))),
      cd_create_task = (\<lambda>x _ _. demo_change (with_task x)),
      cd_start = (\<lambda>x e. if e \<noteq> [] then ret ()
        else case start_fails of Some m \<Rightarrow> fail m | None \<Rightarrow> demo_change (with_running x)),
      cd_exec = (\<lambda>_ _ _ _. ret ()), cd_wait = (\<lambda>_ _. ret 0), cd_kill = (\<lambda>x _. demo_change (stopped x)),
      cd_delete_task = (\<lambda>x. demo_change (without_task x)), cd_get_image = (\<lambda>_. ret ()), cd_transfer = (\<lambda>_ _. ret ()),
      cd_list_snapshots = ret [Inr [\<lparr>sn_name = ''sha256:1'', sn_kind = 3, sn_created_at = None\<rparr>]],
      cd_mounts = (\<lambda>_. ret demo_mounts), cd_remove_snapshot = (\<lambda>_. fail ''not found''),
      cd_prepare = (\<lambda>_ _. ret demo_mounts), cd_mkfifo = (\<lambda>_. ret ()),
      cd_fifo = (\<lambda>p _. if last p = ''stdout'' then Readable [Chunk ''a'', Quiet, Chunk ''b''] else Readable []),
      cd_nanos = (\<lambda>_. 7), cd_lossy = (\<lambda>t. t)\<rparr>"

definition demo_exec :: ctrd_exec where
  "demo_exec = \<lparr>ce_image = ''debian'', ce_arch = ''x86_64'', ce_tmp = [''tmp''], ce_cwd = []\<rparr>"

definition demo_dm :: demo_daemon where
  "demo_dm = \<lparr>dd_tree = [[] \<mapsto> Dir],
     dd_daemon = \<lparr>dm_containers = {''logos-sandbox-b''}, dm_tasks = {''logos-sandbox-b''}, dm_running = {}\<rparr>\<rparr>"

lemma demo_ctrd_obeys: "ctrd_obeys (demo_ctrd e) dd_daemon"
  by (auto simp: ctrd_obeys_def demo_ctrd_def quiet_def does_def demo_query_def demo_change_def ret_def fail_def
      split: option.splits)

lemmas ctrd_eval = containerd_ensure_def create_container_def reuse_container_def ensure_image_def
  find_image_snapshot_parent_def listed_def best_snapshot_def is_layer_def get_upperdir_def upperdirs_def
  last_upperdir_def make_stdio_def create_fifo_def ctrd_call_def on_tree_def zoom_def workspace_of_def
  demo_ctrd_def demo_query_def demo_change_def demo_mounts_def demo_exec_def ctrd_id_def ctrd_key_def
  fs_remove_file_def fs_remove_dir_all_def with_container_def with_task_def with_running_def
  without_container_def List.map_filter_simps path_display_def Let_def

theorem ensured_container_runs_witness:
  "\<exists>s' info. containerd_ensure (demo_ctrd None) no_faults demo_exec ''a'' None demo_dm = (s', Inr info) \<and>
     ci_container_id info = ''logos-sandbox-a'' \<and> ''logos-sandbox-a'' \<in> dm_tasks (dd_daemon s') \<and>
     ''logos-sandbox-b'' \<in> dm_containers (dd_daemon s')"
proof -
  have "\<exists>s' info. containerd_ensure (demo_ctrd None) no_faults demo_exec ''a'' None demo_dm = (s', Inr info)"
    by (simp add: ctrd_eval demo_dm_def write_eval)
  then obtain s' info where
    run: "containerd_ensure (demo_ctrd None) no_faults demo_exec ''a'' None demo_dm = (s', Inr info)" by blast
  note p = ensured_container_runs [OF demo_ctrd_obeys run]
  then have "''logos-sandbox-b'' \<in> dm_containers (but_for ''logos-sandbox-a'' (dd_daemon s'))"
    by (simp add: ctrd_id_def) (simp add: but_for_def demo_dm_def)
  with p run show ?thesis by (auto simp: ctrd_id_def but_for_def)
qed

text \<open>A daemon whose task service is down, and with it the registry of images.\<close>

definition deaf_ctrd :: "demo_daemon ctrd" where
  "deaf_ctrd = (demo_ctrd None)\<lparr>cd_get_task := (\<lambda>_. fail ''unavailable''), cd_get_image := (\<lambda>_. fail ''unavailable''),
     cd_transfer := (\<lambda>_ _. fail ''unavailable'')\<rparr>"

lemma deaf_ctrd_obeys: "ctrd_obeys deaf_ctrd dd_daemon"
  by (auto simp: ctrd_obeys_def deaf_ctrd_def demo_ctrd_def quiet_def does_def demo_query_def demo_change_def
      ret_def fail_def split: option.splits)

lemma deaf_calls:
  "cd_get_container deaf_ctrd x s = (s, if x \<in> dm_containers (dd_daemon s) then Inr () else Inl ''not found'')"
  "cd_get_task deaf_ctrd x s = (s, Inl ''unavailable'')"
  "cd_delete_container deaf_ctrd x s = (s\<lparr>dd_daemon := without_container x (dd_daemon s)\<rparr>, Inr ())"
  by (simp_all add: deaf_ctrd_def demo_ctrd_def demo_query_def demo_change_def fail_def)

lemma deaf_image: "\<exists>e. ensure_image deaf_ctrd X s = (s, Inl e)"
  by (simp add: ensure_image_def Let_def deaf_ctrd_def step_defs ctrd_call_def)

theorem query_error_deletes_container_witness:
  "\<exists>s' e. containerd_ensure deaf_ctrd no_faults demo_exec ''b'' None
      (demo_dm\<lparr>dd_daemon := with_running (ctrd_id ''b'') (dd_daemon demo_dm)\<rparr>) = (s', Inl e) \<and>
    ctrd_id ''b'' \<in> dm_running (dd_daemon s') \<and> ctrd_id ''b'' \<notin> dm_containers (dd_daemon s')"
proof -
  define s where "s = demo_dm\<lparr>dd_daemon := with_running (ctrd_id ''b'') (dd_daemon demo_dm)\<rparr>"
  have here: "ctrd_id ''b'' \<in> dm_containers (dd_daemon s)" "ctrd_id ''b'' \<in> dm_running (dd_daemon s)"
    by (simp_all add: s_def with_running_def demo_dm_def) (simp add: ctrd_id_def)
  have ok: "is_ok (snd (cd_get_container deaf_ctrd (ctrd_id ''b'') s))" by (simp add: deaf_calls here)
  have task: "cd_get_task deaf_ctrd (ctrd_id ''b'') (fst (cd_get_container deaf_ctrd (ctrd_id ''b'') s)) = (s, Inl ''unavailable'')"
    by (simp add: deaf_calls)
  obtain e where img: "ensure_image deaf_ctrd demo_exec (s\<lparr>dd_daemon := without_container (ctrd_id ''b'') (dd_daemon s)\<rparr>)
      = (s\<lparr>dd_daemon := without_container (ctrd_id ''b'') (dd_daemon s)\<rparr>, Inl e)"
    using deaf_image by blast
  note p = query_error_deletes_container [OF deaf_ctrd_obeys ok task deaf_calls(3), of no_faults demo_exec None]
  from p [THEN conjunct2, THEN conjunct2, rule_format, OF img] here(2) show ?thesis
    unfolding s_def [symmetric] by (simp add: without_container_def)
qed

text \<open>
  A command's output is what its pipe gave before the first gap of half a second; what is written
  later is lost, and nothing says so. The exit code is the daemon's, read as a signed number.
\<close>

theorem run_output_until_gap:
  assumes "containerd_run D flt c x e stdio command cwd s = (s', Inr result)"
    and "cd_fifo D (sp_stdout stdio) s' = Readable (map Chunk cs @ Quiet # later)" and "[] \<notin> set cs"
  shows "er_stdout result = cd_lossy D (concat cs) \<and>
    (\<exists>status. er_exit_code result = sint (status :: 32 word))"
proof -
  have "read_chunks (map Chunk cs @ Quiet # later) = Some (concat cs)"
    using assms(3) by (induction cs) auto
  with assms(1,2) show ?thesis unfolding containerd_run_def
    by (elim andthen_InrE) (auto simp: query_def ret_def read_fifo_incremental_def)
qed

theorem run_output_until_gap_witness:
  "let (s', r) = containerd_run (demo_ctrd None) no_faults note_codec ''x'' ''e''
       \<lparr>sp_stdin = [''stdin''], sp_stdout = [''stdout''], sp_stderr = [''stderr'']\<rparr> ''make'' ''/'' demo_dm
   in (case r of Inl _ \<Rightarrow> False | Inr result \<Rightarrow> er_stdout result = ''a'')"
proof -
  let ?io = "\<lparr>sp_stdin = [''stdin''], sp_stdout = [''stdout''], sp_stderr = [''stderr'']\<rparr>"
  obtain result where run: "containerd_run (demo_ctrd None) no_faults note_codec ''x'' ''e'' ?io ''make'' ''/'' demo_dm
      = (demo_dm, Inr result)"
    by (simp add: containerd_run_def ctrd_call_def demo_ctrd_def step_defs)
  have "cd_fifo (demo_ctrd None) (sp_stdout ?io) demo_dm = Readable (map Chunk [''a''] @ Quiet # [Chunk ''b''])"
    by (simp add: demo_ctrd_def)
  from run_output_until_gap [OF run this] run show ?thesis by (simp add: demo_ctrd_def)
qed

lemma is_newer_trans:
  "is_newer (Some (n, t')) u \<Longrightarrow> is_newer (Some (m, t)) t' \<Longrightarrow> is_newer (Some (m, t)) u"
  by (cases t; cases t'; cases u) auto

lemma is_newer_irrefl: "\<not> is_newer (Some (n, t)) t"
  by (cases t) auto

lemma best_snapshot_snoc:
  "best_snapshot (is @ [i]) = (if is_layer i \<and> is_newer (best_snapshot is) (sn_created_at i)
     then Some (sn_name i, sn_created_at i) else best_snapshot is)"
  by (simp add: best_snapshot_def)

lemma best_snapshot_spec:
  "(best_snapshot is = None \<longleftrightarrow> (\<forall>i \<in> set is. \<not> is_layer i)) \<and>
   (\<forall>n t. best_snapshot is = Some (n, t) \<longrightarrow> (\<exists>i \<in> set is. is_layer i \<and> sn_name i = n \<and> sn_created_at i = t) \<and>
      (\<forall>j \<in> set is. is_layer j \<longrightarrow> \<not> is_newer (Some (n, t)) (sn_created_at j)))"
proof (induction "is" rule: rev_induct)
  case Nil
  show ?case by (simp add: best_snapshot_def)
next
  case (snoc i "is")
  show ?case
  proof (cases "is_layer i \<and> is_newer (best_snapshot is) (sn_created_at i)")
    case True
    show ?thesis
    proof (cases "best_snapshot is")
      case None
      with True snoc.IH show ?thesis by (auto simp: best_snapshot_snoc is_newer_irrefl)
    next
      case (Some b)
      with True snoc.IH show ?thesis
        by (cases b) (auto simp: best_snapshot_snoc is_newer_irrefl; blast dest: is_newer_trans)
    qed
  next
    case False
    with snoc.IH show ?thesis by (cases "best_snapshot is") (auto simp: best_snapshot_snoc)
  qed
qed

text \<open>
  The parent of an agent's files is a newest layer among all the committed snapshots the daemon
  lists, up to the first failure of the stream; which image the executor is configured with plays no part.
\<close>

theorem newest_layer_of_any_image:
  assumes "cd_list_snapshots D s = (s', Inr stream)"
  shows "(\<forall>i \<in> set (listed stream). \<not> is_layer i) \<and> \<not> is_ok (snd (find_image_snapshot_parent D X s)) \<or>
    (\<exists>i \<in> set (listed stream). is_layer i \<and>
       (\<forall>j \<in> set (listed stream). is_layer j \<longrightarrow> \<not> is_newer (Some (sn_name i, sn_created_at i)) (sn_created_at j)) \<and>
       (\<forall>name. find_image_snapshot_parent D (X\<lparr>ce_image := name\<rparr>) s = (s', Inr (sn_name i))))"
proof -
  let ?l = "listed stream"
  have find: "find_image_snapshot_parent D Y s = (s', ok_or (map_option fst (best_snapshot ?l))
       (Io (''no committed snapshot found for image '' @ ce_image Y @ ''. Is the image unpacked?'')))" for Y
    using assms by (simp add: find_image_snapshot_parent_def step_defs ctrd_call_def)
  show ?thesis
  proof (cases "best_snapshot ?l")
    case None
    with best_snapshot_spec [of ?l] find show ?thesis by simp
  next
    case (Some b)
    with best_snapshot_spec [of ?l] obtain i where "i \<in> set ?l" "is_layer i" "b = (sn_name i, sn_created_at i)"
      "\<forall>j \<in> set ?l. is_layer j \<longrightarrow> \<not> is_newer (Some (sn_name i, sn_created_at i)) (sn_created_at j)"
      by (cases b) blast
    with Some find show ?thesis by auto
  qed
qed

theorem newest_layer_of_any_image_witness:
  "find_image_snapshot_parent (demo_ctrd None) (demo_exec\<lparr>ce_image := ''alpine''\<rparr>) demo_dm = (demo_dm, Inr ''sha256:1'')"
proof -
  let ?l = "\<lparr>sn_name = ''sha256:1'', sn_kind = 3, sn_created_at = None\<rparr>"
  have "cd_list_snapshots (demo_ctrd None) demo_dm = (demo_dm, Inr [Inr [?l]])"
    by (simp add: demo_ctrd_def ret_def)
  from newest_layer_of_any_image [OF this, of demo_exec] show ?thesis
    by (auto simp: listed_def is_layer_def starts_with_def)
qed

section \<open>Many agents\<close>

text \<open>
  Everything the executor is asked for, by any agent and in any order. Other clients of the daemon
  are not part of the program.
\<close>

datatype ctrd_event =
    Ensures faults string "fpath option"
  | Runs faults string string string
  | Removes string

definition settled :: "string \<Rightarrow> bool \<Rightarrow> daemon \<Rightarrow> bool" where
  "settled x on v \<longleftrightarrow> x \<in> dm_containers v \<and> x \<in> dm_tasks v \<and> (x \<in> dm_running v \<longleftrightarrow> on)"

definition up :: "string \<Rightarrow> daemon \<Rightarrow> bool" where
  "up x v \<longleftrightarrow> x \<in> dm_containers v \<and> x \<in> dm_tasks v \<and> x \<in> dm_running v"

lemma up_settled: "up x v \<longleftrightarrow> settled x True v"
  by (simp add: up_def settled_def)

end
