(* ===== verification/Logos_Boot.thy ===== *)
theory Logos_Boot
  imports Logos_Kernel Logos_Store Logos_Containerd
begin

text \<open>
  The boot of \<open>logos-kernel/src/main.rs\<close>: what it reads from the environment, the components it makes
  one after the other (the session store on disk of \<open>Logos_Store\<close>, the executor of
  \<open>Logos_Containerd\<close>, the browser's server of \<open>Logos_Web\<close>), and where it serves.
\<close>

section \<open>The environment\<close>

text \<open>
  The process: its variables and those of the \<open>.env\<close> file beside the sources, which does not
  replace any; its directories; and what is outside of the repository.
\<close>

record ('d, 'v, 's) boot_env =
  be_vars :: "string \<Rightarrow> string option"
  be_dotenv :: "string \<Rightarrow> string option"
  be_manifest :: fpath
  be_cwd :: fpath
  be_sandbox :: sandbox_setup
  be_lance_dir :: "'d lance_dir"
  be_lance :: "('d, 'v) lance"
  be_ollama :: "'v ollama"
  be_browser :: "'s browser"
  be_yaml :: "string \<Rightarrow> json option"

definition load_env :: "('d, 'v, 's) boot_env \<Rightarrow> string \<Rightarrow> string option" where
  "load_env E key = (case be_vars E key of Some v \<Rightarrow> Some v | None \<Rightarrow> be_dotenv E key)"

definition env_str :: "('d, 'v, 's) boot_env \<Rightarrow> string \<Rightarrow> string \<Rightarrow> string" where
  "env_str E key dflt = opt_or (load_env E key) dflt"



section \<open>The components\<close>







section \<open>The sequence\<close>


section \<open>Serving\<close>

definition parse_uds_path :: "string \<Rightarrow> string option" where
  "parse_uds_path listen =
     Option.bind (case strip_prefix ''unix://'' listen of Some p \<Rightarrow> Some p | None \<Rightarrow> strip_prefix ''unix:'' listen)
       (\<lambda>path. if path = [] then None else Some path)"

definition prepare_unix_socket :: "faults \<Rightarrow> fpath \<Rightarrow> (tree, io_error, unit) step" where
  "prepare_unix_socket flt socket_path =
     andthen (case path_parent socket_path of
         Some parent \<Rightarrow> stmt flt ''mkdir'' EOther (create_dir_all parent)
       | None \<Rightarrow> ret ()) (\<lambda>_ fs.
     (case flt [''remove''] of
        Some e \<Rightarrow> (fs, Inl (EOther e))
      | None \<Rightarrow>
          (case walk fs [] socket_path of
             Inl ENOENT \<Rightarrow> (fs, Inr ())
           | Inl e \<Rightarrow> (fs, Inl e)
           | Inr q \<Rightarrow>
               (case fs q of
                  None \<Rightarrow> (fs, Inr ())
                | Some Dir \<Rightarrow> (fs, Inl EISDIR)
                | Some (File _) \<Rightarrow> (fs(q := None), Inr ())))))"

datatype endpoint = UnixSocket fpath | Tcp string
datatype serve_error = SocketError io_error | AddressError string

text \<open>
  \<open>bind_at\<close> makes the socket's file and listens; \<open>parse_addr\<close> is the check of a socket address.
\<close>

definition kernel_serve ::
  "('d, 'v, 's) boot_env \<Rightarrow> faults \<Rightarrow> (fpath \<Rightarrow> (tree, io_error, unit) step) \<Rightarrow> (string \<Rightarrow> string + unit) \<Rightarrow> fpath \<Rightarrow>
   (('f, 'g, 'd, 's) kernel, serve_error, endpoint) step" where
  "kernel_serve E flt bind_at parse_addr sandbox_root k =
     (let listen = env_str E ''VFS_LISTEN'' (''unix://'' @ path_display sandbox_root @ ''/logos.sock'') in
      case parse_uds_path listen of
        Some path \<Rightarrow>
          (let socket_path = path_join (be_cwd E) path in
           case zoom tree_lens (andthen (prepare_unix_socket flt socket_path) (\<lambda>_. bind_at socket_path)) k of
             (k', r) \<Rightarrow> (k', case r of Inl e \<Rightarrow> Inl (SocketError e) | Inr _ \<Rightarrow> Inr (UnixSocket socket_path)))
      | None \<Rightarrow> (k, case parse_addr listen of Inl e \<Rightarrow> Inl (AddressError e) | Inr _ \<Rightarrow> Inr (Tcp listen)))"

section \<open>The boot keeps the databases\<close>













section \<open>Properties\<close>


text \<open>A boot on directories that are there, on a host without containerd
  and without a browser, with the two stores unreadable.\<close>

definition demo_boot_core :: "((nat \<times> string list) list, unit, unit, unit) core" where
  "demo_boot_core = (demo_core [demo_task ''t'' ''active''])\<lparr>co_sandbox :=
     \<lparr>sb_fs = (\<lambda>p. if p \<in> {[], [''u''], [''p''], [''v''], [''r'']} then Some Dir else None),
      sb_containers = Map.empty, sb_task_agent = Map.empty\<rparr>\<rparr>"


definition demo_no_ctrd :: "tree ctrd" where
  "demo_no_ctrd =
     \<lparr>cd_tree = \<lparr>lget = (\<lambda>s. s), lput = (\<lambda>t s. t)\<rparr>,
      cd_connect = (\<lambda>_. fail []), cd_version = (\<lambda>_. fail []),
      cd_get_container = (\<lambda>_. fail []), cd_delete_container = (\<lambda>_. fail []), cd_create_container = (\<lambda>_. fail []),
      cd_get_task = (\<lambda>_. fail []), cd_create_task = (\<lambda>_ _ _. fail []), cd_start = (\<lambda>_ _. fail []),
      cd_exec = (\<lambda>_ _ _ _. fail []), cd_wait = (\<lambda>_ _. fail []), cd_kill = (\<lambda>_ _. fail []),
      cd_delete_task = (\<lambda>_. fail []), cd_get_image = (\<lambda>_. fail []), cd_transfer = (\<lambda>_ _. fail []),
      cd_list_snapshots = fail [], cd_mounts = (\<lambda>_. fail []), cd_remove_snapshot = (\<lambda>_. fail []),
      cd_prepare = (\<lambda>_ _. fail []), cd_mkfifo = (\<lambda>_. fail []), cd_fifo = (\<lambda>_ _. Unopened),
      cd_nanos = (\<lambda>_. 0), cd_lossy = (\<lambda>t. t)\<rparr>"

definition demo_boot_env :: "(unit, nat, unit) boot_env" where
  "demo_boot_env =
     \<lparr>be_vars = map_of [(''VFS_USERS_ROOT'', ''/u''), (''VFS_MEMORY_ROOT'', ''/m''), (''VFS_SYSTEM_DB'', ''/u/system.db''), (''VFS_SANDBOX_ROOT'', ''/r''),
        (''VFS_PROC_STORE_ROOT'', ''/p''), (''VFS_SVC_STORE_ROOT'', ''/v''), (''SANDBOX_MODE'', ''host'')],
      be_dotenv = Map.empty, be_manifest = [''k''], be_cwd = [],
      be_sandbox = \<lparr>su_shell = (\<lambda>_ _ fs. (fs, Inl ''no shell'')), su_ctrd = demo_no_ctrd, su_exec = demo_exec\<rparr>,
      be_lance_dir = \<lparr>ld_connect = (\<lambda>_ _. Inl ''offline''), ld_table_names = (\<lambda>_. Inr []), ld_create_empty = (\<lambda>_ _ d. Inr d)\<rparr>,
      be_lance = \<lparr>lc_open = (\<lambda>_ _. Inl []), lc_delete = (\<lambda>_ _ d. Inl []), lc_select = (\<lambda>_ _ _. Inl []),
        lc_nearest = (\<lambda>_ _ _ _. Inl []), lc_batch = (\<lambda>_ _. Inl []), lc_add = (\<lambda>_ _ d. Inl []), lc_embed = (\<lambda>_. Inr []),
        lc_ser = (\<lambda>_. Inl []), lc_deser = (\<lambda>_. Inl []), lc_rfc3339 = (\<lambda>_. []), lc_dim = 0\<rparr>,
      be_ollama = demo_ollama, be_browser = \<lparr>br_start = fail ''not installed'', br_health = ret ()\<rparr>,
      be_yaml = (\<lambda>_. None)\<rparr>"













lemma default_listen:
  assumes "\<forall>w \<in> set root. seg_ok w"
  shows "parse_uds_path (''unix://'' @ path_display root @ ''/logos.sock'') = Some (path_display root @ ''/logos.sock'')"
    and "path_join cwd (path_display root @ ''/logos.sock'') = root @ [''logos.sock'']"
proof -
  show "parse_uds_path (''unix://'' @ path_display root @ ''/logos.sock'') = Some (path_display root @ ''/logos.sock'')"
    by (simp add: parse_uds_path_def path_display_def)
  have "uri_segments (path_display root @ ''/logos.sock'') = root @ [''logos.sock'']"
    using uri_segments_append_slash [of "path_display root" "''logos.sock''"] uri_segments_join [OF assms]
      uri_segments_word [of "''logos.sock''"]
    by (simp add: path_display_def seg_ok_def)
  then show "path_join cwd (path_display root @ ''/logos.sock'') = root @ [''logos.sock'']"
    by (simp add: path_join_def path_display_def starts_with_def)
qed

lemma serve_default:
  assumes "\<forall>w \<in> set root. seg_ok w" and "load_env E ''VFS_LISTEN'' = None"
  shows "kernel_serve E flt bind_at parse_addr root k =
    (case zoom tree_lens (andthen (prepare_unix_socket flt (root @ [''logos.sock'']))
        (\<lambda>_. bind_at (root @ [''logos.sock'']))) k of
       (k', r) \<Rightarrow> (k', case r of Inl e \<Rightarrow> Inl (SocketError e) | Inr _ \<Rightarrow> Inr (UnixSocket (root @ [''logos.sock'']))))"
  unfolding kernel_serve_def Let_def env_str_def assms(2) opt_or_simps default_listen [OF assms(1)] option.case ..

text \<open>
  The default socket reaches the agents. A kernel that serves where no variable says otherwise
  serves on \<open>logos.sock\<close> in the sandbox's directory, and every container made from then on, while
  the socket is there, is made with it.
\<close>

theorem served_socket_reaches_agents:
  assumes "\<forall>w \<in> set root. seg_ok w" and "load_env E ''VFS_LISTEN'' = None"
    and "\<forall>p fs fs'. bind_at p fs = (fs', Inr ()) \<longrightarrow> path_exists p fs'"
    and "kernel_serve E flt bind_at parse_addr root k = (k', Inr ep)"
    and "sb_containers (lget sandbox_lens k') a = None"
    and "ex_ensure ex a True (lget tree_lens k') = (fs, Inr info)"
  shows "ep = UnixSocket (root @ [''logos.sock'']) \<and>
    ensure_container ex root a (lget sandbox_lens k') =
      ((lget sandbox_lens k')\<lparr>sb_fs := fs, sb_containers := (sb_containers (lget sandbox_lens k'))(a \<mapsto> info)\<rparr>, Inr info)"
proof -
  let ?p = "root @ [''logos.sock'']"
  from assms(4) obtain fs0 r where run: "andthen (prepare_unix_socket flt ?p) (\<lambda>_. bind_at ?p) (lget tree_lens k) = (fs0, r)"
    and k': "k' = lput tree_lens fs0 k" and r: "r = Inr ()" and ep: "ep = UnixSocket ?p"
    by (auto simp: serve_default [OF assms(1,2)] zoom_def split: prod.splits sum.splits)
  from run r obtain fs1 where "bind_at ?p fs1 = (fs0, Inr ())" by (auto elim: andthen_InrE)
  with assms(3) have "path_exists ?p fs0" by blast
  moreover have tree: "lget tree_lens k' = fs0" unfolding k' by (rule lens_okD(1) [OF kernel_lenses(9)])
  moreover have "sb_fs (lget sandbox_lens k') = lget tree_lens k'" by (simp add: tree_lens_def compose_lens_def fs_lens_def)
  moreover have "path_join root ''logos.sock'' = ?p"
    by (simp add: path_join_def starts_with_def uri_segments_word seg_ok_def)
  ultimately show ?thesis
    using ep assms(5,6) by (simp add: ensure_container_def on_fs_def andthen_def modify_def ret_def)
qed

definition demo_bind :: "fpath \<Rightarrow> (tree, io_error, unit) step" where
  "demo_bind p fs = (if path_exists p (fs(p \<mapsto> File [])) then (fs(p \<mapsto> File []), Inr ()) else (fs, Inl ENOENT))"

lemma demo_serve:
  "\<exists>k'. kernel_serve demo_boot_env no_faults demo_bind (\<lambda>_. Inl ''no address'') [''r''] (kernel_new demo_boot_core)
     = (k', Inr (UnixSocket [''r'', ''logos.sock''])) \<and> sb_containers (lget sandbox_lens k') ''a'' = None"
proof -
  have tree: "lget tree_lens (kernel_new demo_boot_core) = sb_fs (co_sandbox demo_boot_core)"
    by (simp add: kernel_new_def kernel_parts)
  have "create_dir_all [''r''] (sb_fs (co_sandbox demo_boot_core)) = (sb_fs (co_sandbox demo_boot_core), Inr ())"
    by (rule create_dir_all_there) (auto simp: seg_ok_def dirs_to_def demo_boot_core_def take_Cons')
  then have "\<exists>fs. andthen (prepare_unix_socket no_faults [''r'', ''logos.sock'']) (\<lambda>_. demo_bind [''r'', ''logos.sock''])
      (sb_fs (co_sandbox demo_boot_core)) = (fs, Inr ())"
    by (simp add: prepare_unix_socket_def path_parent_def andthen_def)
      (simp add: demo_boot_core_def demo_bind_def enter_def no_faults_def path_exists_def)
  then obtain fs where fs: "andthen (prepare_unix_socket no_faults [''r'', ''logos.sock'']) (\<lambda>_. demo_bind [''r'', ''logos.sock''])
      (sb_fs (co_sandbox demo_boot_core)) = (fs, Inr ())" by blast
  have "load_env demo_boot_env ''VFS_LISTEN'' = None" by (simp add: load_env_def demo_boot_env_def)
  then have "kernel_serve demo_boot_env no_faults demo_bind (\<lambda>_. Inl ''no address'') [''r''] (kernel_new demo_boot_core)
      = (lput tree_lens fs (kernel_new demo_boot_core), Inr (UnixSocket [''r'', ''logos.sock'']))"
    by (simp add: serve_default seg_ok_def zoom_def tree fs)
  moreover have "sb_containers (lget sandbox_lens (lput tree_lens fs (kernel_new demo_boot_core))) ''a'' = None"
    by (simp add: kernel_new_def kernel_parts demo_boot_core_def)
  ultimately show ?thesis by blast
qed

theorem served_socket_reaches_agents_witness:
  "\<exists>k'. kernel_serve demo_boot_env no_faults demo_bind (\<lambda>_. Inl ''no address'') [''r''] (kernel_new demo_boot_core)
     = (k', Inr (UnixSocket [''r'', ''logos.sock''])) \<and>
     sb_containers (fst (ensure_container \<lparr>ex_ensure = (\<lambda>a sock fs. (fs, if sock
          then Inr \<lparr>ci_container_id = a, ci_host_path = []\<rparr> else Inl (Io ''no socket''))),
        ex_exec = (\<lambda>_ _ _. fail (Io [])), ex_remove = (\<lambda>_. ret ())\<rparr> [''r''] ''a'' (lget sandbox_lens k'))) ''a''
      = Some \<lparr>ci_container_id = ''a'', ci_host_path = []\<rparr>"
proof -
  let ?ex = "\<lparr>ex_ensure = (\<lambda>a sock fs. (fs, if sock
          then Inr \<lparr>ci_container_id = a, ci_host_path = []\<rparr> else Inl (Io ''no socket''))),
        ex_exec = (\<lambda>_ _ _. fail (Io [])), ex_remove = (\<lambda>_. ret ())\<rparr>"
  obtain k' where run: "kernel_serve demo_boot_env no_faults demo_bind (\<lambda>_. Inl ''no address'') [''r'']
      (kernel_new demo_boot_core) = (k', Inr (UnixSocket [''r'', ''logos.sock'']))"
    and none: "sb_containers (lget sandbox_lens k') ''a'' = None" using demo_serve by blast
  have env: "load_env demo_boot_env ''VFS_LISTEN'' = None" by (simp add: load_env_def demo_boot_env_def)
  have bind: "\<forall>p fs fs'. demo_bind p fs = (fs', Inr ()) \<longrightarrow> path_exists p fs'"
    by (simp add: demo_bind_def split: if_splits)
  from served_socket_reaches_agents [OF _ env bind run none, of ?ex] run show ?thesis by (simp add: seg_ok_def)
qed

end
