(* ===== verification/Logos_Interleave.thy ===== *)
theory Logos_Interleave
  imports Logos_Sql
begin

text \<open>
  Handlers that run at the same time. A request is a sequence of atomic steps (a statement of the
  database, a section under a lock, a call of the file system), and between two steps of one request the steps
  of others may happen: every \<open>.await\<close> of the sources is such a place. A \<open>prog\<close> is what is left of an
  operation, as data; \<open>run\<close> is the operation alone, a step of the kind the other theories use;
  \<open>interleave\<close> is a number of clients under a schedule.
\<close>

section \<open>Operations as sequences of atomic steps\<close>

datatype ('s, 'e, 'a) prog =
    Done "'e + 'a"
  | Step "'s \<Rightarrow> 's \<times> ('s, 'e, 'a) prog"

primrec run :: "('s, 'e, 'a) prog \<Rightarrow> ('s, 'e, 'a) step" where
  "run (Done r) = (\<lambda>s. (s, r))"
| "run (Step f) = (\<lambda>s. case map_prod id run (f s) of (s', m) \<Rightarrow> m s')"

definition atom :: "('s, 'e, 'a) step \<Rightarrow> ('s, 'e, 'a) prog" where
  "atom m = Step (\<lambda>s. case m s of (s', r) \<Rightarrow> (s', Done r))"

primrec attemptp ::
  "('s, 'e, 'a) prog \<Rightarrow> ('e + 'a \<Rightarrow> ('s, 'f, 'b) prog) \<Rightarrow> ('s, 'f, 'b) prog" where
  "attemptp (Done r) k = k r"
| "attemptp (Step f) k = Step (\<lambda>s. map_prod id (\<lambda>p. attemptp p k) (f s))"

definition bindp ::
  "('s, 'e, 'a) prog \<Rightarrow> ('a \<Rightarrow> ('s, 'e, 'b) prog) \<Rightarrow> ('s, 'e, 'b) prog" where
  "bindp p k = attemptp p (\<lambda>r. case r of Inl e \<Rightarrow> Done (Inl e) | Inr a \<Rightarrow> k a)"

definition retp :: "'a \<Rightarrow> ('s, 'e, 'a) prog" where
  "retp a = Done (Inr a)"

definition failp :: "'e \<Rightarrow> ('s, 'e, 'a) prog" where
  "failp e = Done (Inl e)"

definition ignorep :: "('s, 'e, 'a) prog \<Rightarrow> ('s, 'f, unit) prog" where
  "ignorep p = attemptp p (\<lambda>_. retp ())"

named_theorems run_simps \<open>an operation alone is the step of the other theories\<close>

lemma run_basic [run_simps]:
  "run (Done r) = lift_result r" "run (retp a) = ret a" "run (failp e) = fail e" "run (atom m) = m"
  by (simp_all add: fun_eq_iff retp_def failp_def atom_def step_defs split: prod.splits)

lemma run_attemptp [run_simps]: "run (attemptp p k) = attempt (run p) (\<lambda>r. run (k r))"
proof (induction p)
  case (Step f)
  show ?case
  proof
    fix s
    obtain s' p where f: "f s = (s', p)" by fastforce
    have "run (attemptp p k) = attempt (run p) (\<lambda>r. run (k r))"
      by (rule Step [of "f s"]) (simp_all add: f rangeI [of f s, unfolded f] snds.intros)
    then show "run (attemptp (Step f) k) s = attempt (run (Step f)) (\<lambda>r. run (k r)) s"
      by (simp add: f attempt_def)
  qed
qed (simp add: fun_eq_iff step_defs)

lemma run_bindp [run_simps]: "run (bindp p k) = andthen (run p) (\<lambda>a. run (k a))"
  unfolding bindp_def run_attemptp
  by (auto simp: fun_eq_iff attempt_def andthen_def split: prod.splits sum.splits)

declare run.simps [simp del]

lemma run_ignorep [run_simps]: "run (ignorep p) = attempt (run p) (\<lambda>_. ret ())"
  by (simp add: ignorep_def run_simps)

lemma run_cases [run_simps]:
  "run (if b then p else q) = (if b then run p else run q)"
  "run (case x of None \<Rightarrow> p | Some a \<Rightarrow> f a) = (case x of None \<Rightarrow> run p | Some a \<Rightarrow> run (f a))"
  "run (case l of [] \<Rightarrow> p | y # ys \<Rightarrow> g y ys) = (case l of [] \<Rightarrow> run p | y # ys \<Rightarrow> run (g y ys))"
  "run (case r of Inl e \<Rightarrow> h e | Inr a \<Rightarrow> k a) = (case r of Inl e \<Rightarrow> run (h e) | Inr a \<Rightarrow> run (k a))"
  "run (case t of (c, d) \<Rightarrow> w c d) = (case t of (c, d) \<Rightarrow> run (w c d))"
  by (simp_all split: option.splits list.splits sum.splits prod.splits)

section \<open>Schedules\<close>

text \<open>
  The clients are numbered; a schedule names the client of each step. A client that has ended does
  nothing more.
\<close>

type_synonym ('s, 'e, 'a) clients = "nat \<Rightarrow> ('s, 'e, 'a) prog"

fun sched_step :: "'s \<times> ('s, 'e, 'a) clients \<Rightarrow> nat \<Rightarrow> 's \<times> ('s, 'e, 'a) clients" where
  "sched_step (s, ps) i =
     (case ps i of
        Done r \<Rightarrow> (s, ps)
      | Step f \<Rightarrow> (case f s of (s', p) \<Rightarrow> (s', ps(i := p))))"

definition interleave :: "nat list \<Rightarrow> ('s, 'e, 'a) clients \<Rightarrow> 's \<Rightarrow> 's \<times> ('s, 'e, 'a) clients" where
  "interleave sched ps s = foldl sched_step (s, ps) sched"

lemma interleave_simps [simp]:
  "interleave [] ps s = (s, ps)"
  "interleave (i # is) ps s = (case sched_step (s, ps) i of (s', ps') \<Rightarrow> interleave is ps' s')"
  by (simp_all add: interleave_def split: prod.splits)

lemma interleave_append:
  "interleave (xs @ ys) ps s = (case interleave xs ps s of (s', ps') \<Rightarrow> interleave ys ps' s')"
  by (simp add: interleave_def split: prod.splits)

lemma interleave_unscheduled: "interleave sched ps s = (s', ps') \<Longrightarrow> i \<notin> set sched \<Longrightarrow> ps' i = ps i"
proof (induction sched arbitrary: s ps)
  case (Cons j sched)
  obtain s1 ps1 where 1: "sched_step (s, ps) j = (s1, ps1)" by fastforce
  then have "ps1 i = ps i" using Cons.prems(2) by (auto split: prog.splits prod.splits)
  with Cons 1 show ?case by auto
qed simp

text \<open>The requests of one client, one after the other; what a request answers is the client's own.\<close>

fun in_turn :: "('s, 'e, 'a) prog list \<Rightarrow> ('s, 'e, unit) prog" where
  "in_turn [] = retp ()"
| "in_turn (p # ps) = attemptp p (\<lambda>_. in_turn ps)"

lemma run_in_turn: "fst (run (in_turn ps) s) = foldl (\<lambda>s p. fst (run p s)) s ps"
  by (induction ps arbitrary: s) (auto simp: run_simps ret_def attempt_def split: prod.splits)

text \<open>The next step of a program, for running schedules.\<close>

fun next_step :: "('s, 'e, 'a) prog \<Rightarrow> 's \<Rightarrow> 's \<times> ('s, 'e, 'a) prog" where
  "next_step (Done r) s = (s, Done r)"
| "next_step (Step f) s = f s"

lemma sched_next: "sched_step (s, ps) i = (case next_step (ps i) s of (s', p) \<Rightarrow> (s', ps(i := p)))"
  by (cases "ps i") (simp_all add: fun_upd_idem)

lemma attemptp_simps [simp]:
  "attemptp (retp a) k = k (Inr a)" "attemptp (failp e) k = k (Inl e)"
  "bindp (retp a) h = h a" "bindp (failp e) h = failp e"
  by (simp_all add: retp_def failp_def bindp_def)

lemma ignorep_simps [simp]: "ignorep (retp a) = retp ()" "ignorep (failp e) = retp ()"
  by (simp_all add: ignorep_def)

definition live :: "('s, 'e, 'a) prog \<Rightarrow> bool" where
  "live p \<longleftrightarrow> (\<exists>f. p = Step f)"

lemma live_simps [simp]:
  "live (atom m)" "live p \<Longrightarrow> live (attemptp p k)" "live p \<Longrightarrow> live (bindp p h)" "live p \<Longrightarrow> live (ignorep p)"
  by (auto simp: live_def atom_def bindp_def ignorep_def)

named_theorems next_simps \<open>the next step of a program and what is left\<close>

lemma next_basic [next_simps]:
  "next_step (retp a) s = (s, retp a)" "next_step (failp e) s = (s, failp e)"
  "m s = (s', Inr a) \<Longrightarrow> next_step (atom m) s = (s', retp a)"
  "m s = (s', Inl e) \<Longrightarrow> next_step (atom m) s = (s', failp e)"
  "next_step (atom (query f)) s = (s, retp (f s))"
  by (simp_all add: retp_def failp_def atom_def query_def)

lemma next_compose [next_simps]:
  "live p \<Longrightarrow> next_step (attemptp p k) s = (case next_step p s of (s', p') \<Rightarrow> (s', attemptp p' k))"
  "live p \<Longrightarrow> next_step (bindp p h) s = (case next_step p s of (s', p') \<Rightarrow> (s', bindp p' h))"
  "live p \<Longrightarrow> next_step (ignorep p) s = (case next_step p s of (s', p') \<Rightarrow> (s', ignorep p'))"
  by (auto simp: live_def bindp_def ignorep_def map_prod_def split: prod.splits)

fun next_steps :: "nat \<Rightarrow> ('s, 'e, 'a) prog \<Rightarrow> 's \<Rightarrow> 's \<times> ('s, 'e, 'a) prog" where
  "next_steps 0 p s = (s, p)"
| "next_steps (Suc n) p s = (case next_step p s of (s', p') \<Rightarrow> next_steps n p' s')"

lemma next_steps_add:
  "next_steps (m + n) p s = (case next_steps m p s of (s', p') \<Rightarrow> next_steps n p' s')"
  by (induction m arbitrary: p s) (auto split: prod.splits)

lemma sched_steps:
  "next_steps n (ps i) s = (s', p') \<Longrightarrow> interleave (replicate n i @ sched) ps s = interleave sched (ps(i := p')) s'"
  by (induction n arbitrary: s ps) (auto simp: sched_next simp del: sched_step.simps split: prod.splits)

text \<open>A program that tells whether it succeeded.\<close>

definition okp :: "('s, 'e, 'a) prog \<Rightarrow> ('s, 'f, bool) prog" where
  "okp p = attemptp p (\<lambda>r. retp (is_ok r))"

lemma okp_simps [simp]: "okp (retp a) = retp True" "okp (failp e) = retp False"
  by (simp_all add: okp_def)

lemma next_okp [next_simps]:
  "live p \<Longrightarrow> next_step (okp p) s = (case next_step p s of (s', p') \<Rightarrow> (s', okp p'))"
  by (simp add: okp_def next_simps)

text \<open>Two clients among others that are not scheduled.\<close>

lemma sched_two:
  "next_step p s = (s', p') \<Longrightarrow> sched_step (s, ps(0 := p, Suc 0 := q)) 0 = (s', ps(0 := p', Suc 0 := q))"
  "next_step q s = (s', q') \<Longrightarrow> sched_step (s, ps(0 := p, Suc 0 := q)) (Suc 0) = (s', ps(0 := p, Suc 0 := q'))"
  by (simp_all add: sched_next fun_upd_twist del: sched_step.simps)

lemma sched_two_steps:
  "next_steps n p s = (s', p') \<Longrightarrow>
     interleave (replicate n 0 @ sched) (ps(0 := p, Suc 0 := q)) s = interleave sched (ps(0 := p', Suc 0 := q)) s'"
  "next_steps n q s = (s', q') \<Longrightarrow>
     interleave (replicate n (Suc 0) @ sched) (ps(0 := p, Suc 0 := q)) s = interleave sched (ps(0 := p, Suc 0 := q')) s'"
  "next_steps n q s = (s', q') \<Longrightarrow>
     interleave (replicate n (Suc 0)) (ps(0 := p, Suc 0 := q)) s = (s', ps(0 := p, Suc 0 := q'))"
  using sched_steps [of n "ps(0 := p, Suc 0 := q)" 0 s s' p' sched]
    sched_steps [of n "ps(0 := p, Suc 0 := q)" "Suc 0" s s' q']
    sched_steps [of n "ps(0 := p, Suc 0 := q)" "Suc 0" s s' q' "[]"]
  by (simp_all add: fun_upd_twist)

text \<open>A client scheduled without interruption ends, with what its operation does alone.\<close>

lemma run_Step: "f s = (s', p) \<Longrightarrow> run (Step f) s = run p s'"
  by (simp add: run.simps)

lemma uninterrupted_prog:
  "\<exists>n. \<forall>m \<ge> n. interleave (replicate m i) (ps(i := p)) s = (fst (run p s), ps(i := Done (snd (run p s))))"
proof (induction p arbitrary: s)
  case (Done r)
  have "interleave (replicate m i) (ps(i := Done r)) s = (s, ps(i := Done r))" for m
    by (induction m) simp_all
  then show ?case unfolding run.simps fst_conv snd_conv by blast
next
  case (Step f)
  obtain s' p where f: "f s = (s', p)" by fastforce
  have "p \<in> Basic_BNFs.snds (f s)" by (simp add: f snds.intros)
  from Step [OF rangeI this, of s'] obtain n where
    n: "\<forall>m \<ge> n. interleave (replicate m i) (ps(i := p)) s' = (fst (run p s'), ps(i := Done (snd (run p s'))))" ..
  have "interleave (replicate (Suc m) i) (ps(i := Step f)) s = interleave (replicate m i) (ps(i := p)) s'" for m
    by (simp add: f)
  then show ?case
    using n unfolding run_Step [of f s, OF f] by (intro exI [of _ "Suc n"] allI impI) (metis Suc_le_D Suc_le_mono)
qed

lemma uninterrupted:
  "\<exists>n. \<forall>m \<ge> n. interleave (replicate m i) ps s = (fst (run (ps i) s), ps(i := Done (snd (run (ps i) s))))"
  using uninterrupted_prog [of i ps "ps i" s] by simp

text \<open>Where some steps of a program alone lead; a part of it that runs to its end is \<open>run\<close>.\<close>

definition leads :: "('s, 'e, 'a) prog \<Rightarrow> 's \<Rightarrow> 's \<Rightarrow> ('s, 'e, 'a) prog \<Rightarrow> bool" where
  "leads p s s' q \<longleftrightarrow> (\<exists>n. next_steps n p s = (s', q))"

lemma leads_refl: "leads p s s p"
  unfolding leads_def by (rule exI [of _ 0]) simp

lemma leads_trans: "leads p s s1 p1 \<Longrightarrow> leads p1 s1 s2 p2 \<Longrightarrow> leads p s s2 p2"
  unfolding leads_def by (metis (no_types, lifting) next_steps_add case_prod_conv)

lemma leads_attemptp: "run p s = (s', r) \<Longrightarrow> leads (attemptp p k) s s' (k r)"
proof (induction p arbitrary: s)
  case (Done r')
  then show ?case using leads_refl by (simp add: run.simps)
next
  case (Step f)
  obtain s1 p where f: "f s = (s1, p)" by fastforce
  have "p \<in> Basic_BNFs.snds (f s)" by (simp add: f snds.intros)
  from Step.IH [OF rangeI this] Step.prems have "leads (attemptp p k) s1 s' (k r)"
    by (simp add: run.simps f)
  then show ?case
    unfolding leads_def by (elim exE) (rule_tac x = "Suc n" in exI, simp add: f)
qed

lemma leads_bindp: "run p s = (s', Inr a) \<Longrightarrow> leads (bindp p k) s s' (k a)"
  using leads_attemptp [of p s s' "Inr a" "\<lambda>r. case r of Inl e \<Rightarrow> Done (Inl e) | Inr a \<Rightarrow> k a"] by (simp add: bindp_def)

lemma leads_into:
  "run p s = (s1, r) \<Longrightarrow> leads (h r) s1 s' q \<Longrightarrow> leads (attemptp p h) s s' q"
  "run p' s = (s1, Inr a) \<Longrightarrow> leads (k a) s1 s' q \<Longrightarrow> leads (bindp p' k) s s' q"
  by (blast intro: leads_trans leads_attemptp leads_bindp)+

lemma leads_alone: "leads (ps i) s s' p \<Longrightarrow> \<exists>n. interleave (replicate n i) ps s = (s', ps(i := p))"
  unfolding leads_def using sched_steps [of _ ps i s s' p "[]"] by auto

section \<open>Rely and guarantee\<close>

text \<open>
  A program under a rely \<open>R\<close> keeps to a guarantee \<open>G\<close> from a state: whatever the others did before
  a step, as long as it was within \<open>R\<close>, the step is within \<open>G\<close>.
\<close>

primrec abides :: "('s \<Rightarrow> 's \<Rightarrow> bool) \<Rightarrow> ('s \<Rightarrow> 's \<Rightarrow> bool) \<Rightarrow> ('s, 'e, 'a) prog \<Rightarrow> 's \<Rightarrow> bool" where
  "abides R G (Done r) = (\<lambda>s. True)"
| "abides R G (Step f) = (\<lambda>s. \<forall>s'. R s s' \<longrightarrow>
     (case map_prod id (abides R G) (f s') of (s'', k) \<Rightarrow> G s' s'' \<and> k s''))"

named_theorems abides_intros \<open>introduction rules for programs that keep to a guarantee\<close>

lemma abides_stepD: "abides R G (Step f) s \<Longrightarrow> R s s' \<Longrightarrow> f s' = (s'', p) \<Longrightarrow> G s' s'' \<and> abides R G p s''"
  by auto

lemma abides_mono:
  assumes "\<And>s s'. G s s' \<Longrightarrow> G' s s'"
  shows "abides R G p s \<Longrightarrow> abides R G' p s"
proof (induction p arbitrary: s)
  case (Step f)
  show ?case
  proof (simp, intro allI impI)
    fix s' assume R: "R s s'"
    obtain s'' p where f: "f s' = (s'', p)" by fastforce
    have "p \<in> Basic_BNFs.snds (f s')" by (simp add: f snds.intros)
    with Step.IH [OF rangeI this] abides_stepD [OF Step.prems R f] assms
    show "case map_prod id (abides R G') (f s') of (s'', k) \<Rightarrow> G' s' s'' \<and> k s''" by (simp add: f)
  qed
qed simp

lemma abides_done [abides_intros]: "abides R G (Done r) s" "abides R G (retp a) s" "abides R G (failp e) s"
  by (simp_all add: retp_def failp_def)

lemma abides_atom: "(\<And>s'. R s s' \<Longrightarrow> G s' (fst (m s'))) \<Longrightarrow> abides R G (atom m) s"
  by (simp add: atom_def split: prod.splits) (metis fst_conv)

lemma abides_attemptp [abides_intros]:
  "abides R G p s \<Longrightarrow> (\<And>r s'. abides R G (k r) s') \<Longrightarrow> abides R G (attemptp p k) s"
proof (induction p arbitrary: s)
  case (Step f)
  show ?case
  proof (simp, intro allI impI)
    fix s' assume R: "R s s'"
    obtain s'' p where f: "f s' = (s'', p)" by fastforce
    from abides_stepD [OF Step.prems(1) R f] have "G s' s''" "abides R G p s''" by auto
    moreover from Step.IH [of "f s'" p] this(2) Step.prems(2) have "abides R G (attemptp p k) s''"
      by (simp add: f rangeI [of f s', unfolded f] snds.intros)
    ultimately show "case map_prod id (abides R G) (map_prod id (\<lambda>p. attemptp p k) (f s')) of
        (s'', q) \<Rightarrow> G s' s'' \<and> q s''"
      by (simp add: f)
  qed
qed simp

lemma abides_bindp [abides_intros]:
  "abides R G p s \<Longrightarrow> (\<And>a s'. abides R G (k a) s') \<Longrightarrow> abides R G (bindp p k) s"
  unfolding bindp_def by (intro abides_intros) (auto split: sum.splits intro: abides_intros)

lemma abides_ignorep [abides_intros]: "abides R G p s \<Longrightarrow> abides R G (ignorep p) s"
  unfolding ignorep_def by (intro abides_intros)

lemma abides_cases [abides_intros]:
  "(b \<Longrightarrow> abides R G p s) \<Longrightarrow> (\<not> b \<Longrightarrow> abides R G q s) \<Longrightarrow> abides R G (if b then p else q) s"
  "abides R G p s \<Longrightarrow> (\<And>a. abides R G (f a) s) \<Longrightarrow> abides R G (case x of None \<Rightarrow> p | Some a \<Rightarrow> f a) s"
  "abides R G p s \<Longrightarrow> (\<And>y ys. abides R G (g y ys) s) \<Longrightarrow> abides R G (case l of [] \<Rightarrow> p | y # ys \<Rightarrow> g y ys) s"
  by (simp_all split: option.splits list.splits)

lemma abides_in_turn: "(\<And>p s. p \<in> set ps \<Longrightarrow> abides R G p s) \<Longrightarrow> abides R G (in_turn ps) s"
  by (induction ps arbitrary: s) (auto intro!: abides_intros)

text \<open>
  Clients whose guarantees are within each other's relies: whatever the schedule, each step is within
  the guarantee of its client, so what every guarantee keeps is kept.
\<close>

locale rely_guarantee =
  fixes R G :: "nat \<Rightarrow> 's \<Rightarrow> 's \<Rightarrow> bool"
  assumes rely_refl: "R i s s"
    and rely_trans: "R i s s' \<Longrightarrow> R i s' s'' \<Longrightarrow> R i s s''"
    and guarantee_rely: "i \<noteq> j \<Longrightarrow> G i s s' \<Longrightarrow> R j s s'"
begin

lemma abides_rely: "abides (R i) (G i) p s \<Longrightarrow> R i s s' \<Longrightarrow> abides (R i) (G i) p s'"
  by (cases p) (auto intro: rely_trans)

lemma step_abides:
  assumes "\<And>i. abides (R i) (G i) (ps i) s" and "sched_step (s, ps) j = (s', ps')"
  shows "abides (R i) (G i) (ps' i) s'" and "s' = s \<or> G j s s'"
proof -
  have "abides (R i) (G i) (ps' i) s' \<and> (s' = s \<or> G j s s')"
  proof (cases "ps j")
    case (Done r)
    then show ?thesis using assms by auto
  next
    case (Step f)
    then obtain p where f: "f s = (s', p)" and ps': "ps' = ps(j := p)"
      using assms(2) by (auto split: prod.splits)
    have "G j s s'" "abides (R j) (G j) p s'"
      using abides_stepD [of "R j" "G j" f s s s' p] rely_refl [of j s] f assms(1) [of j] Step by simp_all
    then show ?thesis
      using assms(1) [of i] guarantee_rely [of j i] by (cases "i = j") (auto simp: ps' abides_rely)
  qed
  then show "abides (R i) (G i) (ps' i) s'" and "s' = s \<or> G j s s'" by blast+
qed

lemma interleave_keeps:
  assumes "\<And>i. abides (R i) (G i) (ps i) s" and "interleave sched ps s = (s', ps')"
    and "I s" and "\<And>i s s'. I s \<Longrightarrow> G i s s' \<Longrightarrow> I s'"
  shows "I s'"
  using assms(1-3)
proof (induction sched arbitrary: s ps)
  case (Cons j sched)
  obtain s1 ps1 where 1: "sched_step (s, ps) j = (s1, ps1)" by fastforce
  note st = step_abides [OF Cons.prems(1) 1]
  have "I s1" using st(2) Cons.prems(3) assms(4) by blast
  with Cons.IH [OF st(1)] Cons.prems(2) 1 show ?case by simp
qed simp

end

text \<open>
  The special case of an invariant: each step of a program, taken where \<open>I\<close> holds, leaves it true, and
  what follows may use what the step has answered there.
\<close>

primrec maintains :: "('s \<Rightarrow> bool) \<Rightarrow> ('s, 'e, 'a) prog \<Rightarrow> bool" where
  "maintains I (Done r) = True"
| "maintains I (Step f) = (\<forall>s. I s \<longrightarrow> (case map_prod id (maintains I) (f s) of (s', k) \<Rightarrow> I s' \<and> k))"

named_theorems maintains_intros \<open>introduction rules for programs that maintain an invariant\<close>

lemma maintains_done [maintains_intros]: "maintains I (Done r)" "maintains I (retp a)" "maintains I (failp e)"
  by (simp_all add: retp_def failp_def)

lemma maintains_atom: "keeps I m \<Longrightarrow> maintains I (atom m)"
  by (auto simp: atom_def keeps_def split: prod.splits dest: arg_cong [of _ _ fst])

lemma maintains_read:
  "(\<And>s s' r. I s \<Longrightarrow> m s = (s', r) \<Longrightarrow> I s' \<and> maintains I (k r)) \<Longrightarrow> maintains I (attemptp (atom m) k)"
  by (simp add: atom_def split: prod.splits)

lemma maintains_attemptp [maintains_intros]:
  "maintains I p \<Longrightarrow> (\<And>r. maintains I (k r)) \<Longrightarrow> maintains I (attemptp p k)"
proof (induction p)
  case (Step f)
  show ?case
  proof (simp, intro allI impI)
    fix s assume I: "I s"
    obtain s' p where f: "f s = (s', p)" by fastforce
    have "p \<in> Basic_BNFs.snds (f s)" by (simp add: f snds.intros)
    note IH = Step.IH [OF rangeI this]
    have "I s' \<and> maintains I p" using Step.prems(1) I f by (auto dest: spec [of _ s])
    with IH Step.prems(2)
    show "case map_prod id (maintains I) (map_prod id (\<lambda>p. attemptp p k) (f s)) of (s', q) \<Rightarrow> I s' \<and> q"
      by (simp add: f)
  qed
qed simp

lemma maintains_bindp [maintains_intros]:
  "maintains I p \<Longrightarrow> (\<And>a. maintains I (k a)) \<Longrightarrow> maintains I (bindp p k)"
  unfolding bindp_def by (intro maintains_intros) (auto split: sum.splits intro: maintains_intros)

lemma maintains_ignorep [maintains_intros]: "maintains I p \<Longrightarrow> maintains I (ignorep p)"
  unfolding ignorep_def by (intro maintains_intros)

lemma maintains_if [maintains_intros]:
  "(b \<Longrightarrow> maintains I p) \<Longrightarrow> (\<not> b \<Longrightarrow> maintains I q) \<Longrightarrow> maintains I (if b then p else q)"
  by simp

lemma maintains_in_turn: "(\<And>p. p \<in> set ps \<Longrightarrow> maintains I p) \<Longrightarrow> maintains I (in_turn ps)"
  by (induction ps) (auto intro!: maintains_intros)

definition upholds :: "('s \<Rightarrow> bool) \<Rightarrow> 's \<Rightarrow> 's \<Rightarrow> bool" where
  "upholds I s s' \<longleftrightarrow> (I s \<longrightarrow> I s')"

lemma maintains_abides: "maintains I p \<Longrightarrow> I s \<Longrightarrow> abides (upholds I) (upholds I) p s"
proof (induction p arbitrary: s)
  case (Step f)
  show ?case
  proof (simp, intro allI impI)
    fix s1 assume "upholds I s s1"
    with Step.prems(2) have I: "I s1" by (simp add: upholds_def)
    obtain s' p where f: "f s1 = (s', p)" by fastforce
    have "p \<in> Basic_BNFs.snds (f s1)" by (simp add: f snds.intros)
    note IH = Step.IH [OF rangeI this]
    have "I s' \<and> maintains I p" using Step.prems(1) I f by (auto dest: spec [of _ s1])
    with IH have "upholds I s1 s'" and "abides (upholds I) (upholds I) p s'"
      by (simp add: upholds_def, blast)
    then show "case map_prod id (abides (upholds I) (upholds I)) (f s1) of (s', q) \<Rightarrow> upholds I s1 s' \<and> q s'"
      by (simp add: f)
  qed
qed simp

interpretation invariant: rely_guarantee "\<lambda>_ :: nat. upholds I" "\<lambda>_. upholds I"
  for I
  by unfold_locales (auto simp: upholds_def)

lemma interleave_maintains:
  assumes "\<And>i. maintains I (ps i)" and "I s" and "interleave sched ps s = (s', ps')"
  shows "I s'"
proof (rule invariant.interleave_keeps [where I = I and Ia = I, OF _ assms(3,2)])
  show "abides (upholds I) (upholds I) (ps i) s" for i
    by (rule maintains_abides [OF assms(1,2)])
qed (simp add: upholds_def)

section \<open>Statements\<close>

text \<open>A statement of a database commits by itself.\<close>

definition sqlp ::
  "'t world \<Rightarrow> string \<Rightarrow> string \<Rightarrow> ('s, string, 'a) step \<Rightarrow> ('s, vfs_error, 'a) prog" where
  "sqlp w label prefix m = atom (sql w label prefix m)"

lemma run_sqlp [run_simps]: "run (sqlp w label prefix m) = sql w label prefix m"
  by (simp add: sqlp_def run_simps)

lemma next_sqlp [next_simps]:
  "calm w \<Longrightarrow> m s = (s', Inr a) \<Longrightarrow> next_step (sqlp w label prefix m) s = (s', retp a)"
  by (simp add: sqlp_def next_simps sql_calm)

declare sched_step.simps [simp del]

end
