(* ===== verification/Logos_Statements.thy ===== *)
theory Logos_Statements
  imports Logos_System Logos_Interleave
begin

text \<open>
  The system module statement by statement. The pool of \<open>logos-system/src/lib.rs\<close> has four
  connections and no operation opens a transaction, so each statement commits by itself and the
  operations of concurrent requests interleave between statements. The operations of \<open>tasks.rs\<close>,
  \<open>anchors.rs\<close> and \<open>complete.rs\<close> are given again as sequences of statements; alone each is the step of
  \<open>Logos_Tasks\<close>, \<open>Logos_Anchors\<close> and \<open>Logos_System\<close>. An operation that issues one statement at most is an atom.
\<close>

section \<open>The operations as sequences of statements\<close>

definition task_create_p ::
  "('f, 't) sys_lib \<Rightarrow> 't world \<Rightarrow> string \<Rightarrow> ('f sys_db, vfs_error, unit) prog" where
  "task_create_p L w content =
     bindp (Done (map_err InvalidJson (from_str (sl_codec L) content))) (\<lambda>val.
     bindp (sqlp w ''insert task'' ''insert task: ''
       (insert_task_row (new_task_row val (now_str L w)))) (\<lambda>_.
     if str_field val ''description'' [] \<noteq> [] then
       ignorep (sqlp w ''insert fts'' [] (insert_task_fts (sl_fts L) (str_field val ''task_id'' [])))
     else retp ()))"

definition update_description_p ::
  "('f, 't) sys_lib \<Rightarrow> 't world \<Rightarrow> string \<Rightarrow> string \<Rightarrow> ('f sys_db, vfs_error, unit) prog" where
  "update_description_p L w task_id description =
     bindp (sqlp w ''update description'' ''update description: '' (update_task task_id
       (\<lambda>r. r\<lparr>tk_description := description, tk_updated_at := now_str L w\<rparr>))) (\<lambda>_.
     bindp (ignorep (sqlp w ''delete fts'' [] (delete_task_fts (sl_fts L) task_id))) (\<lambda>_.
     ignorep (sqlp w ''insert fts'' [] (insert_task_fts (sl_fts L) task_id))))"

definition pop_plan_head_p ::
  "('f, 't) sys_lib \<Rightarrow> 't world \<Rightarrow> string \<Rightarrow> ('f sys_db, vfs_error, string option) prog" where
  "pop_plan_head_p L w task_id =
     bindp (sqlp w ''get plan_todo'' ''get plan_todo: '' (query (task_lookup task_id))) (\<lambda>row.
     case row of
       None \<Rightarrow> retp None
     | Some r \<Rightarrow>
         (case opt_or (parse_strings (sl_codec L) (tk_plan_todo r)) [] of
            [] \<Rightarrow> retp None
          | head # todo \<Rightarrow>
              bindp (sqlp w ''pop plan head'' ''pop plan head: '' (update_task task_id
                (\<lambda>r. r\<lparr>tk_plan_todo := print_strings (sl_codec L) todo,
                       tk_updated_at := now_str L w\<rparr>))) (\<lambda>_.
              retp (Some head))))"

definition transition_status_p ::
  "('f, 't) sys_lib \<Rightarrow> 't world \<Rightarrow> string \<Rightarrow> string \<Rightarrow> ('f sys_db, vfs_error, unit) prog" where
  "transition_status_p L w task_id new_status =
     bindp (sqlp w ''get task status'' ''get task status: '' (fetch_status task_id)) (\<lambda>current.
     if (current, new_status) \<notin> set VALID_TRANSITIONS
     then failp (InvalidPath (''invalid transition: '' @ current @ arrow @ new_status))
     else sqlp w ''transition status'' ''transition status: '' (update_task task_id
       (\<lambda>r. r\<lparr>tk_status := new_status, tk_updated_at := now_str L w\<rparr>)))"

definition mark_superseded_p ::
  "('f, 't) sys_lib \<Rightarrow> 't world \<Rightarrow> string \<Rightarrow> string \<Rightarrow> ('f sys_db, vfs_error, unit) prog" where
  "mark_superseded_p L w target_uri superseded_by_uri =
     (let parts = split_on (CHR ''/'') target_uri in
      if length parts \<noteq> 6 \<or> parts ! 3 \<noteq> ''anchors''
      then failp (InvalidPath (''invalid anchor URI: '' @ target_uri))
      else
        bindp (sqlp w ''read anchor'' ''read anchor for supersede: ''
          (query (anchor_lookup (parts ! 4) (parts ! 5)))) (\<lambda>row.
        case row of
          None \<Rightarrow> retp ()
        | Some a \<Rightarrow>
            (let facts = opt_or (parse_values (sl_codec L) (an_facts a)) [];
                 updated = to_str (sl_codec L) (JArr (map (supersede_fact superseded_by_uri) facts))
             in sqlp w ''update superseded'' ''update superseded: ''
                  (update_facts (parts ! 4) (parts ! 5) updated))))"

fun mark_all_p ::
  "('f, 't) sys_lib \<Rightarrow> 't world \<Rightarrow> string list \<Rightarrow> string \<Rightarrow> ('f sys_db, vfs_error, unit) prog" where
  "mark_all_p L w [] by_uri = retp ()"
| "mark_all_p L w (uri # uris) by_uri =
     bindp (ignorep (mark_superseded_p L w uri by_uri)) (\<lambda>_.
     mark_all_p L (at_w ''next'' w) uris by_uri)"

definition anchor_create_p ::
  "('f, 't) sys_lib \<Rightarrow> 't world \<Rightarrow> string \<Rightarrow> string \<Rightarrow> string \<Rightarrow> ('f sys_db, vfs_error, string) prog" where
  "anchor_create_p L w task_id summary facts =
     (let anchor_id = fmt_minute (sl_chrono L) (w_clk w [''id'']);
          now = fmt_secs (sl_chrono L) (w_clk w [''now'']);
          facts_arr = opt_or (parse_values (sl_codec L) facts) [] in
      bindp (mark_all_p L (at_w ''supersede'' w) (concat (map fact_supersedes facts_arr))
        (anchor_uri task_id anchor_id)) (\<lambda>_.
      bindp (sqlp w ''insert anchor'' ''insert anchor: '' (insert_anchor_row
        \<lparr>an_rowid = 0, an_id = anchor_id, an_task_id = task_id, an_summary = summary,
         an_facts = facts, an_created_at = now\<rparr>)) (\<lambda>_.
      bindp (sqlp w ''get anchor rowid'' ''get anchor rowid: '' (fetch_anchor_rowid task_id anchor_id)) (\<lambda>rowid.
      bindp (sqlp w ''sync anchors fts'' ''sync anchors fts: ''
        (insert_anchor_fts (sl_fts L) rowid [facts, summary])) (\<lambda>_.
      retp anchor_id)))))"

definition search_tasks_p ::
  "('f, 't) sys_lib \<Rightarrow> 't world \<Rightarrow> string \<Rightarrow> int \<Rightarrow> ('f sys_db, vfs_error, string) prog" where
  "search_tasks_p L w query_text limit0 =
     (let limit = clamp 1 50 limit0; escaped = fts_escape query_text in
      bindp (sqlp w ''search anchors'' ''search anchors fts: '' (\<lambda>db. (db,
        fts_join (sl_fts L) escaped (sd_anchors_fts db) an_rowid (\<lambda>_. True) (sd_anchors db) limit))) (\<lambda>l1_rows.
      bindp (sqlp w ''search tasks'' ''search tasks fts: '' (\<lambda>db. (db,
        fts_join (sl_fts L) escaped (sd_tasks_fts db) tk_rowid (\<lambda>t. tk_status t \<noteq> ''pending'')
          (sd_tasks db) limit))) (\<lambda>l2_rows.
      retp (to_str (sl_codec L)
        (jobj [(''l1_hits'', JArr (map l1_hit l1_rows)), (''l2_hits'', JArr (map l2_hit l2_rows))])))))"

definition complete_execute_p ::
  "('f, 't) sys_lib \<Rightarrow> 't world \<Rightarrow> complete_params \<Rightarrow> ('f sys_db, vfs_error, complete_result) prog" where
  "complete_execute_p L w p =
     (let tid = cp_task_id p;
          result = (\<lambda>task anchor. \<lparr>cr_reply = cp_reply p, cr_anchor_id = anchor,
                      cr_task_log = cp_task_log p, cr_task_id = task\<rparr>) in
      bindp (if tid \<noteq> [] then ignorep (transition_status_p L (at_w ''activate'' w) tid ''active'')
             else retp ()) (\<lambda>_.
      if cp_resume_task_id p \<noteq> [] then
        bindp (if tid \<noteq> [] then atom (task_delete (at_w ''discard'' w) tid) else retp ()) (\<lambda>_.
        bindp (transition_status_p L (at_w ''resume'' w) (cp_resume_task_id p) ''active'') (\<lambda>_.
        retp (result (cp_resume_task_id p) [])))
      else if cp_plan_todo p \<noteq> [] \<and> tid \<noteq> [] then
        bindp (atom (set_plan_todo L (at_w ''plan'' w) tid (print_strings (sl_codec L) (cp_plan_todo p)))) (\<lambda>_.
        bindp (transition_status_p L (at_w ''sleep'' w) tid ''sleep'') (\<lambda>_.
        bindp (if cp_anchor p \<and> tid \<noteq> []
               then anchor_create_p L (at_w ''anchor'' w) tid (cp_summary p) (cp_anchor_facts p)
               else retp []) (\<lambda>anchor_id.
        retp (result tid anchor_id))))
      else
        (let new_status = (if cp_sleep_reason p \<noteq> [] then ''sleep'' else ''finished'') in
         bindp (if tid \<noteq> [] then transition_status_p L (at_w ''status'' w) tid new_status else retp ()) (\<lambda>_.
         bindp (if cp_anchor p \<and> tid \<noteq> []
                then bindp (anchor_create_p L (at_w ''anchor'' w) tid (cp_summary p) (cp_anchor_facts p)) (\<lambda>anchor_id.
                     bindp (ignorep (task_create_p L (at_w ''regen'' w)
                       (regen_content L (w_clk w [''regen'']) anchor_id))) (\<lambda>_.
                     retp anchor_id))
                else retp []) (\<lambda>anchor_id.
         retp (result tid anchor_id))))))"

definition system_write_p ::
  "('f, 't) sys_lib \<Rightarrow> 't world \<Rightarrow> string list \<Rightarrow> string \<Rightarrow> ('f sys_db, vfs_error, unit) prog" where
  "system_write_p L w path content =
     (case get_at path 0 of
        None \<Rightarrow> failp (InvalidPath ''empty system path'')
      | Some resource \<Rightarrow>
          if resource = ''tasks'' then
            (if length path \<ge> 3 \<and> path ! 2 = ''description''
             then update_description_p L w (path ! 1) content
             else task_create_p L w content)
          else failp (InvalidPath (''system write not supported for: '' @ resource)))"

definition system_patch_p ::
  "('f, 't) sys_lib \<Rightarrow> 't world \<Rightarrow> string list \<Rightarrow> string \<Rightarrow> ('f sys_db, vfs_error, unit) prog" where
  "system_patch_p L w path partial =
     (if opt_or (get_at path 0) [] = ''tasks'' \<and> length path = 2 then
        bindp (atom (system_read L (at_w ''existing'' w) path)) (\<lambda>existing.
        case (from_str (sl_codec L) existing, from_str (sl_codec L) partial) of
          (Inr base, Inr patch) \<Rightarrow>
            (case as_str (jget (json_deep_merge base patch) ''description'') of
               Some desc \<Rightarrow> update_description_p L w (path ! 1) desc
             | None \<Rightarrow> retp ())
        | _ \<Rightarrow> system_write_p L w path partial)
      else system_write_p L w path partial)"

text \<open>Every call of the module, its answer dropped.\<close>

fun sys_prog :: "('f, 't) sys_lib \<Rightarrow> 't world \<times> sys_op \<Rightarrow> ('f sys_db, vfs_error, unit) prog" where
  "sys_prog L (w, SysRead path) = ignorep (atom (system_read L w path))"
| "sys_prog L (w, SysWrite path content) = system_write_p L w path content"
| "sys_prog L (w, SysPatch path partial) = system_patch_p L w path partial"
| "sys_prog L (w, SysCreate content) = task_create_p L w content"
| "sys_prog L (w, SysTransition tid status) = transition_status_p L w tid status"
| "sys_prog L (w, SysSearch q limit) = ignorep (search_tasks_p L w q limit)"
| "sys_prog L (w, SysPlanPending) = ignorep (atom (list_plan_pending L w))"
| "sys_prog L (w, SysPop tid) = ignorep (pop_plan_head_p L w tid)"
| "sys_prog L (w, SysExecutor tid) = ignorep (atom (has_active_executor w tid))"
| "sys_prog L (w, SysComplete p) = ignorep (complete_execute_p L w p)"

text \<open>A client of the module: its requests in turn.\<close>

definition sys_client :: "('f, 't) sys_lib \<Rightarrow> ('t world \<times> sys_op) list \<Rightarrow> ('f sys_db, vfs_error, unit) prog" where
  "sys_client L es = in_turn (map (sys_prog L) es)"

section \<open>Alone\<close>

lemma run_tasks [run_simps]:
  "run (task_create_p L w content) = task_create L w content"
  "run (update_description_p L w tid d) = update_description L w tid d"
  "run (pop_plan_head_p L w tid) = pop_plan_head L w tid"
  "run (transition_status_p L w tid new) = transition_status L w tid new"
  by (simp_all add: run_simps task_create_p_def task_create_def update_description_p_def
      update_description_def pop_plan_head_p_def pop_plan_head_def transition_status_p_def
      transition_status_def ignore_errors_def cong: if_cong option.case_cong list.case_cong)

lemma run_mark_superseded [run_simps]: "run (mark_superseded_p L w uri by_uri) = mark_superseded L w uri by_uri"
  by (simp add: run_simps mark_superseded_p_def mark_superseded_def Let_def cong: if_cong option.case_cong)

lemma run_mark_all [run_simps]: "run (mark_all_p L w uris by_uri) = mark_all L w uris by_uri"
  by (induction uris arbitrary: w) (simp_all add: run_simps ignore_errors_def)

lemma run_anchors [run_simps]:
  "run (anchor_create_p L w tid summary facts) = anchor_create L w tid summary facts"
  "run (search_tasks_p L w q limit) = search_tasks L w q limit"
  by (simp_all add: run_simps anchor_create_p_def anchor_create_def search_tasks_p_def search_tasks_def Let_def)

lemma run_complete [run_simps]: "run (complete_execute_p L w p) = complete_execute L w p"
  by (simp add: run_simps complete_execute_p_def complete_execute_def ignore_errors_def Let_def cong: if_cong)

lemma run_system_write [run_simps]: "run (system_write_p L w path content) = system_write L w path content"
  by (simp add: run_simps system_write_p_def system_write_def cong: if_cong option.case_cong)

lemma run_system_patch [run_simps]: "run (system_patch_p L w path partial) = system_patch L w path partial"
  by (simp add: run_simps system_patch_p_def system_patch_def cong: if_cong option.case_cong sum.case_cong)

lemma run_sys_prog: "fst (run (sys_prog L e) s) = sys_exec L s e"
proof (cases e)
  case (Pair w op)
  then show ?thesis by (cases op) (simp_all add: run_simps attempt_def ret_def split: prod.splits)
qed

lemma run_sys_client: "fst (run (sys_client L es) s) = foldl (sys_exec L) s es"
  unfolding sys_client_def run_in_turn
  by (induction es arbitrary: s) (simp_all add: run_sys_prog)

section \<open>What a statement does to one task\<close>

text \<open>Two rows of one task: only its status, description, plan and last change may differ.\<close>

definition same_task :: "task_row \<Rightarrow> task_row \<Rightarrow> bool" where
  "same_task r r' \<longleftrightarrow> r' = r\<lparr>tk_status := tk_status r', tk_description := tk_description r',
     tk_plan_todo := tk_plan_todo r', tk_updated_at := tk_updated_at r'\<rparr>"

lemma same_task_refl [simp]: "same_task r r"
  by (simp add: same_task_def)

lemma same_task_trans: "same_task r r' \<Longrightarrow> same_task r' r'' \<Longrightarrow> same_task r r''"
  unfolding same_task_def by (cases r; cases r'; cases r'') auto

lemma same_taskD: "same_task r r' \<Longrightarrow> tk_task_id r' = tk_task_id r" "same_task r r' \<Longrightarrow> tk_rowid r' = tk_rowid r"
  unfolding same_task_def by (cases r; cases r'; auto)+

lemma same_task_update [simp]:
  "same_task r (r\<lparr>tk_status := x, tk_updated_at := n\<rparr>)"
  "same_task r (r\<lparr>tk_description := x, tk_updated_at := n\<rparr>)"
  "same_task r (r\<lparr>tk_plan_todo := x, tk_updated_at := n\<rparr>)"
  by (simp_all add: same_task_def)

text \<open>
  From one state to a later one: a well-formed table stays so, and a task that is there stays, with
  what identifies it; its status moves within \<open>Q\<close>.
\<close>

definition keeps_row :: "(string \<times> string) set \<Rightarrow> string \<Rightarrow> 'f sys_db \<Rightarrow> 'f sys_db \<Rightarrow> bool" where
  "keeps_row Q tid s s' \<longleftrightarrow> (tasks_ok s \<longrightarrow> tasks_ok s') \<and>
     (\<forall>t. task_lookup tid s = Some t \<longrightarrow>
        (\<exists>t'. task_lookup tid s' = Some t' \<and> same_task t t' \<and> (tk_status t, tk_status t') \<in> Q))"

lemma keeps_row_refl: "refl Q \<Longrightarrow> keeps_row Q tid s s"
  by (auto simp: keeps_row_def refl_on_def)

lemma keeps_row_mono: "keeps_row Q tid s s' \<Longrightarrow> Q \<subseteq> Q' \<Longrightarrow> keeps_row Q' tid s s'"
  unfolding keeps_row_def by blast

lemma keeps_row_trans:
  "trans Q \<Longrightarrow> keeps_row Q tid s s' \<Longrightarrow> keeps_row Q tid s' s'' \<Longrightarrow> keeps_row Q tid s s''"
  unfolding keeps_row_def by (meson same_task_trans transD)

definition legal :: "string \<Rightarrow> bool" where
  "legal x \<longleftrightarrow> x \<in> {''pending'', ''active'', ''finished'', ''sleep''}"

lemma tasks_ok_legal:
  "tasks_ok db \<longleftrightarrow> distinct (map tk_task_id (sd_tasks db)) \<and> sorted_wrt (<) (map tk_rowid (sd_tasks db)) \<and>
     (\<forall>r \<in> set (sd_tasks db). legal (tk_status r))"
  by (simp only: tasks_ok_def legal_def)

lemma tasks_ok_update:
  assumes "tasks_ok s" and "\<And>r. same_task r (f r)" and "\<And>r. legal (tk_status r) \<Longrightarrow> legal (tk_status (f r))"
  shows "tasks_ok (fst (update_task u f s))"
proof -
  define g where "g r = (if tk_task_id r = u then f r else r)" for r
  have rows: "sd_tasks (fst (update_task u f s)) = map g (sd_tasks s)"
    by (simp add: update_task_def modify_def g_def)
  have "tk_task_id (g r) = tk_task_id r" "tk_rowid (g r) = tk_rowid r" for r
    using same_taskD [OF assms(2)] by (simp_all add: g_def)
  then have ids: "map tk_task_id (map g (sd_tasks s)) = map tk_task_id (sd_tasks s)"
    "map tk_rowid (map g (sd_tasks s)) = map tk_rowid (sd_tasks s)"
    by simp_all
  have "\<forall>r \<in> set (map g (sd_tasks s)). legal (tk_status r)"
    using assms(1,3) by (auto simp: tasks_ok_legal g_def)
  with assms(1) show ?thesis
    unfolding tasks_ok_legal rows ids by simp
qed

lemma keeps_row_update:
  assumes "\<And>r. same_task r (f r)" and "refl Q" and "\<And>r. legal (tk_status r) \<Longrightarrow> legal (tk_status (f r))"
    and "\<And>t. u = tid \<Longrightarrow> task_lookup tid s = Some t \<Longrightarrow> (tk_status t, tk_status (f t)) \<in> Q"
  shows "keeps_row Q tid s (fst (update_task u f s))"
proof -
  have "task_lookup tid (fst (update_task u f s)) =
      (if tid = u then map_option f (task_lookup tid s) else task_lookup tid s)"
    using same_taskD(1) [OF assms(1)] by (rule task_lookup_update)
  moreover have "tasks_ok s \<longrightarrow> tasks_ok (fst (update_task u f s))"
    using tasks_ok_update assms(1,3) by blast
  ultimately show ?thesis
    using assms(1,2,4) unfolding keeps_row_def by (auto simp: refl_on_def)
qed

lemma keeps_row_frame:
  "refl Q \<Longrightarrow> (tasks_ok s \<Longrightarrow> tasks_ok s') \<Longrightarrow>
   (\<And>t. task_lookup tid s = Some t \<Longrightarrow> task_lookup tid s' = Some t) \<Longrightarrow> keeps_row Q tid s s'"
  unfolding keeps_row_def by (simp add: refl_on_def)

text \<open>The statements of the module, as steps that keep the relation to where a run began.\<close>

lemma keeps_row_step:
  "trans Q \<Longrightarrow> (\<And>s. keeps_row Q tid s (fst (m s))) \<Longrightarrow> keeps (keeps_row Q tid s0) m"
  by (rule keepsI) (blast intro: keeps_row_trans)

lemma keeps_row_statements:
  assumes "refl Q" and "trans Q"
  shows "tk_status r = ''pending'' \<Longrightarrow> keeps (keeps_row Q tid s0) (insert_task_row r)"
    and "u \<noteq> tid \<Longrightarrow> keeps (keeps_row Q tid s0) (delete_task u)"
    and "(\<And>r. same_task r (f r)) \<Longrightarrow> (\<And>r. tk_status (f r) = tk_status r) \<Longrightarrow>
           keeps (keeps_row Q tid s0) (update_task v f)"
proof -
  have inv: "tasks_ok s \<Longrightarrow> keeps (task_inv X s) m \<Longrightarrow> tasks_ok (fst (m s))"
    for X s and m :: "('f sys_db, string, unit) step"
    using keepsD [of "task_inv X s" m s] task_inv_start [of s X] by (simp add: task_inv_def)
  show "keeps (keeps_row Q tid s0) (insert_task_row r)" if "tk_status r = ''pending''"
    by (rule keeps_row_step [OF assms(2)], rule keeps_row_frame [OF assms(1)])
       (blast intro: inv keeps_insert_task_row that task_lookup_insert)+
  show "keeps (keeps_row Q tid s0) (delete_task u)" if "u \<noteq> tid"
    by (rule keeps_row_step [OF assms(2)], rule keeps_row_frame [OF assms(1)])
       (use that in \<open>auto intro: inv keeps_delete_task simp: task_lookup_delete\<close>)
  show "keeps (keeps_row Q tid s0) (update_task v f)"
    if "\<And>r. same_task r (f r)" "\<And>r. tk_status (f r) = tk_status r"
    by (rule keeps_row_step [OF assms(2)], rule keeps_row_update)
       (use that assms(1) in \<open>auto simp: refl_on_def\<close>)
qed

lemma keeps_row_rows:
  "(\<And>s. sd_tasks (fst (m s)) = sd_tasks s) \<Longrightarrow> keeps (keeps_row Q tid s0) m"
  by (rule keepsI) (simp add: keeps_row_def tasks_ok_def task_lookup_def)

lemma rows_unchanged:
  "sd_tasks (fst (insert_task_fts F u s)) = sd_tasks s" "sd_tasks (fst (delete_task_fts F u s)) = sd_tasks s"
  "sd_tasks (fst (insert_anchor_row a s)) = sd_tasks s" "sd_tasks (fst (update_facts u aid facts s)) = sd_tasks s"
  "sd_tasks (fst (insert_anchor_fts F i texts s)) = sd_tasks s"
  by (auto simp: insert_task_fts_def delete_task_fts_def insert_anchor_row_def update_facts_def
      modify_def insert_anchor_fts_def split: option.splits sum.splits)

section \<open>What a client does to one task\<close>

text \<open>
  The contract of a client towards the task \<open>tid\<close>: each of its statements keeps the row, moving its
  status within \<open>Q\<close>, provided the others move it within what the rely \<open>R\<close> allows. A client may set the
  status of the task if nobody else does, or if any status is allowed.
\<close>

abbreviation toward :: "('f sys_db \<Rightarrow> 'f sys_db \<Rightarrow> bool) \<Rightarrow> (string \<times> string) set \<Rightarrow> string \<Rightarrow>
    ('f sys_db, 'e, 'a) prog \<Rightarrow> 'f sys_db \<Rightarrow> bool" where
  "toward R Q tid \<equiv> abides R (keeps_row Q tid)"

definition preorder :: "('a \<times> 'a) set \<Rightarrow> bool" where
  "preorder Q \<longleftrightarrow> refl Q \<and> trans Q"

definition may_move :: "('f sys_db \<Rightarrow> 'f sys_db \<Rightarrow> bool) \<Rightarrow> (string \<times> string) set \<Rightarrow> string \<Rightarrow> bool" where
  "may_move R Q tid \<longleftrightarrow> Q = UNIV \<or> set VALID_TRANSITIONS \<subseteq> Q \<and> (\<forall>s s'. R s s' \<longrightarrow> keeps_row Id tid s s')"

lemma toward_atom:
  "preorder Q \<Longrightarrow> (\<And>s0. keeps (keeps_row Q tid s0) m) \<Longrightarrow> toward R Q tid (atom m) s"
  by (rule abides_atom, rule keepsD) (auto simp: preorder_def intro: keeps_row_refl)

lemma toward_sqlp:
  "preorder Q \<Longrightarrow> (\<And>s0. keeps (keeps_row Q tid s0) m) \<Longrightarrow> toward R Q tid (sqlp w label prefix m) s"
  unfolding sqlp_def by (rule toward_atom) (auto intro: keeps_sql)

text \<open>After a read the rest of the program starts from the state that was read.\<close>

lemma abides_read:
  assumes "\<And>s. fst (m s) = s" and "\<And>s. G s s"
    and "\<And>s' a. m s' = (s', Inr a) \<Longrightarrow> abides R G (k a) s'"
  shows "abides R G (bindp (atom m) k) s"
proof -
  have "abides R G (attemptp (Done r) (\<lambda>r. case r of Inl e \<Rightarrow> Done (Inl e) | Inr a \<Rightarrow> k a)) s'"
    if "m s' = (s', r)" for s' r
    using assms(3) that by (cases r) auto
  then have "G s' (fst (m s')) \<and>
      abides R G (attemptp (Done (snd (m s'))) (\<lambda>r. case r of Inl e \<Rightarrow> Done (Inl e) | Inr a \<Rightarrow> k a)) (fst (m s'))" for s'
    using assms(1,2) [of s'] by (metis prod.collapse)
  then show ?thesis
    unfolding bindp_def atom_def by (simp split: prod.splits) (metis fst_conv snd_conv)
qed

lemma sql_read: "(\<And>s. fst (m s) = s) \<Longrightarrow> fst (sql w label prefix m s) = s"
  by (auto simp: sql_def split: option.splits prod.splits dest: arg_cong [of _ _ fst])

lemma transition_legal: "(x, new) \<in> set VALID_TRANSITIONS \<Longrightarrow> legal new"
  by (auto simp: VALID_TRANSITIONS_def legal_def)

lemma toward_transition:
  fixes L :: "('f, 't) sys_lib"
  assumes "preorder Q" and "u = tid \<longrightarrow> may_move R Q tid"
  shows "toward R Q tid (transition_status_p L w u new) s"
  unfolding transition_status_p_def sqlp_def
proof (rule abides_read)
  show "fst (sql w ''get task status'' ''get task status: '' (fetch_status u) s) = s" for s
    by (rule sql_read) (simp add: fetch_status_def)
  show "keeps_row Q tid s s" for s
    using assms(1) by (simp add: preorder_def keeps_row_refl)
next
  fix s1 :: "'f sys_db" and current
  let ?f = "\<lambda>r. r\<lparr>tk_status := new, tk_updated_at := now_str L w\<rparr>"
  assume "sql w ''get task status'' ''get task status: '' (fetch_status u) s1 = (s1, Inr current)"
  then have "fetch_status u s1 = (s1, Inr current)" by (rule sql_okD)
  then obtain t1 where t1: "task_lookup u s1 = Some t1" "tk_status t1 = current"
    by (auto simp: fetch_status_def)
  have "keeps_row Q tid s2 (fst (sql w ''transition status'' ''transition status: '' (update_task u ?f) s2))"
    if valid: "(current, new) \<in> set VALID_TRANSITIONS" and R: "R s1 s2" for s2
  proof -
    have "(tk_status t, new) \<in> Q" if "u = tid" "task_lookup tid s2 = Some t" for t
      using assms(2) that t1 valid R unfolding may_move_def keeps_row_def by fastforce
    then have "keeps_row Q tid s2 (fst (update_task u ?f s2))"
      using assms(1) transition_legal [OF valid] by (intro keeps_row_update) (simp_all add: preorder_def)
    then show ?thesis
      using assms(1) by (auto simp: sql_def preorder_def keeps_row_refl split: option.splits prod.splits)
  qed
  then show "toward R Q tid (if (current, new) \<notin> set VALID_TRANSITIONS
      then failp (InvalidPath (''invalid transition: '' @ current @ arrow @ new))
      else atom (sql w ''transition status'' ''transition status: '' (update_task u ?f))) s1"
    by (auto intro: abides_done abides_atom)
qed

lemma toward_tasks:
  assumes "preorder Q"
  shows "toward R Q tid (task_create_p L w content) s"
    and "toward R Q tid (update_description_p L w u d) s"
    and "toward R Q tid (pop_plan_head_p L w u) s"
    and "toward R Q tid (atom (set_plan_todo L w u todo)) s"
    and "u \<noteq> tid \<Longrightarrow> toward R Q tid (atom (task_delete w u)) s"
proof -
  note Q = assms [unfolded preorder_def, THEN conjunct1] assms [unfolded preorder_def, THEN conjunct2]
  note sql = toward_sqlp [OF assms] and row = keeps_row_statements [OF Q]
  show "toward R Q tid (task_create_p L w content) s"
    unfolding task_create_p_def
    by (intro abides_intros sql row keeps_row_rows) (simp_all add: new_task_row_def rows_unchanged)
  show "toward R Q tid (update_description_p L w u d) s"
    unfolding update_description_p_def
    by (intro abides_intros sql row keeps_row_rows) (simp_all add: rows_unchanged)
  show "toward R Q tid (pop_plan_head_p L w u) s"
    unfolding pop_plan_head_p_def
    by (intro abides_intros sql row keeps_query) simp_all
  show "toward R Q tid (atom (set_plan_todo L w u todo)) s"
    unfolding set_plan_todo_def by (intro toward_atom [OF assms] keeps_sql row) simp_all
  show "toward R Q tid (atom (task_delete w u)) s" if "u \<noteq> tid"
    unfolding task_delete_def by (intro toward_atom [OF assms] keeps_sql row that)
qed

lemma toward_anchors:
  fixes L :: "('f, 't) sys_lib"
  assumes "preorder Q"
  shows "toward R Q tid (anchor_create_p L w u summary facts) s"
    and "toward R Q tid (search_tasks_p L w q limit) s"
proof -
  note sql = toward_sqlp [OF assms]
  have "toward R Q tid (mark_superseded_p L w' uri by_uri) s'" for w' :: "'t world" and uri by_uri s'
    unfolding mark_superseded_p_def Let_def
    by (intro abides_intros sql keeps_query keeps_row_rows rows_unchanged)
  then have "toward R Q tid (mark_all_p L w' uris by_uri) s'" for w' uris by_uri s'
    by (induction uris arbitrary: w' s') (auto intro!: abides_intros)
  then show "toward R Q tid (anchor_create_p L w u summary facts) s"
    unfolding anchor_create_p_def Let_def
    by (intro abides_intros sql keeps_row_rows) (simp_all add: rows_unchanged fetch_anchor_rowid_def)
  show "toward R Q tid (search_tasks_p L w q limit) s"
    unfolding search_tasks_p_def Let_def by (intro abides_intros sql keeps_row_rows) simp_all
qed

text \<open>The tasks whose status an operation may set.\<close>

fun status_targets :: "'t world \<times> sys_op \<Rightarrow> string set" where
  "status_targets (w, SysTransition tid new) = {tid}"
| "status_targets (w, SysComplete p) = {cp_task_id p, cp_resume_task_id p} - {[]}"
| "status_targets _ = {}"

lemma toward_complete:
  assumes "preorder Q" and "tid \<notin> discards (w, SysComplete p)"
    and "tid \<in> status_targets (w, SysComplete p) \<longrightarrow> may_move R Q tid"
  shows "toward R Q tid (complete_execute_p L w p) s"
  unfolding complete_execute_p_def Let_def
  by (intro abides_intros toward_transition toward_tasks toward_anchors assms(1))
     (use assms in \<open>auto split: if_splits\<close>)

lemma toward_write: "preorder Q \<Longrightarrow> toward R Q tid (system_write_p L w path content) s"
  unfolding system_write_p_def by (intro abides_intros toward_tasks)

lemma toward_patch: "preorder Q \<Longrightarrow> toward R Q tid (system_patch_p L w path partial) s"
  unfolding system_patch_p_def
  by (intro abides_intros toward_atom keeps_system_read toward_write)
     (auto intro!: abides_intros toward_write toward_tasks split: sum.split)

lemma toward_sys_prog:
  assumes "preorder Q" and "tid \<notin> discards e" and "tid \<in> status_targets e \<longrightarrow> may_move R Q tid"
  shows "toward R Q tid (sys_prog L e) s"
proof (cases e)
  case (Pair w op)
  note toward = toward_write toward_patch toward_tasks toward_transition toward_anchors toward_atom
    toward_complete keeps_system_read keeps_queries
  show ?thesis
    using assms by (cases op) (auto simp: Pair intro!: abides_ignorep toward)
qed

lemma toward_client:
  "preorder Q \<Longrightarrow> (\<And>e. e \<in> set es \<Longrightarrow> tid \<notin> discards e) \<Longrightarrow>
   (\<And>e. e \<in> set es \<Longrightarrow> tid \<in> status_targets e \<longrightarrow> may_move R Q tid) \<Longrightarrow>
   toward R Q tid (sys_client L es) s"
  unfolding sys_client_def by (rule abides_in_turn) (auto intro: toward_sys_prog)

section \<open>All clients\<close>

lemma preorders [simp]: "preorder (UNIV :: (string \<times> string) set)" "preorder (Id :: (string \<times> string) set)" "preorder moves"
  unfolding preorder_def moves_def by (simp_all add: refl_Id trans_Id refl_rtrancl trans_rtrancl)

lemma keeps_row_same [simp]: "preorder Q \<Longrightarrow> keeps_row Q tid s s"
  by (simp add: preorder_def keeps_row_refl)

lemma keeps_row_chain: "preorder Q \<Longrightarrow> keeps_row Q tid s s' \<Longrightarrow> keeps_row Q tid s' s'' \<Longrightarrow> keeps_row Q tid s s''"
  unfolding preorder_def by (blast intro: keeps_row_trans)

text \<open>Nobody's contract says anything of the status; or that of one client does, and it is the only one to set it.\<close>

interpretation crowd: rely_guarantee "\<lambda>_ :: nat. keeps_row UNIV tid" "\<lambda>_. keeps_row UNIV tid"
  for tid
  by unfold_locales (auto intro: keeps_row_chain [OF preorders(1)])

interpretation owned: rely_guarantee
  "\<lambda>i. if i = owner then keeps_row Id tid else keeps_row UNIV tid"
  "\<lambda>i. if i = owner then keeps_row moves tid else keeps_row Id tid"
  for owner :: nat and tid
proof
  show "(if i = owner then keeps_row Id tid else keeps_row UNIV tid) s s" for i s
    by simp
  show "(if i = owner then keeps_row Id tid else keeps_row UNIV tid) s s''"
    if "(if i = owner then keeps_row Id tid else keeps_row UNIV tid) s s'"
      "(if i = owner then keeps_row Id tid else keeps_row UNIV tid) s' s''" for i s s' s''
    using that keeps_row_chain [OF preorders(1), of tid s s' s''] keeps_row_chain [OF preorders(2), of tid s s' s'']
    by (simp split: if_splits)
  show "(if j = owner then keeps_row Id tid else keeps_row UNIV tid) s s'"
    if "i \<noteq> j" "(if i = owner then keeps_row moves tid else keeps_row Id tid) s s'" for i j s s'
    using that by (auto intro: keeps_row_mono split: if_splits)
qed

lemma crowd_keeps:
  assumes "\<And>i e. e \<in> set (es i) \<Longrightarrow> tid \<notin> discards e"
    and "interleave sched (\<lambda>i. sys_client L (es i)) s0 = (s, ps)"
  shows "keeps_row UNIV tid s0 s"
proof (rule crowd.interleave_keeps [OF _ assms(2)])
  show "toward (keeps_row UNIV tid) UNIV tid (sys_client L (es i)) s0" for i
    using assms(1) by (intro toward_client) (simp_all add: may_move_def)
  show "keeps_row UNIV tid s0 s0"
    by simp
  show "keeps_row UNIV tid s0 s1 \<Longrightarrow> keeps_row UNIV tid s1 s2 \<Longrightarrow> keeps_row UNIV tid s0 s2" for s1 s2
    by (rule keeps_row_chain [OF preorders(1)])
qed

lemma owned_keeps:
  fixes L :: "('f, 't) sys_lib"
  assumes "\<And>i e. e \<in> set (es i) \<Longrightarrow> tid \<notin> discards e"
    and "\<And>i e. e \<in> set (es i) \<Longrightarrow> tid \<in> status_targets e \<Longrightarrow> i = owner"
    and "interleave sched (\<lambda>i. sys_client L (es i)) s0 = (s, ps)"
  shows "keeps_row moves tid s0 s"
proof (rule owned.interleave_keeps [OF _ assms(3), of owner tid])
  fix i
  show "abides (if i = owner then keeps_row Id tid else keeps_row UNIV tid)
      (if i = owner then keeps_row moves tid else keeps_row Id tid) (sys_client L (es i)) s0"
  proof (cases "i = owner")
    case True
    have "may_move (keeps_row Id tid :: 'f sys_db \<Rightarrow> _) moves tid"
      by (auto simp: may_move_def moves_def)
    with True assms(1) show ?thesis by (auto intro: toward_client)
  next
    case False
    with assms(1,2) show ?thesis by (auto intro!: toward_client)
  qed
next
  show "keeps_row moves tid s0 s0" by simp
  fix i s1 s2
  assume a: "keeps_row moves tid s0 s1" "(if i = owner then keeps_row moves tid else keeps_row Id tid) s1 s2"
  have "keeps_row moves tid s1 s2"
    using a(2) keeps_row_mono [of Id tid s1 s2 moves] by (auto simp: moves_def split: if_splits)
  with a(1) show "keeps_row moves tid s0 s2" by (rule keeps_row_chain [OF preorders(3)])
qed

section \<open>Properties\<close>

text \<open>
  Statement by statement and operation by operation agree where nobody interferes: a client
  scheduled without interruption ends after finitely many statements, answers every request of its list, and
  leaves the database as the operations of the module do, run one after the other.
\<close>

theorem uninterrupted_client:
  fixes L :: "('f, 't) sys_lib"
  shows "\<exists>n. \<forall>m. interleave (replicate (n + m) c) (\<lambda>i. sys_client L (es i)) s0 =
    (foldl (sys_exec L) s0 (es c), (\<lambda>i. sys_client L (es i))(c := Done (Inr ())))"
proof -
  have "snd (run (sys_client L es) s) = Inr ()" for es s
    unfolding sys_client_def
    by (induction es arbitrary: s) (auto simp: run_simps ret_def attempt_def split: prod.splits)
  with uninterrupted [of c "\<lambda>i. sys_client L (es i)" s0] obtain n where
    "\<forall>m \<ge> n. interleave (replicate m c) (\<lambda>i. sys_client L (es i)) s0 =
      (foldl (sys_exec L) s0 (es c), (\<lambda>i. sys_client L (es i))(c := Done (Inr ())))"
    by (auto simp: run_sys_client)
  then have "\<forall>m. interleave (replicate (n + m) c) (\<lambda>i. sys_client L (es i)) s0 =
      (foldl (sys_exec L) s0 (es c), (\<lambda>i. sys_client L (es i))(c := Done (Inr ())))"
    by (simp del: replicate_add)
  then show ?thesis by (rule exI [of _ n])
qed

text \<open>
  C2: The life of a task among concurrent requests. Any number of clients issue any operations of the
  module, with any faults and clocks, and their statements interleave in any order. A task that no turn gives
  up for another stays in the table, once, with its identity and origin. Its status still follows
  the state machine, and \<open>finished\<close> is for ever, when all the operations that may set its status come from one
  client.
\<close>

theorem interleaved_lifecycle:
  assumes "tasks_ok s0" and "t \<in> set (sd_tasks s0)"
    and "\<forall>i. \<forall>e \<in> set (es i). tk_task_id t \<notin> discards e"
    and "interleave sched (\<lambda>i. sys_client L (es i)) s0 = (s, ps)"
  shows "tasks_ok s \<and>
    (\<exists>t' \<in> set (sd_tasks s).
       t' = t\<lparr>tk_status := tk_status t', tk_description := tk_description t',
              tk_plan_todo := tk_plan_todo t', tk_updated_at := tk_updated_at t'\<rparr> \<and>
       ((\<exists>c. \<forall>i. \<forall>e \<in> set (es i). tk_task_id t \<in> status_targets e \<longrightarrow> i = c) \<longrightarrow>
          (tk_status t, tk_status t') \<in> (set VALID_TRANSITIONS)\<^sup>* \<and>
          (tk_status t = ''finished'' \<longrightarrow> tk_status t' = ''finished'')))"
proof -
  let ?tid = "tk_task_id t"
  have t: "task_lookup ?tid s0 = Some t" using assms(1,2) by (simp add: task_lookup_iff)
  have "keeps_row UNIV ?tid s0 s" by (rule crowd_keeps [OF _ assms(4)]) (use assms(3) in auto)
  then obtain t' where t': "tasks_ok s" "task_lookup ?tid s = Some t'" "same_task t t'"
    using assms(1) t by (auto simp: keeps_row_def)
  have "(tk_status t, tk_status t') \<in> moves"
    if "\<forall>i. \<forall>e \<in> set (es i). ?tid \<in> status_targets e \<longrightarrow> i = c" for c
  proof -
    have "keeps_row moves ?tid s0 s"
      by (rule owned_keeps [OF _ _ assms(4), of _ c]) (use assms(3) that in auto)
    then show ?thesis using t t'(2) by (auto simp: keeps_row_def)
  qed
  then show ?thesis
    using t'(1,3) task_lookup_Some [OF t'(2)] finished_stays unfolding moves_def same_task_def by metis
qed

theorem interleaved_lifecycle_witness:
  "\<exists>s ps. interleave [0, 1, 0, 1, 0, 0] (\<lambda>i. sys_client demo_lib
        (((\<lambda>_. []) (0 := [(still 1, SysComplete demo_turn)],
           1 := [(still 2, SysWrite [''tasks'', ''t'', ''description''] ''x'')])) i))
      (demo_db [demo_task ''t'' ''finished'']) = (s, ps) \<and>
     (\<exists>t' \<in> set (sd_tasks s). tk_task_id t' = ''t'' \<and> tk_status t' = ''finished'')"
proof -
  let ?es = "(\<lambda>_. []) (0 := [(still 1, SysComplete demo_turn)],
     1 := [(still 2, SysWrite [''tasks'', ''t'', ''description''] ''x'')])"
  let ?t = "demo_task ''t'' ''finished''"
  obtain s ps where run: "interleave [0, 1, 0, 1, 0, 0] (\<lambda>i. sys_client demo_lib (?es i)) (demo_db [?t]) = (s, ps)"
    by fastforce
  have "tasks_ok (demo_db [?t])" "?t \<in> set (sd_tasks (demo_db [?t]))"
    "\<forall>i. \<forall>e \<in> set (?es i). tk_task_id ?t \<notin> discards e"
    "\<forall>i. \<forall>e \<in> set (?es i). tk_task_id ?t \<in> status_targets e \<longrightarrow> i = 0"
    by (simp_all add: tasks_ok_def demo_db_def demo_task_def demo_turn_def)
  with interleaved_lifecycle [OF this(1-3) run] obtain t' where "t' \<in> set (sd_tasks s)"
    "t' = ?t\<lparr>tk_status := tk_status t', tk_description := tk_description t',
              tk_plan_todo := tk_plan_todo t', tk_updated_at := tk_updated_at t'\<rparr>"
    "tk_status ?t = ''finished'' \<longrightarrow> tk_status t' = ''finished''" by blast
  moreover from this(2) have "same_task ?t t'" unfolding same_task_def .
  then have "tk_task_id t' = ''t''" by (simp add: same_taskD demo_task_def)
  ultimately show ?thesis using run by (auto simp: demo_task_def)
qed

text \<open>The statements of a turn, one by one.\<close>

lemma live_system [simp]:
  "live (sqlp w label prefix m)" "live (transition_status_p L w tid new)" "live (pop_plan_head_p L w tid)"
  by (simp_all add: sqlp_def transition_status_p_def pop_plan_head_p_def)

lemma next_update [next_simps]:
  "calm w \<Longrightarrow> next_step (sqlp w label prefix (update_task tid f)) s = (fst (update_task tid f s), retp ())"
  by (simp add: next_simps update_task_def modify_def)

lemma next_transition [next_simps]:
  "calm w \<Longrightarrow> task_lookup tid s = Some t \<Longrightarrow> (tk_status t, new) \<in> set VALID_TRANSITIONS \<Longrightarrow>
   next_step (transition_status_p L w tid new) s = (s, sqlp w ''transition status'' ''transition status: ''
     (update_task tid (set_status new (now_str L w))))"
  "calm w \<Longrightarrow> task_lookup tid s = Some t \<Longrightarrow> (tk_status t, new) \<notin> set VALID_TRANSITIONS \<Longrightarrow>
   next_step (transition_status_p L w tid new) s =
     (s, failp (InvalidPath (''invalid transition: '' @ tk_status t @ arrow @ new)))"
  by (simp_all add: transition_status_p_def next_simps fetch_status_def set_status_def [abs_def])

definition plain_turn :: "string \<Rightarrow> complete_params \<Rightarrow> bool" where
  "plain_turn tid p \<longleftrightarrow> cp_task_id p = tid \<and> tid \<noteq> [] \<and> cp_resume_task_id p = [] \<and> cp_plan_todo p = [] \<and> \<not> cp_anchor p"

definition turn_status :: "complete_params \<Rightarrow> string" where
  "turn_status p = (if cp_sleep_reason p \<noteq> [] then ''sleep'' else ''finished'')"

definition turn_result :: "complete_params \<Rightarrow> complete_result" where
  "turn_result p = \<lparr>cr_reply = cp_reply p, cr_anchor_id = [], cr_task_log = cp_task_log p, cr_task_id = cp_task_id p\<rparr>"

lemma plain_turn_statements:
  "plain_turn tid p \<Longrightarrow> complete_execute_p L w p =
     bindp (ignorep (transition_status_p L (at_w ''activate'' w) tid ''active'')) (\<lambda>_.
     bindp (transition_status_p L (at_w ''status'' w) tid (turn_status p)) (\<lambda>_. retp (turn_result p)))"
  by (auto simp: complete_execute_p_def Let_def plain_turn_def turn_status_def turn_result_def)

lemma plain_turn_steps:
  assumes "plain_turn tid p" and "calm w" and "task_lookup tid s = Some t" and "tk_status t = ''active''"
  obtains B C where "next_step (complete_execute_p L w p) s = (s, B)" "next_step B s = (s, C)"
    "\<And>s'. next_step C s' =
       (fst (update_task tid (set_status (turn_status p) (now_str L (at_w ''status'' w))) s'), retp (turn_result p))"
proof -
  have "(tk_status t, ''active'') \<notin> set VALID_TRANSITIONS" "(tk_status t, turn_status p) \<in> set VALID_TRANSITIONS"
    using assms(4) by (simp_all add: VALID_TRANSITIONS_def turn_status_def)
  with assms show thesis
    by (intro that [of "bindp (transition_status_p L (at_w ''status'' w) tid (turn_status p)) (\<lambda>_. retp (turn_result p))"
          "bindp (sqlp (at_w ''status'' w) ''transition status'' ''transition status: ''
             (update_task tid (set_status (turn_status p) (now_str L (at_w ''status'' w))))) (\<lambda>_. retp (turn_result p))"])
       (simp_all add: plain_turn_statements next_simps)
qed

text \<open>
  C21: A turn is not atomic, although its documentation says so. Two turns of one active task, one that
  ends it and one that puts it to sleep: both read that it is active, the first finishes it and
  answers; then the second writes its status, and the finished task sleeps, from where it can be resumed.
\<close>

theorem finished_task_reopened:
  fixes L :: "('f, 't) sys_lib"
  assumes "calm w" and "calm v" and "task_lookup tid s0 = Some t" and "tk_status t = ''active''"
    and "plain_turn tid p" and "cp_sleep_reason p = []" and "plain_turn tid q" and "cp_sleep_reason q \<noteq> []"
  shows "\<exists>s1 ps1 s2 ps2.
    interleave [0, 0, 1, 1, 0] (ps(0 := complete_execute_p L w p, 1 := complete_execute_p L v q)) s0 = (s1, ps1) \<and>
    ps1 0 = Done (Inr (turn_result p)) \<and>
    map_option tk_status (task_lookup tid s1) = Some ''finished'' \<and>
    interleave [1] ps1 s1 = (s2, ps2) \<and>
    ps2 1 = Done (Inr (turn_result q)) \<and>
    map_option tk_status (task_lookup tid s2) = Some ''sleep''"
proof -
  obtain B C where p: "next_step (complete_execute_p L w p) s0 = (s0, B)" "next_step B s0 = (s0, C)"
    "\<And>s'. next_step C s' =
       (fst (update_task tid (set_status (turn_status p) (now_str L (at_w ''status'' w))) s'), retp (turn_result p))"
    using plain_turn_steps [OF assms(5,1,3,4), where L = L] by blast
  obtain B' C' where q: "next_step (complete_execute_p L v q) s0 = (s0, B')" "next_step B' s0 = (s0, C')"
    "\<And>s'. next_step C' s' =
       (fst (update_task tid (set_status (turn_status q) (now_str L (at_w ''status'' v))) s'), retp (turn_result q))"
    using plain_turn_steps [OF assms(7,2,3,4), where L = L] by blast
  show ?thesis
    using assms(3,6,8) by (simp add: sched_two p q task_lookup_update turn_status_def retp_def)
qed

theorem finished_task_reopened_witness:
  "map_option tk_status (task_lookup ''t'' (fst (interleave [0, 0, 1, 1, 0, 1] ((\<lambda>_. Done (Inl (InvalidPath [])))
     (0 := complete_execute_p demo_lib (still 1) (demo_turn\<lparr>cp_anchor := False\<rparr>),
      1 := complete_execute_p demo_lib (still 2) (demo_turn\<lparr>cp_anchor := False, cp_sleep_reason := ''later''\<rparr>)))
     (demo_db [demo_task ''t'' ''active''])))) = Some ''sleep''"
proof -
  obtain s1 ps1 s2 ps2 where
    "interleave [0, 0, 1, 1, 0] ((\<lambda>_. Done (Inl (InvalidPath [])))
     (0 := complete_execute_p demo_lib (still 1) (demo_turn\<lparr>cp_anchor := False\<rparr>),
      1 := complete_execute_p demo_lib (still 2) (demo_turn\<lparr>cp_anchor := False, cp_sleep_reason := ''later''\<rparr>)))
     (demo_db [demo_task ''t'' ''active'']) = (s1, ps1)"
    "interleave [1] ps1 s1 = (s2, ps2)" "map_option tk_status (task_lookup ''t'' s2) = Some ''sleep''"
    using finished_task_reopened [of "still 1" "still 2" "''t''" "demo_db [demo_task ''t'' ''active'']"
        "demo_task ''t'' ''active''" "demo_turn\<lparr>cp_anchor := False\<rparr>"
        "demo_turn\<lparr>cp_anchor := False, cp_sleep_reason := ''later''\<rparr>" "\<lambda>_. Done (Inl (InvalidPath []))" demo_lib]
    by (simp add: demo_db_def demo_task_def demo_turn_def plain_turn_def task_lookup_def) blast
  then show ?thesis
    using interleave_append [of "[0, 0, 1, 1, 0]" "[1]"] by simp
qed

definition plan_turn :: "string \<Rightarrow> complete_params \<Rightarrow> bool" where
  "plan_turn tid p \<longleftrightarrow> cp_task_id p = tid \<and> tid \<noteq> [] \<and> cp_resume_task_id p = [] \<and> cp_plan_todo p \<noteq> [] \<and> \<not> cp_anchor p"

lemma plan_turn_statements:
  "plan_turn tid p \<Longrightarrow> complete_execute_p L w p =
     bindp (ignorep (transition_status_p L (at_w ''activate'' w) tid ''active'')) (\<lambda>_.
     bindp (atom (set_plan_todo L (at_w ''plan'' w) tid (print_strings (sl_codec L) (cp_plan_todo p)))) (\<lambda>_.
     bindp (transition_status_p L (at_w ''sleep'' w) tid ''sleep'') (\<lambda>_. retp (turn_result p))))"
  by (auto simp: complete_execute_p_def Let_def plan_turn_def turn_result_def)

lemma next_set_plan [next_simps]:
  "calm w \<Longrightarrow> next_step (atom (set_plan_todo L w tid todo)) s =
     (fst (update_task tid (\<lambda>r. r\<lparr>tk_plan_todo := todo, tk_updated_at := now_str L w\<rparr>) s), retp ())"
  by (rule next_basic) (simp add: set_plan_todo_def sql_calm update_task_def modify_def)

lemma next_pop [next_simps]:
  "calm w \<Longrightarrow> task_lookup tid s = Some t \<Longrightarrow> parse_strings (sl_codec L) (tk_plan_todo t) = Some (d # ds) \<Longrightarrow>
   next_step (pop_plan_head_p L w tid) s =
     (s, bindp (sqlp w ''pop plan head'' ''pop plan head: '' (update_task tid
        (\<lambda>r. r\<lparr>tk_plan_todo := print_strings (sl_codec L) ds, tk_updated_at := now_str L w\<rparr>))) (\<lambda>_. retp (Some d)))"
  by (simp add: pop_plan_head_p_def next_simps query_def)

text \<open>
  C38: A new plan is lost to a pop of the old one. The scheduler has read the plan of a sleeping
  planner; before it writes back the tail, the planner is woken, stores a new plan and sleeps again, all
  acknowledged. The tail of the old plan then replaces the new one: where the old plan had one step, the
  planner sleeps with an empty plan, and the scheduler does not look at it again.
\<close>

theorem new_plan_lost:
  fixes L :: "('f, 't) sys_lib"
  assumes "calm w" and "calm v" and "codec_ok (sl_codec L)" and "task_lookup tid s0 = Some t"
    and "tk_status t = ''sleep''" and "plan_of (sl_codec L) tid s0 = d # ds" and "plan_turn tid p"
  shows "\<exists>s1 ps1 s2 ps2.
    interleave [0, 1, 1, 1, 1, 1] (ps(0 := okp (pop_plan_head_p L w tid), 1 := okp (complete_execute_p L v p))) s0
      = (s1, ps1) \<and>
    ps1 1 = retp True \<and> plan_of (sl_codec L) tid s1 = cp_plan_todo p \<and>
    interleave [0] ps1 s1 = (s2, ps2) \<and>
    ps2 0 = retp True \<and> plan_of (sl_codec L) tid s2 = ds \<and>
    map_option tk_status (task_lookup tid s2) = Some ''sleep''"
proof -
  have "parse_strings (sl_codec L) (tk_plan_todo t) = Some (d # ds)"
    using assms(4,6) by (cases "parse_strings (sl_codec L) (tk_plan_todo t)") (simp_all add: plan_of_def)
  with assms show ?thesis
    by (simp add: sched_two next_simps plan_turn_statements task_lookup_update VALID_TRANSITIONS_def plan_of_def
        set_status_def)
qed

definition demo_planner :: task_row where
  "demo_planner = (demo_task ''t'' ''sleep'')\<lparr>tk_plan_todo := print_strings note_codec [''old'']\<rparr>"

definition demo_plan_turn :: complete_params where
  "demo_plan_turn = demo_turn\<lparr>cp_anchor := False, cp_plan_todo := [''a'', ''b'']\<rparr>"

definition demo_rest :: "((nat \<times> string list) list sys_db, vfs_error, bool) clients" where
  "demo_rest = (\<lambda>_. retp True)"

theorem new_plan_lost_witness:
  "plan_of note_codec ''t'' (fst (interleave [0, 1, 1, 1, 1, 1, 0] (demo_rest
     (0 := okp (pop_plan_head_p demo_lib (still 1) ''t''), 1 := okp (complete_execute_p demo_lib (still 2) demo_plan_turn)))
     (demo_db [demo_planner]))) = []"
proof -
  have "task_lookup ''t'' (demo_db [demo_planner]) = Some demo_planner" "tk_status demo_planner = ''sleep''"
    "plan_of (sl_codec demo_lib) ''t'' (demo_db [demo_planner]) = [''old'']" "plan_turn ''t'' demo_plan_turn"
    by (simp_all add: task_lookup_def demo_db_def demo_planner_def demo_task_def plan_of_def note_codec_ok
        plan_turn_def demo_plan_turn_def demo_turn_def)
  from new_plan_lost [OF _ _ _ this, of "still 1" "still 2" demo_rest] obtain s1 ps1 s2 ps2 where
    "interleave [0, 1, 1, 1, 1, 1] (demo_rest (0 := okp (pop_plan_head_p demo_lib (still 1) ''t''),
       1 := okp (complete_execute_p demo_lib (still 2) demo_plan_turn))) (demo_db [demo_planner]) = (s1, ps1)"
    "interleave [0] ps1 s1 = (s2, ps2)" "plan_of note_codec ''t'' s2 = []"
    by (auto simp: note_codec_ok)
  then show ?thesis
    using interleave_append [of "[0, 1, 1, 1, 1, 1]" "[0]"] by simp
qed

end
