(* ===== verification/Logos_Observe.thy ===== *)
theory Logos_Observe
  imports Logos_Session Logos_Interleave
begin

text \<open>
  The session store of \<open>logos-session/src/lib.rs\<close> lock by lock. \<open>observe\<close> holds the lock of the layers in
  memory only while it looks the replied-to message up and while it files the message; the calls of the disk lie
  between and after, each an \<open>.await\<close>. Messages observed at the same time interleave at all these places. The
  operations are given again as sequences of such steps; alone each is the step of \<open>Logos_Session\<close>.
\<close>

section \<open>The disk, call by call\<close>

fun l2_forget_msgs_p :: "('d, 'v) lance \<Rightarrow> msg_ref list \<Rightarrow> ('d, vfs_error, unit) prog" where
  "l2_forget_msgs_p D [] = retp ()"
| "l2_forget_msgs_p D (m # ms) =
     bindp (ignorep (atom (l2_delete_rows D ''msg_index'' (col_is ''msg_id'' (int_str (mr_msg_id m))) []))) (\<lambda>_.
     l2_forget_msgs_p D ms)"

definition l2_update_msg_index_p :: "('d, 'v) lance \<Rightarrow> sess \<Rightarrow> ('d, vfs_error, unit) prog" where
  "l2_update_msg_index_p D s =
     bindp (atom (l2_open D ''msg_index'')) (\<lambda>_.
     bindp (l2_forget_msgs_p D (ss_messages s)) (\<lambda>_.
     (let rows = map (\<lambda>m. ([(''msg_id'', int_str (mr_msg_id m)), (''session_id'', ss_id s)], []))
                   (ss_messages s) in
      bindp (Done (map_err (\<lambda>e. Io (''msg_index batch: '' @ e)) (lc_batch D ''msg_index'' rows))) (\<lambda>_.
      atom (l2_add_rows D ''msg_index'' rows ''msg_index add: '')))))"

definition l2_persist_p :: "('d, 'v) lance \<Rightarrow> sess \<Rightarrow> ('d, vfs_error, unit) prog" where
  "l2_persist_p D s =
     (let text = text_for_embed s in
      bindp (atom (lift_result (lc_embed D text))) (\<lambda>vector.
      bindp (Done (map_err (\<lambda>e. Io (''serialize: '' @ e)) (lc_ser D s))) (\<lambda>data.
      bindp (atom (l2_open D ''sessions'')) (\<lambda>_.
      bindp (ignorep (atom (l2_delete_rows D ''sessions'' (col_is ''session_id'' (ss_id s)) []))) (\<lambda>_.
      if length vector \<noteq> lc_dim D then
        failp (Io (''embedding dim mismatch: expected '' @ nat_str (lc_dim D) @ '', got ''
          @ nat_str (length vector)))
      else
        (let rows = [([(''session_id'', ss_id s), (''chat_id'', ss_chat_id s), (''data'', data),
                       (''last_active'', lc_rfc3339 D (ss_last_active s)), (''text_for_embed'', text)], vector)] in
         bindp (Done (map_err (\<lambda>e. Io (''record batch: '' @ e)) (lc_batch D ''sessions'' rows))) (\<lambda>_.
         bindp (atom (l2_add_rows D ''sessions'' rows ''lancedb add: '')) (\<lambda>_.
         l2_update_msg_index_p D s))))))))"

definition l2_delete_p :: "('d, 'v) lance \<Rightarrow> string \<Rightarrow> ('d, vfs_error, unit) prog" where
  "l2_delete_p D sid =
     bindp (atom (l2_open D ''sessions'')) (\<lambda>_.
     bindp (atom (l2_delete_rows D ''sessions'' (col_is ''session_id'' sid) ''lancedb delete: '')) (\<lambda>_.
     bindp (atom (l2_open D ''msg_index'')) (\<lambda>_.
     atom (l2_delete_rows D ''msg_index'' (col_is ''session_id'' sid) ''msg_index delete: ''))))"

definition l2_load_by_id_p :: "('d, 'v) lance \<Rightarrow> string \<Rightarrow> ('d, vfs_error, sess option) prog" where
  "l2_load_by_id_p D sid =
     bindp (atom (l2_open D ''sessions'')) (\<lambda>_.
     bindp (atom (\<lambda>d. (d, l2_query [] (lc_select D ''sessions'' (col_is ''session_id'' sid) d)))) (\<lambda>bs.
     Done (extract_session D bs)))"

definition l2_load_by_msg_p :: "('d, 'v) lance \<Rightarrow> int \<Rightarrow> ('d, vfs_error, sess option) prog" where
  "l2_load_by_msg_p D msg_id =
     bindp (atom (l2_open D ''msg_index'')) (\<lambda>_.
     bindp (atom (\<lambda>d. (d, l2_query ''idx '' (lc_select D ''msg_index'' (col_is ''msg_id'' (int_str msg_id)) d)))) (\<lambda>bs.
     case first_row bs of
       None \<Rightarrow> retp None
     | Some r \<Rightarrow>
         (case lr_cols r ''session_id'' of None \<Rightarrow> retp None | Some sid \<Rightarrow> l2_load_by_id_p D sid)))"

text \<open>The batches of a vector search, with the message of the stage that failed.\<close>

definition nearest_batches ::
  "string + (string + (string + lance_row list list)) \<Rightarrow> lance_row list list vfs_result" where
  "nearest_batches r =
     (case r of
        Inl e \<Rightarrow> Inl (Io (''vector search: '' @ e))
      | Inr (Inl e) \<Rightarrow> Inl (Io (''search exec: '' @ e))
      | Inr (Inr (Inl e)) \<Rightarrow> Inl (Io (''search collect: '' @ e))
      | Inr (Inr (Inr bs)) \<Rightarrow> Inr bs)"

definition l2_semantic_search_p ::
  "('d, 'v) lance \<Rightarrow> string \<Rightarrow> string \<Rightarrow> ('d, vfs_error, sess option) prog" where
  "l2_semantic_search_p D text chat_id =
     bindp (atom (lift_result (lc_embed D text))) (\<lambda>vector.
     bindp (atom (l2_open D ''sessions'')) (\<lambda>_.
     bindp (atom (\<lambda>d. (d, nearest_batches (lc_nearest D ''sessions'' (col_is ''chat_id'' chat_id) vector d)))) (\<lambda>bs.
     case first_row bs of
       None \<Rightarrow> retp None
     | Some r \<Rightarrow>
         (case lr_distance r of
            Some dist \<Rightarrow> if too_far dist then retp None else Done (extract_session D bs)
          | None \<Rightarrow> Done (extract_session D bs)))))"

fun persist_all_p :: "('d, 'v) lance \<Rightarrow> sess list \<Rightarrow> ('d, 'e, unit) prog" where
  "persist_all_p D [] = retp ()"
| "persist_all_p D (x # xs) = bindp (ignorep (l2_persist_p D x)) (\<lambda>_. persist_all_p D xs)"

section \<open>Observing a message, lock by lock\<close>

primrec on_l2p :: "('d, 'e, 'a) prog \<Rightarrow> ('d session_store, 'e, 'a) prog" where
  "on_l2p (Done r) = Done r"
| "on_l2p (Step f) = Step (\<lambda>s. case map_prod id on_l2p (f (st_l2 s)) of (d, p) \<Rightarrow> (s\<lparr>st_l2 := d\<rparr>, p))"

definition or_nonep :: "('s, 'e, 'a option) prog \<Rightarrow> ('s, 'f, 'a option) prog" where
  "or_nonep p = attemptp p (\<lambda>r. retp (unwrap_or r None))"

definition observe_p ::
  "order \<Rightarrow> ('d, 'v) lance option \<Rightarrow> nat \<Rightarrow> msg_ref \<Rightarrow> ('d session_store, vfs_error, unit) prog" where
  "observe_p ord l2 now msg =
     bindp (case mr_reply_to msg of
         Some reply_to \<Rightarrow>
           bindp (atom (query (\<lambda>s. in_msg_index (st_inner s) reply_to = None))) (\<lambda>need_fault.
           if need_fault
           then (case l2 of Some D \<Rightarrow> or_nonep (on_l2p (l2_load_by_msg_p D reply_to)) | None \<Rightarrow> retp None)
           else retp None)
       | None \<Rightarrow> retp None) (\<lambda>page_fault.
     bindp (case (page_fault, l2) of
         (Some x, Some D) \<Rightarrow> ignorep (on_l2p (l2_delete_p D (ss_id x))) | _ \<Rightarrow> retp ()) (\<lambda>_.
     bindp (case (mr_reply_to msg, page_fault, l2) of
         (None, None, Some D) \<Rightarrow> or_nonep (on_l2p (l2_semantic_search_p D (mr_text msg) (mr_chat_id msg)))
       | _ \<Rightarrow> retp None) (\<lambda>semantic.
     bindp (case (semantic, l2) of
         (Some x, Some D) \<Rightarrow> ignorep (on_l2p (l2_delete_p D (ss_id x))) | _ \<Rightarrow> retp ()) (\<lambda>_.
     bindp (atom (\<lambda>s. case evict_collect ord (file_message page_fault semantic msg now (st_inner s)) of
         (i, evicted) \<Rightarrow> (s\<lparr>st_inner := i\<rparr>, Inr evicted))) (\<lambda>evicted.
     case l2 of None \<Rightarrow> retp () | Some D \<Rightarrow> on_l2p (persist_all_p D evicted))))))"

definition get_session_for_msg_p ::
  "('d, 'v) lance option \<Rightarrow> int \<Rightarrow> ('d session_store, vfs_error, sess option) prog" where
  "get_session_for_msg_p l2 msg_id =
     bindp (atom (query (\<lambda>s. Option.bind (in_msg_index (st_inner s) msg_id) (in_memory (st_inner s))))) (\<lambda>found.
     case found of
       Some x \<Rightarrow> retp (Some x)
     | None \<Rightarrow> (case l2 of None \<Rightarrow> retp None | Some D \<Rightarrow> or_nonep (on_l2p (l2_load_by_msg_p D msg_id))))"

definition get_session_p ::
  "('d, 'v) lance option \<Rightarrow> string \<Rightarrow> ('d session_store, vfs_error, sess option) prog" where
  "get_session_p l2 sid =
     bindp (atom (query (\<lambda>s. in_memory (st_inner s) sid))) (\<lambda>found.
     case found of
       Some x \<Rightarrow> retp (Some x)
     | None \<Rightarrow> (case l2 of None \<Rightarrow> retp None | Some D \<Rightarrow> or_nonep (on_l2p (l2_load_by_id_p D sid))))"

section \<open>Alone\<close>

lemma run_on_l2p [run_simps]: "run (on_l2p p) = on_l2 (run p)"
proof (induction p)
  case (Step f)
  show ?case
  proof
    fix s :: "'a session_store"
    obtain d p where f: "f (st_l2 s) = (d, p)" by fastforce
    have "p \<in> Basic_BNFs.snds (f (st_l2 s))" by (simp add: f snds.intros)
    from Step [OF rangeI this] show "run (on_l2p (Step f)) s = on_l2 (run (Step f)) s"
      by (simp add: run.simps f on_l2_def split: prod.splits)
  qed
qed (simp add: fun_eq_iff run.simps on_l2_def)

lemma run_or_nonep [run_simps]: "run (or_nonep p) = or_none (run p)"
  by (simp add: or_nonep_def or_none_def run_simps)

lemma run_l2_forget [run_simps]: "run (l2_forget_msgs_p D ms) = l2_forget_msgs D ms"
  by (induction ms) (simp_all add: run_simps ignoring_def)

lemma run_l2_index [run_simps]: "run (l2_update_msg_index_p D s) = l2_update_msg_index D s"
  by (simp add: l2_update_msg_index_p_def l2_update_msg_index_def run_simps Let_def)

lemma run_l2_persist [run_simps]: "run (l2_persist_p D s) = l2_persist D s"
  by (simp add: l2_persist_p_def l2_persist_def run_simps ignoring_def Let_def cong: if_cong)

lemma run_l2_delete [run_simps]: "run (l2_delete_p D sid) = l2_delete D sid"
  by (simp add: l2_delete_p_def l2_delete_def run_simps)

lemma run_l2_load_by_id [run_simps]: "run (l2_load_by_id_p D sid) = l2_load_by_id D sid"
  by (auto simp: l2_load_by_id_p_def l2_load_by_id_def run_simps andthen_def lift_result_def fun_eq_iff
      split: prod.splits sum.splits)

lemma run_l2_load_by_msg [run_simps]: "run (l2_load_by_msg_p D m) = l2_load_by_msg D m"
  by (auto simp: l2_load_by_msg_p_def l2_load_by_msg_def run_simps andthen_def lift_result_def fun_eq_iff
      split: prod.splits sum.splits option.splits)

lemma run_l2_semantic [run_simps]: "run (l2_semantic_search_p D text chat) = l2_semantic_search D text chat"
  by (auto simp: l2_semantic_search_p_def l2_semantic_search_def run_simps andthen_def lift_result_def fun_eq_iff
      nearest_batches_def fail_def split: prod.splits sum.splits option.splits)

lemma run_persist_all [run_simps]: "run (persist_all_p D xs) = persist_all D xs"
  by (induction xs) (simp_all add: run_simps ignoring_def)

lemma run_first_lookup:
  "run (case mr_reply_to msg of
       Some reply_to \<Rightarrow>
         bindp (atom (query (\<lambda>s. in_msg_index (st_inner s) reply_to = None))) (\<lambda>need_fault.
         if need_fault
         then (case l2 of Some D \<Rightarrow> or_nonep (on_l2p (l2_load_by_msg_p D reply_to)) | None \<Rightarrow> retp None)
         else retp None)
     | None \<Rightarrow> retp None) = fetch_page l2 msg"
  by (auto simp: fetch_page_def run_simps andthen_def query_def ret_def fun_eq_iff split: option.splits)

lemma run_observe [run_simps]: "run (observe_p ord l2 now msg) = observe ord l2 now msg"
proof -
  have last: "andthen (\<lambda>s. case evict_collect ord (file_message pf sem msg now (st_inner s)) of
        (i, evicted) \<Rightarrow> (s\<lparr>st_inner := i\<rparr>, Inr evicted))
      (\<lambda>evicted. case l2 of None \<Rightarrow> ret () | Some D \<Rightarrow> on_l2 (persist_all D evicted)) =
    (\<lambda>s. (case evict_collect ord (file_message pf sem msg now (st_inner s)) of
        (i, evicted) \<Rightarrow>
          (case l2 of None \<Rightarrow> ret () | Some D \<Rightarrow> on_l2 (persist_all D evicted)) (s\<lparr>st_inner := i\<rparr>)))" for pf sem
    by (simp add: fun_eq_iff andthen_def split: prod.splits)
  show ?thesis
    unfolding observe_p_def observe_def run_bindp run_first_lookup
    by (simp add: run_simps last fetch_page_def [abs_def] ignoring_def cong: option.case_cong)
qed

lemma run_session_reads [run_simps]:
  "run (get_session_for_msg_p l2 m) = get_session_for_msg l2 m"
  "run (get_session_p l2 sid) = get_session l2 sid"
  by (auto simp: get_session_for_msg_p_def get_session_for_msg_def get_session_p_def get_session_def run_simps
      andthen_def query_def fun_eq_iff split: option.splits)

section \<open>What every interleaving keeps of the layers\<close>

definition layers_ok :: "nat \<Rightarrow> nat \<Rightarrow> inner \<Rightarrow> bool" where
  "layers_ok c0 c1 s \<longleftrightarrow> index_ok s \<and> within_capacity s \<and> in_l0_capacity s = c0 \<and> in_l1_capacity s = c1"

lemma layers_ok_filed:
  assumes "enumerates ord" and "layers_ok c0 c1 s" and "evict_collect ord (file_message pf sem msg now s) = (s', ev)"
  shows "layers_ok c0 c1 s'"
proof -
  have "index_ok (file_message pf sem msg now s)"
    using assms(2) by (simp add: layers_ok_def index_ok_file_message)
  from evict_collect_ok [OF assms(1) this assms(3)] assms(2) show ?thesis
    by (simp add: layers_ok_def file_message_capacity)
qed

text \<open>The calls of the disk leave the layers alone.\<close>

definition layers_rel :: "nat \<Rightarrow> nat \<Rightarrow> 'd session_store \<Rightarrow> 'd session_store \<Rightarrow> bool" where
  "layers_rel c0 c1 s s' \<longleftrightarrow> (layers_ok c0 c1 (st_inner s) \<longrightarrow> layers_ok c0 c1 (st_inner s'))"

lemma layers_rel_disk [simp]: "layers_rel c0 c1 s (s\<lparr>st_l2 := d\<rparr>)"
  by (simp add: layers_rel_def)

lemma abides_on_l2p [abides_intros]: "abides R (layers_rel c0 c1) (on_l2p p) s"
proof (induction p arbitrary: s)
  case (Step f)
  show ?case
  proof (simp, intro allI impI)
    fix s' :: "'a session_store"
    obtain d p where f: "f (st_l2 s') = (d, p)" by fastforce
    have "p \<in> Basic_BNFs.snds (f (st_l2 s'))" by (simp add: f snds.intros)
    from Step [OF rangeI this] show "case map_prod id (abides R (layers_rel c0 c1))
        (case map_prod id on_l2p (f (st_l2 s')) of (d, p) \<Rightarrow> (s'\<lparr>st_l2 := d\<rparr>, p)) of
        (s'', k) \<Rightarrow> layers_rel c0 c1 s' s'' \<and> k s''"
      by (simp add: f)
  qed
qed simp

lemma abides_or_nonep [abides_intros]: "abides R G p s \<Longrightarrow> abides R G (or_nonep p) s"
  unfolding or_nonep_def by (intro abides_intros)

lemma abides_query [abides_intros]: "abides R (layers_rel c0 c1) (atom (query f)) s"
  by (rule abides_atom) (simp add: query_def layers_rel_def)

lemma abides_observe:
  assumes "enumerates ord"
  shows "abides R (layers_rel c0 c1) (observe_p ord l2 now msg) s"
proof -
  have filing: "abides R (layers_rel c0 c1) (atom (\<lambda>s.
      case evict_collect ord (file_message pf sem msg now (st_inner s)) of
        (i, evicted) \<Rightarrow> (s\<lparr>st_inner := i\<rparr>, Inr evicted))) s" for pf sem s
    using layers_ok_filed [OF assms] by (intro abides_atom) (auto simp: layers_rel_def split: prod.splits)
  show ?thesis
    unfolding observe_p_def by (intro abides_bindp filing) (auto intro!: abides_intros split: option.splits)
qed

lemma abides_session_reads:
  "abides R (layers_rel c0 c1) (get_session_for_msg_p l2 m) s" "abides R (layers_rel c0 c1) (get_session_p l2 sid) s"
  unfolding get_session_for_msg_p_def get_session_p_def by (intro abides_intros)+

interpretation layers: rely_guarantee "\<lambda>_ :: nat. layers_rel c0 c1" "\<lambda>_. layers_rel c0 c1"
  for c0 c1
  by unfold_locales (auto simp: layers_rel_def)

text \<open>The requests the memory module makes of the store.\<close>

datatype session_op =
    Observe nat msg_ref
  | SessionOfMsg int
  | SessionById string

fun session_prog :: "order \<Rightarrow> ('d, 'v) lance option \<Rightarrow> session_op \<Rightarrow> ('d session_store, vfs_error, unit) prog" where
  "session_prog ord l2 (Observe now msg) = observe_p ord l2 now msg"
| "session_prog ord l2 (SessionOfMsg m) = ignorep (get_session_for_msg_p l2 m)"
| "session_prog ord l2 (SessionById sid) = ignorep (get_session_p l2 sid)"

definition session_client ::
  "order \<Rightarrow> ('d, 'v) lance option \<Rightarrow> session_op list \<Rightarrow> ('d session_store, vfs_error, unit) prog" where
  "session_client ord l2 ops = in_turn (map (session_prog ord l2) ops)"

lemma abides_session_client: "enumerates ord \<Longrightarrow> abides R (layers_rel c0 c1) (session_client ord l2 ops) s"
proof -
  assume ord: "enumerates ord"
  have "abides R (layers_rel c0 c1) (session_prog ord l2 op) s" for op s
    by (cases op) (auto intro!: abides_observe [OF ord] abides_session_reads abides_ignorep)
  then show ?thesis
    unfolding session_client_def by (intro abides_in_turn) auto
qed

section \<open>Properties\<close>

text \<open>
  C12: The layers under concurrent messages. Any number of clients observe messages and look sessions
  up, their locked sections and the calls of the disk interleaved in any order, whatever the disk answers: the
  two layers stay within their capacities, and every indexed message points at a session in memory that carries
  that id.
\<close>

theorem concurrent_layers_invariant:
  fixes l2 :: "('d, 'v) lance option"
  assumes "enumerates ord" and "st_inner s0 = store_new c0 c1"
    and "interleave sched (\<lambda>i. session_client ord l2 (ops i)) s0 = (s, ps)"
  shows "card (dom (in_l0 (st_inner s))) \<le> c0 \<and> card (dom (in_l1 (st_inner s))) \<le> c1 \<and>
    (\<forall>m sid. in_msg_index (st_inner s) m = Some sid \<longrightarrow>
       (\<exists>x. in_memory (st_inner s) sid = Some x \<and> ss_id x = sid))"
proof -
  have "layers_ok c0 c1 (st_inner s)"
  proof (rule layers.interleave_keeps [OF _ assms(3)])
    show "abides (layers_rel c0 c1) (layers_rel c0 c1) (session_client ord l2 (ops i)) s0" for i
      by (rule abides_session_client [OF assms(1)])
    show "layers_ok c0 c1 (st_inner s0)"
      by (simp add: assms(2) layers_ok_def index_ok_def within_capacity_def store_new_def)
  qed (simp add: layers_rel_def)
  then show ?thesis
    by (force simp: layers_ok_def index_ok_def within_capacity_def in_memory_def split: option.splits)
qed

theorem concurrent_layers_invariant_witness:
  "card (dom (in_l0 (st_inner (fst (interleave [0, 1, 0, 1, 1, 0, 1, 0]
     (\<lambda>i. session_client sorted_list_of_set (Some (disk_of (sess_new ''a'' (demo_msg 1 ''a'' None) 5)))
        [Observe (6 + i) (demo_msg (2 + int i) ''a'' (Some 1))]) (demo_store 1 1)))))) \<le> 1"
proof -
  have "st_inner (demo_store 1 1) = store_new 1 1" by (simp add: demo_store_def)
  then show ?thesis
    by (rule concurrent_layers_invariant [OF enumerates_sorted_list _ prod.collapse [symmetric], THEN conjunct1])
qed

text \<open>Two replies to a message on disk, step by step.\<close>

definition disk_holds :: "('d, 'v) lance \<Rightarrow> int \<Rightarrow> sess \<Rightarrow> 'd \<Rightarrow> bool" where
  "disk_holds D r x d \<longleftrightarrow> (\<forall>t e. lc_open D t e = Inr ()) \<and> (\<forall>t c e. \<exists>e'. lc_delete D t c e = Inr e') \<and>
     (\<exists>b row sid b'. lc_select D ''msg_index'' (col_is ''msg_id'' (int_str r)) d = Inr (Inr b) \<and>
        first_row b = Some row \<and> lr_cols row ''session_id'' = Some sid \<and>
        lc_select D ''sessions'' (col_is ''session_id'' sid) d = Inr (Inr b') \<and>
        extract_session D b' = Inr (Some x))"

lemma next_on_l2p [next_simps]:
  "next_step (on_l2p p) s = (case next_step p (st_l2 s) of (d, p') \<Rightarrow> (s\<lparr>st_l2 := d\<rparr>, on_l2p p'))"
  by (cases p) (auto split: prod.splits)

lemma live_l2 [simp]:
  "live p \<Longrightarrow> live (on_l2p p)" "live q \<Longrightarrow> live (or_nonep q)" "live (l2_load_by_msg_p D m)" "live (l2_delete_p D sid)"
  by (auto simp: live_def or_nonep_def l2_load_by_msg_p_def l2_delete_p_def bindp_def atom_def)

lemma l2p_simps [simp]: "on_l2p (retp a) = retp a" "or_nonep (retp b) = retp b" "st_l2_update (\<lambda>_. st_l2 s) s = s"
  by (simp_all add: retp_def or_nonep_def)

lemma next_or_nonep [next_simps]:
  "live p \<Longrightarrow> next_step (or_nonep p) s = (case next_step p s of (s', p') \<Rightarrow> (s', or_nonep p'))"
  by (simp add: or_nonep_def next_simps)

definition file_reply ::
  "order \<Rightarrow> ('d, 'v) lance \<Rightarrow> sess \<Rightarrow> nat \<Rightarrow> msg_ref \<Rightarrow> ('d session_store, vfs_error, unit) prog" where
  "file_reply ord D x now msg =
     bindp (atom (\<lambda>s. case evict_collect ord (file_message (Some x) None msg now (st_inner s)) of
         (i, evicted) \<Rightarrow> (s\<lparr>st_inner := i\<rparr>, Inr evicted))) (\<lambda>evicted. on_l2p (persist_all_p D evicted))"

lemma next_l2 [next_simps]:
  "lc_open D t d = Inr () \<Longrightarrow> next_step (atom (l2_open D t)) d = (d, retp ())"
  "lc_delete D t c d = Inr d' \<Longrightarrow> next_step (atom (l2_delete_rows D t c prefix)) d = (d', retp ())"
  by (simp_all add: next_simps l2_open_def l2_delete_rows_def)

lemma reply_loads:
  fixes ord :: order
  assumes "disk_holds D r x (st_l2 s)" and "mr_reply_to msg = Some r" and "in_msg_index (st_inner s) r = None"
  shows "next_steps 5 (observe_p ord (Some D) now msg) s =
    (s, bindp (ignorep (on_l2p (l2_delete_p D (ss_id x)))) (\<lambda>_. file_reply ord D x now msg))"
proof -
  obtain b row sid b' where
    opens: "\<And>t e. lc_open D t e = Inr ()" and idx: "first_row b = Some row" "lr_cols row ''session_id'' = Some sid"
    and sel: "lc_select D ''msg_index'' (col_is ''msg_id'' (int_str r)) (st_l2 s) = Inr (Inr b)"
      "lc_select D ''sessions'' (col_is ''session_id'' sid) (st_l2 s) = Inr (Inr b')"
    and x: "extract_session D b' = Inr (Some x)"
    using assms(1) unfolding disk_holds_def by blast
  have done': "Done (Inr (Some x)) = retp (Some x)" by (simp add: retp_def)
  have five: "5 = Suc (Suc (Suc (Suc (Suc 0))))" by simp
  show ?thesis
    unfolding five observe_p_def file_reply_def
    by (simp add: assms(2,3) next_simps opens sel idx x l2_load_by_msg_p_def l2_load_by_id_p_def query_def
        l2_query_def done')
qed

lemma reply_forgets:
  assumes "disk_holds D r x d"
  shows "\<exists>d'. next_steps 4 (bindp (ignorep (on_l2p (l2_delete_p D sid))) (\<lambda>_. k)) s = (s\<lparr>st_l2 := d'\<rparr>, k)"
proof -
  have four: "4 = Suc (Suc (Suc (Suc 0)))" by simp
  have opens: "lc_open D t e = Inr ()" for t e using assms unfolding disk_holds_def by blast
  obtain del where del: "\<And>t c e. lc_delete D t c e = Inr (del t c e)"
    using assms unfolding disk_holds_def by metis
  show ?thesis
    unfolding four l2_delete_p_def
    by (rule exI [of _ "del ''msg_index'' (col_is ''session_id'' sid)
          (del ''sessions'' (col_is ''session_id'' sid) (st_l2 s))"])
       (simp add: next_simps opens del)
qed

lemma reply_filed:
  "evict_collect ord (restore_session x msg now (st_inner s)) = (i, []) \<Longrightarrow>
   next_step (file_reply ord D x now msg) s = (s\<lparr>st_inner := i\<rparr>, retp ())"
  by (simp add: file_reply_def file_message_def next_simps)

lemma restored:
  "in_l0 (restore_session x msg now s) = (in_l0 s)(ss_id x \<mapsto> add_message msg now x)"
  "in_l1 (restore_session x msg now s) = in_l1 s"
  "capacities (restore_session x msg now s) = capacities s"
  "in_msg_index (restore_session x msg now s) i =
     (if i = mr_msg_id msg \<or> i \<in> mr_msg_id ` set (ss_messages x) then Some (ss_id x) else in_msg_index s i)"
  by (simp_all add: restore_session_def put_l0_def index_msg_def fold_index_msg add_message_def capacities_def)
     (use capacities_fold [of "mr_msg_id" "ss_id x" "ss_messages x" s] in \<open>simp_all add: capacities_def\<close>)

text \<open>The layers with the one session.\<close>

definition only :: "sess \<Rightarrow> nat \<Rightarrow> nat \<Rightarrow> inner \<Rightarrow> bool" where
  "only x c0 c1 s \<longleftrightarrow> in_l0 s = [ss_id x \<mapsto> x] \<and> in_l1 s = Map.empty \<and> capacities s = (c0, c1) \<and>
     (\<forall>m \<in> set (ss_messages x). in_msg_index s (mr_msg_id m) = Some (ss_id x))"

lemma only_idle: "only x c0 c1 s \<Longrightarrow> c0 \<ge> 1 \<Longrightarrow> evict_collect ord s = (s, [])"
  by (rule evict_collect_idle) (simp add: only_def within_capacity_def capacities_def)

lemma only_restored:
  "in_l0 s = Map.empty \<or> (\<exists>y. in_l0 s = [ss_id x \<mapsto> y]) \<Longrightarrow> in_l1 s = Map.empty \<Longrightarrow> capacities s = (c0, c1) \<Longrightarrow>
   only (add_message msg now x) c0 c1 (restore_session x msg now s)"
  by (auto simp: only_def restored add_message_def)

lemma only_joined:
  "only x c0 c1 s \<Longrightarrow> only (add_message msg now x) c0 c1 (join_session (ss_id x) msg now s)"
  by (auto simp: only_def join_session_def index_msg_def add_message_def capacities_def)

lemma only_found:
  "only y c0 c1 (st_inner s) \<Longrightarrow> in_msg_index (st_inner s) m = Some (ss_id y) \<Longrightarrow>
   get_session_for_msg l2 m s = (s, Inr (Some y))"
  by (simp add: get_session_for_msg_def only_def in_memory_def ret_def)

lemma reply_joins:
  assumes "mr_reply_to msg = Some r" and "in_msg_index (st_inner s) r = Some sid"
    and "evict_collect ord (join_session sid msg now (st_inner s)) = (i, [])"
  shows "next_steps 2 (observe_p ord (Some D) now msg) s = (s\<lparr>st_inner := i\<rparr>, retp ())"
proof -
  have two: "2 = Suc (Suc 0)" by simp
  have i: "st_inner_update (\<lambda>_. st_inner s) s = s" by simp
  show ?thesis
    unfolding two observe_p_def
    by (simp add: assms next_simps query_def file_message_def)
qed

text \<open>A store that starts, after the reply that is filed first.\<close>

lemma reply_first:
  fixes x :: sess
  assumes "st_inner s0 = store_new c0 c1" and "c0 \<ge> 1" and "r \<in> mr_msg_id ` set (ss_messages x)"
    and "i = restore_session x a now (st_inner s0)"
  shows "only (add_message a now x) c0 c1 i" and "in_msg_index (st_inner s0) r = None"
    and "in_msg_index i r = Some (ss_id x)" and "in_msg_index i (mr_msg_id a) = Some (ss_id x)"
    and "next_step (file_reply ord D x now a) (s0\<lparr>st_l2 := e\<rparr>) = (s0\<lparr>st_l2 := e, st_inner := i\<rparr>, retp ())"
proof -
  show only: "only (add_message a now x) c0 c1 i"
    unfolding assms(4) by (rule only_restored) (simp_all add: assms(1) store_new_def capacities_def)
  show "in_msg_index (st_inner s0) r = None" by (simp add: assms(1) store_new_def)
  show "in_msg_index i r = Some (ss_id x)" and "in_msg_index i (mr_msg_id a) = Some (ss_id x)"
    using assms(3) by (simp_all add: assms(4) restored)
  show "next_step (file_reply ord D x now a) (s0\<lparr>st_l2 := e\<rparr>) = (s0\<lparr>st_l2 := e, st_inner := i\<rparr>, retp ())"
    using reply_filed [of ord x a now "s0\<lparr>st_l2 := e\<rparr>" i D] only_idle [OF only assms(2)] assms(4) by simp
qed

lemma replies_in_turn:
  fixes D :: "('d, 'v) lance" and ps :: "('d session_store, vfs_error, unit) clients"
  assumes "disk_holds D r x (st_l2 s0)" and "st_inner s0 = store_new c0 c1" and "c0 \<ge> 1"
    and "mr_reply_to a = Some r" and "mr_reply_to b = Some r" and "r \<in> mr_msg_id ` set (ss_messages x)"
    and "qs = ps(0 := observe_p ord (Some D) now a, 1 := observe_p ord (Some D) now' b)"
  shows "\<exists>s y. interleave (replicate 10 0 @ replicate 2 1) qs s0 = (s, ps(0 := retp (), 1 := retp ())) \<and>
    get_session_for_msg (Some D) (mr_msg_id a) s = (s, Inr (Some y)) \<and> ss_messages y = ss_messages x @ [a, b]"
proof -
  define i where "i = restore_session x a now (st_inner s0)"
  note i = reply_first [OF assms(2,3,6) i_def]
  let ?j = "join_session (ss_id x) b now' i" and ?y = "add_message b now' (add_message a now x)"
  obtain d where forget: "next_steps 4 (bindp (ignorep (on_l2p (l2_delete_p D (ss_id x)))) (\<lambda>_. file_reply ord D x now a)) s0
      = (s0\<lparr>st_l2 := d\<rparr>, file_reply ord D x now a)"
    using reply_forgets [OF assms(1)] by blast
  let ?s = "s0\<lparr>st_l2 := d, st_inner := ?j\<rparr>"
  have j: "only ?y c0 c1 ?j" using only_joined [OF i(1)] by (simp add: add_message_def)
  have "next_steps (5 + (4 + 1)) (observe_p ord (Some D) now a) s0 = (s0\<lparr>st_l2 := d, st_inner := i\<rparr>, retp ())"
    unfolding next_steps_add by (simp add: reply_loads [OF assms(1,4) i(2)] forget i(5))
  then have A: "next_steps 10 (observe_p ord (Some D) now a) s0 = (s0\<lparr>st_l2 := d, st_inner := i\<rparr>, retp ())" by simp
  have B: "next_steps 2 (observe_p ord (Some D) now' b) (s0\<lparr>st_l2 := d, st_inner := i\<rparr>) = (?s, retp ())"
    using reply_joins [OF assms(5), where sid = "ss_id x" and ord = ord and now = now' and i = ?j and D = D
        and s = "s0\<lparr>st_l2 := d, st_inner := i\<rparr>"] i(3) only_idle [OF j assms(3)] by simp
  have run: "interleave (replicate 10 0 @ replicate 2 1) qs s0 = (?s, ps(0 := retp (), 1 := retp ()))"
    by (simp add: assms(7) sched_two_steps A B)
  have "in_msg_index ?j (mr_msg_id a) = Some (ss_id ?y)"
    using j by (simp add: only_def add_message_def)
  with j have "get_session_for_msg (Some D) (mr_msg_id a) ?s = (?s, Inr (Some ?y))" by (intro only_found) simp_all
  with run show ?thesis by (intro exI [of _ ?s] exI [of _ ?y]) (simp add: add_message_def)
qed

lemma replies_overlap:
  fixes D :: "('d, 'v) lance" and ps :: "('d session_store, vfs_error, unit) clients"
  assumes "disk_holds D r x (st_l2 s0)" and "st_inner s0 = store_new c0 c1" and "c0 \<ge> 1"
    and "mr_reply_to a = Some r" and "mr_reply_to b = Some r" and "r \<in> mr_msg_id ` set (ss_messages x)"
    and "qs = ps(0 := observe_p ord (Some D) now a, 1 := observe_p ord (Some D) now' b)"
  shows "\<exists>s y. interleave (replicate 5 0 @ replicate 5 1 @ replicate 4 0 @ replicate 4 1 @ [0, 1]) qs s0
      = (s, ps(0 := retp (), 1 := retp ())) \<and>
    get_session_for_msg (Some D) (mr_msg_id a) s = (s, Inr (Some y)) \<and> ss_messages y = ss_messages x @ [b]"
proof -
  define i where "i = restore_session x a now (st_inner s0)"
  note i = reply_first [OF assms(2,3,6) i_def]
  let ?fA = "file_reply ord D x now a" and ?fB = "file_reply ord D x now' b"
  let ?forget = "\<lambda>k. bindp (ignorep (on_l2p (l2_delete_p D (ss_id x)))) (\<lambda>_. k)"
  let ?k = "restore_session x b now' i" and ?y = "add_message b now' x"
  obtain d where forgetA: "next_steps 4 (?forget ?fA) s0 = (s0\<lparr>st_l2 := d\<rparr>, ?fA)"
    using reply_forgets [OF assms(1)] by blast
  obtain d' where forgetB: "next_steps 4 (?forget ?fB) (s0\<lparr>st_l2 := d\<rparr>) = (s0\<lparr>st_l2 := d'\<rparr>, ?fB)"
    using reply_forgets [OF assms(1), of "ss_id x" ?fB "s0\<lparr>st_l2 := d\<rparr>"] by auto
  let ?s = "s0\<lparr>st_l2 := d', st_inner := ?k\<rparr>"
  have k: "only ?y c0 c1 ?k"
    by (rule only_restored) (use i(1) in \<open>auto simp: only_def add_message_def\<close>)
  have filedB: "next_step ?fB (s0\<lparr>st_l2 := d', st_inner := i\<rparr>) = (?s, retp ())"
    using reply_filed [of ord x b now' "s0\<lparr>st_l2 := d', st_inner := i\<rparr>" ?k D] only_idle [OF k assms(3)] by simp
  have run: "interleave (replicate 5 0 @ replicate 5 1 @ replicate 4 0 @ replicate 4 1 @ [0, 1]) qs s0
      = (?s, ps(0 := retp (), 1 := retp ()))"
    by (simp add: assms(7) sched_two_steps sched_two reply_loads [OF assms(1,4) i(2)] reply_loads [OF assms(1,5) i(2)]
        forgetA forgetB i(5) filedB)
  have "in_msg_index ?k (mr_msg_id a) = Some (ss_id ?y)"
    using i(4) by (simp add: restored [of x b] add_message_def)
  with k have "get_session_for_msg (Some D) (mr_msg_id a) ?s = (?s, Inr (Some ?y))" by (intro only_found) simp_all
  with run show ?thesis by (intro exI [of _ ?s] exI [of _ ?y]) (simp add: add_message_def)
qed

text \<open>
  C29: Two replies at once lose one. Both reply to a message whose session is only on disk, and both load
  the session before either is filed. Each call of the store ends well, but the session filed second replaces the
  first with its own copy: what the store gives for the first reply is a session without it. One after the
  other, the session has both.
\<close>

theorem concurrent_reply_lost:
  fixes D :: "('d, 'v) lance" and ps :: "('d session_store, vfs_error, unit) clients"
  assumes "disk_holds D r x (st_l2 s0)" and "st_inner s0 = store_new c0 c1" and "c0 \<ge> 1"
    and "mr_reply_to a = Some r" and "mr_reply_to b = Some r" and "r \<in> mr_msg_id ` set (ss_messages x)"
    and "qs = ps(0 := observe_p ord (Some D) now a, 1 := observe_p ord (Some D) now' b)"
  shows "(\<exists>s y. interleave (replicate 10 0 @ replicate 2 1) qs s0 = (s, ps(0 := retp (), 1 := retp ())) \<and>
      get_session_for_msg (Some D) (mr_msg_id a) s = (s, Inr (Some y)) \<and> ss_messages y = ss_messages x @ [a, b]) \<and>
    (\<exists>s y. interleave (replicate 5 0 @ replicate 5 1 @ replicate 4 0 @ replicate 4 1 @ [0, 1]) qs s0
        = (s, ps(0 := retp (), 1 := retp ())) \<and>
      get_session_for_msg (Some D) (mr_msg_id a) s = (s, Inr (Some y)) \<and> ss_messages y = ss_messages x @ [b])"
  using replies_in_turn [OF assms] replies_overlap [OF assms] by (rule conjI)

theorem concurrent_reply_lost_witness:
  "\<exists>s y. interleave (replicate 5 0 @ replicate 5 1 @ replicate 4 0 @ replicate 4 1 @ [0, 1])
      ((\<lambda>_. Done (Inl (InvalidPath [])))
        (0 := observe_p sorted_list_of_set (Some (disk_of (sess_new ''a'' (demo_msg 1 ''a'' None) 5))) 6
                (demo_msg 2 ''a'' (Some 1)),
         1 := observe_p sorted_list_of_set (Some (disk_of (sess_new ''a'' (demo_msg 1 ''a'' None) 5))) 7
                (demo_msg 3 ''a'' (Some 1)))) (demo_store 1 1)
      = (s, (\<lambda>_. Done (Inl (InvalidPath [])))(0 := retp (), 1 := retp ())) \<and>
     get_session_for_msg (Some (disk_of (sess_new ''a'' (demo_msg 1 ''a'' None) 5))) 2 s = (s, Inr (Some y)) \<and>
     ss_messages y = [demo_msg 1 ''a'' None, demo_msg 3 ''a'' (Some 1)]"
proof -
  let ?x = "sess_new ''a'' (demo_msg 1 ''a'' None) 5"
  have disk: "disk_holds (disk_of ?x) 1 ?x (st_l2 (demo_store 1 1))"
    by (simp add: disk_holds_def disk_of_def extract_session_def)
  have "st_inner (demo_store 1 1) = store_new 1 1" "mr_reply_to (demo_msg 2 ''a'' (Some 1)) = Some 1"
    "mr_reply_to (demo_msg 3 ''a'' (Some 1)) = Some 1" "1 \<in> mr_msg_id ` set (ss_messages ?x)"
    "mr_msg_id (demo_msg 2 ''a'' (Some 1)) = 2" "ss_messages ?x = [demo_msg 1 ''a'' None]"
    by (simp_all add: demo_store_def demo_msg_def sess_new_def)
  with concurrent_reply_lost [OF disk _ _ _ _ _ refl, of 1 1 "demo_msg 2 ''a'' (Some 1)" "demo_msg 3 ''a'' (Some 1)"
      "\<lambda>_. Done (Inl (InvalidPath []))" sorted_list_of_set 6 7]
  show ?thesis by (simp del: One_nat_def)
qed

end
