(* ===== verification/Logos_Archive.thy ===== *)
theory Logos_Archive
  imports Logos_Memory Logos_Observe
begin

text \<open>
  The memory module of \<open>logos-mm\<close> statement by statement. A group's pool is opened under one lock; after that each
  statement runs on its own connection, so the statements of requests on one group interleave, and a message
  is observed by the session store, lock by lock, after it has been stored. Each operation alone is that of
  \<open>Logos_Memory\<close>.
\<close>

section \<open>Statements of a group\<close>

primrec on_groupp :: "string \<Rightarrow> ('f group_db, vfs_error, 'a) prog \<Rightarrow> (('f, 'd) memory, vfs_error, 'a) prog" where
  "on_groupp chat_id (Done r) = Done r"
| "on_groupp chat_id (Step f) = Step (\<lambda>s.
     case mm_groups s chat_id of
       None \<Rightarrow> (s, Done (Inl (Sqlite ''no such database'')))
     | Some g \<Rightarrow> (case map_prod id (on_groupp chat_id) (f g) of
         (g', p) \<Rightarrow> (s\<lparr>mm_groups := (mm_groups s)(chat_id \<mapsto> g')\<rparr>, p)))"

primrec on_sessionsp :: "('d session_store, 'e, 'a) prog \<Rightarrow> (('f, 'd) memory, 'e, 'a) prog" where
  "on_sessionsp (Done r) = Done r"
| "on_sessionsp (Step f) = Step (\<lambda>s. case map_prod id on_sessionsp (f (mm_sessions s)) of (x, p) \<Rightarrow> (s\<lparr>mm_sessions := x\<rparr>, p))"

section \<open>Messages\<close>

definition msg_insert_p ::
  "('f, 't) mm_lib \<Rightarrow> 't world \<Rightarrow> string \<Rightarrow> string \<Rightarrow> (('f, 'd) memory, vfs_error, int) prog" where
  "msg_insert_p L w chat_id content =
     bindp (Done (map_err InvalidJson (from_str (ml_codec L) content))) (\<lambda>val.
     bindp (atom (pool L (at_w ''pool'' w) chat_id)) (\<lambda>_.
     on_groupp chat_id (
       (let r = new_msg_row (ml_codec L) (now_iso8601 L w) chat_id val in
        bindp (sqlp w ''insert'' ''insert: '' (insert_msg_row L (as_i64 (jget val ''msg_id'')) r)) (\<lambda>msg_id.
        bindp (sqlp w ''fts'' ''fts sync: '' (insert_msg_fts L msg_id (ms_text r))) (\<lambda>_.
        retp msg_id))))))"

definition get_by_id_p ::
  "('f, 't) mm_lib \<Rightarrow> 't world \<Rightarrow> string \<Rightarrow> int \<Rightarrow> (('f, 'd) memory, vfs_error, string option) prog" where
  "get_by_id_p L w chat_id msg_id =
     bindp (atom (pool L (at_w ''pool'' w) chat_id)) (\<lambda>_.
     bindp (on_groupp chat_id (sqlp w ''get'' [] (query (msg_lookup msg_id)))) (\<lambda>row.
     retp (map_option (\<lambda>r. to_str (ml_codec L) (msg_row_to_json r)) row)))"

section \<open>The plugins\<close>

definition summary_write_p ::
  "('f, 't) mm_lib \<Rightarrow> 't world \<Rightarrow> string \<Rightarrow> string \<Rightarrow> ('f group_db, vfs_error, unit) prog" where
  "summary_write_p L w chat_id content =
     bindp (Done (map_err InvalidJson (from_str (ml_codec L) content))) (\<lambda>val.
     sqlp w ''insert summary'' ''insert summary: ''
       (insert_summary_row (new_summary_row (ml_codec L) (now_iso8601 L w) chat_id val)))"

definition hierarchical_patch_p ::
  "('f, 't) mm_lib \<Rightarrow> 't world \<Rightarrow> string \<Rightarrow> string list \<Rightarrow> string \<Rightarrow> ('f group_db, vfs_error, unit) prog" where
  "hierarchical_patch_p L w chat_id path partial =
     bindp (atom (hierarchical_read L w chat_id path)) (\<lambda>existing.
     case (from_str (ml_codec L) existing, from_str (ml_codec L) partial) of
       (Inr base, Inr patch_val) \<Rightarrow>
         summary_write_p L w chat_id (to_str (ml_codec L) (json_deep_merge base patch_val))
     | _ \<Rightarrow> summary_write_p L w chat_id partial)"

definition ensure_schema_p :: "'t world \<Rightarrow> ('f group_db, vfs_error, unit) prog" where
  "ensure_schema_p w =
     bindp (sqlp w ''summaries'' ''init summaries schema: '' (ret ())) (\<lambda>_.
     sqlp w ''summaries index'' ''init summaries index: '' (ret ()))"

fun write_triples_p :: "'t world \<Rightarrow> nat \<Rightarrow> triple_row list \<Rightarrow> ('f group_db, vfs_error, unit) prog" where
  "write_triples_p w n [] = retp ()"
| "write_triples_p w n (r # rs) =
     (if tr_predicate r = [] \<or> tr_object r = [] then write_triples_p w (Suc n) rs
      else bindp (sqlp (at_w (nat_str n) w) ''triple'' ''write triple: '' (replace_triple r)) (\<lambda>_.
        write_triples_p w (Suc n) rs))"

definition graph_write_p ::
  "('f, 't) mm_lib \<Rightarrow> 't world \<Rightarrow> string \<Rightarrow> string list \<Rightarrow> string \<Rightarrow> ('f group_db, vfs_error, unit) prog" where
  "graph_write_p L w chat_id path content =
     (case path of
        [] \<Rightarrow> failp (InvalidPath ''graph write requires subject'')
      | subject # _ \<Rightarrow>
          bindp (Done (map_err InvalidJson (from_str (ml_codec L) content))) (\<lambda>val.
          (let triples = (case val of JArr xs \<Rightarrow> xs | v \<Rightarrow> [v]) in
           write_triples_p w 0 (map (triple_of_json (ml_codec L) (now_iso8601 L w) subject) triples))))"

definition graph_init_schema_p :: "'t world \<Rightarrow> ('f group_db, vfs_error, unit) prog" where
  "graph_init_schema_p w =
     bindp (sqlp w ''triples schema'' ''init triples schema: '' (ret ())) (\<lambda>_.
     bindp (sqlp w ''subject index'' ''init triples index: '' (ret ())) (\<lambda>_.
     sqlp w ''object index'' ''init triples index: '' (ret ())))"

text \<open>A plugin's operations as programs.\<close>

record 'f plugin_p =
  pp_name :: string
  pp_init_schema :: "('f group_db, vfs_error, unit) prog"
  pp_read :: "string \<Rightarrow> string list \<Rightarrow> ('f group_db, vfs_error, string) prog"
  pp_write :: "string \<Rightarrow> string list \<Rightarrow> string \<Rightarrow> ('f group_db, vfs_error, unit) prog"
  pp_patch :: "string \<Rightarrow> string list \<Rightarrow> string \<Rightarrow> ('f group_db, vfs_error, unit) prog"

definition plugins_p :: "('f, 't) mm_lib \<Rightarrow> 't world \<Rightarrow> 'f plugin_p list" where
  "plugins_p L w =
     [\<lparr>pp_name = ''summary'', pp_init_schema = ensure_schema_p w,
       pp_read = (\<lambda>chat_id path. atom (hierarchical_read L w chat_id path)),
       pp_write = (\<lambda>chat_id _ content. summary_write_p L w chat_id content), pp_patch = hierarchical_patch_p L w\<rparr>,
      \<lparr>pp_name = ''graph'', pp_init_schema = graph_init_schema_p w,
       pp_read = (\<lambda>chat_id path. atom (graph_read L w chat_id path)),
       pp_write = graph_write_p L w, pp_patch = graph_write_p L w\<rparr>]"

definition with_plugin_p ::
  "('f, 't) mm_lib \<Rightarrow> 't world \<Rightarrow> string \<Rightarrow> string \<Rightarrow> ('f plugin_p \<Rightarrow> ('f group_db, vfs_error, 'a) prog) \<Rightarrow>
   (('f, 'd) memory, vfs_error, 'a) prog \<Rightarrow> (('f, 'd) memory, vfs_error, 'a) prog" where
  "with_plugin_p L w gid resource f otherwise =
     (case find (\<lambda>p. pp_name p = resource) (plugins_p L w) of
        None \<Rightarrow> otherwise
      | Some p \<Rightarrow>
          bindp (atom (pool L (at_w ''pool'' w) gid)) (\<lambda>_.
          on_groupp gid (bindp (pp_init_schema p) (\<lambda>_. f p))))"

section \<open>The module\<close>

definition memory_read_p ::
  "('f, 't) mm_lib \<Rightarrow> 't world \<Rightarrow> string list \<Rightarrow> (('f, 'd) memory, vfs_error, string) prog" where
  "memory_read_p L w path =
     (if get_at path 0 = Some ''plugins'' then retp (to_str (ml_codec L) (JArr (plugin_list (plugins L w))))
      else if length path < 3 \<or> path ! 0 \<noteq> ''groups'' then failp bad_memory_path
      else
        (let gid = path ! 1; resource = path ! 2 in
         if resource = ''messages'' then
           bindp (Done (ok_or (get_at path 3)
             (InvalidPath ''expected logos://memory/groups/{gid}/messages/{msg_id}''))) (\<lambda>msg_id_str.
           bindp (Done (ok_or (parse_int 63 msg_id_str)
             (InvalidPath (''invalid msg_id: '' @ msg_id_str)))) (\<lambda>msg_id.
           bindp (get_by_id_p L w gid msg_id) (\<lambda>row.
           retp (opt_or row ''null''))))
         else if resource = ''views'' then
           bindp (Done (ok_or (get_at path 3) (InvalidPath ''missing view name''))) (\<lambda>view_name.
           bindp (Done (ok_or (view_of L w view_name) (NotFound (''unknown view: '' @ view_name)))) (\<lambda>view.
           bindp (atom (pool L (at_w ''pool'' w) gid)) (\<lambda>_.
           on_groupp gid (atom (view gid (opt_or (get_at path 4) ''{}''))))))
         else with_plugin_p L w gid resource (\<lambda>p. pp_read p gid (drop 3 path))
           (failp (InvalidPath (''unknown memory resource: '' @ resource)))))"

definition memory_write_p ::
  "('f, 't) mm_lib \<Rightarrow> order \<Rightarrow> ('d, 'v) lance option \<Rightarrow> nat \<Rightarrow> 't world \<Rightarrow> string list \<Rightarrow> string \<Rightarrow>
   (('f, 'd) memory, vfs_error, unit) prog" where
  "memory_write_p L ord l2 tick w path content =
     (if length path < 3 \<or> path ! 0 \<noteq> ''groups'' then failp bad_memory_path
      else
        (let gid = path ! 1; resource = path ! 2 in
         if resource = ''messages'' then
           bindp (msg_insert_p L w gid content) (\<lambda>msg_id.
           (case from_str (ml_codec L) content of
              Inl _ \<Rightarrow> retp ()
            | Inr val \<Rightarrow> on_sessionsp (observe_p ord l2 tick (msg_ref_of gid msg_id val))))
         else with_plugin_p L w gid resource (\<lambda>p. pp_write p gid (drop 3 path) content)
           (failp (InvalidPath (''unknown memory resource for write: '' @ resource)))))"

definition memory_patch_p ::
  "('f, 't) mm_lib \<Rightarrow> order \<Rightarrow> ('d, 'v) lance option \<Rightarrow> nat \<Rightarrow> 't world \<Rightarrow> string list \<Rightarrow> string \<Rightarrow>
   (('f, 'd) memory, vfs_error, unit) prog" where
  "memory_patch_p L ord l2 tick w path partial =
     (if length path < 3 \<or> path ! 0 \<noteq> ''groups'' then failp bad_memory_path
      else with_plugin_p L w (path ! 1) (path ! 2) (\<lambda>p. pp_patch p (path ! 1) (drop 3 path) partial)
        (memory_write_p L ord l2 tick w path partial))"

definition search_fts_p ::
  "('f, 't) mm_lib \<Rightarrow> 't world \<Rightarrow> string \<Rightarrow> string \<Rightarrow> int \<Rightarrow> (('f, 'd) memory, vfs_error, string) prog" where
  "search_fts_p L w chat_id q limit =
     bindp (atom (pool L (at_w ''pool'' w) chat_id)) (\<lambda>_.
     bindp (on_groupp chat_id (sqlp w ''search'' []
        (fts_rows L (fts_escape q) (clamp 1 FTS_MAX_LIMIT limit)))) (\<lambda>rows.
     retp (to_str (ml_codec L) (JArr (map msg_row_to_json rows)))))"

definition range_fetch_p ::
  "('f, 't) mm_lib \<Rightarrow> 't world \<Rightarrow> string \<Rightarrow> string \<Rightarrow> (('f, 'd) memory, vfs_error, string) prog" where
  "range_fetch_p L w chat_id params =
     bindp (Done (map_err InvalidJson (from_str (ml_codec L) params))) (\<lambda>val.
     (let ranges = List.map_filter range_of_json (opt_or (as_array (jget val ''ranges'')) []) in
      if ranges = [] then retp ''[]''
      else
        (let limit = clamp 1 RANGE_FETCH_MAX_LIMIT (opt_or (as_i64 (jget val ''limit'')) 50);
             offset = max 0 (opt_or (as_i64 (jget val ''offset'')) 0) in
         bindp (atom (pool L (at_w ''pool'' w) chat_id)) (\<lambda>_.
         bindp (on_groupp chat_id (sqlp w ''range'' [] (query (range_rows ranges limit offset)))) (\<lambda>rows.
         retp (to_str (ml_codec L) (JArr (map msg_row_to_json rows))))))))"

definition handle_call_p ::
  "('f, 't) mm_lib \<Rightarrow> 't world \<Rightarrow> string \<Rightarrow> string \<Rightarrow> (('f, 'd) memory, vfs_error, string) prog" where
  "handle_call_p L w tool params =
     bindp (Done (map_err InvalidJson (from_str (ml_codec L) params))) (\<lambda>val.
     (let chat_id = str_field val ''chat_id'' [] in
      if tool = ''memory.search'' then
        search_fts_p L w chat_id (str_field val ''query'' []) (opt_or (as_i64 (jget val ''limit'')) 10)
      else if tool = ''memory.range_fetch'' then range_fetch_p L w chat_id params
      else if starts_with tool ''memory.view.'' then
        (let view_name = opt_or (strip_prefix ''memory.view.'' tool) [] in
         bindp (Done (ok_or (view_of L w view_name) (NotFound (''unknown view: '' @ view_name)))) (\<lambda>view.
         bindp (atom (pool L (at_w ''pool'' w) chat_id)) (\<lambda>_.
         on_groupp chat_id (atom (view chat_id params)))))
      else failp (NotFound (''unknown memory tool: '' @ tool))))"

section \<open>Alone\<close>

lemma run_on_sessionsp [run_simps]:
  fixes p :: "('d session_store, 'e, 'a) prog"
  shows "run (on_sessionsp p :: (('f, 'd) memory, 'e, 'a) prog) = on_sessions (run p)"
proof (induction p)
  case (Step f)
  show ?case
  proof
    fix s :: "('f, 'd) memory"
    obtain d p where f: "f (mm_sessions s) = (d, p)" by fastforce
    have "p \<in> Basic_BNFs.snds (f (mm_sessions s))" by (simp add: f snds.intros)
    from Step [OF rangeI this] show "run (on_sessionsp (Step f)) s = on_sessions (run (Step f)) s"
      by (simp add: run.simps f on_sessions_def split: prod.splits)
  qed
qed (simp add: fun_eq_iff run.simps on_sessions_def)

text \<open>On a group that has no database the first statement fails.\<close>

lemma run_on_groupp_there:
  "mm_groups s chat = Some g \<Longrightarrow> run (on_groupp chat p) s = on_group chat (run p) s"
proof (induction p arbitrary: s g)
  case (Done r)
  then show ?case by (simp add: run.simps on_group_def fun_upd_idem)
next
  case (Step f)
  obtain g' p where f: "f g = (g', p)" by fastforce
  have "p \<in> Basic_BNFs.snds (f g)" by (simp add: f snds.intros)
  from Step.IH [OF rangeI this, of "s\<lparr>mm_groups := (mm_groups s)(chat \<mapsto> g')\<rparr>" g'] Step.prems show ?case
    by (simp add: run.simps f on_group_def split: prod.splits)
qed

lemma run_on_groupp:
  fixes p :: "('f group_db, vfs_error, 'a) prog"
  assumes "live p"
  shows "run (on_groupp chat p :: (('f, 'd) memory, vfs_error, 'a) prog) = on_group chat (run p)"
proof
  fix s :: "('f, 'd) memory"
  show "run (on_groupp chat p) s = on_group chat (run p) s"
    using run_on_groupp_there [of s chat _ p] assms
    by (cases "mm_groups s chat") (auto simp: live_def run.simps on_group_def)
qed

lemma live_group [simp]:
  "live (sqlp w label prefix m)" "live (ensure_schema_p w)" "live (graph_init_schema_p w)"
  by (simp_all add: sqlp_def ensure_schema_p_def graph_init_schema_p_def)

lemma run_messages [run_simps]:
  "run (msg_insert_p L w chat content) = msg_insert L w chat content"
  "run (get_by_id_p L w chat i) = get_by_id L w chat i"
  "run (search_fts_p L w chat q n) = search_fts L w chat q n"
  "run (range_fetch_p L w chat params) = range_fetch L w chat params"
  by (simp_all add: msg_insert_p_def msg_insert_def get_by_id_p_def get_by_id_def search_fts_p_def search_fts_def
      range_fetch_p_def range_fetch_def run_simps run_on_groupp Let_def cong: if_cong)

lemma run_write_triples [run_simps]: "run (write_triples_p w n rs) = write_triples w n rs"
  by (induction rs arbitrary: n) (simp_all add: run_simps)

lemma run_plugin_ops [run_simps]:
  "run (summary_write_p L w chat content) = summary_write L w chat content"
  "run (ensure_schema_p w) = ensure_schema w" "run (graph_init_schema_p w) = graph_init_schema w"
  "run (graph_write_p L w chat path content) = graph_write L w chat path content"
  by (simp_all add: summary_write_p_def summary_write_def ensure_schema_p_def ensure_schema_def
      graph_init_schema_p_def graph_init_schema_def graph_write_p_def graph_write_def run_simps Let_def
      cong: list.case_cong)

lemma run_hierarchical_patch [run_simps]:
  "run (hierarchical_patch_p L w chat path partial) = hierarchical_patch L w chat path partial"
  by (simp add: hierarchical_patch_p_def hierarchical_patch_def run_simps cong: sum.case_cong)

lemma find_plugins_p:
  "find (\<lambda>p. pp_name p = r) (plugins_p L w) = None \<longleftrightarrow> find (\<lambda>p. mp_name p = r) (plugins L w) = None"
  "find (\<lambda>p. pp_name p = r) (plugins_p L w) = Some p \<Longrightarrow> \<exists>q. find (\<lambda>p. mp_name p = r) (plugins L w) = Some q \<and>
     live (pp_init_schema p) \<and> run (pp_init_schema p) = mp_init_schema q \<and> (\<lambda>c x. run (pp_read p c x)) = mp_read q \<and>
     (\<lambda>c x y. run (pp_write p c x y)) = mp_write q \<and> (\<lambda>c x y. run (pp_patch p c x y)) = mp_patch q"
  by (auto simp: plugins_p_def plugins_def hierarchical_plugin_def graph_plugin_def run_simps split: if_splits)

lemma run_with_plugin:
  assumes "\<And>p q. (\<lambda>c x. run (pp_read p c x)) = mp_read q \<Longrightarrow> (\<lambda>c x y. run (pp_write p c x y)) = mp_write q \<Longrightarrow>
      (\<lambda>c x y. run (pp_patch p c x y)) = mp_patch q \<Longrightarrow> run (f p) = g q"
    and "run otherwise = other"
  shows "run (with_plugin_p L w gid resource f otherwise) = with_plugin L w gid resource g other"
proof (cases "find (\<lambda>p. pp_name p = resource) (plugins_p L w)")
  case None
  with find_plugins_p(1) [of resource L w] assms(2) show ?thesis by (simp add: with_plugin_p_def with_plugin_def)
next
  case (Some p)
  from find_plugins_p(2) [OF this] assms(1) Some show ?thesis
    by (auto simp: with_plugin_p_def with_plugin_def run_simps run_on_groupp)
qed

lemma run_with_plugins [run_simps]:
  "run (with_plugin_p L w gid r (\<lambda>p. pp_read p c x) others) = with_plugin L w gid r (\<lambda>p. mp_read p c x) (run others)"
  "run (with_plugin_p L w gid r (\<lambda>p. pp_write p c x y) other) = with_plugin L w gid r (\<lambda>p. mp_write p c x y) (run other)"
  "run (with_plugin_p L w gid r (\<lambda>p. pp_patch p c x y) other) = with_plugin L w gid r (\<lambda>p. mp_patch p c x y) (run other)"
  by (rule run_with_plugin; simp add: fun_eq_iff)+

lemma run_memory [run_simps]:
  "run (memory_read_p L w path) = memory_read L w path"
  "run (memory_write_p L ord l2 tick w path content) = memory_write L ord l2 tick w path content"
  "run (memory_patch_p L ord l2 tick w path content) = memory_patch L ord l2 tick w path content"
  "run (handle_call_p L w tool params) = handle_call L w tool params"
proof -
  show "run (memory_read_p L w path) = memory_read L w path"
    by (simp add: memory_read_p_def memory_read_def run_simps run_on_groupp Let_def cong: if_cong)
  show w: "run (memory_write_p L ord l2 tick w path content) = memory_write L ord l2 tick w path content"
    by (simp add: memory_write_p_def memory_write_def run_simps Let_def cong: if_cong sum.case_cong)
  show "run (memory_patch_p L ord l2 tick w path content) = memory_patch L ord l2 tick w path content"
    by (simp add: memory_patch_p_def memory_patch_def run_simps w cong: if_cong)
  show "run (handle_call_p L w tool params) = handle_call L w tool params"
    by (simp add: handle_call_p_def handle_call_def run_simps run_on_groupp Let_def cong: if_cong)
qed

section \<open>What every statement keeps\<close>

lemma maintains_sqlp: "keeps I m \<Longrightarrow> maintains I (sqlp w label prefix m)"
  unfolding sqlp_def by (intro maintains_atom keeps_sql)

lemma maintains_on_sessionsp: "maintains (mem_inv s0) (on_sessionsp p)"
proof (induction p)
  case (Step f)
  show ?case
  proof (simp, intro allI impI)
    fix s assume I: "mem_inv s0 s"
    obtain x p where f: "f (mm_sessions s) = (x, p)" by fastforce
    have "p \<in> Basic_BNFs.snds (f (mm_sessions s))" by (simp add: f snds.intros)
    note IH = Step.IH [OF rangeI this]
    have "mem_inv s0 (s\<lparr>mm_sessions := x\<rparr>)" using I by (simp add: mem_inv_def rows_in_def)
    with IH show "case map_prod id (maintains (mem_inv s0))
        (case map_prod id on_sessionsp (f (mm_sessions s)) of (x, p) \<Rightarrow> (s\<lparr>mm_sessions := x\<rparr>, p)) of
        (s', k) \<Rightarrow> mem_inv s0 s' \<and> k"
      by (simp add: f)
  qed
qed simp

text \<open>A program of a group that maintains the group's invariant maintains the module's.\<close>

lemma mem_inv_group:
  assumes "mem_inv s0 s" and "mm_groups s chat = Some g"
  shows "group_inv (rows_in s0 chat) g"
    and "group_inv (rows_in s0 chat) g' \<Longrightarrow> mem_inv s0 (s\<lparr>mm_groups := (mm_groups s)(chat \<mapsto> g')\<rparr>)"
  using assms by (auto simp: mem_inv_def group_inv_def rows_in_def split: option.splits)

lemma maintains_on_groupp:
  "maintains (group_inv (rows_in s0 chat)) p \<Longrightarrow> maintains (mem_inv s0) (on_groupp chat p)"
proof (induction p)
  case (Step f)
  show ?case
  proof (simp, intro allI impI)
    fix s assume I: "mem_inv s0 s"
    show "case map_prod id (maintains (mem_inv s0)) (case mm_groups s chat of
          None \<Rightarrow> (s, Done (Inl (Sqlite ''no such database'')))
        | Some g \<Rightarrow> (case map_prod id (on_groupp chat) (f g) of (g', p) \<Rightarrow> (s\<lparr>mm_groups := (mm_groups s)(chat \<mapsto> g')\<rparr>, p))) of
        (s', k) \<Rightarrow> mem_inv s0 s' \<and> k"
    proof (cases "mm_groups s chat")
      case None
      with I show ?thesis by simp
    next
      case (Some g)
      obtain g' p where f: "f g = (g', p)" by fastforce
      have "p \<in> Basic_BNFs.snds (f g)" by (simp add: f snds.intros)
      note IH = Step.IH [OF rangeI this]
      have "group_inv (rows_in s0 chat) g' \<and> maintains (group_inv (rows_in s0 chat)) p"
        using Step.prems mem_inv_group(1) [OF I Some] f by (auto dest: spec [of _ g])
      with IH mem_inv_group(2) [OF I Some, of g'] Some f show ?thesis by simp
    qed
  qed
qed simp

text \<open>The operations of the groups, the plugins and the module.\<close>

lemma maintains_done_bind: "(\<And>a. r = Inr a \<Longrightarrow> maintains I (k a)) \<Longrightarrow> maintains I (bindp (Done r) k)"
  by (cases r) (simp_all add: bindp_def)

lemma maintains_sum:
  "(\<And>e. maintains I (h e)) \<Longrightarrow> (\<And>a. maintains I (k a)) \<Longrightarrow> maintains I (case r of Inl e \<Rightarrow> h e | Inr a \<Rightarrow> k a)"
  by (cases r) simp_all

lemmas maintains_group = maintains_done_bind maintains_intros maintains_sqlp keeps_intros maintains_sum

lemma maintains_write_triples: "maintains (group_inv R) (write_triples_p w n rs)"
  by (induction rs arbitrary: n) (auto intro!: maintains_group)

lemma maintains_plugin_ops:
  "maintains (group_inv R) (summary_write_p L w chat content)"
  "maintains (group_inv R) (ensure_schema_p w)" "maintains (group_inv R) (graph_init_schema_p w)"
  "maintains (group_inv R) (graph_write_p L w chat path content)"
  unfolding summary_write_p_def ensure_schema_p_def graph_init_schema_p_def graph_write_p_def Let_def
  by (cases path; (intro maintains_group maintains_write_triples | simp)+)+

lemma maintains_plugins:
  "p \<in> set (plugins_p L w) \<Longrightarrow> maintains (group_inv R) (pp_init_schema p) \<and>
     maintains (group_inv R) (pp_read p chat path) \<and> maintains (group_inv R) (pp_write p chat path content) \<and>
     maintains (group_inv R) (pp_patch p chat path content)"
  by (auto simp: plugins_p_def hierarchical_patch_p_def
      intro!: maintains_plugin_ops maintains_group maintains_atom split: sum.splits)

lemma maintains_pool: "maintains (mem_inv s0) (atom (pool L w chat))"
  by (intro maintains_atom keeps_pool)

lemma maintains_with_plugin:
  assumes "\<And>p R. p \<in> set (plugins_p L w) \<Longrightarrow> maintains (group_inv R) (f p)" and "maintains (mem_inv s0) other"
  shows "maintains (mem_inv s0) (with_plugin_p L w gid resource f other)"
proof (cases "find (\<lambda>p. pp_name p = resource) (plugins_p L w)")
  case None
  with assms(2) show ?thesis by (simp add: with_plugin_p_def)
next
  case (Some p)
  then have p: "p \<in> set (plugins_p L w)" by (auto simp: find_Some_iff)
  show ?thesis
    unfolding with_plugin_p_def Some option.case
    by (intro maintains_intros maintains_pool maintains_on_groupp assms(1) [OF p] maintains_plugins [OF p, THEN conjunct1])
qed

lemma maintains_view: "view_of L w name = Some view \<Longrightarrow> maintains (group_inv R) (atom (view chat params))"
  by (intro maintains_atom keeps_view_of)

lemma maintains_messages:
  "maintains (mem_inv s0) (msg_insert_p L w chat content)" "maintains (mem_inv s0) (get_by_id_p L w chat i)"
  "maintains (mem_inv s0) (search_fts_p L w chat q n)" "maintains (mem_inv s0) (range_fetch_p L w chat params)"
  unfolding msg_insert_p_def get_by_id_p_def search_fts_p_def range_fetch_p_def Let_def
  by (intro maintains_group maintains_pool maintains_on_groupp)+

lemma maintains_memory:
  "maintains (mem_inv s0) (memory_read_p L w path)"
  "maintains (mem_inv s0) (memory_write_p L ord l2 tick w path content)"
  "maintains (mem_inv s0) (memory_patch_p L ord l2 tick w path content)"
  "maintains (mem_inv s0) (handle_call_p L w tool params)"
proof -
  have ok: "ok_or x e = Inr a \<Longrightarrow> x = Some a" for x :: "'x option" and e a by (cases x) simp_all
  show "maintains (mem_inv s0) (memory_read_p L w path)"
    unfolding memory_read_p_def Let_def
    by (intro maintains_group maintains_pool maintains_messages maintains_with_plugin maintains_on_groupp)
       (auto intro: maintains_view ok simp: maintains_plugins)
  show w: "maintains (mem_inv s0) (memory_write_p L ord l2 tick w path content)" for path content
    unfolding memory_write_p_def Let_def
    by (intro maintains_group maintains_messages maintains_with_plugin maintains_on_sessionsp)
       (auto simp: maintains_plugins)
  show "maintains (mem_inv s0) (memory_patch_p L ord l2 tick w path content)"
    unfolding memory_patch_p_def
    by (intro maintains_intros maintains_with_plugin w) (auto simp: maintains_plugins)
  show "maintains (mem_inv s0) (handle_call_p L w tool params)"
    unfolding handle_call_p_def Let_def
    by (intro maintains_group maintains_pool maintains_messages maintains_on_groupp) (auto intro: maintains_view ok)
qed

text \<open>The requests on the module.\<close>

fun memory_prog ::
  "('f, 't) mm_lib \<Rightarrow> order \<Rightarrow> ('d, 'v) lance option \<Rightarrow> 't memory_op \<Rightarrow> (('f, 'd) memory, vfs_error, unit) prog" where
  "memory_prog L ord l2 (MemRead w path) = ignorep (memory_read_p L w path)"
| "memory_prog L ord l2 (MemWrite tick w path content) = memory_write_p L ord l2 tick w path content"
| "memory_prog L ord l2 (MemPatch tick w path partial) = memory_patch_p L ord l2 tick w path partial"
| "memory_prog L ord l2 (MemCall w tool params) = ignorep (handle_call_p L w tool params)"

definition memory_client ::
  "('f, 't) mm_lib \<Rightarrow> order \<Rightarrow> ('d, 'v) lance option \<Rightarrow> 't memory_op list \<Rightarrow> (('f, 'd) memory, vfs_error, unit) prog" where
  "memory_client L ord l2 ops = in_turn (map (memory_prog L ord l2) ops)"

lemma maintains_memory_client: "maintains (mem_inv s0) (memory_client L ord l2 ops)"
  unfolding memory_client_def
proof (rule maintains_in_turn)
  fix p assume "p \<in> set (map (memory_prog L ord l2) ops)"
  then obtain e where "p = memory_prog L ord l2 e" by auto
  then show "maintains (mem_inv s0) p" by (cases e) (auto intro: maintains_ignorep maintains_memory)
qed

section \<open>Properties\<close>

text \<open>
  C5: The messages of a group are a lossless archive under concurrency. Any number of clients read, write, patch
  and call on any paths, with any failures, their statements and the locked sections of the session
  store interleaved in any order: a message that was stored is never changed or removed, and ids stay unique.
\<close>

theorem concurrent_messages_archive:
  assumes "\<forall>chat g. mm_groups s0 chat = Some g \<longrightarrow> msgs_ok g"
    and "mm_groups s0 chat = Some g0" "r \<in> set (gd_messages g0)"
    and "interleave sched (\<lambda>i. memory_client L ord l2 (ops i)) s0 = (s, ps)"
  shows "\<exists>g. mm_groups s chat = Some g \<and> msgs_ok g \<and> msg_lookup (ms_msg_id r) g = Some r"
proof -
  have "mem_inv s0 s0" using assms(1) by (simp add: mem_inv_def)
  from interleave_maintains [where I = "mem_inv s0", OF maintains_memory_client this assms(4)] have I: "mem_inv s0 s" .
  have "r \<in> rows_in s0 chat" using assms(2,3) by (simp add: rows_in_def)
  with I have "r \<in> rows_in s chat" by (auto simp: mem_inv_def)
  then obtain g where g: "mm_groups s chat = Some g" "r \<in> set (gd_messages g)"
    by (auto simp: rows_in_def split: option.splits)
  with I have "msgs_ok g" by (auto simp: mem_inv_def)
  with g msg_lookup_row show ?thesis by blast
qed

theorem concurrent_messages_archive_witness:
  "\<exists>g. mm_groups (fst (interleave [0, 1, 0, 1, 1, 0]
     (\<lambda>i. memory_client demo_mm_lib sorted_list_of_set (None :: (unit, nat) lance option)
        [MemWrite 1 (still i) [''groups'', ''c'', ''messages''] (to_str note_codec (JObj [(''msg_id'', JInt 7)])),
         MemWrite 2 (still i) [''groups'', ''c'', ''graph'', ''s''] ''x''])
     demo_memory)) ''c'' = Some g \<and> msgs_ok g \<and> msg_lookup (ms_msg_id demo_row) g = Some demo_row"
proof -
  have "\<forall>chat g. mm_groups demo_memory chat = Some g \<longrightarrow> msgs_ok g" "mm_groups demo_memory ''c'' = Some demo_group"
    "demo_row \<in> set (gd_messages demo_group)"
    by (auto simp: demo_memory_def demo_group_def msgs_ok_def split: if_splits)
  from concurrent_messages_archive [OF this prod.collapse [symmetric]] show ?thesis .
qed

end
