(* ===== verification/Logos_Files.thy ===== *)
theory Logos_Files
  imports Logos_Sandbox Logos_Interleave
begin

text \<open>
  The files of \<open>logos-kernel/src/users.rs\<close> and the log of \<open>sandbox.rs\<close> call by call. No lock guards a file: a write
  that depends on what the file held reads it, makes the directories and writes it back in separate calls of
  the file system, and requests running at the same time interleave between them. (A call that writes a
  whole file counts as one step.)
\<close>

section \<open>Writes as sequences of calls\<close>

definition dir_write_at_p :: "faults \<Rightarrow> dir_ns \<Rightarrow> fpath \<Rightarrow> string \<Rightarrow> (tree, vfs_error, unit) prog" where
  "dir_write_at_p flt N file_path content =
     bindp (case path_parent file_path of
         Some parent \<Rightarrow> atom (io flt ''mkdir'' (err_at N ''mkdir'' parent) (create_dir_all parent))
       | None \<Rightarrow> retp ()) (\<lambda>_.
     atom (io_data flt ''write'' (err_at N ''write'' file_path) content (fs_write file_path)))"

definition append_persona_short_p ::
  "codec \<Rightarrow> faults \<Rightarrow> fpath \<Rightarrow> string list \<Rightarrow> string \<Rightarrow> (tree, vfs_error, unit) prog" where
  "append_persona_short_p c flt root path content =
     (let file_path = (if length path \<ge> 4 then path_join root (join ''/'' path)
                       else path_join root (path ! 0 @ ''/persona/short/latest'')) in
      bindp (attemptp (atom (io flt ''read'' (\<lambda>e. if e = ENOENT then NotFound [] else err_at (users_dir root) ''read'' file_path e)
          (read_to_string file_path))) (\<lambda>r.
        case r of
          Inr s \<Rightarrow> retp s
        | Inl (NotFound _) \<Rightarrow> retp ''[]''
        | Inl e \<Rightarrow> failp e)) (\<lambda>existing.
      bindp (Done (case from_str c existing of
          Inr (JArr xs) \<Rightarrow> Inr xs
        | Inr v \<Rightarrow> Inl (InvalidJson (''corrupt persona/short at '' @ path_display file_path
                     @ '': '' @ mismatch c ''Vec<Value>'' v))
        | Inl e \<Rightarrow> Inl (InvalidJson (''corrupt persona/short at '' @ path_display file_path @ '': '' @ e)))) (\<lambda>entries.
      (let new_entry = unwrap_or (from_str c content) (JStr content);
           merged = to_str c (JArr (entries @ [new_entry]))
       in dir_write_at_p flt (users_dir root) file_path merged))))"

definition users_write_file_p :: "faults \<Rightarrow> fpath \<Rightarrow> string list \<Rightarrow> string \<Rightarrow> (tree, vfs_error, unit) prog" where
  "users_write_file_p flt root path content =
     dir_write_at_p flt (users_dir root) (path_join root (join ''/'' path)) content"

definition users_write_p ::
  "codec \<Rightarrow> faults \<Rightarrow> fpath \<Rightarrow> string list \<Rightarrow> string \<Rightarrow> (tree, vfs_error, unit) prog" where
  "users_write_p c flt root path content =
     (if path = [] then failp (InvalidPath ''empty users path'')
      else if length path \<ge> 3 \<and> path ! 1 = ''persona'' \<and> path ! 2 = ''short''
      then append_persona_short_p c flt root path content
      else users_write_file_p flt root path content)"

definition users_patch_p ::
  "codec \<Rightarrow> faults \<Rightarrow> fpath \<Rightarrow> string list \<Rightarrow> string \<Rightarrow> (tree, vfs_error, unit) prog" where
  "users_patch_p c flt root path partial =
     (if path = [] then failp (InvalidPath ''empty users path'')
      else
        attemptp (atom (io flt ''read'' (io_err []) (read_to_string (path_join root (join ''/'' path))))) (\<lambda>r.
        case (from_str c (unwrap_or r []), from_str c partial) of
          (Inr base, Inr patch) \<Rightarrow>
            users_write_file_p flt root path (to_str_pretty c (json_deep_merge base patch))
        | _ \<Rightarrow> users_write_file_p flt root path partial))"

definition log_append_at_p :: "faults \<Rightarrow> fpath \<Rightarrow> fpath \<Rightarrow> string \<Rightarrow> (tree, vfs_error, unit) prog" where
  "log_append_at_p flt host_root file_path partial =
     bindp (case path_parent file_path of
         Some parent \<Rightarrow> atom (io flt ''mkdir'' (err_at (sandbox_dir host_root) ''mkdir'' parent) (create_dir_all parent))
       | None \<Rightarrow> retp ()) (\<lambda>_.
     bindp (atom (io flt ''open'' (err_at (sandbox_dir host_root) ''open log'' file_path) (fs_append file_path []))) (\<lambda>_.
     bindp (atom (io_data flt ''append'' (io_err (if flt [''append'', ''late''] = None then ''append log'' else ''append newline''))
       partial (fs_append file_path))) (\<lambda>_.
     atom (attempt (io flt ''newline'' (io_err []) (fs_append file_path [CHR 0x0A])) (\<lambda>_. ret ())))))"

section \<open>Alone\<close>

lemma run_dir_write [run_simps]: "run (dir_write_at_p flt N p content) = dir_write_at flt N p content"
  by (simp add: dir_write_at_p_def dir_write_at_def run_simps cong: option.case_cong)

lemma run_missing_empty [run_simps]:
  "run (case e of NotFound _ \<Rightarrow> retp ''[]'' | e \<Rightarrow> failp e) = (case e of NotFound _ \<Rightarrow> ret ''[]'' | e \<Rightarrow> fail e)"
  by (simp add: run_simps split: vfs_error.splits)

lemma run_append_persona [run_simps]:
  "run (append_persona_short_p c flt root path content) = append_persona_short c flt root path content"
  unfolding append_persona_short_p_def append_persona_short_def Let_def
  by (simp add: run_simps cong: if_cong sum.case_cong)

lemma run_users [run_simps]:
  "run (users_write_file_p flt root path content) = users_write_file flt root path content"
  "run (users_write_p c flt root path content) = users_write c flt root path content"
  "run (users_patch_p c flt root path partial) = users_patch c flt root path partial"
  by (simp_all add: users_write_file_p_def users_write_file_def users_write_p_def users_write_def users_patch_p_def
      users_patch_def run_simps cong: if_cong sum.case_cong)

lemma run_log_append [run_simps]: "run (log_append_at_p flt hr p x) = log_append_at flt hr p x"
  by (simp add: log_append_at_p_def log_append_at_def run_simps cong: option.case_cong)

section \<open>What a call may change\<close>

text \<open>Only nodes below the directories of the users in \<open>U\<close>, and missing directories on the way to the root.\<close>

definition below :: "string set \<Rightarrow> fpath \<Rightarrow> tree \<Rightarrow> tree \<Rightarrow> bool" where
  "below U root fs fs' \<longleftrightarrow> (\<forall>q. fs' q \<noteq> fs q \<longrightarrow> (\<exists>uid \<in> U. \<exists>t. q = root @ uid # t) \<or>
     fs q = None \<and> fs' q = Some Dir \<and> (\<exists>n \<le> length root. q = take n root))"

lemma below_refl [simp]: "below U root fs fs"
  by (simp add: below_def)

lemma below_trans: "below U root fs fs1 \<Longrightarrow> below U root fs1 fs2 \<Longrightarrow> below U root fs fs2"
  unfolding below_def by (metis option.distinct(1))

lemma below_mono: "below U root fs fs' \<Longrightarrow> U \<subseteq> V \<Longrightarrow> below V root fs fs'"
  unfolding below_def by blast

lemma below_grown:
  assumes "grown (root @ uid # t) fs fs'"
  shows "below {uid} root fs fs'"
  unfolding below_def
proof (intro allI impI)
  fix q assume "fs' q \<noteq> fs q"
  then obtain n where n: "fs q = None" "fs' q = Some Dir" "n \<le> length (root @ uid # t)" "q = take n (root @ uid # t)"
    using assms unfolding grown_def by metis
  from take_below [OF n(3)] n show "(\<exists>u \<in> {uid}. \<exists>t. q = root @ u # t) \<or>
      fs q = None \<and> fs' q = Some Dir \<and> (\<exists>n \<le> length root. q = take n root)" by auto
qed

lemma below_io:
  assumes "\<And>fs' r. m fs = (fs', r) \<Longrightarrow> below U root fs fs'"
  shows "below U root fs (fst (io flt l err m fs))"
  using assms by (cases "m fs") (auto simp: io_def split: option.splits)

lemma below_io_data:
  assumes "\<And>y fs' r. wr y fs = (fs', r) \<Longrightarrow> below U root fs fs'"
  shows "below U root fs (fst (io_data flt l err x wr fs))"
proof -
  have io: "below U root fs (fst (io flt l err (wr y) fs))" for y
    by (rule below_io) (rule assms)
  show ?thesis
    using io by (auto simp: io_data_def split: option.split prod.split sum.split) (metis fst_conv)+
qed

lemma abides_dir_write:
  assumes p: "clean (root @ uid # t)"
  shows "abides R (below {uid} root) (dir_write_at_p flt N (root @ uid # t) x) s"
proof -
  let ?p = "root @ uid # t"
  have ne: "?p \<noteq> []" by simp
  have mk: "below {uid} root fs (fst (io flt' l err (create_dir_all (butlast ?p)) fs))" for fs flt' l err
  proof (rule below_io)
    fix fs' r assume "create_dir_all (butlast ?p) fs = (fs', r)"
    then have "grown ?p fs fs'"
      using create_dir_all_grows [OF clean_butlast [OF p]] grown_butlast by blast
    then show "below {uid} root fs fs'" by (rule below_grown)
  qed
  have wr: "below {uid} root fs (fst (io_data flt' l err x (fs_write ?p) fs))" for fs flt' l err
  proof (rule below_io_data)
    fix y fs' r assume "fs_write ?p y fs = (fs', r)"
    then have "fs' = fs \<or> fs' = fs(?p \<mapsto> File y)"
      using write_to_clean(3,4) [OF p] unfolding fs_write_def by blast
    then show "below {uid} root fs fs'" by (auto simp: below_def)
  qed
  show ?thesis
    unfolding dir_write_at_p_def path_parent_clean [OF p ne] option.case
    by (intro abides_bindp abides_atom mk wr)
qed

lemma abides_io_read: "(\<And>fs. fst (m fs) = fs) \<Longrightarrow> abides R (below U root) (atom (io flt l err m)) s"
  by (rule abides_atom) (metis below_io below_refl fst_conv)

text \<open>The requests on the namespace, and the user whose directory one names.\<close>

datatype users_op =
    UsersWrite faults "string list" string
  | UsersPatch faults "string list" string

fun users_prog :: "codec \<Rightarrow> fpath \<Rightarrow> users_op \<Rightarrow> (tree, vfs_error, unit) prog" where
  "users_prog c root (UsersWrite flt path content) = users_write_p c flt root path content"
| "users_prog c root (UsersPatch flt path partial) = users_patch_p c flt root path partial"

fun op_path :: "users_op \<Rightarrow> string list" where
  "op_path (UsersWrite flt path content) = path"
| "op_path (UsersPatch flt path partial) = path"

definition users_client :: "codec \<Rightarrow> fpath \<Rightarrow> users_op list \<Rightarrow> (tree, vfs_error, unit) prog" where
  "users_client c root ops = in_turn (map (users_prog c root) ops)"

lemma abides_append_persona:
  assumes "clean root" and "user_path (uid # rest)" and "persona_short (uid # rest)"
  shows "abides R (below {uid} root) (append_persona_short_p c flt root (uid # rest) content) s"
proof -
  obtain t where t: "root @ user_file (uid # rest) = root @ uid # t" "clean (root @ uid # t)"
    using user_file_clean [OF assms(2)] assms(1) by (cases "persona_short (uid # rest) \<and> length (uid # rest) = 3")
      (auto simp: user_file_def)
  show ?thesis
    unfolding append_persona_short_p_def persona_file [OF assms(2,3)] Let_def t(1)
    by (intro abides_intros abides_io_read abides_dir_write t(2)) (auto intro: abides_intros split: sum.splits vfs_error.splits)
qed

lemma abides_users_prog:
  assumes "clean root" and "user_path (op_path op)" and "hd (op_path op) \<in> U"
  shows "abides R (below U root) (users_prog c root op) s"
proof -
  obtain uid rest where path: "op_path op = uid # rest" "uid \<in> U"
    using assms(2,3) by (cases "op_path op") (auto simp: user_path_def)
  have joined: "path_join root (join ''/'' (uid # rest)) = root @ uid # rest" "clean (root @ uid # rest)"
    using assms(1,2) path by (simp_all add: user_path_def path_join_clean)
  have whole: "abides R (below {uid} root) (users_write_file_p flt root (uid # rest) x) s" for flt x s
    unfolding users_write_file_p_def joined(1) by (rule abides_dir_write [OF joined(2)])
  have "abides R (below {uid} root) (users_prog c root op) s"
  proof (cases op)
    case (UsersWrite flt p content)
    then have "p = uid # rest" using path by simp
    with UsersWrite assms(1,2) path whole show ?thesis
      by (auto simp: users_write_p_def persona_short_def intro!: abides_append_persona)
  next
    case (UsersPatch flt p partial)
    then have "p = uid # rest" using path by simp
    with UsersPatch whole show ?thesis
      by (auto simp: users_patch_p_def split: sum.splits intro!: abides_intros abides_io_read)
  qed
  with path(2) show ?thesis using below_mono [of "{uid}" root _ _ U] by (auto intro: abides_mono)
qed

interpretation users_dirs: rely_guarantee "\<lambda>_ :: nat. \<lambda>_ _ :: tree. True" "\<lambda>_. below U root"
  for U root
  by unfold_locales auto

section \<open>Properties\<close>

text \<open>
  C26: Users are isolated from each other under concurrent requests. Any number of clients write and patch
  paths without dot segments, with any failures, their calls of the file system interleaved in any order: a node
  that changes is below the directory of a user that some request names, or a missing directory made on the
  way to the root.
\<close>

theorem concurrent_users_isolation:
  assumes "clean root" and "\<forall>i. \<forall>op \<in> set (ops i). user_path (op_path op)"
    and "interleave sched (\<lambda>i. users_client c root (ops i)) fs = (fs', ps)" and "fs' q \<noteq> fs q"
  shows "(\<exists>i. \<exists>op \<in> set (ops i). \<exists>t. q = root @ hd (op_path op) # t) \<or>
    (fs q = None \<and> fs' q = Some Dir \<and> (\<exists>n \<le> length root. q = take n root))"
proof -
  let ?U = "{hd (op_path op) |op i. op \<in> set (ops i)}"
  have "below ?U root fs fs'"
  proof (rule users_dirs.interleave_keeps [OF _ assms(3)])
    show "abides (\<lambda>_ _. True) (below ?U root) (users_client c root (ops i)) fs" for i
      unfolding users_client_def
      by (rule abides_in_turn) (use assms(1,2) in \<open>auto intro!: abides_users_prog\<close>)
  qed (auto intro: below_trans)
  with assms(4) show ?thesis unfolding below_def by blast
qed

theorem concurrent_users_isolation_witness:
  "fst (interleave [0, 1, 0, 1, 1, 0] (\<lambda>i. users_client note_codec [''data'']
      (if i = 0 then [UsersWrite no_faults [''u1'', ''a''] ''x''] else [UsersPatch no_faults [''u1'', ''b''] ''y'']))
      demo_tree) [''data'', ''u2''] = demo_tree [''data'', ''u2'']"
proof (rule ccontr)
  let ?ops = "\<lambda>i :: nat. if i = 0 then [UsersWrite no_faults [''u1'', ''a''] ''x'']
    else [UsersPatch no_faults [''u1'', ''b''] ''y'']"
  obtain fs' ps where run: "interleave [0, 1, 0, 1, 1, 0] (\<lambda>i. users_client note_codec [''data''] (?ops i)) demo_tree = (fs', ps)"
    by fastforce
  assume "\<not> ?thesis"
  with run have ne: "fs' [''data'', ''u2''] \<noteq> demo_tree [''data'', ''u2'']" by simp
  have p: "clean [''data'']" "\<forall>i. \<forall>op \<in> set (?ops i). user_path (op_path op)"
    by (simp_all add: user_path_def seg_ok_def)
  from concurrent_users_isolation [OF p run ne] obtain n where
    "n \<le> length [''data'']" "[''data'', ''u2''] = take n [''data'']" by (auto split: if_splits)
  then have "length [''data'', ''u2''] \<le> length [''data'']" by (metis length_take min.cobounded1)
  then show False by simp
qed

lemma fs_write_there: "clean p \<Longrightarrow> file_at p fs old \<Longrightarrow> fs_write p x fs = (fs(p \<mapsto> File x), Inr ())"
  using walk_clean [of p fs p] by (auto simp: file_at_def fs_write_def write_to_def)

lemma next_io [next_simps]:
  "m fs = (fs', Inr a) \<Longrightarrow> next_step (atom (io no_faults l err m)) fs = (fs', retp a)"
  by (rule next_basic) (simp add: io_def no_faults_def)

lemma next_persona_write:
  assumes "codec_ok c" and "clean root" and "user_path p" and "persona_short p"
    and "file_at (root @ user_file p) fs (to_str c (JArr xs))" and "wf_json (JArr xs)" and "float_free (JArr xs)"
  obtains B where "next_step (users_write_p c no_faults root p a) fs = (fs, B)"
    "\<And>fs1 old. file_at (root @ user_file p) fs1 old \<Longrightarrow>
       next_steps 2 B fs1 = (fs1(root @ user_file p \<mapsto> File (to_str c (JArr (xs @ [persona_entry c a])))), retp ())"
proof
  let ?f = "root @ user_file p" and ?B = "dir_write_at_p no_faults (users_dir root) (root @ user_file p)
    (to_str c (JArr (xs @ [persona_entry c a])))"
  have f: "clean ?f" "?f \<noteq> []" using assms(2) user_file_clean [OF assms(3)] by auto
  have read: "read_to_string ?f fs = (fs, Inr (to_str c (JArr xs)))"
    using assms(5) f by (auto simp: file_at_def intro: read_to_string_clean)
  have parse: "from_str c (to_str c (JArr xs)) = Inr (JArr xs)" using codec_okD(1) [OF assms(1,6,7)] .
  have xs: "Done (Inr xs) = retp xs" by (simp add: retp_def)
  have "users_write_p c no_faults root p a = append_persona_short_p c no_faults root p a"
    using assms(3,4) by (auto simp: users_write_p_def persona_short_def user_path_def)
  then show "next_step (users_write_p c no_faults root p a) fs = (fs, ?B)"
    using persona_file [OF assms(3,4), of root]
    by (simp add: append_persona_short_p_def next_simps read parse xs persona_entry_def Let_def)
  have two: "2 = Suc (Suc 0)" by simp
  show "next_steps 2 ?B fs1 = (fs1(?f \<mapsto> File (to_str c (JArr (xs @ [persona_entry c a])))), retp ())"
    if "file_at ?f fs1 old" for fs1 old
    using create_dir_all_there [OF clean_butlast [OF f(1)], of fs1] fs_write_there [OF f(1) that] that
    unfolding two by (simp add: dir_write_at_p_def path_parent_clean [OF f] next_simps file_at_def)
qed

text \<open>
  C31: An append to \<open>persona/short\<close> is lost to another. The file is documented as an append-only log. Two
  requests append to one file at the same time: both read it before either writes it back, both are acknowledged, and the
  entry written first is gone.
\<close>

theorem concurrent_append_lost:
  assumes "codec_ok c" and "clean root" and "user_path p" and "persona_short p"
    and "file_at (root @ user_file p) fs (to_str c (JArr xs))" and "wf_json (JArr xs)" and "float_free (JArr xs)"
  shows "\<exists>fs'. interleave ([0, 1] @ replicate 2 0 @ replicate 2 1)
      (ps(0 := users_write_p c no_faults root p a, 1 := users_write_p c no_faults root p b)) fs
    = (fs', ps(0 := retp (), 1 := retp ())) \<and>
    file_at (root @ user_file p) fs' (to_str c (JArr (xs @ [persona_entry c b])))"
proof -
  let ?f = "root @ user_file p"
  obtain A where A: "next_step (users_write_p c no_faults root p a) fs = (fs, A)"
    "\<And>fs1 old. file_at ?f fs1 old \<Longrightarrow>
       next_steps 2 A fs1 = (fs1(?f \<mapsto> File (to_str c (JArr (xs @ [persona_entry c a])))), retp ())"
    using next_persona_write [OF assms] by blast
  obtain B where B: "next_step (users_write_p c no_faults root p b) fs = (fs, B)"
    "\<And>fs1 old. file_at ?f fs1 old \<Longrightarrow>
       next_steps 2 B fs1 = (fs1(?f \<mapsto> File (to_str c (JArr (xs @ [persona_entry c b])))), retp ())"
    using next_persona_write [OF assms] by blast
  have stays: "file_at ?f (fs1(?f \<mapsto> File x)) x" if "file_at ?f fs1 old" for fs1 old x
    using that by (auto simp: file_at_def dirs_to_def dest: arg_cong [of _ _ length])
  let ?fs1 = "fs(?f \<mapsto> File (to_str c (JArr (xs @ [persona_entry c a]))))"
  let ?fs2 = "?fs1(?f \<mapsto> File (to_str c (JArr (xs @ [persona_entry c b]))))"
  have "interleave ([0, 1] @ replicate 2 0 @ replicate 2 1)
      (ps(0 := users_write_p c no_faults root p a, 1 := users_write_p c no_faults root p b)) fs
    = (?fs2, ps(0 := retp (), 1 := retp ()))"
    by (simp add: sched_two sched_two_steps A(1) B(1) A(2) [OF assms(5)] B(2) [OF stays [OF assms(5)]])
  then show ?thesis using stays [OF stays [OF assms(5)]] by blast
qed

theorem concurrent_append_lost_witness:
  "\<exists>fs'. interleave ([0, 1] @ replicate 2 0 @ replicate 2 1) ((\<lambda>_. retp ())
      (0 := users_write_p note_codec no_faults [''data''] [''u1'', ''persona'', ''short''] ''walked'',
       1 := users_write_p note_codec no_faults [''data''] [''u1'', ''persona'', ''short''] ''sang'')) demo_log
    = (fs', (\<lambda>_. retp ())(0 := retp (), 1 := retp ())) \<and>
    fs' [''data'', ''u1'', ''persona'', ''short'', ''latest''] =
      Some (File (to_str note_codec (JArr [JStr ''a'', persona_entry note_codec ''sang''])))"
proof -
  let ?p = "[''u1'', ''persona'', ''short'']"
  have p: "clean [''data'']" "user_path ?p" "persona_short ?p" "user_file ?p = ?p @ [''latest'']"
    by (simp_all add: user_path_def persona_short_def user_file_def seg_ok_def)
  have f: "file_at ([''data''] @ user_file ?p) demo_log (to_str note_codec (JArr [JStr ''a'']))"
    using demo_log_dirs by (simp add: file_at_def user_file_def persona_short_def demo_log_def)
  have wf: "wf_json (JArr [JStr ''a''])" "float_free (JArr [JStr ''a''])" by simp_all
  from concurrent_append_lost [OF note_codec_ok p(1-3) f wf, of "\<lambda>_. retp ()" "''walked''" "''sang''"]
  show ?thesis by (simp add: p(4) file_at_def) blast
qed

text \<open>
  Two patches of a task's log. The text and the newline are written by separate calls, so another patch
  may come between them: the two entries become one line, followed by an empty one.
\<close>

lemma fs_append_there: "clean p \<Longrightarrow> file_at p fs old \<Longrightarrow> fs_append p x fs = (fs(p \<mapsto> File (old @ x)), Inr ())"
  using walk_clean [of p fs p] by (auto simp: file_at_def fs_append_def write_to_def)

lemma file_at_replaced: "file_at p fs old \<Longrightarrow> file_at p (fs(p \<mapsto> File x)) x"
  by (auto simp: file_at_def dirs_to_def dest: arg_cong [of _ _ length])

lemma next_log_text:
  assumes "clean p" and "p \<noteq> []" and "file_at p fs old"
  shows "next_steps 3 (log_append_at_p no_faults hr p x) fs = (fs(p \<mapsto> File (old @ x)),
    atom (attempt (io no_faults ''newline'' (io_err []) (fs_append p [CHR 0x0A])) (\<lambda>_. ret ())))"
proof -
  have three: "3 = Suc (Suc (Suc 0))" by simp
  have mk: "create_dir_all (butlast p) fs = (fs, Inr ())"
    using create_dir_all_there [OF clean_butlast [OF assms(1)], of fs] assms(3) by (simp add: file_at_def)
  have same: "fs(p \<mapsto> File old) = fs" using assms(3) by (simp add: file_at_def fun_upd_idem)
  show ?thesis
    unfolding three
    by (simp add: log_append_at_p_def path_parent_clean [OF assms(1,2)] next_simps mk
        fs_append_there [OF assms(1,3)] same)
qed

theorem concurrent_log_torn:
  assumes "clean p" and "p \<noteq> []" and "file_at p fs old"
  shows "\<exists>fs'. interleave (replicate 3 0 @ replicate 3 1 @ [0, 1])
      (ps(0 := log_append_at_p no_faults hr p a, 1 := log_append_at_p no_faults hr p b)) fs
    = (fs', ps(0 := retp (), 1 := retp ())) \<and>
    file_at p fs' (old @ a @ b @ [CHR 0x0A, CHR 0x0A])"
proof -
  define fs1 where "fs1 = fs(p \<mapsto> File (old @ a))"
  define fs2 where "fs2 = fs1(p \<mapsto> File ((old @ a) @ b))"
  define fs3 where "fs3 = fs2(p \<mapsto> File (((old @ a) @ b) @ [CHR 0x0A]))"
  define fs4 where "fs4 = fs3(p \<mapsto> File ((((old @ a) @ b) @ [CHR 0x0A]) @ [CHR 0x0A]))"
  have f1: "file_at p fs1 (old @ a)" unfolding fs1_def by (rule file_at_replaced [OF assms(3)])
  have f2: "file_at p fs2 ((old @ a) @ b)" unfolding fs2_def by (rule file_at_replaced [OF f1])
  have f3: "file_at p fs3 (((old @ a) @ b) @ [CHR 0x0A])" unfolding fs3_def by (rule file_at_replaced [OF f2])
  have f4: "file_at p fs4 ((((old @ a) @ b) @ [CHR 0x0A]) @ [CHR 0x0A])"
    unfolding fs4_def by (rule file_at_replaced [OF f3])
  have nl: "next_step (atom (attempt (io no_faults ''newline'' (io_err []) (fs_append p [CHR 0x0A])) (\<lambda>_. ret ()))) gs
      = (gs(p \<mapsto> File (t @ [CHR 0x0A])), retp ())" if "file_at p gs t" for gs t
    by (rule next_basic) (simp add: attempt_def io_def no_faults_def fs_append_there [OF assms(1) that] ret_def)
  note texts = next_log_text [OF assms, of hr a, folded fs1_def] next_log_text [OF assms(1,2) f1, of hr b, folded fs2_def]
  have "interleave (replicate 3 0 @ replicate 3 1 @ [0, 1])
      (ps(0 := log_append_at_p no_faults hr p a, 1 := log_append_at_p no_faults hr p b)) fs
    = (fs4, ps(0 := retp (), 1 := retp ()))"
    by (simp add: sched_two_steps texts sched_two nl [OF f2, folded fs3_def] nl [OF f3, folded fs4_def]
        del: append_assoc)
  then show ?thesis using f4 by auto
qed

end
