(* ===== verification/Logos_Agents.thy ===== *)
theory Logos_Agents
  imports Logos_Containerd Logos_Interleave
begin

text \<open>
  The executor of \<open>Logos_Containerd\<close> call by call. \<open>SandboxNs::ensure_container\<close> asks it for a container after it has given
  up its own lock, and the executor takes none: the calls that several requests make of the daemon and of the
  file system interleave.
\<close>

section \<open>Requests as sequences of calls\<close>

definition find_image_snapshot_parent_p :: "'s ctrd \<Rightarrow> ctrd_exec \<Rightarrow> ('s, vfs_error, string) prog" where
  "find_image_snapshot_parent_p D X =
     bindp (atom (ctrd_call ''list snapshots'' (cd_list_snapshots D))) (\<lambda>stream.
     Done (ok_or
       (map_option fst (best_snapshot (listed stream)))
       (Io (''no committed snapshot found for image '' @ ce_image X @ ''. Is the image unpacked?''))))"

definition ensure_image_p :: "'s ctrd \<Rightarrow> ctrd_exec \<Rightarrow> ('s, vfs_error, unit) prog" where
  "ensure_image_p D X =
     (let pull = atom (ctrd_call (''pull image '' @ ce_image X)
            (cd_transfer D (ce_image X)
              (replace_all ''x86_64'' ''amd64'' (replace_all ''aarch64'' ''arm64'' (ce_arch X)))))
      in attemptp (atom (cd_get_image D (ce_image X))) (\<lambda>r.
         if is_ok r
         then attemptp (find_image_snapshot_parent_p D X) (\<lambda>p. if is_ok p then retp () else pull)
         else pull))"

definition get_upperdir_p :: "'s ctrd \<Rightarrow> ctrd_exec \<Rightarrow> string \<Rightarrow> ('s, vfs_error, fpath) prog" where
  "get_upperdir_p D X snapshot_key =
     bindp (atom (ctrd_call ''get snapshot mounts'' (cd_mounts D snapshot_key))) (\<lambda>mounts.
     Done (case upperdirs mounts of
         [] \<Rightarrow> Inl (Io ''no upperdir found in snapshot'')
       | upper # _ \<Rightarrow> Inr (workspace_of X upper)))"

definition create_fifo_p :: "'s ctrd \<Rightarrow> faults \<Rightarrow> fpath \<Rightarrow> ('s, vfs_error, unit) prog" where
  "create_fifo_p D flt path =
     bindp (atom (on_tree D (\<lambda>fs. (if flt [''remove''] = None then fs_remove_file path fs else fs, Inr ())))) (\<lambda>_.
     if CHR 0x00 \<in> set (path_display path)
     then failp (Io (''invalid fifo path: nul byte found in provided data at position: ''
            @ nat_str (length (takeWhile (\<lambda>c. c \<noteq> CHR 0x00) (path_display path)))))
     else atom (ctrd_call (''mkfifo '' @ path_display path) (cd_mkfifo D path)))"

definition make_stdio_p :: "'s ctrd \<Rightarrow> faults \<Rightarrow> string \<Rightarrow> fpath \<Rightarrow> ('s, vfs_error, stdio_paths) prog" where
  "make_stdio_p D flt what tmp_dir =
     (let stdin_path = path_join tmp_dir ''stdin''; stdout_path = path_join tmp_dir ''stdout'';
          stderr_path = path_join tmp_dir ''stderr'' in
      bindp (atom (on_tree D (\<lambda>fs. (if flt [''remove tmp''] = None then fs_remove_dir_all tmp_dir fs else fs, Inr ())))) (\<lambda>_.
      bindp (atom (on_tree D (io flt ''tmp'' (io_err what) (create_dir_all tmp_dir)))) (\<lambda>_.
      bindp (create_fifo_p D (at ''stdin'' flt) stdin_path) (\<lambda>_.
      bindp (create_fifo_p D (at ''stdout'' flt) stdout_path) (\<lambda>_.
      bindp (create_fifo_p D (at ''stderr'' flt) stderr_path) (\<lambda>_.
      retp \<lparr>sp_stdin = stdin_path, sp_stdout = stdout_path, sp_stderr = stderr_path\<rparr>))))))"

definition reuse_container_p :: "'s ctrd \<Rightarrow> ctrd_exec \<Rightarrow> string \<Rightarrow> ('s, vfs_error, container_info) prog" where
  "reuse_container_p D X agent_config_id =
     attemptp (get_upperdir_p D X (ctrd_key agent_config_id)) (\<lambda>r.
     retp \<lparr>ci_container_id = ctrd_id agent_config_id, ci_host_path = unwrap_or r [''tmp'']\<rparr>)"

text \<open>The socket's canonical path is asked of the file system before the daemon is asked for the container.\<close>

definition create_container_p ::
  "'s ctrd \<Rightarrow> faults \<Rightarrow> ctrd_exec \<Rightarrow> string \<Rightarrow> fpath option \<Rightarrow> ('s, vfs_error, container_info) prog" where
  "create_container_p D flt X agent_config_id sock_path =
     (let key = ctrd_key agent_config_id; cid = ctrd_id agent_config_id in
      bindp (ensure_image_p D X) (\<lambda>_.
      bindp (find_image_snapshot_parent_p D X) (\<lambda>parent_key.
      attemptp (atom (cd_remove_snapshot D key)) (\<lambda>_.
      bindp (atom (ctrd_call ''prepare snapshot'' (cd_prepare D key parent_key))) (\<lambda>mounts.
      (let workspace_dir = workspace_of X (last_upperdir mounts) in
       bindp (atom (on_tree D (io flt ''workspace'' (io_err ''create workspace in upperdir'') (create_dir_all workspace_dir)))) (\<lambda>_.
       bindp (atom (query (\<lambda>s. map_option (\<lambda>p. path_display (canonical (lget (cd_tree D) s) p)) sock_path))) (\<lambda>sock.
       bindp (atom (ctrd_call ''create container'' (cd_create_container D (new_container X agent_config_id sock)))) (\<lambda>_.
       bindp (make_stdio_p D flt ''create tmp dir'' (path_join (ce_tmp X) (''logos-'' @ agent_config_id))) (\<lambda>stdio.
       bindp (atom (ctrd_call ''create task'' (cd_create_task D cid mounts stdio))) (\<lambda>_.
       bindp (atom (ctrd_call ''start task'' (cd_start D cid []))) (\<lambda>_.
       retp \<lparr>ci_container_id = cid, ci_host_path = workspace_dir\<rparr>))))))))))))"

definition containerd_ensure_p ::
  "'s ctrd \<Rightarrow> faults \<Rightarrow> ctrd_exec \<Rightarrow> string \<Rightarrow> fpath option \<Rightarrow> ('s, vfs_error, container_info) prog" where
  "containerd_ensure_p D flt X agent_config_id sock_path =
     (let cid = ctrd_id agent_config_id; create = create_container_p D flt X agent_config_id sock_path in
      attemptp (atom (cd_get_container D cid)) (\<lambda>c.
      if is_ok c
      then attemptp (atom (cd_get_task D cid)) (\<lambda>t.
             if is_ok t then reuse_container_p D X agent_config_id
             else attemptp (atom (cd_delete_container D cid)) (\<lambda>_. create))
      else create))"

definition containerd_run_p ::
  "'s ctrd \<Rightarrow> faults \<Rightarrow> codec \<Rightarrow> string \<Rightarrow> string \<Rightarrow> stdio_paths \<Rightarrow> string \<Rightarrow> string
    \<Rightarrow> ('s, vfs_error, exec_result) prog" where
  "containerd_run_p D flt c container_id exec_id stdio command cwd =
     bindp (atom (ctrd_call ''exec'' (cd_exec D container_id exec_id stdio
       (''types.containerd.io/opencontainers/runtime-spec/1/Process'', process_spec c cwd command)))) (\<lambda>_.
     bindp (atom (ctrd_call ''start exec'' (cd_start D container_id exec_id))) (\<lambda>_.
     bindp (atom (ctrd_call ''wait exec'' (cd_wait D container_id exec_id))) (\<lambda>status.
     bindp (atom (query (\<lambda>s. (read_fifo_incremental D (sp_stdout stdio) s, read_fifo_incremental D (sp_stderr stdio) s)))) (\<lambda>(out, err).
     retp \<lparr>er_stdout = opt_or out [], er_stderr = opt_or err [], er_exit_code = sint status\<rparr>))))"

definition containerd_exec_p ::
  "'s ctrd \<Rightarrow> faults \<Rightarrow> codec \<Rightarrow> ctrd_exec \<Rightarrow> string \<Rightarrow> string \<Rightarrow> string \<Rightarrow> ('s, vfs_error, exec_result) prog" where
  "containerd_exec_p D flt c X container_id command cwd =
     bindp (atom (query (cd_nanos D))) (\<lambda>nanos.
     (let exec_id = ''exec-'' @ int_str nanos; tmp_dir = path_join (ce_tmp X) (''logos-exec-'' @ exec_id) in
      bindp (make_stdio_p D flt ''create exec tmp'' tmp_dir) (\<lambda>stdio.
      bindp (containerd_run_p D flt c container_id exec_id stdio command cwd) (\<lambda>result.
      bindp (atom (on_tree D (\<lambda>fs. (if flt [''cleanup''] = None then fs_remove_dir_all tmp_dir fs else fs, Inr ())))) (\<lambda>_.
      retp result)))))"

definition containerd_remove_p :: "'s ctrd \<Rightarrow> string \<Rightarrow> ('s, vfs_error, unit) prog" where
  "containerd_remove_p D container_id =
     attemptp (atom (cd_kill D container_id 9)) (\<lambda>_.
     attemptp (atom (cd_wait D container_id [])) (\<lambda>_.
     attemptp (atom (cd_delete_task D container_id)) (\<lambda>_.
     attemptp (atom (cd_delete_container D container_id)) (\<lambda>_. retp ()))))"

section \<open>Alone\<close>

lemma run_ctrd_parts [run_simps]:
  "run (find_image_snapshot_parent_p D X) = find_image_snapshot_parent D X"
  "run (ensure_image_p D X) = ensure_image D X"
  "run (get_upperdir_p D X k) = get_upperdir D X k"
  "run (create_fifo_p D flt p) = create_fifo D flt p"
  "run (make_stdio_p D flt what d) = make_stdio D flt what d"
  "run (reuse_container_p D X a) = reuse_container D X a"
proof -
  show 1: "run (find_image_snapshot_parent_p D X) = find_image_snapshot_parent D X"
    by (simp add: find_image_snapshot_parent_p_def find_image_snapshot_parent_def run_simps)
  show "run (ensure_image_p D X) = ensure_image D X"
    by (simp add: ensure_image_p_def ensure_image_def run_simps 1 Let_def cong: if_cong)
  show 2: "run (get_upperdir_p D X k) = get_upperdir D X k" for k
    by (simp add: get_upperdir_p_def get_upperdir_def run_simps)
  show 3: "run (create_fifo_p D flt p) = create_fifo D flt p" for flt p
    by (simp add: create_fifo_p_def create_fifo_def run_simps cong: if_cong)
  show "run (make_stdio_p D flt what d) = make_stdio D flt what d"
    by (simp add: make_stdio_p_def make_stdio_def run_simps 3 Let_def)
  show "run (reuse_container_p D X a) = reuse_container D X a"
    by (simp add: reuse_container_p_def reuse_container_def run_simps 2)
qed

lemma andthen_query: "andthen (query f) k = (\<lambda>s. k (f s) s)"
  by (simp add: fun_eq_iff step_defs)

lemma query_within: "andthen (query f) (\<lambda>x. andthen (m x) k) = andthen (\<lambda>s. m (f s) s) k"
  by (simp add: andthen_query) (simp add: fun_eq_iff andthen_def)

lemma run_create_container [run_simps]: "run (create_container_p D flt X a sock) = create_container D flt X a sock"
  by (simp add: create_container_p_def create_container_def run_simps query_within Let_def)

lemma run_containerd [run_simps]:
  "run (containerd_ensure_p D flt X a sock) = containerd_ensure D flt X a sock"
  "run (containerd_run_p D flt c x e stdio command cwd) = containerd_run D flt c x e stdio command cwd"
  "run (containerd_exec_p D flt c X x command cwd) = containerd_exec D flt c X x command cwd"
  "run (containerd_remove_p D x) = containerd_remove D x"
proof -
  show "run (containerd_ensure_p D flt X a sock) = containerd_ensure D flt X a sock"
    by (simp add: containerd_ensure_p_def containerd_ensure_def run_simps Let_def cong: if_cong)
  show 1: "run (containerd_run_p D flt c x e stdio command cwd) = containerd_run D flt c x e stdio command cwd" for e stdio
    by (simp add: containerd_run_p_def containerd_run_def run_simps)
  show "run (containerd_exec_p D flt c X x command cwd) = containerd_exec D flt c X x command cwd"
    by (simp add: containerd_exec_p_def run_simps 1 Let_def andthen_query) (simp add: fun_eq_iff containerd_exec_def Let_def)
  show "run (containerd_remove_p D x) = containerd_remove D x"
    by (simp add: containerd_remove_p_def containerd_remove_def run_simps)
qed

section \<open>What the steps may do to the daemon\<close>

lemma maintains_quiet: "(\<And>s. V (fst (m s)) = V s) \<Longrightarrow> maintains (\<lambda>s. P (V s)) (atom m)"
  by (rule maintains_atom) (simp add: keeps_def)

lemma maintains_call: "keeps I m \<Longrightarrow> maintains I (atom (ctrd_call what m))"
  by (intro maintains_atom keeps_intros)

lemma maintains_query: "maintains I (atom (query f))"
  by (intro maintains_atom keeps_intros)

lemma quiet_keeps_any: "quiet V m \<Longrightarrow> keeps (\<lambda>s. P (V s)) m"
  by (simp add: quiet_def keeps_def)

lemmas maintains_ctrd = maintains_intros maintains_call maintains_atom maintains_query

lemma maintains_parts:
  assumes D: "ctrd_obeys D V"
  shows "maintains (\<lambda>s. P (V s)) (find_image_snapshot_parent_p D X)"
    "maintains (\<lambda>s. P (V s)) (ensure_image_p D X)"
    "maintains (\<lambda>s. P (V s)) (get_upperdir_p D X k)"
    "maintains (\<lambda>s. P (V s)) (create_fifo_p D flt p)"
    "maintains (\<lambda>s. P (V s)) (make_stdio_p D flt what d)"
    "maintains (\<lambda>s. P (V s)) (reuse_container_p D X a)"
proof -
  note quiet = ctrd_obeysD(1,2,9-15,20,21) [OF D, THEN quiet_keeps_any] quiet_on_tree [OF D, THEN quiet_keeps_any]
  show parent: "maintains (\<lambda>s. P (V s)) (find_image_snapshot_parent_p D X)"
    unfolding find_image_snapshot_parent_p_def by (intro maintains_ctrd quiet)
  show "maintains (\<lambda>s. P (V s)) (ensure_image_p D X)"
    unfolding ensure_image_p_def Let_def by (intro maintains_ctrd quiet parent)
  show upper: "maintains (\<lambda>s. P (V s)) (get_upperdir_p D X k)" for k
    unfolding get_upperdir_p_def by (intro maintains_ctrd quiet)
  show fifo: "maintains (\<lambda>s. P (V s)) (create_fifo_p D flt p)" for flt p
    unfolding create_fifo_p_def by (intro maintains_ctrd quiet)
  show "maintains (\<lambda>s. P (V s)) (make_stdio_p D flt what d)"
    unfolding make_stdio_p_def Let_def by (intro maintains_ctrd quiet fifo)
  show "maintains (\<lambda>s. P (V s)) (reuse_container_p D X a)"
    unfolding reuse_container_p_def by (intro maintains_ctrd quiet upper)
qed

lemma settled_own:
  "x \<noteq> y \<Longrightarrow> settled x b v \<Longrightarrow> settled x b (with_container y v)"
  "x \<noteq> y \<Longrightarrow> settled x b v \<Longrightarrow> settled x b (without_container y v)"
  "x \<noteq> y \<Longrightarrow> settled x b v \<Longrightarrow> settled x b (with_task y v)"
  "x \<noteq> y \<Longrightarrow> settled x b v \<Longrightarrow> settled x b (with_running y v)"
  "x \<noteq> y \<Longrightarrow> settled x b v \<Longrightarrow> settled x b (stopped y v)"
  "x \<noteq> y \<Longrightarrow> settled x b v \<Longrightarrow> settled x b (without_task y v)"
  by (auto simp: settled_def with_container_def without_container_def with_task_def with_running_def stopped_def
      without_task_def)

lemma maintains_create_other:
  assumes D: "ctrd_obeys D V" and x: "x \<noteq> ctrd_id a"
  shows "maintains (\<lambda>s. settled x b (V s)) (create_container_p D flt X a sock)"
proof -
  note quiet = ctrd_obeysD(13,14) [OF D, THEN quiet_keeps_any] quiet_on_tree [OF D, THEN quiet_keeps_any]
  have new: "keeps (\<lambda>s. settled x b (V s)) (cd_create_container D (new_container X a sk))" for sk
    by (rule does_keeps [OF ctrd_obeysD(6) [OF D]]) (use x in \<open>auto simp: new_container_def intro: settled_own\<close>)
  show ?thesis
    unfolding create_container_p_def Let_def
    by (intro maintains_ctrd maintains_parts [OF D] quiet new ctrd_obeysD(7,8) [OF D, THEN does_keeps] settled_own x)
qed

text \<open>A call for the agent itself, where the container and its task are there, finds both when it asks.\<close>

lemma maintains_ensure_own:
  assumes D: "ctrd_obeys D V" and ans: "ctrd_answers D V (ctrd_id a)"
  shows "maintains (\<lambda>s. settled (ctrd_id a) b (V s)) (containerd_ensure_p D flt X a sock)"
proof -
  let ?I = "\<lambda>s. settled (ctrd_id a) b (V s)"
  have task: "maintains ?I (attemptp (atom (cd_get_task D (ctrd_id a))) (\<lambda>t. if is_ok t then reuse_container_p D X a
      else k))" for k
  proof (rule maintains_read)
    fix s s' r assume I: "?I s" and got: "cd_get_task D (ctrd_id a) s = (s', r)"
    from ans I got have "is_ok r" unfolding ctrd_answers_def settled_def by (metis snd_conv)
    with I quietD [OF ctrd_obeysD(2) [OF D] got]
    show "?I s' \<and> maintains ?I (if is_ok r then reuse_container_p D X a else k)"
      by (simp add: maintains_parts(6) [OF D])
  qed
  show ?thesis
    unfolding containerd_ensure_p_def Let_def
  proof (rule maintains_read)
    fix s s' r assume I: "?I s" and got: "cd_get_container D (ctrd_id a) s = (s', r)"
    from ans I got have "is_ok r" unfolding ctrd_answers_def settled_def by (metis snd_conv)
    with I quietD [OF ctrd_obeysD(1) [OF D] got] task
    show "?I s' \<and> maintains ?I (if is_ok r then attemptp (atom (cd_get_task D (ctrd_id a)))
        (\<lambda>t. if is_ok t then reuse_container_p D X a
           else attemptp (atom (cd_delete_container D (ctrd_id a))) (\<lambda>_. create_container_p D flt X a sock))
      else create_container_p D flt X a sock)" by simp
  qed
qed

lemma maintains_ensure:
  assumes D: "ctrd_obeys D V" and "a = b \<longrightarrow> ctrd_answers D V (ctrd_id b)"
  shows "maintains (\<lambda>s. settled (ctrd_id b) on (V s)) (containerd_ensure_p D flt X a sock)"
proof (cases "a = b")
  case True
  with assms show ?thesis by (simp add: maintains_ensure_own)
next
  case False
  then have x: "ctrd_id b \<noteq> ctrd_id a" by (simp add: ctrd_id_def)
  note quiet = ctrd_obeysD(1,2) [OF D, THEN quiet_keeps_any]
  show ?thesis
    unfolding containerd_ensure_p_def Let_def
    by (intro maintains_ctrd maintains_parts [OF D] maintains_create_other [OF D] quiet
        ctrd_obeysD(5) [OF D, THEN does_keeps] settled_own x)
qed

lemma maintains_exec:
  assumes D: "ctrd_obeys D V"
  shows "maintains (\<lambda>s. P (V s)) (containerd_exec_p D flt c X x command cwd)"
proof -
  have started: "keeps (\<lambda>s. P (V s)) (cd_start D x (''exec-'' @ i))" for i
    by (rule quiet_keeps_any, rule ctrd_obeysD(19) [OF D]) simp
  note quiet = ctrd_obeysD(20,21) [OF D, THEN quiet_keeps_any] quiet_on_tree [OF D, THEN quiet_keeps_any] started
  have run: "maintains (\<lambda>s. P (V s)) (containerd_run_p D flt c x (''exec-'' @ i) stdio command cwd)" for i stdio
    unfolding containerd_run_p_def by (intro maintains_ctrd quiet) (simp split: prod.splits add: maintains_done)
  show ?thesis
    unfolding containerd_exec_p_def Let_def by (intro maintains_ctrd maintains_parts [OF D] quiet run)
qed

lemma maintains_remove:
  assumes D: "ctrd_obeys D V" and x: "x \<noteq> y"
  shows "maintains (\<lambda>s. settled x b (V s)) (containerd_remove_p D y)"
  unfolding containerd_remove_p_def
  by (intro maintains_ctrd ctrd_obeysD(17,18,5) [OF D, THEN does_keeps]
      ctrd_obeysD(21) [OF D, THEN quiet_keeps_any] settled_own x)

text \<open>Clients that ask for any number of things, one after the other.\<close>

fun ctrd_prog :: "'s ctrd \<Rightarrow> codec \<Rightarrow> ctrd_exec \<Rightarrow> ctrd_event \<Rightarrow> ('s, vfs_error, unit) prog" where
  "ctrd_prog D c X (Ensures flt a sock) = ignorep (containerd_ensure_p D flt X a sock)"
| "ctrd_prog D c X (Runs flt container_id command cwd) = ignorep (containerd_exec_p D flt c X container_id command cwd)"
| "ctrd_prog D c X (Removes container_id) = containerd_remove_p D container_id"

definition ctrd_client :: "'s ctrd \<Rightarrow> codec \<Rightarrow> ctrd_exec \<Rightarrow> ctrd_event list \<Rightarrow> ('s, vfs_error, unit) prog" where
  "ctrd_client D c X es = in_turn (map (ctrd_prog D c X) es)"

lemma maintains_ctrd_client:
  assumes D: "ctrd_obeys D V" and "Removes (ctrd_id b) \<notin> set es"
    and "ctrd_answers D V (ctrd_id b) \<or> (\<forall>flt sock. Ensures flt b sock \<notin> set es)"
  shows "maintains (\<lambda>s. settled (ctrd_id b) on (V s)) (ctrd_client D c X es)"
  unfolding ctrd_client_def
proof (rule maintains_in_turn)
  fix p assume "p \<in> set (map (ctrd_prog D c X) es)"
  then obtain e where e: "e \<in> set es" "p = ctrd_prog D c X e" by auto
  show "maintains (\<lambda>s. settled (ctrd_id b) on (V s)) p"
  proof (cases e)
    case (Ensures flt a sock)
    with e assms(3) have "a = b \<longrightarrow> ctrd_answers D V (ctrd_id b)" by auto
    with e Ensures show ?thesis by (auto intro!: maintains_ignorep maintains_ensure [OF D])
  next
    case (Runs flt x command cwd)
    with e show ?thesis by (auto intro!: maintains_ignorep maintains_exec [OF D])
  next
    case (Removes x)
    with e assms(2) show ?thesis by (auto intro!: maintains_remove [OF D])
  qed
qed

section \<open>Properties\<close>

text \<open>
  C17: An agent's container that runs keeps running whatever any number of clients ask of the executor for any
  agent, with their calls interleaved in any order and any of them failing, until its own removal is
  asked for; where the container is asked for again, this needs a daemon that answers the queries about
  it (\<open>query_error_deletes_container\<close> is what a failing query does). Only the calls act on the daemon.
\<close>

theorem concurrent_container_stays:
  assumes "ctrd_obeys D V" and "up (ctrd_id b) (V s)" and "\<forall>i. Removes (ctrd_id b) \<notin> set (es i)"
    and "ctrd_answers D V (ctrd_id b) \<or> (\<forall>i flt sock. Ensures flt b sock \<notin> set (es i))"
    and "interleave sched (\<lambda>i. ctrd_client D c X (es i)) s = (s', ps)"
  shows "up (ctrd_id b) (V s')"
proof -
  have "maintains (\<lambda>s. settled (ctrd_id b) True (V s)) (ctrd_client D c X (es i))" for i
    by (rule maintains_ctrd_client [OF assms(1)]) (use assms(3,4) in auto)
  from interleave_maintains [where I = "\<lambda>s. settled (ctrd_id b) True (V s)", OF this _ assms(5)] assms(2)
  show ?thesis by (simp add: up_settled)
qed

theorem concurrent_container_stays_witness:
  "up ''logos-sandbox-b'' (dd_daemon (fst (interleave [0, 1, 2, 0, 1, 2, 0, 1, 2, 0, 1, 2]
     (\<lambda>i. ctrd_client (demo_ctrd None) note_codec demo_exec
        (if i = 0 then [Ensures no_faults ''a'' None, Removes ''logos-sandbox-a'']
         else if i = 1 then [Ensures no_faults ''b'' None]
         else [Runs no_faults ''logos-sandbox-b'' ''true'' ''/'']))
     (demo_dm\<lparr>dd_daemon := with_running ''logos-sandbox-b'' (dd_daemon demo_dm)\<rparr>))))"
proof -
  let ?s = "demo_dm\<lparr>dd_daemon := with_running ''logos-sandbox-b'' (dd_daemon demo_dm)\<rparr>"
  let ?es = "\<lambda>i :: nat. if i = 0 then [Ensures no_faults ''a'' None, Removes ''logos-sandbox-a'']
         else if i = 1 then [Ensures no_faults ''b'' None]
         else [Runs no_faults ''logos-sandbox-b'' ''true'' ''/'']"
  obtain s' ps where run: "interleave [0, 1, 2, 0, 1, 2, 0, 1, 2, 0, 1, 2]
    (\<lambda>i. ctrd_client (demo_ctrd None) note_codec demo_exec (?es i)) ?s = (s', ps)" by fastforce
  have b: "ctrd_id ''b'' = ''logos-sandbox-b''" by (simp add: ctrd_id_def)
  have "up ''logos-sandbox-b'' (dd_daemon ?s)" by (simp add: up_def demo_dm_def with_running_def)
  moreover have "\<forall>i. Removes ''logos-sandbox-b'' \<notin> set (?es i)" by simp
  ultimately have "up ''logos-sandbox-b'' (dd_daemon s')"
    by (rule concurrent_container_stays [OF demo_ctrd_obeys, of "''b''", unfolded b, OF _ _ disjI1 run])
      (simp add: ctrd_answers_def demo_ctrd_def demo_query_def)
  with run show ?thesis by simp
qed



text \<open>
  C36: Two first requests for one agent take the container from each other. Where one has made the
  container and is about to ask for its task, a second that begins then finds a container without a task and
  deletes it. The first fails: a daemon makes no task for a container it does not have.
\<close>

theorem concurrent_first_use:
  assumes D: "ctrd_obeys D V" and answers: "ctrd_answers D V (ctrd_id a)"
    and pre: "interleave sched (\<lambda>i. containerd_ensure_p D (flts i) X a sock) s = (s1, ps)" "1 \<notin> set sched"
    and next0: "ps 0 = bindp (atom (ctrd_call ''create task'' (cd_create_task D (ctrd_id a) mounts stdio))) k"
    and made: "ctrd_id a \<in> dm_containers (V s1)" "ctrd_id a \<notin> dm_tasks (V s1)"
    and deletes: "\<And>s. V s = V s1 \<Longrightarrow> is_ok (snd (cd_delete_container D (ctrd_id a) s))"
    and needs: "\<And>s. ctrd_id a \<notin> dm_containers (V s) \<Longrightarrow> \<not> is_ok (snd (cd_create_task D (ctrd_id a) mounts stdio s))"
  shows "\<exists>s2 e. interleave (sched @ [1, 1, 1, 0]) (\<lambda>i. containerd_ensure_p D (flts i) X a sock) s =
      (s2, ps(1 := create_container_p D (flts 1) X a sock, 0 := failp (Io (''create task: '' @ e)))) \<and>
    V s2 = without_container (ctrd_id a) (V s1)"
proof -
  let ?x = "ctrd_id a" and ?create = "create_container_p D (flts 1) X a sock"
  obtain s2 u where get: "cd_get_container D ?x s1 = (s2, Inr u)" "V s2 = V s1"
    using answers [unfolded ctrd_answers_def] made(1) quietD [OF ctrd_obeysD(1) [OF D], of ?x s1]
    by (cases "cd_get_container D ?x s1"; cases "snd (cd_get_container D ?x s1)") auto
  obtain s3 e where task: "cd_get_task D ?x s2 = (s3, Inl e)" "V s3 = V s1"
    using ctrd_obeysD(4) [OF D, of ?x s2] made(2) quietD [OF ctrd_obeysD(2) [OF D], of ?x s2] get(2)
    by (cases "cd_get_task D ?x s2"; cases "snd (cd_get_task D ?x s2)") auto
  obtain s4 v where del: "cd_delete_container D ?x s3 = (s4, Inr v)" "V s4 = without_container ?x (V s1)"
    using deletes [of s3] doesD [OF ctrd_obeysD(5) [OF D], of ?x s3] task(2)
    by (cases "cd_delete_container D ?x s3"; cases "snd (cd_delete_container D ?x s3)") auto
  have gone: "?x \<notin> dm_containers (V s4)" by (simp add: del(2) without_container_def)
  obtain s5 e' where ct: "cd_create_task D ?x mounts stdio s4 = (s5, Inl e')" "V s5 = V s4"
    using needs [OF gone] ctrd_obeysD(7) [OF D, of ?x mounts stdio]
    unfolding does_def by (cases "cd_create_task D ?x mounts stdio s4"; cases "snd (cd_create_task D ?x mounts stdio s4)")
      (auto dest: spec [of _ s4])
  have ps1: "ps 1 = containerd_ensure_p D (flts 1) X a sock" using interleave_unscheduled [OF pre] by simp
  have steps: "next_steps 3 (ps 1) s1 = (s4, ?create)"
    unfolding ps1 containerd_ensure_p_def Let_def numeral_3_eq_3
    by (simp add: next_simps get(1) task(1) del(1))
  have last: "next_steps 1 (ps 0) s4 = (s5, failp (Io (''create task: '' @ e')))"
    unfolding next0 One_nat_def by (simp add: next_simps ctrd_call_def ct(1))
  have "interleave (replicate 3 1 @ [0]) ps s1 = (s5, ps(1 := ?create, 0 := failp (Io (''create task: '' @ e'))))"
    using sched_steps [of 3 ps 1 s1 s4 _ "[0]", OF steps] sched_steps [of 1 "ps(1 := ?create)" 0 s4 s5 _ "[]"] last
    by simp
  then show ?thesis
    using del(2) ct(2) by (auto simp: interleave_append pre(1) numeral_3_eq_3)
qed


text \<open>A daemon that makes a task only for a container it has.\<close>

definition strict_ctrd :: "demo_daemon ctrd" where
  "strict_ctrd = (demo_ctrd None)\<lparr>cd_create_task := (\<lambda>x _ _ s.
     if x \<in> dm_containers (dd_daemon s) then demo_change (with_task x) s else (s, Inl ''no such container''))\<rparr>"

lemma strict_ctrd_obeys: "ctrd_obeys strict_ctrd dd_daemon"
  by (auto simp: ctrd_obeys_def strict_ctrd_def demo_ctrd_def quiet_def does_def demo_query_def demo_change_def
      ret_def fail_def split: option.splits)

lemma strict_calls:
  "cd_tree strict_ctrd = cd_tree (demo_ctrd None)" "cd_get_container strict_ctrd = cd_get_container (demo_ctrd None)"
  "cd_create_container strict_ctrd = cd_create_container (demo_ctrd None)"
  "cd_get_image strict_ctrd = cd_get_image (demo_ctrd None)"
  "cd_list_snapshots strict_ctrd = cd_list_snapshots (demo_ctrd None)"
  "cd_remove_snapshot strict_ctrd = cd_remove_snapshot (demo_ctrd None)"
  "cd_prepare strict_ctrd = cd_prepare (demo_ctrd None)" "cd_mkfifo strict_ctrd = cd_mkfifo (demo_ctrd None)"
  by (simp_all add: strict_ctrd_def)

text \<open>The first request as far as the container.\<close>

lemma strict_prefix:
  "\<exists>s1 mounts stdio k. leads (containerd_ensure_p strict_ctrd no_faults demo_exec ''a'' None) demo_dm s1
     (bindp (atom (ctrd_call ''create task'' (cd_create_task strict_ctrd (ctrd_id ''a'') mounts stdio))) k) \<and>
   dd_daemon s1 = with_container (ctrd_id ''a'') (dd_daemon demo_dm)"
proof -
  let ?D = strict_ctrd and ?cid = "ctrd_id ''a''" and ?ws = "workspace_of demo_exec (last_upperdir demo_mounts)"
  let ?tmp = "path_join (ce_tmp demo_exec) (''logos-'' @ ''a'')"
  note eval = run_simps strict_calls ctrd_eval demo_dm_def starts_with_def
  have get: "run (atom (cd_get_container ?D ?cid)) demo_dm = (demo_dm, Inl ''not found'')"
    by (simp add: eval)
  have img: "run (ensure_image_p ?D demo_exec) demo_dm = (demo_dm, Inr ())"
    by (simp add: eval step_defs)
  have parent: "run (find_image_snapshot_parent_p ?D demo_exec) demo_dm = (demo_dm, Inr ''sha256:1'')"
    by (simp add: eval step_defs)
  have old: "run (atom (cd_remove_snapshot ?D k)) demo_dm = (demo_dm, Inl ''not found'')" for k
    by (simp add: eval step_defs)
  have prep: "run (atom (ctrd_call ''prepare snapshot'' (cd_prepare ?D k p))) demo_dm = (demo_dm, Inr demo_mounts)" for k p
    by (simp add: eval step_defs)
  let ?s2 = "demo_dm\<lparr>dd_tree := [[] \<mapsto> Dir, [''up''] \<mapsto> Dir, [''up'', ''workspace''] \<mapsto> Dir]\<rparr>"
  let ?s3 = "?s2\<lparr>dd_daemon := with_container ?cid (dd_daemon demo_dm)\<rparr>"
  have ws: "run (atom (on_tree ?D (io no_faults ''workspace'' (io_err ''create workspace in upperdir'')
      (create_dir_all ?ws)))) demo_dm = (?s2, Inr ())"
    by (simp add: eval write_eval)
  have sock: "run (atom (query f)) s = (s, Inr (f s))" for f and s :: demo_daemon
    by (simp add: run_simps step_defs)
  have made: "run (atom (ctrd_call ''create container'' (cd_create_container ?D (new_container demo_exec ''a'' k)))) ?s2
      = (?s3, Inr ())" for k
    by (simp add: run_simps strict_calls demo_ctrd_def ctrd_call_def demo_change_def new_container_def)
  have "\<exists>s4 stdio. run (make_stdio_p ?D no_faults ''create tmp dir'' ?tmp) ?s3 = (s4, Inr stdio)"
    by (simp add: eval write_eval)
  then obtain s4 stdio where io: "run (make_stdio_p ?D no_faults ''create tmp dir'' ?tmp) ?s3 = (s4, Inr stdio)"
    by blast
  have s4: "dd_daemon s4 = dd_daemon ?s3"
    using quietD [OF quiet_make_stdio [OF strict_ctrd_obeys]] io by (simp only: run_simps)
  have "\<exists>k. leads (containerd_ensure_p ?D no_faults demo_exec ''a'' None) demo_dm s4
     (bindp (atom (ctrd_call ''create task'' (cd_create_task ?D ?cid demo_mounts stdio))) k)"
    unfolding containerd_ensure_p_def create_container_p_def Let_def
    by (intro exI, rule leads_into(1) [OF get], simp only: is_ok_simps if_False,
        rule leads_into(2) [OF img], rule leads_into(2) [OF parent], rule leads_into(1) [OF old],
        rule leads_into(2) [OF prep], rule leads_into(2) [OF ws], rule leads_into(2) [OF sock],
        rule leads_into(2) [OF made], rule leads_into(2) [OF io], rule leads_refl)
  then show ?thesis using s4 by auto
qed

theorem concurrent_first_use_witness:
  "\<exists>n s2 e ps. interleave (replicate n 0 @ [1, 1, 1, 0])
      (\<lambda>_. containerd_ensure_p strict_ctrd no_faults demo_exec ''a'' None) demo_dm = (s2, ps) \<and>
    ps 0 = failp (Io (''create task: '' @ e)) \<and> ''logos-sandbox-a'' \<notin> dm_containers (dd_daemon s2)"
proof -
  let ?p = "containerd_ensure_p strict_ctrd no_faults demo_exec ''a'' None"
  obtain s1 mounts stdio k where l: "leads ?p demo_dm s1
      (bindp (atom (ctrd_call ''create task'' (cd_create_task strict_ctrd (ctrd_id ''a'') mounts stdio))) k)" (is "leads _ _ _ ?q")
    and s1: "dd_daemon s1 = with_container (ctrd_id ''a'') (dd_daemon demo_dm)"
    using strict_prefix by blast
  from leads_alone [of "\<lambda>_. ?p" 0, OF l] obtain n where
    pre: "interleave (replicate n 0) (\<lambda>_. ?p) demo_dm = (s1, (\<lambda>_. ?p)(0 := ?q))" by blast
  have made: "ctrd_id ''a'' \<in> dm_containers (dd_daemon s1)" "ctrd_id ''a'' \<notin> dm_tasks (dd_daemon s1)"
    by (simp_all add: s1 with_container_def demo_dm_def ctrd_id_def)
  have other: "1 \<notin> set (replicate n (0 :: nat))" by simp
  have q: "((\<lambda>_. ?p)(0 := ?q)) 0 = ?q" by simp
  have deletes: "is_ok (snd (cd_delete_container strict_ctrd (ctrd_id ''a'') s))" for s
    by (simp add: strict_ctrd_def demo_ctrd_def demo_change_def)
  have needs: "\<not> is_ok (snd (cd_create_task strict_ctrd (ctrd_id ''a'') mounts stdio s))"
    if "ctrd_id ''a'' \<notin> dm_containers (dd_daemon s)" for s
    using that by (simp add: strict_ctrd_def)
  have ans: "ctrd_answers strict_ctrd dd_daemon (ctrd_id ''a'')"
    by (simp add: ctrd_answers_def strict_ctrd_def demo_ctrd_def demo_query_def)
  from concurrent_first_use [OF strict_ctrd_obeys ans pre other q made deletes needs] obtain s2 e where
    run: "interleave (replicate n 0 @ [1, 1, 1, 0]) (\<lambda>_. ?p) demo_dm = (s2, (\<lambda>_. ?p)(0 := ?q,
      1 := create_container_p strict_ctrd no_faults demo_exec ''a'' None, 0 := failp (Io (''create task: '' @ e))))"
    and "dd_daemon s2 = without_container (ctrd_id ''a'') (dd_daemon s1)" by blast
  then have "''logos-sandbox-a'' \<notin> dm_containers (dd_daemon s2)"
    by (simp add: without_container_def ctrd_id_def)
  with run show ?thesis by (intro exI conjI) (assumption, simp, assumption)
qed

end
