(* ===== verification/Spec2Isabelle.thy ===== *)
theory Spec2Isabelle
  imports Logos_Discovery Logos_Boot Logos_Statements Logos_Observe Logos_Archive Logos_Files Logos_Agents
begin

text \<open>
  A verification library for logos-fs, a kernel that serves agents one virtual file system of
  \<open>logos://\<close> URIs over gRPC, with a scheduler of tasks, a memory of chats and sandboxes for commands.

  \<^bold>\<open>The program\<close> (paths are under \<open>src/crates/\<close>). A request reaches \<open>logos-kernel/src/grpc.rs\<close>: the
  session is looked up in the token registry (\<open>token.rs\<close>), a relative URI is scoped to the sandbox of
  the session's task, the access check runs, and the routing table (\<open>logos-vfs\<close>) parses the URI, runs
  the JSON validator and calls the namespace mounted under its first segment. \<open>Exec\<close> goes to the
  sandbox (\<open>sandbox.rs\<close>), \<open>Call\<close> to the tool table of \<open>proc.rs\<close>, whose tools
  (\<open>builtin_tools/\<close>) act on the system module (\<open>logos-system\<close>), the memory module (\<open>logos-mm\<close>, with the
  session clustering of \<open>logos-session\<close>), the sandbox and the host. A scheduler (\<open>cron.rs\<close>,
  \<open>consolidator.rs\<close>) makes tasks. \<open>main.rs\<close> boots all this; \<open>logos-mcp\<close> is a client that serves it
  as MCP tools on standard input and output.

  \<^bold>\<open>Theories\<close>, in the order they build on each other:
  \<^item> \<open>Logos_Prelude\<close>: strings as Rust has them (bytes), steps (\<open>'s \<Rightarrow> 's \<times> ('e + 'a)\<close>) with their
    combinators and the rules \<open>keeps_intros\<close> for what they keep, faults, maps in an order, lenses, and
    the locales \<open>machine\<close>, \<open>logged_machine\<close>, \<open>registers\<close> (cells that writes reach one at a time, each with
    the effect an operation may have on its own cell) and \<open>key_store\<close> (such cells with a text that the
    last acknowledged write leaves, up to what failed writes may leave after it).
  \<^item> \<open>Logos_Json\<close>: values, \<open>json_deep_merge\<close>, the serialiser \<open>codec\<close>; \<open>Logos_Vfs\<close>: the crate
    \<open>logos-vfs\<close> with the locale \<open>routed\<close>; \<open>Logos_Sql\<close>: the statements and clocks of the databases.
  \<^item> \<open>Logos_Token\<close>: \<open>token.rs\<close>, with handshakes interleaved at its locks.
  \<^item> \<open>Logos_Tasks\<close>, \<open>Logos_Anchors\<close>, \<open>Logos_System\<close>: \<open>tasks.rs\<close>, \<open>anchors.rs\<close>, \<open>complete.rs\<close> and
    \<open>lib.rs\<close> of \<open>logos-system\<close>.
  \<^item> \<open>Logos_Access\<close>: the checks of \<open>grpc.rs\<close>; \<open>Logos_Session\<close>: \<open>logos-session\<close>.
  \<^item> \<open>Logos_Fs\<close>: a tree of files, \<open>users.rs\<close>, and the two stores (\<open>proc_store.rs\<close>, \<open>services.rs\<close>);
    \<open>Logos_Registry\<close>: \<open>tmp.rs\<close>, \<open>services.rs\<close>, \<open>devices.rs\<close>; \<open>Logos_Proc\<close>: \<open>proc.rs\<close>;
    \<open>Logos_Sandbox\<close>: \<open>sandbox.rs\<close> and the external tools of \<open>proc_store.rs\<close>;
    \<open>Logos_Containerd\<close>: its default executor, with containerd's client as a record of calls.
  \<^item> \<open>Logos_Memory\<close>: \<open>logos-mm\<close>; \<open>Logos_Web\<close>: \<open>web_search.rs\<close>, \<open>browse.rs\<close>; \<open>Logos_Cron\<close>:
    \<open>cron.rs\<close>, \<open>consolidator.rs\<close>; \<open>Logos_Tools\<close>: the other tools and their table; \<open>Logos_Store\<close>:
    opening the session store on disk, its tables and the embedding of texts.
  \<^item> \<open>Logos_Kernel\<close>: the shared state, the table the boot mounts, \<open>context.rs\<close>, the handlers of
    \<open>grpc.rs\<close> and the events of a running kernel (\<open>kernel_exec\<close>; \<open>kernel_step\<close> with the files of the message
    databases in the tree, where other writes may reach them); \<open>Logos_Boot\<close>: \<open>main.rs\<close>, from the
    environment to the socket it serves on.
  \<^item> \<open>Logos_Mcp\<close>: the bridge, and its client made of the kernel's handlers; \<open>Logos_Discovery\<close>: what
    it finds there.
  \<^item> \<open>Logos_Interleave\<close>: operations as sequences of atomic steps (\<open>prog\<close>), clients under a schedule, and the locale
    \<open>rely_guarantee\<close>. On it, the operations that release a lock or wait between two steps, each shown to be the
    operation above when it runs alone: \<open>Logos_Statements\<close> (the statements of \<open>logos-system\<close>), \<open>Logos_Observe\<close>
    (the locks and the disk of \<open>logos-session\<close>), \<open>Logos_Archive\<close> (the statements of \<open>logos-mm\<close>), \<open>Logos_Files\<close> (the file calls of \<open>users.rs\<close> and of the log of
    \<open>sandbox.rs\<close>), \<open>Logos_Agents\<close> (the calls of the containerd executor).

  \<^bold>\<open>State and effects\<close>. A structure is a record, a table of a database the list of its rows or a map, a
  Rust map a partial function with the order of its iteration as a parameter, a file system a map
  from paths to nodes. An operation is a step; \<open>?\<close> is \<open>andthen\<close>, a result that is only logged is
  \<open>ignore_errors\<close>, one that is looked at is \<open>attempt\<close>. Operations under one lock are single steps; where the
  code takes locks one after the other (\<open>token_exec\<close>) the steps interleave; where it waits between the
  statements of one operation, the operation is also a \<open>prog\<close> (names with \<open>_p\<close>), and \<open>interleave\<close> runs any number of
  clients, each with any list of requests, under any schedule. A component of the kernel is
  reached through a lens, so a namespace written for its own state serves in the kernel's.

  \<^bold>\<open>Failing writes\<close>. A fault may strike a call before it does anything or, in a write of data (\<open>io_data\<close>),
  after the file was opened and, for a whole-file write, emptied: the file then holds a beginning of the
  text. The log of \<open>sandbox.rs\<close> is written with \<open>write_all\<close> on a tokio file, which reports a failed write
  at the next call only: an error of the text shows at the line feed, and one of the line feed nowhere
  (\<open>log_append_at\<close>). That the line feed may still be on its way when the call returns is not modelled: in
  \<open>sandbox_patch\<close> and in \<open>Logos_Files\<close> it is written, or lost, before the call ends.

  \<^bold>\<open>The files of the databases\<close>. The rows of a group's messages are a component of the kernel; their files
  (\<open>db_files\<close>) are nodes of the tree like any other. \<open>kernel_step\<close> hands a group whose files a step has
  changed to the parameter \<open>X\<close>, what SQLite makes of them. SQLite's own writes to its files do not show in the
  tree, and two ids that name one file (\<open>a/../b\<close> and \<open>b\<close>) are two groups here. The system database and the
  directory of the vector store are components without files.

  \<^bold>\<open>What the lemmas show\<close>. Invariants of each store, proved once per operation and lifted to every run
  by the locale \<open>machine\<close> and to every request by \<open>routed\<close> (\<open>task_lifecycle\<close>, \<open>session_store_invariant\<close>,
  \<open>proc_slots_invariant\<close>, \<open>kernel_keeps_messages\<close>); refinements of abstract stores (\<open>plan_todo_queue\<close>,
  \<open>graph_write_refines\<close>, \<open>sandbox_log_lines\<close>, and the last write of \<open>users\<close> by \<open>key_store\<close>); access and isolation
  (\<open>denied_requests_do_nothing\<close>, \<open>access_of_normal_uris\<close>, \<open>users_isolation\<close>, \<open>sandbox_confined\<close>,
  \<open>host_exec_dir\<close>); the same under concurrency, for every schedule, by \<open>rely_guarantee\<close>: the life of a task
  (\<open>interleaved_lifecycle\<close>), the messages (\<open>concurrent_messages_archive\<close>), the layers of sessions
  (\<open>concurrent_layers_invariant\<close>), the users
  (\<open>concurrent_users_isolation\<close>) and running containers (\<open>concurrent_container_stays\<close>); and the schedules that break
  what an operation alone guarantees (\<open>finished_task_reopened\<close>, \<open>new_plan_lost\<close>, \<open>concurrent_reply_lost\<close>,
  \<open>concurrent_append_lost\<close>, \<open>concurrent_log_torn\<close>, \<open>concurrent_first_use\<close>); the life of tokens and sessions; the turn terminator on each of its
  branches; the boot and the socket it leaves for the agents; an agent's container, which is brought up
  without touching another's (from \<open>ctrd_obeys\<close>, what containerd documents: every call may fail, and one that
  succeeds tells the truth; \<open>ctrd_answers\<close>, that the queries about one container are answered, is needed where
  a failing one makes the kernel delete it, \<open>query_error_deletes_container\<close>); the session a message is filed in,
  with the disk or without (\<open>observed_message_is_filed\<close>), and what eviction moves (\<open>eviction_conserves_sessions\<close>);
  the limits of the checks, which read the spelling of a URI and not its path (\<open>extra_slash_unguarded\<close>,
  \<open>sandbox_dots_write\<close>, \<open>message_db_overwritten\<close>); the scheduler's tick; the bridge as a sequence of requests that answers every
  line. Where the code does otherwise than it means to, a theorem says what it does.

  \<^bold>\<open>Parameters\<close>. What is not in the repository is an argument: the serialiser (\<open>codec_ok\<close> states
  the round trip it documents, for values without floats; serde_json reads texts in UTF-8 of at most 128
  nested levels, so theorems with this hypothesis speak of values within these limits), the full-text index, clocks and their formats, the orders of
  maps and directories, the vector store's driver, the calls of containerd and what a pipe gives,
  processes, HTTP, the variables of the process, the YAML parser, cron expressions, the transport of the client. Every I/O call may fail:
  \<open>faults\<close> gives its error by its place, \<open>world\<close> adds the clock; a \<open>calm\<close> world has no faults. Each
  hypothesis on a parameter is met by a concrete one in the witness of its theorem.

  \<^bold>\<open>Bounds and fuel\<close>. Integers of JSON keep the ranges of \<open>i64\<close> and \<open>u64\<close>; the counter of session keys
  is a word of 64 bits, and its theorems say how many keys may be made before it wraps. The eviction
  loops of \<open>Logos_Session\<close> run with the size of the table as fuel, which is enough because each round
  removes an entry (\<open>session_store_invariant\<close> shows the capacity is reached). The scan of result pages has no
  bound in the code and none here: it is a \<open>partial_function\<close>, shown to end on well-marked
  pages and not to end on some others. The browser's server is asked ten times at most, as in the code.

  \<^bold>\<open>Not modelled\<close>. The generated gRPC code and its server, the transport on the socket, and log
  output; the background timers, which appear as the events \<open>OnTick\<close> and \<open>OnCleanup\<close>; the tasks that read and
  write a container's pipes, which appear as what a pipe gives; SQL text beyond the statements the code
  issues; interleavings inside a tick of the scheduler, a handler of \<open>grpc.rs\<close> and the stores of services, which are
  single steps here, and inside a call that writes a whole file; clients whose later requests depend on
  earlier answers (a schedule ranges over every fixed list of requests); changes of the daemon's containers
  other than by the calls of the kernel; the statements that make tables and indexes, beyond their errors (a
  database is given with its tables; which database is the one in the file \<open>VFS_SYSTEM_DB\<close> names is the state
  the boot is given); code under \<open>#[cfg(test)]\<close>.
\<close>

end
